(* ===== verification/ET_Prelude.thy ===== *)
theory ET_Prelude
  imports Main "HOL-Library.Word"
begin

text \<open>
  Shared vocabulary of the development: the machine types of the crate (a 64-bit target, so
  \<open>usize\<close> is a 64-bit word), the outcome of a call, Rust's arithmetic with and without
  overflow checks, and the generic lemmas on outcomes, words and lists that the component
  theories use.

  A Rust call returns a value, returns an error value, or does not return to its caller
  because it panics or calls \<^verbatim>\<open>runtime_abort\<close> (the \<^verbatim>\<open>et_check!\<close> macros). The three cases are
  the constructors of \<open>outcome\<close>.

  Rust compiles an arithmetic operator in one of two ways: with overflow checks (the dev and
  test profiles, where an overflow panics) or without (the release profile, where it wraps).
  The crate sets neither profile, so operations whose source can overflow take a flag
  \<open>oc\<close>, true for a build with overflow checks.
\<close>

section \<open>Machine types\<close>

type_synonym u8 = "8 word"
type_synonym u16 = "16 word"
type_synonym u32 = "32 word"
type_synonym u64 = "64 word"
type_synonym usize = "64 word"

named_theorems outcome_simps \<open>equations that decide how a chain of outcomes ends\<close>
named_theorems arith_defs \<open>definitions of Rust's arithmetic operators\<close>

section \<open>Outcomes\<close>

datatype ('e, 'a) outcome = Ok (ok_value: 'a) | Err (err_value: 'e) | Panic

fun r_bind :: "('e, 'a) outcome \<Rightarrow> ('a \<Rightarrow> ('e, 'b) outcome) \<Rightarrow> ('e, 'b) outcome" where
  "r_bind (Ok x) f = f x"
| "r_bind (Err e) f = Err e"
| "r_bind Panic f = Panic"

definition is_Ok :: "('e, 'a) outcome \<Rightarrow> bool" where
  "is_Ok r = (case r of Ok _ \<Rightarrow> True | _ \<Rightarrow> False)"

lemma is_Ok_simps [simp]: "is_Ok (Ok x)" "\<not> is_Ok (Err e)" "\<not> is_Ok Panic"
  by (simp_all add: is_Ok_def)

lemma is_Ok_iff: "is_Ok r \<longleftrightarrow> (\<exists>x. r = Ok x)"
  by (cases r) simp_all

lemma r_bind_Ok_iff [outcome_simps]:
  "r_bind m f = Ok y \<longleftrightarrow> (\<exists>x. m = Ok x \<and> f x = Ok y)"
  by (cases m) simp_all

lemma r_bind_Err_iff [outcome_simps]:
  "r_bind m f = Err e \<longleftrightarrow> m = Err e \<or> (\<exists>x. m = Ok x \<and> f x = Err e)"
  by (cases m) simp_all

lemma r_bind_Panic_iff [outcome_simps]:
  "r_bind m f = Panic \<longleftrightarrow> m = Panic \<or> (\<exists>x. m = Ok x \<and> f x = Panic)"
  by (cases m) simp_all

lemma outcome_eqI:
  assumes "\<And>d. r = Ok d \<longleftrightarrow> s = Ok d" and "\<And>e. r \<noteq> Err e" and "\<And>e. s \<noteq> Err e"
  shows "r = s"
proof (cases r)
  case (Ok x)
  then show ?thesis using assms(1) [of x] by simp
next
  case Panic
  then show ?thesis using assms(1,3) by (cases s) (simp_all, blast+)
qed (use assms(2) in simp)

lemma r_bind_assoc: "r_bind (r_bind m f) g = r_bind m (\<lambda>x. r_bind (f x) g)"
  by (cases m) simp_all

lemma r_bind_Ok_right [simp]: "r_bind m Ok = m"
  by (cases m) simp_all

lemma r_bind_cong [fundef_cong]:
  "m = m' \<Longrightarrow> (\<And>x. m' = Ok x \<Longrightarrow> f x = f' x) \<Longrightarrow> r_bind m f = r_bind m' f'"
  by (cases m') simp_all

text \<open>
  Postconditions of fallible computations: \<open>ok_post P m\<close> holds when \<open>m\<close> does not return or returns
  a value that satisfies \<open>P\<close>. The rule for \<open>r_bind\<close> turns a chain of calls into nested goals.
\<close>

definition ok_post :: "('a \<Rightarrow> bool) \<Rightarrow> ('e, 'a) outcome \<Rightarrow> bool" where
  "ok_post P m \<longleftrightarrow> (\<forall>x. m = Ok x \<longrightarrow> P x)"

lemma ok_post_simps [simp]: "ok_post P (Ok x) = P x" "ok_post P (Err e)" "ok_post P Panic"
  by (simp_all add: ok_post_def)

lemma ok_post_bind [simp]: "ok_post P (r_bind m f) = ok_post (\<lambda>x. ok_post P (f x)) m"
  by (cases m) simp_all

lemma ok_post_mono: "ok_post P m \<Longrightarrow> (\<And>x. m = Ok x \<Longrightarrow> P x \<Longrightarrow> Q x) \<Longrightarrow> ok_post Q m"
  by (simp add: ok_post_def)

lemma ok_post_trivial: "(\<And>x. P x) \<Longrightarrow> ok_post P m"
  by (simp add: ok_post_def)

lemma ok_postI: "(\<And>x. m = Ok x \<Longrightarrow> P x) \<Longrightarrow> ok_post P m"
  by (simp add: ok_post_def)

lemma ok_postD: "ok_post P m \<Longrightarrow> m = Ok x \<Longrightarrow> P x"
  by (simp add: ok_post_def)

section \<open>Rust arithmetic\<close>

subsection \<open>Unsigned words\<close>

definition usub :: "bool \<Rightarrow> 'w::len word \<Rightarrow> 'w word \<Rightarrow> ('e, 'w word) outcome" where
  [arith_defs]: "usub oc a b = (if oc \<and> a < b then Panic else Ok (a - b))"

definition uadd :: "bool \<Rightarrow> 'w::len word \<Rightarrow> 'w word \<Rightarrow> ('e, 'w word) outcome" where
  [arith_defs]: "uadd oc a b =
     (if oc \<and> 2 ^ LENGTH('w) \<le> unat a + unat b then Panic else Ok (a + b))"

definition umul :: "bool \<Rightarrow> 'w::len word \<Rightarrow> 'w word \<Rightarrow> ('e, 'w word) outcome" where
  [arith_defs]: "umul oc a b =
     (if oc \<and> 2 ^ LENGTH('w) \<le> unat a * unat b then Panic else Ok (a * b))"

definition checked_add :: "'w::len word \<Rightarrow> 'w word \<Rightarrow> 'w word option" where
  [arith_defs]: "checked_add a b = (if unat a + unat b < 2 ^ LENGTH('w) then Some (a + b) else None)"

definition checked_mul :: "'w::len word \<Rightarrow> 'w word \<Rightarrow> 'w word option" where
  [arith_defs]: "checked_mul a b = (if unat a * unat b < 2 ^ LENGTH('w) then Some (a * b) else None)"

lemma checked_add_Some [simp]:
  "checked_add a b = Some c \<longleftrightarrow> unat a + unat b < 2 ^ LENGTH('w) \<and> c = a + b"
  for a b c :: "'w::len word"
  by (auto simp: checked_add_def)

lemma checked_mul_Some [simp]:
  "checked_mul a b = Some c \<longleftrightarrow> unat a * unat b < 2 ^ LENGTH('w) \<and> c = a * b"
  for a b c :: "'w::len word"
  by (auto simp: checked_mul_def)

lemma unat_add_no_overflow:
  "unat a + unat b < 2 ^ LENGTH('w) \<Longrightarrow> unat (a + b) = unat a + unat b"
  for a b :: "'w::len word"
  by (simp add: unat_word_ariths)

lemma unat_mul_no_overflow:
  "unat a * unat b < 2 ^ LENGTH('w) \<Longrightarrow> unat (a * b) = unat a * unat b"
  for a b :: "'w::len word"
  by (simp add: unat_word_ariths)

lemma umul_exact: "unat a * unat b < 2 ^ LENGTH('w) \<Longrightarrow> umul oc a b = Ok (a * b)"
  for a b :: "'w::len word"
  by (simp add: umul_def)

lemma unat_word_of_int: "0 \<le> x \<Longrightarrow> x < 2 ^ 64 \<Longrightarrow> unat (word_of_int x :: 64 word) = nat x"
  by (simp add: unsigned_of_int take_bit_int_eq_self)

lemma unat_lt_64: "unat (w :: 64 word) < 2 ^ 64"
  using unsigned_less [of w] by simp

lemma exp_less_64: "(2 :: nat) ^ k < 18446744073709551616 \<longleftrightarrow> k < 64"
  using power_strict_increasing_iff [of "2 :: nat" k 64] by simp

subsection \<open>Signed integers, as mathematical integers with their range\<close>

definition fits_i32 :: "int \<Rightarrow> bool" where
  "fits_i32 x \<longleftrightarrow> - (2 ^ 31) \<le> x \<and> x < 2 ^ 31"

definition fits_i64 :: "int \<Rightarrow> bool" where
  "fits_i64 x \<longleftrightarrow> - (2 ^ 63) \<le> x \<and> x < 2 ^ 63"

definition wrap_i32 :: "int \<Rightarrow> int" where
  "wrap_i32 x = (x + 2 ^ 31) mod 2 ^ 32 - 2 ^ 31"

definition wrap_i64 :: "int \<Rightarrow> int" where
  "wrap_i64 x = (x + 2 ^ 63) mod 2 ^ 64 - 2 ^ 63"

definition i32_mul :: "bool \<Rightarrow> int \<Rightarrow> int \<Rightarrow> ('e, int) outcome" where
  "i32_mul oc a b = (if oc \<and> \<not> fits_i32 (a * b) then Panic else Ok (wrap_i32 (a * b)))"

definition i64_mul :: "bool \<Rightarrow> int \<Rightarrow> int \<Rightarrow> ('e, int) outcome" where
  "i64_mul oc a b = (if oc \<and> \<not> fits_i64 (a * b) then Panic else Ok (wrap_i64 (a * b)))"

definition i64_add :: "bool \<Rightarrow> int \<Rightarrow> int \<Rightarrow> ('e, int) outcome" where
  "i64_add oc a b = (if oc \<and> \<not> fits_i64 (a + b) then Panic else Ok (wrap_i64 (a + b)))"

definition i64_sub :: "bool \<Rightarrow> int \<Rightarrow> int \<Rightarrow> ('e, int) outcome" where
  "i64_sub oc a b = (if oc \<and> \<not> fits_i64 (a - b) then Panic else Ok (wrap_i64 (a - b)))"

definition i32_sub :: "bool \<Rightarrow> int \<Rightarrow> int \<Rightarrow> ('e, int) outcome" where
  "i32_sub oc a b = (if oc \<and> \<not> fits_i32 (a - b) then Panic else Ok (wrap_i32 (a - b)))"

lemma wrap_i32_id [simp]: "fits_i32 x \<Longrightarrow> wrap_i32 x = x"
  by (simp add: wrap_i32_def fits_i32_def)

lemma wrap_i64_id [simp]: "fits_i64 x \<Longrightarrow> wrap_i64 x = x"
  by (simp add: wrap_i64_def fits_i64_def)

lemma wrap_i32_fits: "fits_i32 (wrap_i32 x)"
proof -
  have "0 \<le> (x + 2 ^ 31) mod 2 ^ 32" and "(x + 2 ^ 31) mod 2 ^ 32 < (2 ^ 32 :: int)"
    by simp_all
  then show ?thesis by (simp add: fits_i32_def wrap_i32_def)
qed

lemma wrap_i64_fits: "fits_i64 (wrap_i64 x)"
proof -
  have "0 \<le> (x + 2 ^ 63) mod 2 ^ 64" and "(x + 2 ^ 63) mod 2 ^ 64 < (2 ^ 64 :: int)"
    by simp_all
  then show ?thesis by (simp add: fits_i64_def wrap_i64_def)
qed

lemma i32_mul_exact: "fits_i32 (a * b) \<Longrightarrow> i32_mul oc a b = Ok (a * b)"
  by (simp add: i32_mul_def)

lemma i64_mul_exact: "fits_i64 (a * b) \<Longrightarrow> i64_mul oc a b = Ok (a * b)"
  by (simp add: i64_mul_def)

lemma i64_add_exact: "fits_i64 (a + b) \<Longrightarrow> i64_add oc a b = Ok (a + b)"
  by (simp add: i64_add_def)

lemma i64_sub_exact: "fits_i64 (a - b) \<Longrightarrow> i64_sub oc a b = Ok (a - b)"
  by (simp add: i64_sub_def)

lemma i32_sub_exact: "fits_i32 (a - b) \<Longrightarrow> i32_sub oc a b = Ok (a - b)"
  by (simp add: i32_sub_def)

section \<open>Strings\<close>

text \<open>
  A string is its list of bytes. The C string in a buffer ends at its first zero byte
  (\<^verbatim>\<open>CStr::from_ptr\<close>); \<open>valid_utf8\<close> is the check of \<^verbatim>\<open>CStr::to_str\<close>.
\<close>

definition c_string :: "string \<Rightarrow> string" where
  "c_string buf = takeWhile (\<lambda>c. c \<noteq> CHR 0x00) buf"

lemma c_string_id: "CHR 0x00 \<notin> set k \<Longrightarrow> c_string k = k"
  by (auto simp: c_string_def takeWhile_eq_all_conv)

definition utf8_continuation :: "nat \<Rightarrow> bool" where
  "utf8_continuation b \<longleftrightarrow> 0x80 \<le> b \<and> b \<le> 0xBF"

definition utf8_second_of_three :: "nat \<Rightarrow> nat \<Rightarrow> bool" where
  "utf8_second_of_three a b \<longleftrightarrow>
     a = 0xE0 \<and> 0xA0 \<le> b \<and> b \<le> 0xBF \<or>
     (0xE1 \<le> a \<and> a \<le> 0xEC \<or> 0xEE \<le> a \<and> a \<le> 0xEF) \<and> utf8_continuation b \<or>
     a = 0xED \<and> 0x80 \<le> b \<and> b \<le> 0x9F"

definition utf8_second_of_four :: "nat \<Rightarrow> nat \<Rightarrow> bool" where
  "utf8_second_of_four a b \<longleftrightarrow>
     a = 0xF0 \<and> 0x90 \<le> b \<and> b \<le> 0xBF \<or>
     0xF1 \<le> a \<and> a \<le> 0xF3 \<and> utf8_continuation b \<or>
     a = 0xF4 \<and> 0x80 \<le> b \<and> b \<le> 0x8F"

fun valid_utf8_bytes :: "nat list \<Rightarrow> bool" where
  "valid_utf8_bytes [] = True"
| "valid_utf8_bytes (a # rest) =
     (if a < 0x80 then valid_utf8_bytes rest
      else (case rest of
        b # rest1 \<Rightarrow>
          if 0xC2 \<le> a \<and> a \<le> 0xDF then utf8_continuation b \<and> valid_utf8_bytes rest1
          else (case rest1 of
            c # rest2 \<Rightarrow>
              if utf8_second_of_three a b then utf8_continuation c \<and> valid_utf8_bytes rest2
              else (case rest2 of
                d # rest3 \<Rightarrow>
                  utf8_second_of_four a b \<and> utf8_continuation c \<and> utf8_continuation d \<and>
                  valid_utf8_bytes rest3
              | [] \<Rightarrow> False)
          | [] \<Rightarrow> False)
      | [] \<Rightarrow> False))"

definition valid_utf8 :: "string \<Rightarrow> bool" where
  "valid_utf8 s \<longleftrightarrow> valid_utf8_bytes (map of_char s)"

section \<open>Byte memory\<close>

type_synonym bytes = "usize \<Rightarrow> u8"

text \<open>\<^verbatim>\<open>core::ptr::copy_nonoverlapping\<close>, and the effect of writing a list of bytes.\<close>

definition copy_bytes :: "usize \<Rightarrow> usize \<Rightarrow> usize \<Rightarrow> bytes \<Rightarrow> bytes" where
  "copy_bytes src dst n mem = (\<lambda>a. if a - dst < n then mem (src + (a - dst)) else mem a)"

definition write_bytes :: "usize \<Rightarrow> u8 list \<Rightarrow> bytes \<Rightarrow> bytes" where
  "write_bytes dst bs mem = (\<lambda>a. if unat (a - dst) < length bs then bs ! unat (a - dst) else mem a)"

definition bytes_at :: "bytes \<Rightarrow> usize \<Rightarrow> nat \<Rightarrow> u8 list" where
  "bytes_at mem p n = map (\<lambda>i. mem (p + of_nat i)) [0..<n]"

lemma length_bytes_at [simp]: "length (bytes_at mem p n) = n"
  by (simp add: bytes_at_def)

lemma nth_bytes_at [simp]: "i < n \<Longrightarrow> bytes_at mem p n ! i = mem (p + of_nat i)"
  by (simp add: bytes_at_def)

lemma unat_of_nat_64: "n < 2 ^ 64 \<Longrightarrow> unat (of_nat n :: usize) = n"
  by (simp add: unat_of_nat)

lemma unat_of_nat_32: "n < 2 ^ 32 \<Longrightarrow> unat (of_nat n :: u32) = n"
  by (simp add: unat_of_nat)

lemma bytes_at_write:
  "length bs < 2 ^ 64 \<Longrightarrow> n = length bs \<Longrightarrow> bytes_at (write_bytes dst bs mem) dst n = bs"
  by (rule nth_equalityI) (simp_all add: write_bytes_def unat_of_nat_64)

lemma bytes_at_copy:
  "n < 2 ^ 64 \<Longrightarrow> bytes_at (copy_bytes src dst (of_nat n) mem) dst n = bytes_at mem src n"
  by (rule nth_equalityI) (simp_all add: copy_bytes_def word_less_nat_alt unat_of_nat_64)

lemma bytes_at_eqI:
  "length bs = n \<Longrightarrow> (\<And>i. i < n \<Longrightarrow> mem (p + of_nat i) = bs ! i) \<Longrightarrow> bytes_at mem p n = bs"
  by (rule nth_equalityI) simp_all

lemma bytes_at_append:
  "bytes_at mem p (m + n) = bytes_at mem p m @ bytes_at mem (p + of_nat m) n"
  by (rule nth_equalityI) (auto simp: nth_append add.assoc of_nat_diff)

end
