(* ===== verification/Errors.thy ===== *)
theory Errors
  imports ET_Prelude
begin

text \<open>
  The crate's error type and result helpers: \<^verbatim>\<open>runtime/core/error.rs\<close> and
  \<^verbatim>\<open>runtime/core/result.rs\<close>. The numeric codes are the discriminants of the
  \<^verbatim>\<open>#[repr(u8)]\<close> enumeration; they cross the C interface, so they must be pairwise distinct.
\<close>

section \<open>Error codes\<close>

datatype Error =
    Error_Ok
  | Internal
  | InvalidState
  | EndOfMethod
  | AlreadyLoaded
  | NotSupported
  | NotImplemented
  | InvalidArgument
  | InvalidType
  | OperatorMissing
  | RegistrationExceedingMaxKernels
  | RegistrationAlreadyRegistered
  | NotFound
  | MemoryAllocationFailed
  | AccessFailed
  | InvalidProgram
  | InvalidExternalData
  | OutOfResources
  | DelegateInvalidCompatibility
  | DelegateMemoryAllocationFailed
  | DelegateInvalidHandle

type_synonym 'a result = "(Error, 'a) outcome"

fun error_code :: "Error \<Rightarrow> u8" where
  "error_code Error_Ok = 0x00"
| "error_code Internal = 0x01"
| "error_code InvalidState = 0x02"
| "error_code EndOfMethod = 0x03"
| "error_code AlreadyLoaded = 0x04"
| "error_code NotSupported = 0x10"
| "error_code NotImplemented = 0x11"
| "error_code InvalidArgument = 0x12"
| "error_code InvalidType = 0x13"
| "error_code OperatorMissing = 0x14"
| "error_code RegistrationExceedingMaxKernels = 0x15"
| "error_code RegistrationAlreadyRegistered = 0x16"
| "error_code NotFound = 0x20"
| "error_code MemoryAllocationFailed = 0x21"
| "error_code AccessFailed = 0x22"
| "error_code InvalidProgram = 0x23"
| "error_code InvalidExternalData = 0x24"
| "error_code OutOfResources = 0x25"
| "error_code DelegateInvalidCompatibility = 0x30"
| "error_code DelegateMemoryAllocationFailed = 0x31"
| "error_code DelegateInvalidHandle = 0x32"

fun error_to_string :: "Error \<Rightarrow> string" where
  "error_to_string Error_Ok = ''Error::Ok''"
| "error_to_string Internal = ''Error::Internal''"
| "error_to_string InvalidState = ''Error::InvalidState''"
| "error_to_string EndOfMethod = ''Error::EndOfMethod''"
| "error_to_string AlreadyLoaded = ''Error::AlreadyLoaded''"
| "error_to_string NotSupported = ''Error::NotSupported''"
| "error_to_string NotImplemented = ''Error::NotImplemented''"
| "error_to_string InvalidArgument = ''Error::InvalidArgument''"
| "error_to_string InvalidType = ''Error::InvalidType''"
| "error_to_string OperatorMissing = ''Error::OperatorMissing''"
| "error_to_string NotFound = ''Error::NotFound''"
| "error_to_string MemoryAllocationFailed = ''Error::MemoryAllocationFailed''"
| "error_to_string AccessFailed = ''Error::AccessFailed''"
| "error_to_string InvalidProgram = ''Error::InvalidProgram''"
| "error_to_string InvalidExternalData = ''Error::InvalidExternalData''"
| "error_to_string OutOfResources = ''Error::OutOfResources''"
| "error_to_string DelegateInvalidCompatibility = ''Error::DelegateInvalidCompatibility''"
| "error_to_string DelegateMemoryAllocationFailed = ''Error::DelegateMemoryAllocationFailed''"
| "error_to_string DelegateInvalidHandle = ''Error::DelegateInvalidHandle''"
| "error_to_string RegistrationExceedingMaxKernels = ''Error::RegistrationExceedingMaxKernels''"
| "error_to_string RegistrationAlreadyRegistered = ''Error::RegistrationAlreadyRegistered''"

section \<open>Results\<close>

text \<open>
  The C++ implicit conversion of an \<open>Error\<close> to a failed result: a failure can never carry the
  success code. \<open>result_error\<close> reads the code back; a successful result reports
  \<open>Error_Ok\<close>.
\<close>

definition result_from_error :: "Error \<Rightarrow> 'a result" where
  "result_from_error e = (if e = Error_Ok then Err Internal else Err e)"

fun result_error :: "'a result \<Rightarrow> Error option" where
  "result_error (Ok _) = Some Error_Ok"
| "result_error (Err e) = Some e"
| "result_error Panic = None"

fun result_get :: "'a result \<Rightarrow> 'a result" where
  "result_get (Ok x) = Ok x"
| "result_get (Err e) = Panic"
| "result_get Panic = Panic"

lemma result_from_error_not_ok: "\<not> is_Ok (result_from_error e)"
  by (simp add: result_from_error_def)

lemma result_from_error_code: "result_error (result_from_error e) \<noteq> Some Error_Ok"
  by (simp add: result_from_error_def)

lemma error_code_inject: "error_code e = error_code f \<longleftrightarrow> e = f"
  by (cases e; cases f) simp_all

lemma error_to_string_inject: "error_to_string e = error_to_string f \<longleftrightarrow> e = f"
  by (cases e; cases f) simp_all

end
