(* ===== verification/Allocator_Interface.thy ===== *)
theory Allocator_Interface
  imports Errors
begin

text \<open>
  What every allocator of the runtime shares: the alignment helpers of
  \<^verbatim>\<open>runtime/core/memory_allocator.rs\<close>, the list and instance helpers of \<^verbatim>\<open>MemoryAllocatorExt\<close>
  and, as the locale \<open>allocator\<close>, the contract of the \<^verbatim>\<open>MemoryAllocatorBase\<close> trait that the
  method loader relies on. Addresses are 64-bit words and the null pointer is 0.
\<close>

unbundle bit_operations_syntax

section \<open>Powers of two and alignment\<close>

definition is_power_of2 :: "usize \<Rightarrow> bool" where
  "is_power_of2 v \<longleftrightarrow> v \<noteq> 0 \<and> v AND (v - 1) = 0"

definition align_pointer :: "bool \<Rightarrow> usize \<Rightarrow> usize \<Rightarrow> usize result" where
  "align_pointer oc p alignment =
     r_bind (usub oc alignment 1) (\<lambda>mask. Ok ((p + mask) AND NOT mask))"

lemma and_pred_zero_power:
  fixes n :: nat
  shows "0 < n \<Longrightarrow> n AND (n - 1) = 0 \<Longrightarrow> \<exists>k. n = 2 ^ k"
proof (induction n rule: less_induct)
  case (less n)
  have half: "n div 2 AND (n - 1) div 2 = 0"
    using less.prems(2) by (metis drop_bit_and drop_bit_of_0 drop_bit_Suc drop_bit_0 id_apply One_nat_def)
  show ?case
  proof (cases "even n")
    case True
    then have "(n - 1) div 2 = n div 2 - 1" and "0 < n div 2" and "n div 2 < n"
      using less.prems(1) by (auto elim!: evenE)
    with half less.IH [of "n div 2"] obtain k where "n div 2 = 2 ^ k" by auto
    with True have "n = 2 ^ Suc k" by auto
    then show ?thesis by blast
  next
    case False
    then have "(n - 1) div 2 = n div 2" by (auto elim!: oddE)
    with half have "n div 2 = 0" by simp
    with False less.prems(1) have "n = 2 ^ 0" by (auto elim!: oddE)
    then show ?thesis by blast
  qed
qed

lemma word_exp_unat: "k < 64 \<Longrightarrow> unat (2 ^ k :: usize) = 2 ^ k"
proof -
  assume k: "k < 64"
  have "unat (of_nat (2 ^ k) :: usize) = take_bit 64 (2 ^ k)"
    by (simp only: unsigned_of_nat) simp
  also have "\<dots> = 2 ^ k"
    by (rule take_bit_nat_eq_self) (use k in \<open>simp add: exp_less_64\<close>)
  finally show ?thesis by simp
qed

lemma is_power_of2_iff: "is_power_of2 v \<longleftrightarrow> (\<exists>k<64. v = 2 ^ k)"
proof
  assume p: "is_power_of2 v"
  then have "0 < unat v" and "unat v AND (unat v - 1) = 0"
    by (auto simp: is_power_of2_def unat_gt_0) (metis One_nat_def unat_minus_one unsigned_0 unsigned_and_eq)
  from and_pred_zero_power [OF this] obtain k where k: "unat v = 2 ^ k" by blast
  then have "2 ^ k < (2 :: nat) ^ 64" using unat_lt_64 [of v] by simp
  then have "k < 64" by (simp add: exp_less_64)
  moreover from k have "v = 2 ^ k"
    using word_exp_unat [OF \<open>k < 64\<close>] by (simp add: word_unat_eq_iff)
  ultimately show "\<exists>k<64. v = 2 ^ k" by blast
next
  assume "\<exists>k<64. v = 2 ^ k"
  then obtain k where k: "k < 64" "v = 2 ^ k" by blast
  have "(2 ^ k :: usize) AND mask k = 0"
    by (simp add: take_bit_eq_0_iff flip: take_bit_eq_mask)
  moreover have "v \<noteq> 0" using k word_exp_unat [of k] by auto
  ultimately show "is_power_of2 v"
    using k by (simp add: is_power_of2_def mask_eq_exp_minus_1)
qed
lemma and_not_mask_unat: "unat (x AND NOT (mask k) :: usize) = unat x div 2 ^ k * 2 ^ k"
proof -
  have "take_bit k x + (x AND NOT (mask k)) = x"
    by (metis (no_types, lifting) ext and.idem and_eq_not_not_or add.commute take_bit_eq_mask
      bit.conj_disj_distrib bit.de_Morgan_conj disjunctive_add_eq_or word_and_not word_ao_absorbs(2))
  then have e: "x AND NOT (mask k) = x - take_bit k x" by (simp add: algebra_simps)
  have t: "unat (take_bit k x) = unat x mod 2 ^ k"
    by (simp only: unsigned_take_bit_eq) (rule take_bit_eq_mod)
  then have "take_bit k x \<le> x" by (simp add: word_le_nat_alt)
  with t show ?thesis by (simp add: e unat_sub minus_mod_eq_div_mult)
qed

lemma align_pointer_pow2:
  "align_pointer oc p (2 ^ k) = Ok ((p + mask k) AND NOT (mask k))" if "k < 64"
proof -
  have "(2 :: usize) ^ k \<noteq> 0" using that by simp
  then have "\<not> 2 ^ k < (1 :: usize)" by (simp add: word_less_1)
  then show ?thesis
    by (simp add: align_pointer_def usub_def mask_eq_exp_minus_1)
qed

definition next_aligned :: "nat \<Rightarrow> nat \<Rightarrow> nat" where
  "next_aligned c a = (c + (a - 1)) div a * a"

lemma next_aligned_dvd: "a dvd next_aligned c a"
  by (simp add: next_aligned_def)

lemma next_aligned_ge: "0 < a \<Longrightarrow> c \<le> next_aligned c a"
proof -
  assume a: "0 < a"
  have "(c + (a - 1)) mod a < a" using a by simp
  moreover have "(c + (a - 1)) div a * a + (c + (a - 1)) mod a = c + (a - 1)" by simp
  ultimately show ?thesis using a unfolding next_aligned_def by linarith
qed

lemma next_aligned_less: "0 < a \<Longrightarrow> next_aligned c a < c + a"
proof -
  assume a: "0 < a"
  have "next_aligned c a \<le> c + (a - 1)" by (simp add: next_aligned_def)
  with a show ?thesis by simp
qed

lemma next_aligned_least: "0 < a \<Longrightarrow> a dvd m \<Longrightarrow> c \<le> m \<Longrightarrow> next_aligned c a \<le> m"
proof -
  assume a: "0 < a" and "a dvd m" and c: "c \<le> m"
  then obtain q where q: "m = q * a" by (auto elim: dvdE simp: mult.commute)
  have "(c + (a - 1)) div a \<le> (q * a + (a - 1)) div a"
    using c q by (simp add: div_le_mono)
  also have "\<dots> = q" using a by (subst div_mult_self3) auto
  finally have "(c + (a - 1)) div a \<le> q" .
  then show ?thesis by (simp only: next_aligned_def q mult_le_mono1)
qed

lemma mask_unat: "k < 64 \<Longrightarrow> unat (mask k :: usize) = 2 ^ k - 1"
proof -
  assume k: "k < 64"
  have "(2 :: usize) ^ k \<noteq> 0" using k by simp
  then show ?thesis by (simp add: mask_eq_exp_minus_1 unat_minus_one word_exp_unat [OF k])
qed

lemma aligned_start_unat:
  assumes "k < 64" and "next_aligned (unat c) (2 ^ k) < 2 ^ 64"
  shows "unat ((c + mask k) AND NOT (mask k) :: usize) = next_aligned (unat c) (2 ^ k)"
proof -
  have "2 ^ k dvd (2 ^ 64 :: nat)" by (rule le_imp_power_dvd) (use assms(1) in simp)
  have "unat c + (2 ^ k - 1) < 2 ^ 64"
  proof (rule ccontr)
    assume "\<not> ?thesis"
    then have "2 ^ 64 div 2 ^ k \<le> (unat c + (2 ^ k - 1)) div 2 ^ k" by (simp add: div_le_mono)
    then have "2 ^ 64 div 2 ^ k * 2 ^ k \<le> next_aligned (unat c) (2 ^ k)"
      by (simp only: next_aligned_def mult_le_mono1)
    with \<open>2 ^ k dvd 2 ^ 64\<close> assms(2) show False by (simp only: dvd_div_mult_self)
  qed
  then have "unat (c + mask k) = unat c + (2 ^ k - 1)"
    by (subst unat_add_no_overflow) (simp_all add: mask_unat [OF assms(1)])
  then show ?thesis by (simp add: and_not_mask_unat next_aligned_def)
qed

lemma aligned_start_wraps:
  assumes "k < 64" and "2 ^ 64 \<le> next_aligned (unat c) (2 ^ k)"
  shows "((c + mask k) AND NOT (mask k) :: usize) = 0"
proof -
  have "next_aligned (unat c) (2 ^ k) \<le> unat c + (2 ^ k - 1)" by (simp add: next_aligned_def)
  with assms(2) have ge: "2 ^ 64 \<le> unat c + (2 ^ k - 1)" by linarith
  have lt: "(2 :: nat) ^ k < 2 ^ 64" using assms(1) by (rule power_strict_increasing) simp
  with unat_lt_64 [of c] ge have "unat (c + mask k) = unat c + (2 ^ k - 1) - 2 ^ 64"
    by (simp add: unat_word_ariths mask_unat [OF assms(1)] mod_nat_eqI le_mod_geq)
  moreover have "(0 :: nat) < 2 ^ k" by simp
  ultimately have "unat (c + mask k) < 2 ^ k" using unat_lt_64 [of c] by linarith
  then have "unat ((c + mask k) AND NOT (mask k)) = 0" by (simp only: and_not_mask_unat) simp
  then show ?thesis by (simp only: unat_eq_zero)
qed


text \<open>
  The helpers every allocator inherits: they call the allocator's own \<^verbatim>\<open>allocate\<close>, here the
  parameter \<open>alloc\<close>.
\<close>

definition allocate_instance ::
    "(usize \<Rightarrow> usize \<Rightarrow> 's \<Rightarrow> (usize \<times> 's) result) \<Rightarrow> usize \<Rightarrow> usize \<Rightarrow> 's \<Rightarrow> (usize \<times> 's) result" where
  "allocate_instance alloc size_of_t alignment s = alloc size_of_t alignment s"

definition allocate_list ::
    "(usize \<Rightarrow> usize \<Rightarrow> 's \<Rightarrow> (usize \<times> 's) result) \<Rightarrow> usize \<Rightarrow> usize \<Rightarrow> usize \<Rightarrow> 's \<Rightarrow> (usize \<times> 's) result" where
  "allocate_list alloc size_of_t sz alignment s =
     (case checked_mul sz size_of_t of
        None \<Rightarrow> Ok (0, s)
      | Some bytes_size \<Rightarrow> alloc bytes_size alignment s)"

section \<open>The contract\<close>

text \<open>
  The bytes of an allocation, and the run of a list of requests. A request carries the answer
  of the environment (the block that \<^verbatim>\<open>malloc\<close> or the platform layer returned); the bump
  allocator ignores it.
\<close>

definition region :: "usize \<Rightarrow> usize \<Rightarrow> nat set" where
  "region p n = {unat p ..< unat p + unat n}"

fun alloc_all ::
    "('e \<Rightarrow> usize \<Rightarrow> usize \<Rightarrow> 's \<Rightarrow> (usize \<times> 's) result) \<Rightarrow> ('e \<times> usize \<times> usize) list \<Rightarrow> 's
     \<Rightarrow> (usize list \<times> 's) result" where
  "alloc_all alloc [] s = Ok ([], s)"
| "alloc_all alloc ((e, n, a) # rs) s =
     r_bind (alloc e n a s) (\<lambda>(p, s1).
     r_bind (alloc_all alloc rs s1) (\<lambda>(ps, s2). Ok (p # ps, s2)))"

fun env_all ::
    "('e \<Rightarrow> usize \<Rightarrow> usize \<Rightarrow> 's \<Rightarrow> (usize \<times> 's) result) \<Rightarrow> ('e \<Rightarrow> usize \<Rightarrow> usize \<Rightarrow> 's \<Rightarrow> bool)
     \<Rightarrow> ('e \<times> usize \<times> usize) list \<Rightarrow> 's \<Rightarrow> bool" where
  "env_all alloc env_ok [] s = True"
| "env_all alloc env_ok ((e, n, a) # rs) s =
     (env_ok e n a s \<and>
      (case alloc e n a s of Ok (p, s1) \<Rightarrow> env_all alloc env_ok rs s1 | _ \<Rightarrow> True))"

fun regions_of :: "('e \<times> usize \<times> usize) list \<Rightarrow> usize list \<Rightarrow> nat set list" where
  "regions_of ((e, n, a) # rs) (p # ps) =
     (if p = 0 then {} else region p n) # regions_of rs ps"
| "regions_of _ _ = []"

fun pairwise_disjoint :: "nat set list \<Rightarrow> bool" where
  "pairwise_disjoint [] = True"
| "pairwise_disjoint (r # rs) = ((\<forall>q \<in> set rs. r \<inter> q = {}) \<and> pairwise_disjoint rs)"

locale allocator =
  fixes alloc :: "'e \<Rightarrow> usize \<Rightarrow> usize \<Rightarrow> 's \<Rightarrow> (usize \<times> 's) result"
    and rst :: "'s \<Rightarrow> 's result"
    and inv :: "'s \<Rightarrow> bool"
    and claimed :: "'s \<Rightarrow> nat set"
    and env_ok :: "'e \<Rightarrow> usize \<Rightarrow> usize \<Rightarrow> 's \<Rightarrow> bool"
  assumes alloc_null:
      "inv s \<Longrightarrow> env_ok e n a s \<Longrightarrow> alloc e n a s = Ok (0, s') \<Longrightarrow> s' = s"
    and alloc_inv:
      "inv s \<Longrightarrow> env_ok e n a s \<Longrightarrow> alloc e n a s = Ok (p, s') \<Longrightarrow> inv s'"
    and alloc_aligned:
      "inv s \<Longrightarrow> env_ok e n a s \<Longrightarrow> alloc e n a s = Ok (p, s') \<Longrightarrow> p \<noteq> 0 \<Longrightarrow>
       is_power_of2 a \<and> unat a dvd unat p"
    and alloc_bounds:
      "inv s \<Longrightarrow> env_ok e n a s \<Longrightarrow> alloc e n a s = Ok (p, s') \<Longrightarrow> p \<noteq> 0 \<Longrightarrow>
       unat p + unat n < 2 ^ 64"
    and alloc_fresh:
      "inv s \<Longrightarrow> env_ok e n a s \<Longrightarrow> alloc e n a s = Ok (p, s') \<Longrightarrow> p \<noteq> 0 \<Longrightarrow>
       region p n \<inter> claimed s = {}"
    and alloc_claims:
      "inv s \<Longrightarrow> env_ok e n a s \<Longrightarrow> alloc e n a s = Ok (p, s') \<Longrightarrow> p \<noteq> 0 \<Longrightarrow>
       claimed s \<union> region p n \<subseteq> claimed s'"
    and reset_frees: "inv s \<Longrightarrow> \<exists>s'. rst s = Ok s' \<and> inv s' \<and> claimed s' = {}"
begin

lemma alloc_claimed_mono:
  "inv s \<Longrightarrow> env_ok e n a s \<Longrightarrow> alloc e n a s = Ok (p, s') \<Longrightarrow> claimed s \<subseteq> claimed s'"
  using alloc_null alloc_claims by (cases "p = 0") blast+

lemma alloc_all_sound:
  assumes "inv s" and "env_all alloc env_ok rs s" and "alloc_all alloc rs s = Ok (ps, s')"
  shows "inv s' \<and> claimed s \<subseteq> claimed s' \<and> pairwise_disjoint (regions_of rs ps) \<and>
    (\<forall>r \<in> set (regions_of rs ps). r \<inter> claimed s = {} \<and> r \<subseteq> claimed s')"
  using assms
proof (induction rs arbitrary: s ps)
  case Nil
  then show ?case by simp
next
  case (Cons rq rs)
  obtain e n a where rq: "rq = (e, n, a)" by (cases rq) auto
  from Cons.prems(3) obtain p s1 qs where
      al: "alloc e n a s = Ok (p, s1)" and rest: "alloc_all alloc rs s1 = Ok (qs, s')"
      and ps: "ps = p # qs"
    by (auto simp: rq outcome_simps split: prod.splits)
  have env: "env_ok e n a s" and envs: "env_all alloc env_ok rs s1"
    using Cons.prems(2) by (simp_all add: rq al)
  have inv1: "inv s1" using alloc_inv [OF Cons.prems(1) env al] .
  have mono1: "claimed s \<subseteq> claimed s1" using alloc_claimed_mono [OF Cons.prems(1) env al] .
  note IH = Cons.IH [OF inv1 envs rest]
  define r where "r = (if p = 0 then {} else region p n)"
  have fresh: "r \<inter> claimed s = {}" and cl: "r \<subseteq> claimed s1"
    using alloc_fresh [OF Cons.prems(1) env al] alloc_claims [OF Cons.prems(1) env al]
    by (auto simp: r_def)
  have reg: "regions_of (rq # rs) ps = r # regions_of rs qs" by (simp add: rq ps r_def)
  have "\<forall>q \<in> set (regions_of rs qs). r \<inter> q = {}" using IH cl by blast
  with IH have "pairwise_disjoint (regions_of (rq # rs) ps)" by (simp add: reg)
  moreover have "claimed s \<subseteq> claimed s'" and "r \<subseteq> claimed s'" using IH mono1 cl by blast+
  moreover have "\<forall>q \<in> set (regions_of rs qs). q \<inter> claimed s = {}" using IH mono1 by blast
  ultimately show ?case using IH fresh by (simp add: reg)
qed

lemma allocate_list_sound:
  assumes "inv s" and "\<And>b. checked_mul n t = Some b \<Longrightarrow> env_ok e b a s"
    and "allocate_list (alloc e) t n a s = Ok (p, s')" and "p \<noteq> 0"
  shows "inv s' \<and> unat a dvd unat p \<and>
    {unat p ..< unat p + unat n * unat t} \<subseteq> claimed s' - claimed s \<and>
    unat p + unat n * unat t < 2 ^ 64"
proof -
  from assms(3,4) obtain b where b: "checked_mul n t = Some b" and al: "alloc e b a s = Ok (p, s')"
    by (auto simp: allocate_list_def split: option.splits)
  then have ub: "unat b = unat n * unat t" by (auto simp: unat_mul_no_overflow)
  note env = assms(2) [OF b]
  show ?thesis
    using alloc_inv [OF assms(1) env al] alloc_aligned [OF assms(1) env al assms(4)]
      alloc_bounds [OF assms(1) env al assms(4)] alloc_fresh [OF assms(1) env al assms(4)]
      alloc_claims [OF assms(1) env al assms(4)]
    by (auto simp: region_def ub)
qed

end

end
