(* ===== verification/Memory_Allocator.thy ===== *)
theory Memory_Allocator
  imports Allocator_Interface
begin

text \<open>
  The bump allocator of \<^verbatim>\<open>runtime/core/memory_allocator.rs\<close>: the \<^verbatim>\<open>MemoryAllocator\<close> struct, its
  constructor and its \<^verbatim>\<open>MemoryAllocatorBase\<close> methods. The pointers \<^verbatim>\<open>begin_\<close>, \<^verbatim>\<open>end_\<close> and \<^verbatim>\<open>cur_\<close>
  are addresses; the buffer they delimit is not read or written by the allocator.
\<close>

section \<open>The allocator\<close>

record memory_allocator =
  ma_begin :: usize
  ma_end :: usize
  ma_cur :: usize
  ma_size :: u32
  ma_prof_id :: int

definition usize_max :: usize where
  "usize_max = - 1"

definition memory_allocator_new :: "u32 \<Rightarrow> usize \<Rightarrow> memory_allocator result" where
  "memory_allocator_new sz base_address =
     (let e = (if base_address \<noteq> 0
               then (if ucast sz \<le> usize_max - base_address then base_address + ucast sz else 0)
               else 0)
      in if \<not> (base_address \<noteq> 0 \<or> sz = 0) then Panic
         else if \<not> (base_address = 0 \<or> sz = 0 \<or> ucast sz \<le> usize_max - base_address) then Panic
         else Ok \<lparr>ma_begin = base_address, ma_end = e, ma_cur = base_address, ma_size = sz, ma_prof_id = - 1\<rparr>)"

definition enable_profiling :: "memory_allocator \<Rightarrow> memory_allocator" where
  "enable_profiling s = s\<lparr>ma_prof_id := - 1\<rparr>"

definition allocate ::
    "bool \<Rightarrow> usize \<Rightarrow> usize \<Rightarrow> memory_allocator \<Rightarrow> (usize \<times> memory_allocator) result" where
  "allocate oc sz alignment s =
     (if ma_begin s = 0 \<or> ma_end s = 0 then Ok (0, s)
      else if \<not> is_power_of2 alignment then Ok (0, s)
      else
        r_bind (align_pointer oc (ma_cur s) alignment) (\<lambda>start.
        r_bind (usub oc start (ma_cur s)) (\<lambda>padding.
        r_bind (usub oc (ma_end s) (ma_cur s)) (\<lambda>available.
          if available < padding \<or> available - padding < sz
          then r_bind (uadd oc padding sz) (\<lambda>requested. Ok (0, s))
          else
            r_bind (usub oc (start + sz) (ma_cur s)) (\<lambda>tracked.
              Ok (start, s\<lparr>ma_cur := start + sz\<rparr>))))))"

definition base_address :: "memory_allocator \<Rightarrow> usize" where
  "base_address s = ma_begin s"

definition allocator_size :: "memory_allocator \<Rightarrow> u32" where
  "allocator_size s = ma_size s"

definition used_size :: "bool \<Rightarrow> memory_allocator \<Rightarrow> usize result" where
  "used_size oc s = usub oc (ma_cur s) (ma_begin s)"

definition free_size :: "bool \<Rightarrow> memory_allocator \<Rightarrow> usize result" where
  "free_size oc s = usub oc (ma_end s) (ma_cur s)"

definition reset :: "memory_allocator \<Rightarrow> memory_allocator" where
  "reset s = s\<lparr>ma_cur := ma_begin s\<rparr>"

section \<open>The invariant\<close>

definition ma_inv :: "memory_allocator \<Rightarrow> bool" where
  "ma_inv s \<longleftrightarrow>
     (if ma_begin s = 0 then ma_end s = 0 \<and> ma_cur s = 0 \<and> ma_size s = 0
      else ma_begin s \<le> ma_cur s \<and> ma_cur s \<le> ma_end s \<and>
           unat (ma_end s) = unat (ma_begin s) + unat (ma_size s))"

lemma mask_unat_64: "unat (- 1 :: usize) = 2 ^ 64 - 1"
  by (simp add: unsigned_minus_1_eq_mask mask_eq_exp_minus_1)

lemma usize_max_minus_unat: "unat (usize_max - b) = 2 ^ 64 - 1 - unat b"
proof -
  have "unat (usize_max - b) = unat (- 1 :: usize) - unat b"
    unfolding usize_max_def by (rule unat_sub) (simp add: word_n1_ge)
  also have "unat (- 1 :: usize) = 2 ^ 64 - 1" by (rule mask_unat_64)
  finally show ?thesis .
qed

lemma unat_uminus_usize: "0 < unat c \<Longrightarrow> unat (- c :: usize) = 2 ^ 64 - unat c"
proof -
  assume c: "0 < unat c"
  have u: "unat (usize_max - c) = 2 ^ 64 - 1 - unat c" by (rule usize_max_minus_unat)
  have "unat (usize_max - c) + unat (1 :: usize) < 2 ^ 64" using c u by simp
  then have "unat (usize_max - c + 1) = 2 ^ 64 - unat c"
    using unat_add_no_overflow [of "usize_max - c" 1] c u unat_lt_64 [of c] by simp
  moreover have "usize_max - c + 1 = - c" by (simp add: usize_max_def)
  ultimately show ?thesis by (simp only:)
qed

lemma ucast_u32_unat: "unat (ucast (n :: u32) :: usize) = unat n"
proof -
  have "unat n < 2 ^ LENGTH(32)" by (rule unsigned_less)
  then have "unat n < 2 ^ 64" by simp
  then show ?thesis by (simp add: unsigned_ucast_eq take_bit_nat_eq_self)
qed

lemma ucast_le_max_iff:
  "(ucast (n :: u32) \<le> usize_max - b) \<longleftrightarrow> unat b + unat n < 2 ^ 64"
  using unat_lt_64 [of b] by (auto simp: word_le_nat_alt usize_max_minus_unat ucast_u32_unat)

lemma unat_base_add:
  "unat b + unat (n :: u32) < 2 ^ 64 \<Longrightarrow> unat (b + ucast n :: usize) = unat b + unat n"
  using unat_add_no_overflow [of b "ucast n"] by (simp add: ucast_u32_unat)

lemma ma_inv_new: "memory_allocator_new n b = Ok s \<Longrightarrow> ma_inv s"
  by (auto simp: memory_allocator_new_def Let_def ma_inv_def ucast_le_max_iff unat_base_add
      word_le_nat_alt [of b] unat_lt_64 [simplified] split: if_splits)

lemma memory_allocator_new_Panic_iff:
  "memory_allocator_new n b = Panic \<longleftrightarrow>
     (b = 0 \<and> n \<noteq> 0) \<or> (b \<noteq> 0 \<and> n \<noteq> 0 \<and> 2 ^ 64 \<le> unat b + unat n)"
  by (auto simp: memory_allocator_new_def ucast_le_max_iff Let_def)

text \<open>What an allocation does, over unbounded arithmetic.\<close>

definition alloc_start :: "memory_allocator \<Rightarrow> usize \<Rightarrow> nat" where
  "alloc_start s a = next_aligned (unat (ma_cur s)) (unat a)"

definition alloc_fits :: "memory_allocator \<Rightarrow> usize \<Rightarrow> usize \<Rightarrow> bool" where
  "alloc_fits s n a \<longleftrightarrow>
     ma_begin s \<noteq> 0 \<and> is_power_of2 a \<and> alloc_start s a + unat n \<le> unat (ma_end s)"

definition bump :: "usize \<Rightarrow> usize \<Rightarrow> memory_allocator \<Rightarrow> usize \<times> memory_allocator" where
  "bump n a s = (of_nat (alloc_start s a), s\<lparr>ma_cur := of_nat (alloc_start s a + unat n)\<rparr>)"

lemma ma_inv_nonnull:
  "ma_inv s \<Longrightarrow> ma_begin s \<noteq> 0 \<Longrightarrow> ma_end s \<noteq> 0"
  by (auto simp: ma_inv_def unat_eq_0)

text \<open>The allocation as the code computes it once its guards have passed.\<close>

lemma allocate_guarded:
  assumes "ma_inv s" and "ma_begin s \<noteq> 0" and "k < 64"
  shows "allocate oc n (2 ^ k) s =
     (let start = (ma_cur s + mask k) AND NOT (mask k); start' = next_aligned (unat (ma_cur s)) (2 ^ k)
      in if 2 ^ 64 \<le> start' then (if oc then Panic else Ok (0, s))
         else if start' + unat n \<le> unat (ma_end s) then Ok (start, s\<lparr>ma_cur := start + n\<rparr>)
         else if oc \<and> 2 ^ 64 \<le> start' - unat (ma_cur s) + unat n then Panic
         else Ok (0, s))"
proof -
  define c where "c = ma_cur s"
  define st where "st = (c + mask k) AND NOT (mask k)"
  define st' where "st' = next_aligned (unat c) (2 ^ k)"
  from assms have ce: "unat c \<le> unat (ma_end s)" and e0: "ma_end s \<noteq> 0"
    by (auto simp: ma_inv_def c_def word_le_nat_alt ma_inv_nonnull)
  then have "\<not> ma_end s < c" by (simp add: word_less_nat_alt)
  have p2: "is_power_of2 (2 ^ k)" using assms(3) by (auto simp: is_power_of2_iff)
  have avail: "unat (ma_end s - c) = unat (ma_end s) - unat c"
    using ce by (simp add: unat_sub word_le_nat_alt)
  have A: "allocate oc n (2 ^ k) s =
      r_bind (usub oc st c) (\<lambda>padding.
        if ma_end s - c < padding \<or> ma_end s - c - padding < n
        then r_bind (uadd oc padding n) (\<lambda>_. Ok (0, s))
        else r_bind (usub oc (st + n) c) (\<lambda>_. Ok (st, s\<lparr>ma_cur := st + n\<rparr>)))"
    using assms(2) e0 p2 \<open>\<not> ma_end s < c\<close> unfolding c_def st_def
    by (simp add: allocate_def align_pointer_pow2 [OF assms(3)] usub_def [of oc "ma_end s"])
  show ?thesis
  proof (cases "2 ^ 64 \<le> st'")
    case True
    then have st: "st = 0" unfolding st_def st'_def by (rule aligned_start_wraps [OF assms(3)])
    have "0 < unat c" using True by (cases "unat c") (simp_all add: st'_def next_aligned_def)
    then have c: "0 < c" by (simp add: word_less_nat_alt)
    have "unat (0 - c) = 2 ^ 64 - unat c" using \<open>0 < unat c\<close> by (simp add: unat_uminus_usize)
    then have "ma_end s - c < 0 - c"
      using avail unat_lt_64 [of "ma_end s"] ce by (simp add: word_less_nat_alt)
    then show ?thesis
      using True c A by (simp add: st usub_def uadd_def Let_def flip: c_def st'_def)
  next
    case False
    then have st: "unat st = st'"
      using aligned_start_unat [OF assms(3), of c] by (simp add: st_def st'_def)
    have le: "unat c \<le> st'" unfolding st'_def by (rule next_aligned_ge) simp
    then have pad: "unat (st - c) = st' - unat c" and nlt: "\<not> st < c"
      using st by (simp_all add: unat_sub word_le_nat_alt word_less_nat_alt)
    have cond: "(ma_end s - c < st - c \<or> ma_end s - c - (st - c) < n) \<longleftrightarrow>
        \<not> st' + unat n \<le> unat (ma_end s)"
    proof (cases "unat (ma_end s) < st'")
      case True
      then show ?thesis using pad avail le ce by (simp add: word_less_nat_alt) linarith
    next
      case False
      then have "unat (ma_end s - c - (st - c)) = unat (ma_end s) - st'"
        using st by (simp add: unat_sub word_le_nat_alt)
      then show ?thesis using pad avail le ce False by (simp add: word_less_nat_alt) linarith
    qed
    have nofl: "\<not> st + n < c" if "st' + unat n \<le> unat (ma_end s)"
    proof -
      have "unat st + unat n < 2 ^ 64" using that st unat_lt_64 [of "ma_end s"] by simp
      then have "unat (st + n) = st' + unat n" using unat_add_no_overflow [of st n] st by simp
      with le show ?thesis by (simp add: word_less_nat_alt)
    qed
    show ?thesis
      using False A cond nlt nofl pad
      by (simp add: usub_def uadd_def Let_def flip: c_def st_def st'_def)
  qed
qed


lemma allocate_null:
  "ma_inv s \<Longrightarrow> ma_begin s = 0 \<or> \<not> is_power_of2 a \<Longrightarrow> allocate oc n a s = Ok (0, s)"
  by (auto simp: allocate_def)

lemma allocate_release:
  assumes "ma_inv s"
  shows "allocate False n a s = Ok (if alloc_fits s n a then bump n a s else (0, s))"
proof (cases "ma_begin s \<noteq> 0 \<and> is_power_of2 a")
  case False
  then show ?thesis using allocate_null [OF assms] by (auto simp: alloc_fits_def)
next
  case True
  then obtain k where k: "k < 64" "a = 2 ^ k" by (auto simp: is_power_of2_iff)
  have ua: "unat a = 2 ^ k" using k word_exp_unat by simp
  have st: "\<not> 2 ^ 64 \<le> alloc_start s a \<Longrightarrow>
      (ma_cur s + mask k) AND NOT (mask k) = of_nat (alloc_start s a)"
    using aligned_start_unat [OF k(1), of "ma_cur s"]
    by (simp add: alloc_start_def ua word_unat_eq_iff unsigned_of_nat take_bit_nat_eq_self)
  have "alloc_fits s n a \<Longrightarrow> \<not> 2 ^ 64 \<le> alloc_start s a"
    using unat_lt_64 [of "ma_end s"] by (simp add: alloc_fits_def)
  then show ?thesis
    using True allocate_guarded [OF assms _ k(1), of False n] st
    by (auto simp: k(2) [symmetric] alloc_fits_def alloc_start_def ua bump_def Let_def)
qed

definition overflow_panics :: "usize \<Rightarrow> usize \<Rightarrow> memory_allocator \<Rightarrow> bool" where
  "overflow_panics n a s \<longleftrightarrow>
     ma_begin s \<noteq> 0 \<and> is_power_of2 a \<and> \<not> alloc_fits s n a \<and>
     (2 ^ 64 \<le> alloc_start s a \<or> 2 ^ 64 \<le> alloc_start s a - unat (ma_cur s) + unat n)"

lemma allocate_checked:
  assumes "ma_inv s"
  shows "allocate True n a s = (if overflow_panics n a s then Panic else allocate False n a s)"
proof (cases "ma_begin s \<noteq> 0 \<and> is_power_of2 a")
  case False
  then show ?thesis using allocate_null [OF assms] by (auto simp: overflow_panics_def)
next
  case True
  then obtain k where k: "k < 64" "a = 2 ^ k" by (auto simp: is_power_of2_iff)
  have ua: "unat a = 2 ^ k" using k word_exp_unat by simp
  show ?thesis
    using True allocate_guarded [OF assms _ k(1), of _ n] unat_lt_64 [of "ma_end s"]
    by (auto simp: k(2) [symmetric] alloc_fits_def alloc_start_def ua Let_def overflow_panics_def)
qed


section \<open>The bump allocator keeps the contract\<close>

definition ma_claimed :: "memory_allocator \<Rightarrow> nat set" where
  "ma_claimed s = {unat (ma_begin s) ..< unat (ma_cur s)}"

lemma alloc_fits_bounds:
  assumes "ma_inv s" and "alloc_fits s n a"
  shows "unat (ma_begin s) \<le> unat (ma_cur s)" and "unat (ma_cur s) \<le> alloc_start s a"
    and "alloc_start s a + unat n \<le> unat (ma_end s)" and "alloc_start s a + unat n < 2 ^ 64"
    and "0 < alloc_start s a" and "unat a dvd alloc_start s a"
proof -
  show b: "unat (ma_begin s) \<le> unat (ma_cur s)"
    using assms by (simp add: ma_inv_def alloc_fits_def word_le_nat_alt)
  have "0 < unat a" using assms(2) by (simp add: alloc_fits_def is_power_of2_def unat_gt_0)
  then show c: "unat (ma_cur s) \<le> alloc_start s a"
    unfolding alloc_start_def by (rule next_aligned_ge)
  show e: "alloc_start s a + unat n \<le> unat (ma_end s)" using assms(2) by (simp add: alloc_fits_def)
  then show "alloc_start s a + unat n < 2 ^ 64" using unat_lt_64 [of "ma_end s"] by linarith
  have "0 < unat (ma_begin s)" using assms(2) by (simp add: alloc_fits_def unat_gt_0)
  then show "0 < alloc_start s a" using b c by linarith
  show "unat a dvd alloc_start s a" by (simp add: alloc_start_def next_aligned_dvd)
qed

lemma bump_unat:
  assumes "ma_inv s" and "alloc_fits s n a" and "bump n a s = (p, s')"
  shows "unat p = alloc_start s a" and "unat (ma_cur s') = alloc_start s a + unat n"
    and "ma_begin s' = ma_begin s" and "ma_end s' = ma_end s" and "ma_size s' = ma_size s"
proof -
  let ?st = "of_nat (alloc_start s a) :: usize" and ?e = "of_nat (alloc_start s a + unat n) :: usize"
  note bd = alloc_fits_bounds [OF assms(1,2)]
  have "unat ?st = alloc_start s a" and "unat ?e = alloc_start s a + unat n"
    using bd(4) by (simp_all only: unsigned_of_nat) (simp_all add: take_bit_nat_eq_self)
  then show "unat p = alloc_start s a" and "unat (ma_cur s') = alloc_start s a + unat n"
    and "ma_begin s' = ma_begin s" and "ma_end s' = ma_end s" and "ma_size s' = ma_size s"
    using assms(3) by (auto simp: bump_def)
qed

lemma allocate_OkD:
  assumes "ma_inv s" and "allocate oc n a s = Ok (p, s')"
  shows "(p, s') = (if alloc_fits s n a then bump n a s else (0, s))"
  using assms allocate_release [OF assms(1), of n a] allocate_checked [OF assms(1), of n a]
  by (cases oc) (auto split: if_splits)

lemma allocate_nonnull:
  assumes "ma_inv s" and "allocate oc n a s = Ok (p, s')"
  shows "p \<noteq> 0 \<longleftrightarrow> alloc_fits s n a"
  using allocate_OkD [OF assms] alloc_fits_bounds(5) [OF assms(1), of n a]
    bump_unat(1) [OF assms(1), of n a p s']
  by (auto simp: unat_eq_0 split: if_splits)

lemma allocate_nonnullD:
  assumes "ma_inv s" and "allocate oc n a s = Ok (p, s')" and "p \<noteq> 0"
  shows "alloc_fits s n a" and "bump n a s = (p, s')"
  using assms(3) allocate_nonnull [OF assms(1,2)] allocate_OkD [OF assms(1,2)] by auto

lemma ma_inv_bump:
  assumes "ma_inv s" and "alloc_fits s n a" and "bump n a s = (p, s')"
  shows "ma_inv s'"
  using assms(1,2) bump_unat [OF assms] alloc_fits_bounds [OF assms(1,2)]
  by (auto simp: ma_inv_def alloc_fits_def word_le_nat_alt)

lemma allocate_ma_inv:
  assumes "ma_inv s" and "allocate oc n a s = Ok (p, s')"
  shows "ma_inv s'"
  using allocate_OkD [OF assms] ma_inv_bump [OF assms(1), of n a p s'] assms(1)
  by (cases "alloc_fits s n a") auto

lemma allocate_null_unchanged:
  assumes "ma_inv s" and "allocate oc n a s = Ok (0, s')"
  shows "s' = s"
  using allocate_nonnull [OF assms] allocate_OkD [OF assms] by simp

interpretation bump: allocator
  "\<lambda>(_ :: unit). allocate oc" "\<lambda>s. Ok (reset s)" ma_inv ma_claimed "\<lambda>_ _ _ _. True" for oc
proof (unfold_locales, goal_cases)
  case (1 s e n a s')
  then show ?case by (blast intro: allocate_null_unchanged)
next
  case (2 s e n a p s')
  then show ?case by (blast intro: allocate_ma_inv)
next
  case (3 s e n a p s')
  note f = allocate_nonnullD [OF 3(1,3,4)]
  then show ?case using alloc_fits_bounds(6) [OF 3(1) f(1)] bump_unat(1) [OF 3(1) f]
    by (simp add: alloc_fits_def)
next
  case (4 s e n a p s')
  note f = allocate_nonnullD [OF 4(1,3,4)]
  show ?case using alloc_fits_bounds(4) [OF 4(1) f(1)] bump_unat(1) [OF 4(1) f] by simp
next
  case (5 s e n a p s')
  note f = allocate_nonnullD [OF 5(1,3,4)]
  show ?case using alloc_fits_bounds(2) [OF 5(1) f(1)] bump_unat(1) [OF 5(1) f]
    by (auto simp: region_def ma_claimed_def)
next
  case (6 s e n a p s')
  note f = allocate_nonnullD [OF 6(1,3,4)]
  show ?case using alloc_fits_bounds(1,2) [OF 6(1) f(1)] bump_unat(1,2,3) [OF 6(1) f]
    by (auto simp: region_def ma_claimed_def)
next
  case (7 s)
  then show ?case by (auto simp: reset_def ma_inv_def ma_claimed_def)
qed


section \<open>Properties\<close>

lemma env_all_True: "(\<And>e n a s. env_ok e n a s) \<Longrightarrow> env_all alloc env_ok rs s"
  by (induction rs arbitrary: s) (auto split: outcome.splits)

lemma alloc_all_frame:
  "ma_inv s \<Longrightarrow> alloc_all (\<lambda>(_ :: unit). allocate oc) rs s = Ok (ps, s') \<Longrightarrow>
   ma_begin s' = ma_begin s \<and> ma_size s' = ma_size s"
proof (induction rs arbitrary: s ps)
  case Nil
  then show ?case by simp
next
  case (Cons rq rs)
  obtain e n a where rq: "rq = (e, n, a)" by (cases rq) auto
  from Cons.prems(2) obtain p s1 qs where al: "allocate oc n a s = Ok (p, s1)"
    and rest: "alloc_all (\<lambda>_. allocate oc) rs s1 = Ok (qs, s')"
    by (auto simp: rq outcome_simps split: prod.splits)
  have "ma_begin s1 = ma_begin s \<and> ma_size s1 = ma_size s"
    using allocate_OkD [OF Cons.prems(1) al] by (auto simp: bump_def split: if_splits)
  then show ?case using Cons.IH [OF allocate_ma_inv [OF Cons.prems(1) al] rest] by simp
qed

lemma next_aligned_unique:
  assumes "0 < a" and "a dvd m" and "c \<le> m" and "\<And>q. a dvd q \<Longrightarrow> c \<le> q \<Longrightarrow> m \<le> q"
  shows "m = next_aligned c a"
  using assms by (intro antisym) (auto simp: next_aligned_dvd next_aligned_ge next_aligned_least)

lemma alloc_fits_iff:
  "alloc_fits s n a \<longleftrightarrow> ma_begin s \<noteq> 0 \<and> is_power_of2 a \<and>
     (\<exists>m. unat a dvd m \<and> unat (ma_cur s) \<le> m \<and> m + unat n \<le> unat (ma_end s))"
proof -
  have "0 < unat a" if "is_power_of2 a" using that by (simp add: is_power_of2_def unat_gt_0)
  then show ?thesis
    unfolding alloc_fits_def alloc_start_def
    by (meson add_le_mono1 next_aligned_dvd next_aligned_ge next_aligned_least order_trans)
qed

text \<open>
  C1. The bump allocator is exact: in a build without overflow checks, from a well-formed
  state, an allocation returns the least address at or after the cursor that is a multiple of
  the alignment and leaves room for the request, advances the cursor to the end of the block,
  and returns null, leaving the state alone, exactly when there is no buffer, the alignment is
  not a power of two, or no such address exists.
\<close>
theorem allocate_exact:
  assumes "ma_inv s"
  shows "\<exists>p s'. allocate False n a s = Ok (p, s') \<and>
    (if ma_begin s \<noteq> 0 \<and> is_power_of2 a \<and>
        (\<exists>m. unat a dvd m \<and> unat (ma_cur s) \<le> m \<and> m + unat n \<le> unat (ma_end s))
     then p \<noteq> 0 \<and> unat a dvd unat p \<and> unat (ma_cur s) \<le> unat p \<and>
          unat p + unat n \<le> unat (ma_end s) \<and>
          (\<forall>m. unat a dvd m \<longrightarrow> unat (ma_cur s) \<le> m \<longrightarrow> unat p \<le> m) \<and> s' = s\<lparr>ma_cur := p + n\<rparr>
     else p = 0 \<and> s' = s)"
proof (cases "alloc_fits s n a")
  case True
  obtain p s' where b: "bump n a s = (p, s')" by force
  have "0 < unat a" using True by (simp add: alloc_fits_def is_power_of2_def unat_gt_0)
  then have least: "\<forall>m. unat a dvd m \<longrightarrow> unat (ma_cur s) \<le> m \<longrightarrow> alloc_start s a \<le> m"
    by (simp add: alloc_start_def next_aligned_least)
  have "s' = s\<lparr>ma_cur := p + n\<rparr>" using b by (auto simp: bump_def)
  moreover have "allocate False n a s = Ok (p, s')"
    using True b allocate_release [OF assms, of n a] by simp
  moreover have "p \<noteq> 0"
    using alloc_fits_bounds(5) [OF assms True] bump_unat(1) [OF assms True b]
    by (simp add: unat_eq_0 [symmetric])
  ultimately show ?thesis
    unfolding alloc_fits_iff [symmetric]
    using True least alloc_fits_bounds(2,3,6) [OF assms True] bump_unat(1) [OF assms True b]
    by (intro exI [of _ p] exI [of _ s']) simp
next
  case False
  then show ?thesis
    unfolding alloc_fits_iff [symmetric] using allocate_release [OF assms, of n a] by simp
qed

definition arena_example :: memory_allocator where
  "arena_example =
     \<lparr>ma_begin = 0x1000, ma_end = 0x1040, ma_cur = 0x1003, ma_size = 0x40, ma_prof_id = - 1\<rparr>"

theorem allocate_exact_witness:
  "ma_inv arena_example \<and>
   (\<exists>p s'. allocate False 16 8 arena_example = Ok (p, s') \<and> p \<noteq> 0)"
proof -
  have inv: "ma_inv arena_example" by (simp add: ma_inv_def arena_example_def word_le_nat_alt)
  have fits: "ma_begin arena_example \<noteq> 0 \<and> is_power_of2 8 \<and>
      (\<exists>m. unat (8 :: usize) dvd m \<and> unat (ma_cur arena_example) \<le> m \<and>
           m + unat (16 :: usize) \<le> unat (ma_end arena_example))"
    by (simp add: arena_example_def is_power_of2_def) (rule exI [of _ "0x1008"], simp)
  from allocate_exact [OF inv, of 16 8] inv fits show ?thesis by auto
qed

text \<open>
  C2. Allocations never overlap: whatever sequence of requests is made of a freshly
  constructed allocator, in either build profile, the blocks it hands out are pairwise
  disjoint and lie inside the buffer it was constructed with.
\<close>
theorem bump_blocks_disjoint:
  assumes "memory_allocator_new sz base = Ok s"
    and "alloc_all (\<lambda>(_ :: unit). allocate oc) rs s = Ok (ps, s')"
  shows "pairwise_disjoint (regions_of rs ps) \<and>
    (\<forall>r \<in> set (regions_of rs ps). r \<subseteq> {unat base ..< unat base + unat sz})"
proof -
  have inv: "ma_inv s" using assms(1) by (rule ma_inv_new)
  have env: "env_all (\<lambda>(_ :: unit). allocate oc) (\<lambda>_ _ _ _. True) rs s" by (rule env_all_True) simp
  have "ma_begin s = base" and "ma_size s = sz"
    using assms(1) by (auto simp: memory_allocator_new_def Let_def split: if_splits)
  note frame = alloc_all_frame [OF inv assms(2)]
  note sound = bump.alloc_all_sound [OF inv env assms(2)]
  then have "ma_inv s'" by (rule conjunct1)
  with frame have "ma_claimed s' \<subseteq> {unat base ..< unat base + unat sz}"
    using \<open>ma_begin s = base\<close> \<open>ma_size s = sz\<close>
    by (auto simp: ma_claimed_def ma_inv_def word_le_nat_alt split: if_splits)
  with sound show ?thesis by (simp add: order_trans [of _ "ma_claimed s'"])
qed

theorem bump_blocks_disjoint_witness:
  "memory_allocator_new 64 0x1000 = Ok (reset arena_example) \<and>
   pairwise_disjoint (regions_of [((), 3, 1), ((), 16, 8)] [0x1000, 0x1008 :: usize])"
proof -
  have new: "memory_allocator_new 64 0x1000 = Ok (reset arena_example)"
    by (simp add: memory_allocator_new_def usize_max_def arena_example_def reset_def)
  have "alloc_all (\<lambda>(_ :: unit). allocate False) [((), 3, 1), ((), 16, 8)] (reset arena_example) =
      Ok ([0x1000, 0x1008], (reset arena_example)\<lparr>ma_cur := 0x1018\<rparr>)"
    by (simp add: allocate_def align_pointer_def is_power_of2_def arith_defs reset_def arena_example_def)
  from bump_blocks_disjoint [OF new this] new show ?thesis by simp
qed

text \<open>
  With overflow checks, an allocation that the release build answers with null panics
  instead exactly when the next aligned address lies beyond the address space, or when padding
  plus request size exceeds the address space (the sum is computed for the log message only);
  every other request behaves the same in both builds.
\<close>
theorem allocate_overflow_checks:
  assumes "ma_inv s"
  shows "allocate True n a s =
    (if ma_begin s \<noteq> 0 \<and> is_power_of2 a \<and> allocate False n a s = Ok (0, s) \<and>
        (2 ^ 64 \<le> next_aligned (unat (ma_cur s)) (unat a) \<or>
         2 ^ 64 \<le> next_aligned (unat (ma_cur s)) (unat a) - unat (ma_cur s) + unat n)
     then Panic else allocate False n a s)"
proof -
  have "alloc_fits s n a \<longleftrightarrow> allocate False n a s \<noteq> Ok (0, s)" if "ma_begin s \<noteq> 0 \<and> is_power_of2 a"
    using allocate_release [OF assms, of n a] allocate_nonnull [OF assms, of False n a]
    by (cases "bump n a s") (auto split: if_splits)
  then have "overflow_panics n a s \<longleftrightarrow>
      ma_begin s \<noteq> 0 \<and> is_power_of2 a \<and> allocate False n a s = Ok (0, s) \<and>
      (2 ^ 64 \<le> next_aligned (unat (ma_cur s)) (unat a) \<or>
       2 ^ 64 \<le> next_aligned (unat (ma_cur s)) (unat a) - unat (ma_cur s) + unat n)"
    unfolding overflow_panics_def alloc_start_def by blast
  then show ?thesis using allocate_checked [OF assms, of n a] by simp
qed

theorem allocate_overflow_checks_witness:
  "allocate True (- 1) 8 arena_example = Panic \<and>
   allocate False (- 1) 8 arena_example = Ok (0, arena_example)"
proof -
  have inv: "ma_inv arena_example" by (simp add: ma_inv_def arena_example_def word_le_nat_alt)
  have null: "allocate False (- 1) 8 arena_example = Ok (0, arena_example)"
    using allocate_release [OF inv, of "- 1" 8]
    by (simp add: alloc_fits_def alloc_start_def next_aligned_def arena_example_def mask_unat_64)
  then show ?thesis
    using allocate_overflow_checks [OF inv, of "- 1" 8]
    by (simp add: next_aligned_def arena_example_def mask_unat_64 is_power_of2_def)
qed

end
