(* ===== verification/Owning_Allocators.thy ===== *)
theory Owning_Allocators
  imports Memory_Allocator
begin

text \<open>
  The two allocators that own the blocks they hand out: \<^verbatim>\<open>PlatformMemoryAllocator\<close>
  (\<^verbatim>\<open>runtime/executor/platform_memory_allocator.rs\<close>), whose blocks form a linked list threaded
  through the memory of the platform layer, and \<^verbatim>\<open>MallocMemoryAllocator\<close>
  (\<^verbatim>\<open>extension/memory_allocator/malloc_memory_allocator.rs\<close>), which keeps a vector of them.

  The platform layer and the C library are not part of the crate: what they answered is the
  argument \<open>e\<close> of an allocation (0 for a refusal), and the documented behaviour the code relies
  on is \<open>fresh_block\<close>: the block is not null, does not run past the end of the address space
  and does not overlap a live block. \<open>live\<close> records the blocks obtained and not yet freed,
  with their sizes; freeing an address that is not live is undefined behaviour, modelled as
  \<open>Panic\<close>.
\<close>

section \<open>Blocks\<close>

type_synonym blocks = "usize \<Rightarrow> nat option"

definition block_bytes :: "blocks \<Rightarrow> nat set" where
  "block_bytes live = {x. \<exists>q z. live q = Some z \<and> x \<in> {unat q ..< unat q + z}}"

definition fresh_block :: "blocks \<Rightarrow> usize \<Rightarrow> nat \<Rightarrow> bool" where
  "fresh_block live q z \<longleftrightarrow>
     q \<noteq> 0 \<and> live q = None \<and> unat q + z < 2 ^ 64 \<and> {unat q ..< unat q + z} \<inter> block_bytes live = {}"

definition free_block :: "blocks \<Rightarrow> usize \<Rightarrow> blocks result" where
  "free_block live q = (case live q of None \<Rightarrow> Panic | Some _ \<Rightarrow> Ok (live(q := None)))"

lemma block_bytes_upd:
  "live q = None \<Longrightarrow> block_bytes (live(q \<mapsto> z)) = block_bytes live \<union> {unat q ..< unat q + z}"
  by (auto simp: block_bytes_def split: if_splits)

lemma block_bytes_empty [simp]: "block_bytes Map.empty = {}"
  by (simp add: block_bytes_def)

section \<open>The platform allocator\<close>

record allocation_node =
  node_data :: usize
  node_next :: usize

record platform_allocator =
  pa_head :: usize
  pa_nodes :: "usize \<Rightarrow> allocation_node option"
  pa_live :: blocks

definition sizeof_node :: usize where
  "sizeof_node = 16"

definition platform_new :: platform_allocator where
  "platform_new = \<lparr>pa_head = 0, pa_nodes = Map.empty, pa_live = Map.empty\<rparr>"

definition platform_alloc_size :: "usize \<Rightarrow> usize \<Rightarrow> usize option" where
  "platform_alloc_size sz alignment =
     (case checked_add sizeof_node sz of
        Some sum1 \<Rightarrow> checked_add sum1 (alignment - 1)
      | None \<Rightarrow> None)"

definition platform_allocate ::
    "bool \<Rightarrow> usize \<Rightarrow> usize \<Rightarrow> usize \<Rightarrow> platform_allocator \<Rightarrow> (usize \<times> platform_allocator) result" where
  "platform_allocate oc e sz alignment s =
     (if \<not> is_power_of2 alignment then Ok (0, s)
      else case platform_alloc_size sz alignment of
        None \<Rightarrow> Ok (0, s)
      | Some alloc_size \<Rightarrow>
          if e = 0 then Ok (0, s)
          else
            r_bind (align_pointer oc (e + sizeof_node) alignment) (\<lambda>aligned.
              if oc \<and> \<not> unat aligned + unat sz \<le> unat e + unat alloc_size then Panic
              else
                let nodes = (pa_nodes s)(e \<mapsto> \<lparr>node_data = aligned, node_next = pa_head s\<rparr>)
                in Ok (node_data (the (nodes e)),
                       s\<lparr>pa_head := e, pa_nodes := nodes, pa_live := (pa_live s)(e \<mapsto> unat alloc_size)\<rparr>)))"

text \<open>
  The loop of \<^verbatim>\<open>reset\<close> follows the \<open>next\<close> fields. On a cyclic list it would not return
  (\<open>None\<close>); reading a node that is not there is undefined behaviour (\<open>Some Panic\<close>). Freeing
  a block makes its node unreadable.
\<close>

partial_function (option) platform_reset_loop ::
    "usize \<Rightarrow> platform_allocator \<Rightarrow> platform_allocator result option" where
  "platform_reset_loop current s =
     (if current = 0 then Some (Ok s)
      else case pa_nodes s current of
        None \<Rightarrow> Some Panic
      | Some nd \<Rightarrow>
          (case free_block (pa_live s) current of
             Ok live' \<Rightarrow>
               platform_reset_loop (node_next nd)
                 (s\<lparr>pa_live := live', pa_nodes := (pa_nodes s)(current := None)\<rparr>)
           | Err x \<Rightarrow> Some (Err x)
           | Panic \<Rightarrow> Some Panic))"

definition platform_reset :: "platform_allocator \<Rightarrow> platform_allocator result option" where
  "platform_reset s =
     map_option (\<lambda>r. r_bind r (\<lambda>s'. Ok (s'\<lparr>pa_head := 0\<rparr>))) (platform_reset_loop (pa_head s) s)"

fun node_list :: "(usize \<Rightarrow> allocation_node option) \<Rightarrow> usize \<Rightarrow> usize list \<Rightarrow> bool" where
  "node_list h p [] = (p = 0)"
| "node_list h p (q # qs) =
     (p = q \<and> p \<noteq> 0 \<and> (case h p of None \<Rightarrow> False | Some nd \<Rightarrow> node_list h (node_next nd) qs))"

definition pa_inv :: "platform_allocator \<Rightarrow> bool" where
  "pa_inv s \<longleftrightarrow>
     (\<exists>qs. node_list (pa_nodes s) (pa_head s) qs \<and> distinct qs \<and>
           dom (pa_nodes s) = set qs \<and> dom (pa_live s) = set qs)"

lemma node_list_upd_other:
  "q \<notin> set qs \<Longrightarrow> node_list (h(q := x)) p qs = node_list h p qs"
  by (induction qs arbitrary: p) (auto split: option.splits)

text \<open>The loop frees every node of a well-formed list, and nothing else, and returns.\<close>

lemma platform_reset_loop_frees:
  assumes "node_list (pa_nodes s) p qs" and "distinct qs" and "set qs \<subseteq> dom (pa_live s)"
  shows "platform_reset_loop p s =
    Some (Ok (s\<lparr>pa_live := pa_live s |` (- set qs), pa_nodes := pa_nodes s |` (- set qs)\<rparr>))"
  using assms
proof (induction qs arbitrary: p s)
  case Nil
  then show ?case by (subst platform_reset_loop.simps) (simp add: restrict_map_def)
next
  case (Cons q qs)
  from Cons.prems(1) obtain nd where p: "p = q" "q \<noteq> 0" and nd: "pa_nodes s q = Some nd"
    and rest: "node_list (pa_nodes s) (node_next nd) qs"
    by (auto split: option.splits)
  from Cons.prems(3) obtain z where z: "pa_live s q = Some z" by auto
  let ?s = "s\<lparr>pa_live := (pa_live s)(q := None), pa_nodes := (pa_nodes s)(q := None)\<rparr>"
  have "node_list (pa_nodes ?s) (node_next nd) qs"
    using rest Cons.prems(2) by (simp add: node_list_upd_other)
  moreover have "distinct qs" and "set qs \<subseteq> dom (pa_live ?s)" using Cons.prems(2,3) by auto
  ultimately have IH: "platform_reset_loop (node_next nd) ?s =
      Some (Ok (?s\<lparr>pa_live := pa_live ?s |` (- set qs), pa_nodes := pa_nodes ?s |` (- set qs)\<rparr>))"
    by (rule Cons.IH)
  have "platform_reset_loop (node_next nd) ?s =
      Some (Ok (s\<lparr>pa_live := pa_live s |` (- set (q # qs)), pa_nodes := pa_nodes s |` (- set (q # qs))\<rparr>))"
    unfolding IH
    by (intro arg_cong [where f = "\<lambda>x. Some (Ok x)"] platform_allocator.equality)
      (auto simp: restrict_map_def fun_eq_iff)
  then show ?case
    using p nd z by (subst platform_reset_loop.simps) (simp add: free_block_def)
qed

lemma platform_reset_ok:
  assumes "pa_inv s"
  shows "platform_reset s = Some (Ok platform_new)"
proof -
  from assms obtain qs where qs: "node_list (pa_nodes s) (pa_head s) qs" "distinct qs"
      "dom (pa_nodes s) = set qs" "dom (pa_live s) = set qs"
    by (auto simp: pa_inv_def)
  then have "pa_nodes s |` (- set qs) = Map.empty" and "pa_live s |` (- set qs) = Map.empty"
    by (auto simp: restrict_map_def fun_eq_iff domIff)
  then show ?thesis
    using platform_reset_loop_frees [OF qs(1,2)] qs(4)
    by (simp add: platform_reset_def platform_new_def)
qed

text \<open>Where the data of a block starts.\<close>

lemma platform_data_in_block:
  assumes pow: "is_power_of2 a" and size: "platform_alloc_size n a = Some z"
    and fit: "unat e + unat z < 2 ^ 64"
  obtains d where "\<And>oc. align_pointer oc (e + sizeof_node) a = Ok d" and "unat a dvd unat d"
    and "unat e + 16 \<le> unat d" and "unat d + unat n \<le> unat e + unat z"
proof -
  from pow obtain k where k: "k < 64" "a = 2 ^ k" by (auto simp: is_power_of2_iff)
  have ua: "unat a = 2 ^ k" using k word_exp_unat by simp
  then have "a \<noteq> 0" by (auto simp flip: unat_eq_0)
  then have am: "unat (a - 1) = 2 ^ k - 1" by (simp add: unat_minus_one ua)
  from size obtain w where w: "checked_add sizeof_node n = Some w" "checked_add w (a - 1) = Some z"
    by (auto simp: platform_alloc_size_def split: option.splits)
  from w(1) have "unat w = 16 + unat n" by (auto simp: unat_add_no_overflow sizeof_node_def)
  then have uz: "unat z = 16 + unat n + (2 ^ k - 1)"
    using w(2) am unat_add_no_overflow [of w "a - 1"] by auto
  have ue: "unat (e + sizeof_node) = unat e + 16"
  proof -
    have "unat e + 16 < 2 ^ 64" using fit uz one_le_power [of "2 :: nat" k] by linarith
    then show ?thesis using unat_add_no_overflow [of e sizeof_node] by (simp add: sizeof_node_def)
  qed
  have "next_aligned (unat e + 16) (2 ^ k) < unat e + 16 + 2 ^ k"
    by (rule next_aligned_less) simp
  then have nb: "next_aligned (unat e + 16) (2 ^ k) + unat n \<le> unat e + unat z" using uz by simp
  then have "next_aligned (unat (e + sizeof_node)) (2 ^ k) < 2 ^ 64" using fit ue by simp
  define d where "d = (e + sizeof_node + mask k) AND NOT (mask k)"
  from aligned_start_unat [OF k(1) \<open>next_aligned (unat (e + sizeof_node)) (2 ^ k) < 2 ^ 64\<close>]
  have d: "unat d = next_aligned (unat e + 16) (2 ^ k)" unfolding d_def ue .
  show ?thesis
  proof (rule that)
    show "align_pointer oc (e + sizeof_node) a = Ok d" for oc
      unfolding k(2) d_def by (rule align_pointer_pow2 [OF k(1)])
    show "unat a dvd unat d" unfolding d ua by (rule next_aligned_dvd)
    show "unat e + 16 \<le> unat d" unfolding d by (rule next_aligned_ge) simp
    show "unat d + unat n \<le> unat e + unat z" unfolding d by (rule nb)
  qed
qed

definition platform_env_ok :: "usize \<Rightarrow> usize \<Rightarrow> usize \<Rightarrow> platform_allocator \<Rightarrow> bool" where
  "platform_env_ok e n a s \<longleftrightarrow>
     e = 0 \<or> (\<forall>z. platform_alloc_size n a = Some z \<longrightarrow> fresh_block (pa_live s) e (unat z))"

lemma platform_allocate_cases:
  assumes "platform_env_ok e n a s"
  obtains (null) "platform_allocate oc e n a s = Ok (0, s)"
  | (block) z d where "is_power_of2 a" "platform_alloc_size n a = Some z" "fresh_block (pa_live s) e (unat z)"
      "unat a dvd unat d" "unat e + 16 \<le> unat d" "unat d + unat n \<le> unat e + unat z" "d \<noteq> 0"
      "platform_allocate oc e n a s = Ok (d,
         s\<lparr>pa_head := e, pa_nodes := (pa_nodes s)(e \<mapsto> \<lparr>node_data = d, node_next = pa_head s\<rparr>),
           pa_live := (pa_live s)(e \<mapsto> unat z)\<rparr>)"
proof (cases "\<not> is_power_of2 a \<or> platform_alloc_size n a = None \<or> e = 0")
  case True
  then show ?thesis by (intro null) (auto simp: platform_allocate_def split: option.splits)
next
  case False
  then obtain z where z: "platform_alloc_size n a = Some z" and a: "is_power_of2 a" and e: "e \<noteq> 0"
    by auto
  with assms have fr: "fresh_block (pa_live s) e (unat z)" by (simp add: platform_env_ok_def)
  then have fit: "unat e + unat z < 2 ^ 64" by (simp add: fresh_block_def)
  from a z fit obtain d where d: "\<And>oc. align_pointer oc (e + sizeof_node) a = Ok d" "unat a dvd unat d"
      "unat e + 16 \<le> unat d" "unat d + unat n \<le> unat e + unat z"
    by (rule platform_data_in_block) blast
  then have "d \<noteq> 0" by (auto simp flip: unat_eq_0)
  with d z a e fr show ?thesis
    by (intro block [of z d]) (simp_all add: platform_allocate_def Let_def)
qed

definition pa_claimed :: "platform_allocator \<Rightarrow> nat set" where
  "pa_claimed s = block_bytes (pa_live s)"

lemma pa_inv_cons:
  assumes "pa_inv s" and "e \<noteq> 0" and "pa_live s e = None"
  shows "pa_inv (s\<lparr>pa_head := e, pa_nodes := (pa_nodes s)(e \<mapsto> \<lparr>node_data = d, node_next = pa_head s\<rparr>),
    pa_live := (pa_live s)(e \<mapsto> z)\<rparr>)"
proof -
  from assms(1) obtain qs where qs: "node_list (pa_nodes s) (pa_head s) qs" "distinct qs"
      "dom (pa_nodes s) = set qs" "dom (pa_live s) = set qs"
    by (auto simp: pa_inv_def)
  with assms(3) have "e \<notin> set qs" by (auto simp: domIff)
  with qs assms(2) show ?thesis
    by (auto simp: pa_inv_def node_list_upd_other intro!: exI [of _ "e # qs"])
qed

interpretation platform: allocator
  "platform_allocate oc" "\<lambda>s. case platform_reset s of None \<Rightarrow> Panic | Some r \<Rightarrow> r"
  pa_inv pa_claimed platform_env_ok for oc
proof (unfold_locales, goal_cases)
  case (1 s e n a s')
  from 1(2) show ?case
    by (rule platform_allocate_cases [where oc = oc]) (use 1(3) in auto)
next
  case (2 s e n a p s')
  from 2(2) show ?case
    by (rule platform_allocate_cases [where oc = oc])
      (use 2 in \<open>auto simp: fresh_block_def intro!: pa_inv_cons\<close>)
next
  case (3 s e n a p s')
  from 3(2) show ?case
    by (rule platform_allocate_cases [where oc = oc]) (use 3 in auto)
next
  case (4 s e n a p s')
  from 4(2) show ?case
    by (rule platform_allocate_cases [where oc = oc]) (use 4 in \<open>auto simp: fresh_block_def\<close>)
next
  case (5 s e n a p s')
  from 5(2) show ?case
  proof (rule platform_allocate_cases [where oc = oc], goal_cases)
    case (2 z d)
    then have "region p n \<subseteq> {unat e ..< unat e + unat z}" using 5(3) by (auto simp: region_def)
    with 2(3) show ?case by (auto simp: fresh_block_def pa_claimed_def)
  qed (use 5 in auto)
next
  case (6 s e n a p s')
  from 6(2) show ?case
  proof (rule platform_allocate_cases [where oc = oc], goal_cases)
    case (2 z d)
    then have "region p n \<subseteq> {unat e ..< unat e + unat z}" using 6(3) by (auto simp: region_def)
    with 2 6(3) show ?case by (auto simp: fresh_block_def pa_claimed_def block_bytes_upd)
  qed (use 6 in auto)
next
  case (7 s)
  then show ?case
    by (simp add: platform_reset_ok pa_claimed_def) (simp add: platform_new_def pa_inv_def)
qed

section \<open>The malloc allocator\<close>

record malloc_allocator =
  mem_ptrs :: "usize list"
  ml_live :: blocks

definition malloc_new :: malloc_allocator where
  "malloc_new = \<lparr>mem_ptrs = [], ml_live = Map.empty\<rparr>"

definition malloc_alignment :: usize where
  "malloc_alignment = 16"

definition get_aligned_size :: "usize \<Rightarrow> usize \<Rightarrow> usize result" where
  "get_aligned_size sz alignment =
     (if malloc_alignment < alignment
      then let extra = alignment - 1
           in if usize_max - sz \<le> extra then Err InvalidArgument else Ok (sz + extra)
      else Ok sz)"

definition malloc_allocate ::
    "bool \<Rightarrow> usize \<Rightarrow> usize \<Rightarrow> usize \<Rightarrow> malloc_allocator \<Rightarrow> (usize \<times> malloc_allocator) result" where
  "malloc_allocate oc e sz alignment s =
     (if \<not> is_power_of2 alignment then Ok (0, s)
      else case get_aligned_size sz alignment of
        Err _ \<Rightarrow> Ok (0, s)
      | Panic \<Rightarrow> Panic
      | Ok sz' \<Rightarrow>
          if e = 0 then Ok (0, s)
          else
            let s' = s\<lparr>mem_ptrs := mem_ptrs s @ [e], ml_live := (ml_live s)(e \<mapsto> unat sz')\<rparr>
            in r_bind (align_pointer oc (last (mem_ptrs s')) alignment) (\<lambda>p. Ok (p, s')))"

fun free_all :: "usize list \<Rightarrow> blocks \<Rightarrow> blocks result" where
  "free_all [] live = Ok live"
| "free_all (q # qs) live = r_bind (free_block live q) (free_all qs)"

definition malloc_reset :: "malloc_allocator \<Rightarrow> malloc_allocator result" where
  "malloc_reset s =
     r_bind (free_all (mem_ptrs s) (ml_live s)) (\<lambda>live. Ok (s\<lparr>mem_ptrs := [], ml_live := live\<rparr>))"

definition ml_inv :: "malloc_allocator \<Rightarrow> bool" where
  "ml_inv s \<longleftrightarrow> distinct (mem_ptrs s) \<and> dom (ml_live s) = set (mem_ptrs s)"

definition ml_claimed :: "malloc_allocator \<Rightarrow> nat set" where
  "ml_claimed s = block_bytes (ml_live s)"

definition malloc_env_ok :: "usize \<Rightarrow> usize \<Rightarrow> usize \<Rightarrow> malloc_allocator \<Rightarrow> bool" where
  "malloc_env_ok e n a s \<longleftrightarrow>
     e = 0 \<or> (16 dvd unat e \<and>
       (\<forall>z. get_aligned_size n a = Ok z \<longrightarrow> fresh_block (ml_live s) e (unat z)))"

lemma free_all_ok:
  "distinct qs \<Longrightarrow> set qs \<subseteq> dom live \<Longrightarrow> free_all qs live = Ok (live |` (- set qs))"
proof (induction qs arbitrary: live)
  case Nil
  then show ?case by (simp add: restrict_map_def)
next
  case (Cons q qs)
  then have "free_all qs (live(q := None)) = Ok ((live(q := None)) |` (- set qs))"
    by (intro Cons.IH) auto
  moreover have "(live(q := None)) |` (- set qs) = live |` (- set (q # qs))"
    by (auto simp: restrict_map_def fun_eq_iff)
  moreover obtain z where "live q = Some z" using Cons.prems(2) by auto
  ultimately show ?case by (simp add: free_block_def)
qed

lemma malloc_reset_ok:
  assumes "ml_inv s"
  shows "malloc_reset s = Ok malloc_new"
proof -
  have "ml_live s |` (- set (mem_ptrs s)) = Map.empty"
    using assms by (auto simp: ml_inv_def restrict_map_def fun_eq_iff domIff)
  then show ?thesis
    using assms by (simp add: malloc_reset_def ml_inv_def free_all_ok malloc_new_def)
qed

lemma malloc_data_in_block:
  assumes pow: "is_power_of2 a" and size: "get_aligned_size n a = Ok z"
    and e16: "16 dvd unat e" and fit: "unat e + unat z < 2 ^ 64"
  obtains d where "\<And>oc. align_pointer oc e a = Ok d" and "unat a dvd unat d"
    and "unat e \<le> unat d" and "unat d + unat n \<le> unat e + unat z"
proof -
  from pow obtain k where k: "k < 64" "a = 2 ^ k" by (auto simp: is_power_of2_iff)
  have ua: "unat a = 2 ^ k" using k word_exp_unat by simp
  then have "a \<noteq> 0" by (auto simp flip: unat_eq_0)
  then have am: "unat (a - 1) = 2 ^ k - 1" by (simp add: unat_minus_one ua)
  have nb: "next_aligned (unat e) (2 ^ k) + unat n \<le> unat e + unat z"
  proof (cases "malloc_alignment < a")
    case True
    with size have "\<not> usize_max - n \<le> a - 1" and z: "z = n + (a - 1)"
      by (auto simp: get_aligned_size_def Let_def split: if_splits)
    then have "unat n + unat (a - 1) < 2 ^ 64"
      by (simp add: word_le_nat_alt usize_max_minus_unat)
    then have "unat z = unat n + (2 ^ k - 1)" using z unat_add_no_overflow [of n "a - 1"] am by simp
    moreover have "next_aligned (unat e) (2 ^ k) < unat e + 2 ^ k" by (rule next_aligned_less) simp
    ultimately show ?thesis by simp
  next
    case False
    then have "(2 :: nat) ^ k \<le> 2 ^ 4"
      using ua by (simp add: malloc_alignment_def word_less_nat_alt)
    then have "k \<le> 4" by (rule power_le_imp_le_exp [rotated]) simp
    then have "(2 :: nat) ^ k dvd 2 ^ 4" by (rule le_imp_power_dvd)
    then have "2 ^ k dvd (16 :: nat)" by simp
    then have "2 ^ k dvd unat e" using e16 by (rule dvd_trans)
    then have "next_aligned (unat e) (2 ^ k) \<le> unat e" by (rule next_aligned_least [rotated]) simp_all
    moreover have "z = n" using False size by (simp add: get_aligned_size_def)
    ultimately show ?thesis by simp
  qed
  then have "next_aligned (unat e) (2 ^ k) < 2 ^ 64" using fit by simp
  define d where "d = (e + mask k) AND NOT (mask k)"
  have d: "unat d = next_aligned (unat e) (2 ^ k)"
    unfolding d_def using k(1) \<open>next_aligned (unat e) (2 ^ k) < 2 ^ 64\<close> by (rule aligned_start_unat)
  show ?thesis
  proof (rule that)
    show "align_pointer oc e a = Ok d" for oc
      unfolding k(2) d_def by (rule align_pointer_pow2 [OF k(1)])
    show "unat a dvd unat d" unfolding d ua by (rule next_aligned_dvd)
    show "unat e \<le> unat d" unfolding d by (rule next_aligned_ge) simp
    show "unat d + unat n \<le> unat e + unat z" unfolding d by (rule nb)
  qed
qed

lemma malloc_allocate_cases:
  assumes "malloc_env_ok e n a s"
  obtains (null) "malloc_allocate oc e n a s = Ok (0, s)"
  | (block) z d where "is_power_of2 a" "get_aligned_size n a = Ok z" "fresh_block (ml_live s) e (unat z)"
      "unat a dvd unat d" "unat e \<le> unat d" "unat d + unat n \<le> unat e + unat z" "d \<noteq> 0"
      "malloc_allocate oc e n a s = Ok (d,
         s\<lparr>mem_ptrs := mem_ptrs s @ [e], ml_live := (ml_live s)(e \<mapsto> unat z)\<rparr>)"
proof (cases "is_power_of2 a \<and> is_Ok (get_aligned_size n a) \<and> e \<noteq> 0")
  case False
  then show ?thesis
    by (intro null) (auto simp: malloc_allocate_def get_aligned_size_def Let_def split: if_splits)
next
  case True
  then obtain z where z: "get_aligned_size n a = Ok z" and a: "is_power_of2 a" and e: "e \<noteq> 0"
    by (auto simp: is_Ok_iff)
  with assms have fr: "fresh_block (ml_live s) e (unat z)" and e16: "16 dvd unat e"
    by (simp_all add: malloc_env_ok_def)
  then have fit: "unat e + unat z < 2 ^ 64" by (simp add: fresh_block_def)
  from a z e16 fit obtain d where d: "\<And>oc. align_pointer oc e a = Ok d" "unat a dvd unat d"
      "unat e \<le> unat d" "unat d + unat n \<le> unat e + unat z"
    by (rule malloc_data_in_block) blast
  have "0 < unat e" using e by (simp add: unat_gt_0)
  with d(3) have "d \<noteq> 0" by (auto simp flip: unat_eq_0)
  with d z a e fr show ?thesis
    by (intro block [of z d]) (simp_all add: malloc_allocate_def Let_def)
qed

interpretation malloc: allocator
  "malloc_allocate oc" malloc_reset ml_inv ml_claimed malloc_env_ok for oc
proof (unfold_locales, goal_cases)
  case (1 s e n a s')
  from 1(2) show ?case by (rule malloc_allocate_cases [where oc = oc]) (use 1(3) in auto)
next
  case (2 s e n a p s')
  from 2(2) show ?case
    by (rule malloc_allocate_cases [where oc = oc])
      (use 2 in \<open>auto simp: fresh_block_def ml_inv_def\<close>)
next
  case (3 s e n a p s')
  from 3(2) show ?case by (rule malloc_allocate_cases [where oc = oc]) (use 3 in auto)
next
  case (4 s e n a p s')
  from 4(2) show ?case
    by (rule malloc_allocate_cases [where oc = oc]) (use 4 in \<open>auto simp: fresh_block_def\<close>)
next
  case (5 s e n a p s')
  from 5(2) show ?case
  proof (rule malloc_allocate_cases [where oc = oc], goal_cases)
    case (2 z d)
    then have "region p n \<subseteq> {unat e ..< unat e + unat z}" using 5(3) by (auto simp: region_def)
    with 2(3) show ?case by (auto simp: fresh_block_def ml_claimed_def)
  qed (use 5 in auto)
next
  case (6 s e n a p s')
  from 6(2) show ?case
  proof (rule malloc_allocate_cases [where oc = oc], goal_cases)
    case (2 z d)
    then have "region p n \<subseteq> {unat e ..< unat e + unat z}" using 6(3) by (auto simp: region_def)
    with 2 6(3) show ?case by (auto simp: fresh_block_def ml_claimed_def block_bytes_upd)
  qed (use 6 in auto)
next
  case (7 s)
  then show ?case
    by (simp add: malloc_reset_ok ml_claimed_def) (simp add: malloc_new_def ml_inv_def)
qed


section \<open>Properties\<close>

lemma platform_alloc_all_returns:
  "pa_inv s \<Longrightarrow> env_all (platform_allocate oc) platform_env_ok rs s \<Longrightarrow>
   \<exists>ps s'. alloc_all (platform_allocate oc) rs s = Ok (ps, s')"
proof (induction rs arbitrary: s)
  case Nil
  then show ?case by simp
next
  case (Cons rq rs)
  obtain e n a where rq: "rq = (e, n, a)" by (cases rq) auto
  then have env: "platform_env_ok e n a s" using Cons.prems(2) by simp
  then obtain p s1 where al: "platform_allocate oc e n a s = Ok (p, s1)"
    by (rule platform_allocate_cases [where oc = oc]) auto
  then have "pa_inv s1" using platform.alloc_inv [OF Cons.prems(1) env] by blast
  with Cons.IH [of s1] Cons.prems(2) obtain ps s' where "alloc_all (platform_allocate oc) rs s1 = Ok (ps, s')"
    by (auto simp: rq al)
  then show ?case by (simp add: rq al)
qed

lemma malloc_alloc_all_returns:
  "ml_inv s \<Longrightarrow> env_all (malloc_allocate oc) malloc_env_ok rs s \<Longrightarrow>
   \<exists>ps s'. alloc_all (malloc_allocate oc) rs s = Ok (ps, s')"
proof (induction rs arbitrary: s)
  case Nil
  then show ?case by simp
next
  case (Cons rq rs)
  obtain e n a where rq: "rq = (e, n, a)" by (cases rq) auto
  then have env: "malloc_env_ok e n a s" using Cons.prems(2) by simp
  then obtain p s1 where al: "malloc_allocate oc e n a s = Ok (p, s1)"
    by (rule malloc_allocate_cases [where oc = oc]) auto
  then have "ml_inv s1" using malloc.alloc_inv [OF Cons.prems(1) env] by blast
  with Cons.IH [of s1] Cons.prems(2) obtain ps s' where "alloc_all (malloc_allocate oc) rs s1 = Ok (ps, s')"
    by (auto simp: rq al)
  then show ?case by (simp add: rq al)
qed

lemma platform_new_inv: "pa_inv platform_new"
  by (simp add: pa_inv_def platform_new_def)

lemma malloc_new_inv: "ml_inv malloc_new"
  by (simp add: ml_inv_def malloc_new_def)

text \<open>
  The platform allocator serves any sequence of requests without panicking, in both build
  profiles, with pairwise disjoint blocks; the reset that follows (which is also the
  destructor) terminates, follows its linked list to the end, frees every block exactly once
  and leaves the empty allocator. The hypothesis is the platform layer's contract: it answers
  each request with null or with a block that overlaps no live block.
\<close>
theorem platform_run_then_reset:
  assumes "env_all (platform_allocate oc) platform_env_ok rs platform_new"
  shows "\<exists>ps s. alloc_all (platform_allocate oc) rs platform_new = Ok (ps, s) \<and>
    pairwise_disjoint (regions_of rs ps) \<and> platform_reset s = Some (Ok platform_new)"
proof -
  obtain ps s where run: "alloc_all (platform_allocate oc) rs platform_new = Ok (ps, s)"
    using platform_alloc_all_returns [OF platform_new_inv assms] by blast
  note sound = platform.alloc_all_sound [OF platform_new_inv assms run]
  then have "platform_reset s = Some (Ok platform_new)" by (intro platform_reset_ok) simp
  moreover from sound have "pairwise_disjoint (regions_of rs ps)" by (elim conjE)
  ultimately show ?thesis using run by (intro exI conjI)
qed

definition two_requests :: "(usize \<times> usize \<times> usize) list" where
  "two_requests = [(0x10000, 24, 8), (0x20000, 3, 64)]"

lemma two_requests_platform_env: "env_all (platform_allocate False) platform_env_ok two_requests platform_new"
  by (simp add: two_requests_def platform_env_ok_def platform_alloc_size_def platform_allocate_def
      fresh_block_def block_bytes_def is_power_of2_def align_pointer_def usub_def checked_add_def
      sizeof_node_def platform_new_def Let_def) auto

theorem platform_run_then_reset_witness:
  "\<exists>ps s. alloc_all (platform_allocate False) two_requests platform_new = Ok (ps, s) \<and>
    platform_reset s = Some (Ok platform_new)"
  using platform_run_then_reset [OF two_requests_platform_env] by blast

text \<open>
  The malloc allocator serves any sequence of requests without panicking, with pairwise
  disjoint blocks, and its reset frees every block exactly once, under the contract of
  \<^verbatim>\<open>malloc\<close>: null, or a block aligned to 16 that overlaps no live block.
\<close>
theorem malloc_run_then_reset:
  assumes "env_all (malloc_allocate oc) malloc_env_ok rs malloc_new"
  shows "\<exists>ps s. alloc_all (malloc_allocate oc) rs malloc_new = Ok (ps, s) \<and>
    pairwise_disjoint (regions_of rs ps) \<and> malloc_reset s = Ok malloc_new"
proof -
  obtain ps s where run: "alloc_all (malloc_allocate oc) rs malloc_new = Ok (ps, s)"
    using malloc_alloc_all_returns [OF malloc_new_inv assms] by blast
  note sound = malloc.alloc_all_sound [OF malloc_new_inv assms run]
  then have "malloc_reset s = Ok malloc_new" by (intro malloc_reset_ok) simp
  moreover from sound have "pairwise_disjoint (regions_of rs ps)" by (elim conjE)
  ultimately show ?thesis using run by (intro exI conjI)
qed

lemma two_requests_malloc_env: "env_all (malloc_allocate False) malloc_env_ok two_requests malloc_new"
  by (simp add: two_requests_def malloc_env_ok_def get_aligned_size_def malloc_allocate_def
      fresh_block_def block_bytes_def is_power_of2_def align_pointer_def usub_def
      malloc_alignment_def malloc_new_def usize_max_def Let_def) auto

theorem malloc_run_then_reset_witness:
  "\<exists>ps s. alloc_all (malloc_allocate False) two_requests malloc_new = Ok (ps, s) \<and>
    malloc_reset s = Ok malloc_new"
  using malloc_run_then_reset [OF two_requests_malloc_env] by blast

end
