(* ===== verification/Hierarchical_Allocator.thy ===== *)
theory Hierarchical_Allocator
  imports Memory_Allocator
begin

text \<open>
  Memory-planned buffers: the pointer-and-length views of \<^verbatim>\<open>runtime/core/span.rs\<close>, the group of
  buffers of \<^verbatim>\<open>runtime/core/hierarchical_allocator.rs\<close> from which planned tensors take their
  addresses, and the container of \<^verbatim>\<open>runtime/executor/memory_manager.rs\<close>. A span is its base
  address and its length in bytes; the bytes themselves are not read here.
\<close>

section \<open>Spans and devices\<close>

record span =
  span_data :: usize
  span_size :: usize

definition span_empty :: span where
  "span_empty = \<lparr>span_data = 0, span_size = 0\<rparr>"

definition span_from_raw_parts :: "bool \<Rightarrow> usize \<Rightarrow> usize \<Rightarrow> span result" where
  "span_from_raw_parts oc data length' =
     (if oc \<and> \<not> (data \<noteq> 0 \<or> length' = 0) then Panic
      else Ok \<lparr>span_data = data, span_size = length'\<rparr>)"

datatype DeviceType = CPU | CUDA

record device =
  device_type :: DeviceType
  device_index :: int

section \<open>The hierarchical allocator\<close>

record hierarchical_allocator =
  ha_buffers :: "span list"
  ha_devices :: "device list"

definition span_array_size :: nat where
  "span_array_size = 16"

definition hierarchical_new :: "span list \<Rightarrow> hierarchical_allocator" where
  "hierarchical_new buffers = \<lparr>ha_buffers = buffers, ha_devices = []\<rparr>"

definition hierarchical_with_devices :: "span list \<Rightarrow> device list \<Rightarrow> hierarchical_allocator result" where
  "hierarchical_with_devices buffers devices =
     (if length devices \<noteq> length buffers then Panic
      else Ok \<lparr>ha_buffers = buffers, ha_devices = devices\<rparr>)"

fun spans_of :: "bool \<Rightarrow> memory_allocator list \<Rightarrow> span list result" where
  "spans_of oc [] = Ok []"
| "spans_of oc (m # ms) =
     r_bind (span_from_raw_parts oc (base_address m) (ucast (allocator_size m))) (\<lambda>sp.
     r_bind (spans_of oc ms) (\<lambda>sps. Ok (sp # sps)))"

definition to_spans :: "bool \<Rightarrow> memory_allocator list \<Rightarrow> span list result" where
  "to_spans oc allocators =
     (if \<not> length allocators \<le> span_array_size then Panic else spans_of oc allocators)"

definition hierarchical_from_allocators ::
    "bool \<Rightarrow> memory_allocator list \<Rightarrow> hierarchical_allocator result" where
  "hierarchical_from_allocators oc allocators =
     r_bind (to_spans oc allocators) (\<lambda>sps. Ok \<lparr>ha_buffers = sps, ha_devices = []\<rparr>)"

definition get_offset_address ::
    "hierarchical_allocator \<Rightarrow> u32 \<Rightarrow> usize \<Rightarrow> usize \<Rightarrow> usize result" where
  "get_offset_address h memory_id offset_bytes size_bytes =
     (case checked_add offset_bytes size_bytes of
        None \<Rightarrow> Err InvalidArgument
      | Some end_bytes \<Rightarrow>
          if \<not> unat memory_id < length (ha_buffers h) then Err InvalidArgument
          else
            let buffer = ha_buffers h ! unat memory_id
            in if \<not> end_bytes \<le> span_size buffer then Err MemoryAllocationFailed
               else Ok (span_data buffer + offset_bytes))"

definition planned_buffer_devices :: "hierarchical_allocator \<Rightarrow> device list" where
  "planned_buffer_devices h = ha_devices h"

section \<open>The memory manager\<close>

text \<open>
  The allocators are borrowed pointers; the constructor only compares their addresses. The
  planned memory may be null.
\<close>

record memory_manager =
  mm_method_allocator :: usize
  mm_planned_memory :: "hierarchical_allocator option"
  mm_temp_allocator :: usize

definition memory_manager_new ::
    "usize \<Rightarrow> hierarchical_allocator option \<Rightarrow> usize \<Rightarrow> memory_manager result" where
  "memory_manager_new method planned temp =
     (if method = temp then Panic
      else Ok \<lparr>mm_method_allocator = method, mm_planned_memory = planned, mm_temp_allocator = temp\<rparr>)"

definition mm_planned_buffer_devices :: "memory_manager \<Rightarrow> device list" where
  "mm_planned_buffer_devices m =
     (case mm_planned_memory m of None \<Rightarrow> [] | Some h \<Rightarrow> planned_buffer_devices h)"

definition has_device_memory :: "memory_manager \<Rightarrow> bool" where
  "has_device_memory m \<longleftrightarrow> 0 < length (mm_planned_buffer_devices m)"

section \<open>Properties\<close>

text \<open>A buffer that lies in the address space, as every buffer of a live program does.\<close>

definition span_ok :: "span \<Rightarrow> bool" where
  "span_ok sp \<longleftrightarrow> unat (span_data sp) + unat (span_size sp) < 2 ^ 64"

definition span_bytes :: "span \<Rightarrow> nat set" where
  "span_bytes sp = {unat (span_data sp) ..< unat (span_data sp) + unat (span_size sp)}"

lemma get_offset_address_Ok_iff:
  "get_offset_address h m off n = Ok p \<longleftrightarrow>
     unat m < length (ha_buffers h) \<and>
     unat off + unat n \<le> unat (span_size (ha_buffers h ! unat m)) \<and>
     p = span_data (ha_buffers h ! unat m) + off"
proof (cases "unat off + unat n < 2 ^ 64")
  case True
  then show ?thesis
    by (auto simp: get_offset_address_def checked_add_def Let_def word_le_nat_alt unat_add_no_overflow)
next
  case False
  then show ?thesis
    using unat_lt_64 [of "span_size (ha_buffers h ! unat m)"]
    by (auto simp: get_offset_address_def checked_add_def)
qed

lemma get_offset_address_in_buffer:
  assumes "get_offset_address h m off n = Ok p" and "span_ok (ha_buffers h ! unat m)"
  shows "region p n \<subseteq> span_bytes (ha_buffers h ! unat m)"
    and "unat p = unat (span_data (ha_buffers h ! unat m)) + unat off"
proof -
  let ?b = "ha_buffers h ! unat m"
  from assms have le: "unat off + unat n \<le> unat (span_size ?b)" and p: "p = span_data ?b + off"
    by (simp_all add: get_offset_address_Ok_iff)
  then have "unat (span_data ?b) + unat off < 2 ^ 64" using assms(2) by (simp add: span_ok_def)
  then show "unat p = unat (span_data ?b) + unat off"
    using p unat_add_no_overflow [of "span_data ?b" off] by simp
  with le show "region p n \<subseteq> span_bytes ?b" by (auto simp: region_def span_bytes_def)
qed

text \<open>
  Planned memory is bounds-checked: a request for \<open>size\<close> bytes at \<open>offset\<close> of buffer
  \<open>memory_id\<close> succeeds exactly when the buffer exists and holds the whole range, with no
  wrap-around of the sum, and then returns the address at that offset of the buffer; when it
  fails, the error is \<open>InvalidArgument\<close> for a sum that overflows or a buffer that does not
  exist and \<open>MemoryAllocationFailed\<close> for a range that leaves the buffer.
\<close>
theorem get_offset_address_checks_bounds:
  "get_offset_address h m off n =
     (if 2 ^ 64 \<le> unat off + unat n \<or> length (ha_buffers h) \<le> unat m then Err InvalidArgument
      else if unat (span_size (ha_buffers h ! unat m)) < unat off + unat n
      then Err MemoryAllocationFailed
      else Ok (span_data (ha_buffers h ! unat m) + off))"
  by (auto simp: get_offset_address_def checked_add_def Let_def word_le_nat_alt unat_add_no_overflow)

lemma spans_of_Ok:
  "spans_of oc ms = Ok sps \<Longrightarrow>
   sps = map (\<lambda>m. \<lparr>span_data = ma_begin m, span_size = ucast (ma_size m)\<rparr>) ms"
  by (induction ms arbitrary: sps)
    (auto simp: outcome_simps span_from_raw_parts_def base_address_def allocator_size_def
      split: if_splits)

lemma ma_inv_span_ok:
  "ma_inv m \<Longrightarrow> span_ok \<lparr>span_data = ma_begin m, span_size = ucast (ma_size m)\<rparr>"
  using unat_lt_64 [of "ma_end m"]
  by (auto simp: ma_inv_def span_ok_def ucast_u32_unat split: if_splits)

text \<open>
  C23. Address ranges taken from different planned buffers never overlap, and neither do ranges
  at disjoint offsets of one buffer: when the group was built from well-formed bump allocators
  over disjoint buffers, two successful requests that differ in buffer, or whose offset ranges
  are disjoint, return disjoint address ranges.
\<close>
theorem planned_ranges_disjoint:
  assumes from_allocators: "hierarchical_from_allocators oc ms = Ok h"
    and wf: "\<forall>a \<in> set ms. ma_inv a"
    and buffers: "\<forall>i j. i < j \<longrightarrow> j < length ms \<longrightarrow>
      {unat (ma_begin (ms ! i)) ..< unat (ma_begin (ms ! i)) + unat (ma_size (ms ! i))} \<inter>
      {unat (ma_begin (ms ! j)) ..< unat (ma_begin (ms ! j)) + unat (ma_size (ms ! j))} = {}"
    and p: "get_offset_address h m off n = Ok p"
    and q: "get_offset_address h m' off' n' = Ok q"
    and apart: "m \<noteq> m' \<or> unat off + unat n \<le> unat off' \<or> unat off' + unat n' \<le> unat off"
  shows "region p n \<inter> region q n' = {}"
proof -
  let ?sp = "\<lambda>a. \<lparr>span_data = ma_begin a, span_size = ucast (ma_size a)\<rparr>"
  have h: "ha_buffers h = map ?sp ms"
    using from_allocators
    by (auto simp: hierarchical_from_allocators_def to_spans_def outcome_simps dest: spans_of_Ok
        split: if_splits)
  have lt: "unat m < length ms" "unat m' < length ms"
    using p q by (simp_all add: get_offset_address_Ok_iff h)
  then have ok: "span_ok (ha_buffers h ! unat m)" "span_ok (ha_buffers h ! unat m')"
    using wf ma_inv_span_ok by (simp_all add: h)
  note pr = get_offset_address_in_buffer [OF p ok(1)]
  note qr = get_offset_address_in_buffer [OF q ok(2)]
  show ?thesis
  proof (cases "m = m'")
    case True
    with apart pr(2) qr(2) show ?thesis by (auto simp: region_def)
  next
    case False
    then have "unat m \<noteq> unat m'" by (simp add: word_unat_eq_iff)
    then have "span_bytes (ha_buffers h ! unat m) \<inter> span_bytes (ha_buffers h ! unat m') = {}"
      using buffers [rule_format, of "unat m" "unat m'"] buffers [rule_format, of "unat m'" "unat m"] lt
      by (cases "unat m < unat m'") (auto simp: h span_bytes_def ucast_u32_unat)
    with pr(1) qr(1) show ?thesis by blast
  qed
qed

definition two_arenas :: "memory_allocator list" where
  "two_arenas =
     [\<lparr>ma_begin = 0x1000, ma_end = 0x1040, ma_cur = 0x1000, ma_size = 0x40, ma_prof_id = - 1\<rparr>,
      \<lparr>ma_begin = 0x2000, ma_end = 0x2080, ma_cur = 0x2000, ma_size = 0x80, ma_prof_id = - 1\<rparr>]"

definition two_buffers :: hierarchical_allocator where
  "two_buffers =
     \<lparr>ha_buffers = [\<lparr>span_data = 0x1000, span_size = 0x40\<rparr>, \<lparr>span_data = 0x2000, span_size = 0x80\<rparr>],
      ha_devices = []\<rparr>"

theorem planned_ranges_disjoint_witness:
  "get_offset_address two_buffers 0 0x20 0x20 = Ok 0x1020 \<and>
   get_offset_address two_buffers 1 0x20 0x20 = Ok 0x2020 \<and>
   region 0x1020 0x20 \<inter> region 0x2020 0x20 = {}"
proof -
  have h: "hierarchical_from_allocators False two_arenas = Ok two_buffers"
    by (simp add: hierarchical_from_allocators_def to_spans_def span_array_size_def two_arenas_def
        two_buffers_def span_from_raw_parts_def base_address_def allocator_size_def)
  have wf: "\<forall>a \<in> set two_arenas. ma_inv a"
    by (simp add: two_arenas_def ma_inv_def word_le_nat_alt)
  have buf: "\<forall>i j. i < j \<longrightarrow> j < length two_arenas \<longrightarrow>
      {unat (ma_begin (two_arenas ! i)) ..< unat (ma_begin (two_arenas ! i)) + unat (ma_size (two_arenas ! i))} \<inter>
      {unat (ma_begin (two_arenas ! j)) ..< unat (ma_begin (two_arenas ! j)) + unat (ma_size (two_arenas ! j))} = {}"
    by (auto simp: two_arenas_def less_Suc_eq)
  have p: "get_offset_address two_buffers 0 0x20 0x20 = Ok 0x1020"
    and q: "get_offset_address two_buffers 1 0x20 0x20 = Ok 0x2020"
    by (simp_all add: get_offset_address_checks_bounds two_buffers_def)
  from planned_ranges_disjoint [OF h wf buf p q] p q show ?thesis by simp
qed

end
