(* ===== verification/Freeable_Buffer.thy ===== *)
theory Freeable_Buffer
  imports Errors "HOL-Library.Multiset"
begin

text \<open>
  The owning read-only buffer of \<^verbatim>\<open>runtime/core/freeable_buffer.rs\<close>, through which data loaders
  hand out memory. A buffer holds a pointer or a 64-bit address together with an optional free
  function; the function is an identifier here, and a call of it is an entry of a log, with its
  context, data and size arguments. A program is a store of buffers on which buffers are moved,
  freed and finally dropped.
\<close>

section \<open>Buffers\<close>

datatype fb_data =
    PointerData (pd_data: usize) (pd_free_fn: "nat option")
  | UInt64Data (ud_data: u64) (ud_free_fn: "nat option")

record freeable_buffer =
  fb_data :: fb_data
  fb_context :: usize
  fb_size :: usize

datatype free_call =
    FreeFn nat usize usize usize
  | FreeUInt64Fn nat usize u64 usize

definition fb_new :: freeable_buffer where
  "fb_new = \<lparr>fb_data = PointerData 0 None, fb_context = 0, fb_size = 0\<rparr>"

definition fb_from_pointer :: "usize \<Rightarrow> usize \<Rightarrow> nat option \<Rightarrow> usize \<Rightarrow> freeable_buffer" where
  "fb_from_pointer data sz free_fn context =
     \<lparr>fb_data = PointerData data free_fn, fb_context = context, fb_size = sz\<rparr>"

definition fb_from_uint64 :: "u64 \<Rightarrow> usize \<Rightarrow> nat option \<Rightarrow> usize \<Rightarrow> freeable_buffer" where
  "fb_from_uint64 data sz free_fn context =
     \<lparr>fb_data = UInt64Data data free_fn, fb_context = context, fb_size = sz\<rparr>"

text \<open>The move constructor returns the new buffer and the source, reset in its own variant.\<close>

definition fb_from_move :: "freeable_buffer \<Rightarrow> freeable_buffer \<times> freeable_buffer" where
  "fb_from_move rhs =
     (\<lparr>fb_data = fb_data rhs, fb_context = fb_context rhs, fb_size = fb_size rhs\<rparr>,
      rhs\<lparr>fb_data := (case fb_data rhs of PointerData _ _ \<Rightarrow> PointerData 0 None
                                      | UInt64Data _ _ \<Rightarrow> UInt64Data 0 None),
          fb_context := 0, fb_size := 0\<rparr>)"

definition fb_free :: "freeable_buffer \<Rightarrow> free_call list \<times> freeable_buffer" where
  "fb_free b =
     (case fb_data b of
        PointerData p f \<Rightarrow>
          ((if p \<noteq> 0 \<and> f \<noteq> None then [FreeFn (the f) (fb_context b) p (fb_size b)] else []),
           b\<lparr>fb_data := PointerData 0 f, fb_size := 0\<rparr>)
      | UInt64Data d f \<Rightarrow>
          ((if d \<noteq> 0 \<and> f \<noteq> None then [FreeUInt64Fn (the f) (fb_context b) d (fb_size b)] else []),
           b\<lparr>fb_data := UInt64Data 0 f, fb_size := 0\<rparr>))"

definition fb_data_safe :: "freeable_buffer \<Rightarrow> usize result" where
  "fb_data_safe b =
     (case fb_data b of PointerData p _ \<Rightarrow> Ok p | UInt64Data _ _ \<Rightarrow> Err InvalidType)"

definition fb_data_ptr :: "freeable_buffer \<Rightarrow> usize result" where
  "fb_data_ptr b = (case fb_data b of PointerData p _ \<Rightarrow> Ok p | UInt64Data _ _ \<Rightarrow> Panic)"

definition fb_data_uint64_type :: "freeable_buffer \<Rightarrow> u64 result" where
  "fb_data_uint64_type b =
     (case fb_data b of UInt64Data d _ \<Rightarrow> Ok d | PointerData _ _ \<Rightarrow> Err InvalidType)"

section \<open>Programs over buffers\<close>

text \<open>
  \<open>MoveBuf i\<close> moves the buffer in slot \<open>i\<close> to a new slot; \<open>FreeBuf i\<close> frees it explicitly.
  Dropping a buffer frees it; at the end of the program every slot is dropped.
\<close>

datatype fb_op = MoveBuf nat | FreeBuf nat

fun fb_step :: "fb_op \<Rightarrow> free_call list \<times> freeable_buffer list \<Rightarrow> free_call list \<times> freeable_buffer list" where
  "fb_step (MoveBuf i) (log, bs) =
     (if i < length bs
      then let (new, old) = fb_from_move (bs ! i) in (log, bs[i := old] @ [new])
      else (log, bs))"
| "fb_step (FreeBuf i) (log, bs) =
     (if i < length bs
      then let (calls, b) = fb_free (bs ! i) in (log @ calls, bs[i := b])
      else (log, bs))"

fun fb_drop_all :: "freeable_buffer list \<Rightarrow> free_call list" where
  "fb_drop_all [] = []"
| "fb_drop_all (b # bs) = fst (fb_free b) @ fb_drop_all bs"

definition fb_program :: "fb_op list \<Rightarrow> freeable_buffer list \<Rightarrow> free_call list" where
  "fb_program ops bs =
     (let (log, bs') = fold fb_step ops ([], bs) in log @ fb_drop_all bs')"

section \<open>Each buffer is freed once\<close>

definition owed :: "freeable_buffer \<Rightarrow> free_call multiset" where
  "owed b = mset (fst (fb_free b))"

lemma owed_free [simp]: "owed (snd (fb_free b)) = {#}"
  by (auto simp: owed_def fb_free_def split: fb_data.splits)

lemma owed_move:
  "owed (fst (fb_from_move b)) = owed b" "owed (snd (fb_from_move b)) = {#}"
  by (auto simp: owed_def fb_free_def fb_from_move_def split: fb_data.splits)

lemma sum_list_owed_update:
  "i < length bs \<Longrightarrow> sum_list (map owed (bs[i := b])) + owed (bs ! i) = sum_list (map owed bs) + owed b"
  by (induction bs arbitrary: i) (auto simp: nth_Cons add_ac split: nat.splits)

lemma fb_step_accounts:
  "fb_step op (log, bs) = (log', bs') \<Longrightarrow>
   mset log' + sum_list (map owed bs') = mset log + sum_list (map owed bs)"
proof (induction op "(log, bs)" rule: fb_step.induct)
  case (1 i)
  obtain new old where m: "fb_from_move (bs ! i) = (new, old)" by force
  then have "owed new = owed (bs ! i)" and "owed old = {#}"
    using owed_move [of "bs ! i"] by auto
  with 1 m show ?case
    using sum_list_owed_update [of i bs old] by (auto simp: Let_def add_ac split: if_splits)
next
  case (2 i)
  then show ?case
    using sum_list_owed_update [of i bs "snd (fb_free (bs ! i))"] owed_free [of "bs ! i"]
      owed_def [of "bs ! i"]
    by (auto simp: Let_def add_ac split: if_splits prod.splits)
qed

lemma fb_steps_account:
  "fold fb_step ops (log, bs) = (log', bs') \<Longrightarrow>
   mset log' + sum_list (map owed bs') = mset log + sum_list (map owed bs)"
proof (induction ops arbitrary: log bs)
  case Nil
  then show ?case by simp
next
  case (Cons op ops)
  obtain log1 bs1 where s: "fb_step op (log, bs) = (log1, bs1)" by force
  with Cons.prems Cons.IH [of log1 bs1] fb_step_accounts [OF s] show ?case by simp
qed

lemma mset_fb_drop_all: "mset (fb_drop_all bs) = sum_list (map owed bs)"
  by (induction bs) (auto simp: owed_def)

text \<open>
  C24. Free functions run exactly once: whatever buffers a program starts with and however it
  moves and frees them, once everything has been dropped the calls made are, as a multiset,
  exactly one call for each buffer that held non-null data with a free function, with the
  context, data and size it was created with; nothing is freed twice and nothing leaks.
\<close>
theorem buffers_freed_exactly_once:
  "mset (fb_program ops bs) =
     sum_list (map (\<lambda>b. case fb_data b of
        PointerData p (Some f) \<Rightarrow> (if p = 0 then {#} else {#FreeFn f (fb_context b) p (fb_size b)#})
      | UInt64Data d (Some f) \<Rightarrow> (if d = 0 then {#} else {#FreeUInt64Fn f (fb_context b) d (fb_size b)#})
      | _ \<Rightarrow> {#}) bs)"
proof -
  obtain log bs' where r: "fold fb_step ops ([], bs) = (log, bs')" by force
  have "mset (fb_program ops bs) = mset log + sum_list (map owed bs')"
    by (simp add: fb_program_def r mset_fb_drop_all)
  also have "\<dots> = sum_list (map owed bs)" using fb_steps_account [OF r] by simp
  also have "owed = (\<lambda>b. case fb_data b of
        PointerData p (Some f) \<Rightarrow> (if p = 0 then {#} else {#FreeFn f (fb_context b) p (fb_size b)#})
      | UInt64Data d (Some f) \<Rightarrow> (if d = 0 then {#} else {#FreeUInt64Fn f (fb_context b) d (fb_size b)#})
      | _ \<Rightarrow> {#})"
    by (auto simp: fun_eq_iff owed_def fb_free_def split: fb_data.splits option.splits)
  finally show ?thesis .
qed

lemma fb_free_idem: "fb_free (snd (fb_free b)) = ([], snd (fb_free b))"
  by (auto simp: fb_free_def split: fb_data.splits)

lemma fb_accessors_exclusive: "is_Ok (fb_data_safe b) \<noteq> is_Ok (fb_data_uint64_type b)"
  by (auto simp: fb_data_safe_def fb_data_uint64_type_def split: fb_data.splits)

lemma fb_data_ptr_safe: "fb_data_safe b = Ok p \<Longrightarrow> fb_data_ptr b = Ok p"
  by (auto simp: fb_data_safe_def fb_data_ptr_def split: fb_data.splits)

end
