(* ===== verification/Scalar_Types.thy ===== *)
theory Scalar_Types
  imports Errors
begin

text \<open>
  The element types of tensors: the enumeration of
  \<^verbatim>\<open>runtime/core/portable_type/scalar_type.rs\<close> and the metadata, casting and promotion functions
  of \<^verbatim>\<open>runtime/core/exec_aten/util/scalar_type_util.rs\<close>, with the sets of types that its
  \<^verbatim>\<open>et_switch_*_types!\<close> macros dispatch on. An \<^verbatim>\<open>et_check!\<close> that fails aborts and is
  \<open>Panic\<close> here.
\<close>

section \<open>The enumeration\<close>

datatype ScalarType =
    Byte
  | Char
  | Short
  | Int_t
  | Long
  | Half
  | Float
  | Double
  | ComplexHalf
  | ComplexFloat
  | ComplexDouble
  | Bool
  | QInt8
  | QUInt8
  | QInt32
  | BFloat16
  | QUInt4x2
  | QUInt2x4
  | Bits1x8
  | Bits2x4
  | Bits4x2
  | Bits8
  | Bits16
  | Float8_e5m2
  | Float8_e4m3fn
  | Float8_e5m2fnuz
  | Float8_e4m3fnuz
  | UInt16
  | UInt32
  | UInt64
  | Undefined
  | NumOptions

fun discriminant :: "ScalarType \<Rightarrow> int" where
  "discriminant Byte = 0"
| "discriminant Char = 1"
| "discriminant Short = 2"
| "discriminant Int_t = 3"
| "discriminant Long = 4"
| "discriminant Half = 5"
| "discriminant Float = 6"
| "discriminant Double = 7"
| "discriminant ComplexHalf = 8"
| "discriminant ComplexFloat = 9"
| "discriminant ComplexDouble = 10"
| "discriminant Bool = 11"
| "discriminant QInt8 = 12"
| "discriminant QUInt8 = 13"
| "discriminant QInt32 = 14"
| "discriminant BFloat16 = 15"
| "discriminant QUInt4x2 = 16"
| "discriminant QUInt2x4 = 17"
| "discriminant Bits1x8 = 18"
| "discriminant Bits2x4 = 19"
| "discriminant Bits4x2 = 20"
| "discriminant Bits8 = 21"
| "discriminant Bits16 = 22"
| "discriminant Float8_e5m2 = 23"
| "discriminant Float8_e4m3fn = 24"
| "discriminant Float8_e5m2fnuz = 25"
| "discriminant Float8_e4m3fnuz = 26"
| "discriminant UInt16 = 27"
| "discriminant UInt32 = 28"
| "discriminant UInt64 = 29"
| "discriminant Undefined = 30"
| "discriminant NumOptions = 31"

definition all_scalar_types :: "ScalarType list" where
  "all_scalar_types =
     [Byte, Char, Short, Int_t, Long, Half,
      Float, Double, ComplexHalf, ComplexFloat, ComplexDouble, Bool,
      QInt8, QUInt8, QInt32, BFloat16, QUInt4x2, QUInt2x4,
      Bits1x8, Bits2x4, Bits4x2, Bits8, Bits16, Float8_e5m2,
      Float8_e4m3fn, Float8_e5m2fnuz, Float8_e4m3fnuz, UInt16, UInt32, UInt64,
      Undefined, NumOptions]"

lemma all_scalar_types: "t \<in> set all_scalar_types"
  by (cases t) (simp_all add: all_scalar_types_def)

lemma discriminant_inject: "discriminant s = discriminant t \<longleftrightarrow> s = t"
proof -
  have "distinct (map discriminant all_scalar_types)" by (simp add: all_scalar_types_def)
  then show ?thesis using all_scalar_types by (metis distinct_map inj_on_def)
qed

lemma all_types_iff: "(\<forall>t. P t) \<longleftrightarrow> (\<forall>t \<in> set all_scalar_types. P t)"
  using all_scalar_types by blast

section \<open>Metadata\<close>

definition is_valid :: "ScalarType \<Rightarrow> bool" where
  "is_valid t \<longleftrightarrow> 0 \<le> discriminant t \<and> discriminant t < discriminant NumOptions \<and> t \<noteq> Undefined"

fun scalar_type_to_string :: "ScalarType \<Rightarrow> string" where
  "scalar_type_to_string Byte = ''Byte''"
| "scalar_type_to_string Char = ''Char''"
| "scalar_type_to_string Short = ''Short''"
| "scalar_type_to_string Int_t = ''Int''"
| "scalar_type_to_string Long = ''Long''"
| "scalar_type_to_string Half = ''Half''"
| "scalar_type_to_string Float = ''Float''"
| "scalar_type_to_string Double = ''Double''"
| "scalar_type_to_string ComplexHalf = ''ComplexHalf''"
| "scalar_type_to_string ComplexFloat = ''ComplexFloat''"
| "scalar_type_to_string ComplexDouble = ''ComplexDouble''"
| "scalar_type_to_string Bool = ''Bool''"
| "scalar_type_to_string QInt8 = ''QInt8''"
| "scalar_type_to_string QUInt8 = ''QUInt8''"
| "scalar_type_to_string QInt32 = ''QInt32''"
| "scalar_type_to_string BFloat16 = ''BFloat16''"
| "scalar_type_to_string QUInt4x2 = ''QUInt4x2''"
| "scalar_type_to_string QUInt2x4 = ''QUInt2x4''"
| "scalar_type_to_string Bits1x8 = ''Bits1x8''"
| "scalar_type_to_string Bits2x4 = ''Bits2x4''"
| "scalar_type_to_string Bits4x2 = ''Bits4x2''"
| "scalar_type_to_string Bits8 = ''Bits8''"
| "scalar_type_to_string Bits16 = ''Bits16''"
| "scalar_type_to_string Float8_e5m2 = ''Float8_e5m2''"
| "scalar_type_to_string Float8_e4m3fn = ''Float8_e4m3fn''"
| "scalar_type_to_string Float8_e5m2fnuz = ''Float8_e5m2fnuz''"
| "scalar_type_to_string Float8_e4m3fnuz = ''Float8_e4m3fnuz''"
| "scalar_type_to_string UInt16 = ''UInt16''"
| "scalar_type_to_string UInt32 = ''UInt32''"
| "scalar_type_to_string UInt64 = ''UInt64''"
| "scalar_type_to_string Undefined = ''Undefined''"
| "scalar_type_to_string NumOptions = ''UNKNOWN_SCALAR''"

fun element_size :: "ScalarType \<Rightarrow> usize result" where
  "element_size Byte = Ok 1"
| "element_size Char = Ok 1"
| "element_size Short = Ok 2"
| "element_size Int_t = Ok 4"
| "element_size Long = Ok 8"
| "element_size Half = Ok 2"
| "element_size Float = Ok 4"
| "element_size Double = Ok 8"
| "element_size ComplexHalf = Ok 4"
| "element_size ComplexFloat = Ok 8"
| "element_size ComplexDouble = Ok 16"
| "element_size Bool = Ok 1"
| "element_size QInt8 = Ok 1"
| "element_size QUInt8 = Ok 1"
| "element_size QInt32 = Ok 4"
| "element_size BFloat16 = Ok 2"
| "element_size QUInt4x2 = Ok 1"
| "element_size QUInt2x4 = Ok 1"
| "element_size Bits1x8 = Ok 1"
| "element_size Bits2x4 = Ok 1"
| "element_size Bits4x2 = Ok 1"
| "element_size Bits8 = Ok 1"
| "element_size Bits16 = Ok 2"
| "element_size Float8_e5m2 = Ok 1"
| "element_size Float8_e4m3fn = Ok 1"
| "element_size Float8_e5m2fnuz = Ok 1"
| "element_size Float8_e4m3fnuz = Ok 1"
| "element_size UInt16 = Ok 2"
| "element_size UInt32 = Ok 4"
| "element_size UInt64 = Ok 8"
| "element_size _ = Panic"

definition is_integral_type :: "ScalarType \<Rightarrow> bool \<Rightarrow> bool" where
  "is_integral_type t include_bool \<longleftrightarrow>
     (include_bool \<and> t = Bool) \<or> t \<in> {Byte, Char, Int_t, Long, Short}"

definition is_floating_type :: "ScalarType \<Rightarrow> bool" where
  "is_floating_type t \<longleftrightarrow> t \<in> {Double, Float, Half, BFloat16}"

definition is_real_type :: "ScalarType \<Rightarrow> bool" where
  "is_real_type t \<longleftrightarrow> t \<in> {Byte, Char, Short, Int_t, Long, Float, Double}"

definition is_real_h_type :: "ScalarType \<Rightarrow> bool" where
  "is_real_h_type t \<longleftrightarrow> t \<in> {Byte, Char, Short, Int_t, Long, Float, Double, Half}"

definition is_real_hb_type :: "ScalarType \<Rightarrow> bool" where
  "is_real_hb_type t \<longleftrightarrow> is_real_h_type t \<or> t = Bool"

definition is_real_hbf16_type :: "ScalarType \<Rightarrow> bool" where
  "is_real_hbf16_type t \<longleftrightarrow> is_real_h_type t \<or> t = BFloat16"

definition is_real_hbbf16_type :: "ScalarType \<Rightarrow> bool" where
  "is_real_hbbf16_type t \<longleftrightarrow> is_real_hb_type t \<or> t = BFloat16"

definition is_complex_type :: "ScalarType \<Rightarrow> bool" where
  "is_complex_type t \<longleftrightarrow> t \<in> {ComplexHalf, ComplexFloat, ComplexDouble}"

definition is_bits_type :: "ScalarType \<Rightarrow> bool" where
  "is_bits_type t \<longleftrightarrow> t \<in> {Bits1x8, Bits2x4, Bits4x2, Bits8, Bits16}"

definition is_qint_type :: "ScalarType \<Rightarrow> bool" where
  "is_qint_type t \<longleftrightarrow> t \<in> {QInt8, QUInt8, QInt32, QUInt4x2, QUInt2x4}"

definition is_float8_type :: "ScalarType \<Rightarrow> bool" where
  "is_float8_type t \<longleftrightarrow> t \<in> {Float8_e5m2, Float8_e4m3fn, Float8_e5m2fnuz, Float8_e4m3fnuz}"

definition is_barebones_unsigned_type :: "ScalarType \<Rightarrow> bool" where
  "is_barebones_unsigned_type t \<longleftrightarrow> t \<in> {UInt16, UInt32, UInt64}"

fun to_q_int_type :: "ScalarType \<Rightarrow> ScalarType" where
  "to_q_int_type Byte = QUInt8"
| "to_q_int_type Char = QInt8"
| "to_q_int_type Int_t = QInt32"
| "to_q_int_type t = t"

fun to_underlying :: "ScalarType \<Rightarrow> ScalarType" where
  "to_underlying QUInt8 = Byte"
| "to_underlying QInt8 = Char"
| "to_underlying QInt32 = Int_t"
| "to_underlying QUInt4x2 = Byte"
| "to_underlying QUInt2x4 = Byte"
| "to_underlying t = t"

definition is_signed_type :: "ScalarType \<Rightarrow> bool result" where
  "is_signed_type t =
     (if is_qint_type t then Panic
      else if t \<in> {ComplexHalf, ComplexFloat, ComplexDouble} then Ok True
      else if t \<in> {Byte, Bool} then Ok False
      else if t \<in> {Char, Short, Int_t, Long, Float, Double, Half, BFloat16} then Ok True
      else Panic)"

definition is_underlying :: "ScalarType \<Rightarrow> ScalarType \<Rightarrow> bool" where
  "is_underlying ty qtype \<longleftrightarrow> ty = to_underlying qtype"

fun to_real_value_type :: "ScalarType \<Rightarrow> ScalarType" where
  "to_real_value_type ComplexHalf = Half"
| "to_real_value_type ComplexFloat = Float"
| "to_real_value_type ComplexDouble = Double"
| "to_real_value_type t = t"

fun to_complex_type :: "ScalarType \<Rightarrow> ScalarType result" where
  "to_complex_type BFloat16 = Ok ComplexFloat"
| "to_complex_type Half = Ok ComplexHalf"
| "to_complex_type Float = Ok ComplexFloat"
| "to_complex_type Double = Ok ComplexDouble"
| "to_complex_type ComplexHalf = Ok ComplexHalf"
| "to_complex_type ComplexFloat = Ok ComplexFloat"
| "to_complex_type ComplexDouble = Ok ComplexDouble"
| "to_complex_type _ = Panic"

definition can_cast :: "ScalarType \<Rightarrow> ScalarType \<Rightarrow> bool" where
  "can_cast from' to' \<longleftrightarrow>
     \<not> (is_complex_type from' \<and> \<not> is_complex_type to') \<and>
     \<not> (is_floating_type from' \<and> is_integral_type to' False) \<and>
     \<not> (from' \<noteq> Bool \<and> to' = Bool)"

section \<open>Type promotion\<close>

definition index2dtype :: "ScalarType list" where
  "index2dtype =
     [Byte, Char, Short, Int_t, Long, Half, Float, Double, ComplexHalf, ComplexFloat, ComplexDouble,
      Bool, BFloat16]"

text \<open>The inverse table is computed by two loops over an array of \<^verbatim>\<open>NumOptions\<close> entries.\<close>

fun dtype2index_loop :: "nat \<Rightarrow> ScalarType list \<Rightarrow> int list \<Rightarrow> int list" where
  "dtype2index_loop i [] tbl = tbl"
| "dtype2index_loop i (t # ts) tbl =
     dtype2index_loop (Suc i) ts (tbl[nat (discriminant t) := int i])"

definition calculate_dtype2index :: "int list" where
  "calculate_dtype2index =
     dtype2index_loop 0 index2dtype (replicate (nat (discriminant NumOptions)) (- 1))"

abbreviation U1 :: ScalarType where "U1 \<equiv> Byte"
abbreviation I1 :: ScalarType where "I1 \<equiv> Char"
abbreviation I2 :: ScalarType where "I2 \<equiv> Short"
abbreviation I4 :: ScalarType where "I4 \<equiv> Int_t"
abbreviation I8 :: ScalarType where "I8 \<equiv> Long"
abbreviation F2 :: ScalarType where "F2 \<equiv> Half"
abbreviation F4 :: ScalarType where "F4 \<equiv> Float"
abbreviation F8 :: ScalarType where "F8 \<equiv> Double"
abbreviation C2 :: ScalarType where "C2 \<equiv> ComplexHalf"
abbreviation C4 :: ScalarType where "C4 \<equiv> ComplexFloat"
abbreviation C8 :: ScalarType where "C8 \<equiv> ComplexDouble"
abbreviation B1 :: ScalarType where "B1 \<equiv> Bool"
abbreviation BF :: ScalarType where "BF \<equiv> BFloat16"

definition promote_types_lookup :: "ScalarType list list" where
  "promote_types_lookup =
     [[U1, I2, I2, I4, I8, F2, F4, F8, C2, C4, C8, U1, BF],
      [I2, I1, I2, I4, I8, F2, F4, F8, C2, C4, C8, I1, BF],
      [I2, I2, I2, I4, I8, F2, F4, F8, C2, C4, C8, I2, BF],
      [I4, I4, I4, I4, I8, F2, F4, F8, C2, C4, C8, I4, BF],
      [I8, I8, I8, I8, I8, F2, F4, F8, C2, C4, C8, I8, BF],
      [F2, F2, F2, F2, F2, F2, F4, F8, C2, C4, C8, F2, F4],
      [F4, F4, F4, F4, F4, F4, F4, F8, C4, C4, C8, F4, F4],
      [F8, F8, F8, F8, F8, F8, F8, F8, C8, C8, C8, F8, F8],
      [C2, C2, C2, C2, C2, C2, C4, C8, C2, C4, C8, C2, C4],
      [C4, C4, C4, C4, C4, C4, C4, C8, C4, C4, C8, C4, C4],
      [C8, C8, C8, C8, C8, C8, C8, C8, C8, C8, C8, C8, C8],
      [U1, I1, I2, I4, I8, F2, F4, F8, C2, C4, C8, B1, BF],
      [BF, BF, BF, BF, BF, F4, F4, F8, C4, C4, C8, BF, BF]]"

definition promote_types :: "ScalarType \<Rightarrow> ScalarType \<Rightarrow> bool \<Rightarrow> ScalarType result" where
  "promote_types a b half_to_float =
     (if is_qint_type a \<and> a = b then Ok a
      else if is_qint_type a \<or> is_qint_type b then Panic
      else if is_bits_type a \<and> a = b then Ok a
      else if is_bits_type a \<or> is_bits_type b then Panic
      else if is_float8_type a \<and> a = b then Ok a
      else if is_float8_type a \<or> is_float8_type b then Panic
      else if is_barebones_unsigned_type a \<and> a = b then Ok a
      else if is_barebones_unsigned_type a \<or> is_barebones_unsigned_type b then Panic
      else if \<not> discriminant a < int (length calculate_dtype2index) then Panic
      else let ix_a = calculate_dtype2index ! nat (discriminant a)
      in if ix_a = - 1 then Panic
      else if \<not> discriminant b < int (length calculate_dtype2index) then Panic
      else let ix_b = calculate_dtype2index ! nat (discriminant b)
      in if ix_b = - 1 then Panic
      else let promoted_type = promote_types_lookup ! nat ix_a ! nat ix_b
      in if half_to_float \<and> (promoted_type = Half \<or> promoted_type = BFloat16) then Ok Float
      else Ok promoted_type)"

section \<open>The dispatch sets\<close>

text \<open>
  The types each \<^verbatim>\<open>et_switch_*_types!\<close> macro has an arm for. A type without an arm makes the
  macro record \<open>InvalidArgument\<close> on the kernel context and yield the default value.
\<close>

definition switch_real_types :: "ScalarType list" where
  "switch_real_types = [Byte, Char, Short, Int_t, Long, Float, Double]"

definition switch_int_types :: "ScalarType list" where
  "switch_int_types = [Byte, Char, Short, Int_t, Long]"

definition switch_float_types :: "ScalarType list" where
  "switch_float_types = [Float, Double]"

definition switch_realhbbf16_types :: "ScalarType list" where
  "switch_realhbbf16_types = [Byte, Char, Short, Int_t, Long, Float, Double, Half, Bool, BFloat16]"

definition switch_all_types :: "ScalarType list" where
  "switch_all_types = [Byte, Char, Short, Int_t, Long, Float, Double, Half, BFloat16, Bool, ComplexHalf, ComplexFloat, ComplexDouble, QInt8, QUInt8, QInt32, QUInt4x2, QUInt2x4, Bits1x8, Bits2x4, Bits4x2, Bits8, Bits16]"

definition switch_realhbf16_types :: "ScalarType list" where
  "switch_realhbf16_types = [Byte, Char, Short, Int_t, Long, Float, Double, Half, BFloat16]"

definition switch_realb_types :: "ScalarType list" where
  "switch_realb_types = [Byte, Char, Short, Int_t, Long, Float, Double, Bool]"

definition switch_floathbf16_types :: "ScalarType list" where
  "switch_floathbf16_types = [Float, Double, Half, BFloat16]"

definition switch_floath_types :: "ScalarType list" where
  "switch_floath_types = [Float, Double, Half]"

definition switch_complexh_types :: "ScalarType list" where
  "switch_complexh_types = [ComplexHalf, ComplexFloat, ComplexDouble]"

definition switch_floathbf16_types_and_Long :: "ScalarType list" where
  "switch_floathbf16_types_and_Long = [Float, Double, Half, BFloat16, Long]"

definition switch_int_types_and_Bool :: "ScalarType list" where
  "switch_int_types_and_Bool = [Byte, Char, Short, Int_t, Long, Bool]"

definition switch_real_types_and_Bool :: "ScalarType list" where
  "switch_real_types_and_Bool = [Byte, Char, Short, Int_t, Long, Float, Double, Bool]"

definition switch_two_types_Bool_Byte :: "ScalarType list" where
  "switch_two_types_Bool_Byte = [Bool, Byte]"

definition switch_two_types_Int_Long :: "ScalarType list" where
  "switch_two_types_Int_Long = [Int_t, Long]"

definition switch_two_types_Long_Int :: "ScalarType list" where
  "switch_two_types_Long_Int = [Long, Int_t]"

definition switch_two_types_Byte_Char :: "ScalarType list" where
  "switch_two_types_Byte_Char = [Byte, Char]"

definition switch_two_types_Float_Half :: "ScalarType list" where
  "switch_two_types_Float_Half = [Float, Half]"

definition switch_float_types_and_Half :: "ScalarType list" where
  "switch_float_types_and_Half = [Float, Double, Half]"

definition switch_three_types_Float_Half_BFloat16 :: "ScalarType list" where
  "switch_three_types_Float_Half_BFloat16 = [Float, Half, BFloat16]"


text \<open>
  The macro itself: \<open>fail\<close> is the context's \<^verbatim>\<open>fail\<close> method, \<open>body\<close> the arm's body and
  \<open>dflt\<close> the default value of its result type.
\<close>

definition et_internal_switch ::
    "ScalarType list \<Rightarrow> (Error \<Rightarrow> 'c \<Rightarrow> 'c) \<Rightarrow> ScalarType \<Rightarrow> (ScalarType \<Rightarrow> 'c \<Rightarrow> 'a \<times> 'c) \<Rightarrow> 'a \<Rightarrow> 'c \<Rightarrow> 'a \<times> 'c" where
  "et_internal_switch arms fail t body dflt ctx =
     (if t \<in> set arms then body t ctx else (dflt, fail InvalidArgument ctx))"


section \<open>Promotion is union of features\<close>

text \<open>
  The specification of promotion: what a type can represent is a set of features, and the
  promoted type has the union of the features of both operands. \<open>Bool\<close> has none; the signed
  and unsigned bytes are incomparable and join to \<open>Short\<close>, as \<open>Half\<close> and \<open>BFloat16\<close> join to
  \<open>Float\<close>.
\<close>

datatype feature = F_u8 | F_i8 | F_i32 | F_i64 | F_half | F_bf16 | F_double | F_complex

fun features :: "ScalarType \<Rightarrow> feature set" where
  "features Byte = {F_u8}"
| "features Char = {F_i8}"
| "features Short = {F_u8, F_i8}"
| "features Int_t = {F_u8, F_i8, F_i32}"
| "features Long = {F_u8, F_i8, F_i32, F_i64}"
| "features Half = {F_u8, F_i8, F_i32, F_i64, F_half}"
| "features BFloat16 = {F_u8, F_i8, F_i32, F_i64, F_bf16}"
| "features Float = {F_u8, F_i8, F_i32, F_i64, F_half, F_bf16}"
| "features Double = {F_u8, F_i8, F_i32, F_i64, F_half, F_bf16, F_double}"
| "features ComplexHalf = {F_u8, F_i8, F_i32, F_i64, F_half, F_complex}"
| "features ComplexFloat = {F_u8, F_i8, F_i32, F_i64, F_half, F_bf16, F_complex}"
| "features ComplexDouble = {F_u8, F_i8, F_i32, F_i64, F_half, F_bf16, F_double, F_complex}"
| "features _ = {}"

definition promotable :: "ScalarType \<Rightarrow> bool" where
  "promotable t \<longleftrightarrow> t \<in> set index2dtype"

definition exact_match_only :: "ScalarType \<Rightarrow> bool" where
  "exact_match_only t \<longleftrightarrow>
     is_qint_type t \<or> is_bits_type t \<or> is_float8_type t \<or> is_barebones_unsigned_type t"

lemma dtype2index_eq:
  "calculate_dtype2index =
     [0, 1, 2, 3, 4, 5, 6, 7, 8, 9, 10, 11, - 1, - 1, - 1, 12, - 1, - 1, - 1, - 1, - 1, - 1, - 1,
      - 1, - 1, - 1, - 1, - 1, - 1, - 1, - 1]"
  by code_simp

definition table_index :: "ScalarType \<Rightarrow> nat" where
  "table_index t = nat (calculate_dtype2index ! nat (discriminant t))"

definition table_join :: "ScalarType \<Rightarrow> ScalarType \<Rightarrow> ScalarType" where
  "table_join a b = promote_types_lookup ! table_index a ! table_index b"

lemmas type_class_defs =
  promotable_def exact_match_only_def index2dtype_def is_qint_type_def is_bits_type_def
  is_float8_type_def is_barebones_unsigned_type_def

lemma promotable_index:
  "promotable t \<Longrightarrow> \<not> is_qint_type t \<and> \<not> is_bits_type t \<and> \<not> is_float8_type t \<and>
     \<not> is_barebones_unsigned_type t \<and> discriminant t < int (length calculate_dtype2index) \<and>
     calculate_dtype2index ! nat (discriminant t) \<noteq> - 1"
  by (cases t) (simp_all add: type_class_defs dtype2index_eq)

lemma promote_types_table:
  assumes "promotable a" and "promotable b"
  shows "promote_types a b False = Ok (table_join a b)"
  using promotable_index [OF assms(1)] promotable_index [OF assms(2)]
  unfolding promote_types_def table_join_def table_index_def Let_def by simp

lemma promote_table_features:
  "list_all (\<lambda>a. list_all (\<lambda>b. promotable (table_join a b) \<and>
     features (table_join a b) = features a \<union> features b)
     index2dtype) index2dtype"
  by code_simp

lemma table_join_features:
  assumes "promotable a" and "promotable b"
  shows "promotable (table_join a b)" "features (table_join a b) = features a \<union> features b"
  using promote_table_features assms by (simp_all add: list_all_iff promotable_def)

lemma features_inject: "promotable a \<Longrightarrow> promotable b \<Longrightarrow> features a = features b \<longleftrightarrow> a = b"
proof -
  have "list_all (\<lambda>a. list_all (\<lambda>b. features a = features b \<longrightarrow> a = b) index2dtype) index2dtype"
    by code_simp
  then show "promotable a \<Longrightarrow> promotable b \<Longrightarrow> features a = features b \<longleftrightarrow> a = b"
    by (auto simp: list_all_iff promotable_def)
qed

lemma type_classes: "is_valid t \<longleftrightarrow> promotable t \<or> exact_match_only t"
  by (cases t) (simp_all add: is_valid_def promotable_def exact_match_only_def index2dtype_def
      is_qint_type_def is_bits_type_def is_float8_type_def is_barebones_unsigned_type_def)

lemma promotable_not_exact: "promotable t \<Longrightarrow> \<not> exact_match_only t"
  by (cases t) (simp_all add: promotable_def exact_match_only_def index2dtype_def
      is_qint_type_def is_bits_type_def is_float8_type_def is_barebones_unsigned_type_def)

definition promote_by_table :: "ScalarType \<Rightarrow> ScalarType \<Rightarrow> bool \<Rightarrow> ScalarType result" where
  "promote_by_table a b h =
     (if \<not> discriminant a < int (length calculate_dtype2index) then Panic
      else if calculate_dtype2index ! nat (discriminant a) = - 1 then Panic
      else if \<not> discriminant b < int (length calculate_dtype2index) then Panic
      else if calculate_dtype2index ! nat (discriminant b) = - 1 then Panic
      else if h \<and> (table_join a b = Half \<or>
        table_join a b = BFloat16) then Ok Float
      else Ok (table_join a b))"

lemma promote_types_split:
  "promote_types a b h =
     (if exact_match_only a \<or> exact_match_only b then (if a = b then Ok a else Panic)
      else promote_by_table a b h)"
proof -
  have "promote_types a b h =
     (if is_qint_type a \<and> a = b then Ok a
      else if is_qint_type a \<or> is_qint_type b then Panic
      else if is_bits_type a \<and> a = b then Ok a
      else if is_bits_type a \<or> is_bits_type b then Panic
      else if is_float8_type a \<and> a = b then Ok a
      else if is_float8_type a \<or> is_float8_type b then Panic
      else if is_barebones_unsigned_type a \<and> a = b then Ok a
      else if is_barebones_unsigned_type a \<or> is_barebones_unsigned_type b then Panic
      else promote_by_table a b h)"
    unfolding promote_types_def promote_by_table_def Let_def table_join_def table_index_def
    by (rule refl)
  then show ?thesis unfolding exact_match_only_def by (cases "a = b") auto
qed

lemma promote_exact_match:
  "exact_match_only a \<or> exact_match_only b \<Longrightarrow>
   promote_types a b h = (if a = b then Ok a else Panic)"
  by (simp add: promote_types_split)

lemma not_valid_index:
  "\<not> is_valid t \<Longrightarrow> \<not> discriminant t < int (length calculate_dtype2index) \<or>
     calculate_dtype2index ! nat (discriminant t) = - 1"
  by (cases t) (simp_all add: is_valid_def dtype2index_eq)

lemma promote_half_to_float:
  "promote_types a b True =
     r_bind (promote_types a b False) (\<lambda>c.
       if \<not> exact_match_only a \<and> (c = Half \<or> c = BFloat16) then Ok Float else Ok c)"
  by (cases "exact_match_only a \<or> exact_match_only b")
    (auto simp: promote_types_split promote_by_table_def)

lemma promote_by_table_undefined:
  assumes "\<not> promotable a \<or> \<not> promotable b" and "\<not> exact_match_only a" and "\<not> exact_match_only b"
  shows "promote_by_table a b h = Panic"
  using assms not_valid_index [of a] not_valid_index [of b] type_classes
  unfolding promote_by_table_def by auto

lemma promote_Ok_iff:
  "promote_types a b False = Ok c \<longleftrightarrow>
     (exact_match_only a \<and> a = b \<and> c = a) \<or> (promotable a \<and> promotable b \<and> c = table_join a b)"
proof (cases "exact_match_only a \<or> exact_match_only b")
  case True
  then show ?thesis using promotable_not_exact [of a] promotable_not_exact [of b]
    by (auto simp: promote_exact_match)
next
  case False
  show ?thesis
  proof (cases "promotable a \<and> promotable b")
    case True
    with False show ?thesis by (auto simp: promote_types_table)
  next
    case undef: False
    then show ?thesis using False promote_by_table_undefined [of a b False]
      by (auto simp: promote_types_split)
  qed
qed

lemma promote_Ok_features:
  assumes "promote_types a b False = Ok c"
  shows "(exact_match_only a \<and> a = b \<and> c = a) \<or>
    (promotable a \<and> promotable b \<and> promotable c \<and> features c = features a \<union> features b)"
  using assms table_join_features [of a b] by (auto simp: promote_Ok_iff)

lemma promote_not_Err: "promote_types a b h \<noteq> Err e"
  by (simp add: promote_types_split promote_by_table_def)

lemma table_join_comm: "promotable a \<Longrightarrow> promotable b \<Longrightarrow> table_join a b = table_join b a"
  using features_inject [of "table_join a b" "table_join b a"]
  by (simp add: table_join_features Un_commute)

lemma table_join_assoc:
  assumes "promotable a" and "promotable b" and "promotable c"
  shows "table_join (table_join a b) c = table_join a (table_join b c)"
  using assms features_inject [of "table_join (table_join a b) c" "table_join a (table_join b c)"]
  by (simp add: table_join_features Un_assoc)

lemma join_not_exact: "promotable a \<Longrightarrow> promotable b \<Longrightarrow> \<not> exact_match_only (table_join a b)"
  by (simp add: promotable_not_exact table_join_features(1))

lemma promote_twice_left:
  "r_bind (promote_types a b False) (\<lambda>x. promote_types x c False) = Ok d \<longleftrightarrow>
     (exact_match_only a \<and> a = b \<and> a = c \<and> d = a) \<or>
     (promotable a \<and> promotable b \<and> promotable c \<and> d = table_join (table_join a b) c)"
proof (cases "promotable a \<and> promotable b")
  case True
  then have "\<not> exact_match_only a" and "\<not> exact_match_only (table_join a b)"
    and "promotable (table_join a b)"
    using promotable_not_exact table_join_features(1) by simp_all
  with True show ?thesis unfolding r_bind_Ok_iff promote_Ok_iff by auto
next
  case False
  then show ?thesis unfolding r_bind_Ok_iff promote_Ok_iff
    using promotable_not_exact [of a] by (cases "exact_match_only a") auto
qed

lemma promote_twice_right:
  "r_bind (promote_types b c False) (\<lambda>x. promote_types a x False) = Ok d \<longleftrightarrow>
     (exact_match_only b \<and> a = b \<and> b = c \<and> d = b) \<or>
     (promotable a \<and> promotable b \<and> promotable c \<and> d = table_join a (table_join b c))"
proof (cases "promotable b \<and> promotable c")
  case True
  then have "\<not> exact_match_only b" and "\<not> exact_match_only (table_join b c)"
    and "promotable (table_join b c)"
    using promotable_not_exact table_join_features(1) by simp_all
  with True show ?thesis
    using promote_Ok_iff [of a "table_join b c" d] promotable_not_exact [of a]
    by (cases "exact_match_only a") (auto simp: promote_types_table)
next
  case False
  then show ?thesis unfolding r_bind_Ok_iff promote_Ok_iff
    using promotable_not_exact [of b] by (cases "exact_match_only b") auto
qed

text \<open>The join of two types of the table: the type with the features of both.\<close>

lemma promote_joins:
  "promote_types a b False =
     (if exact_match_only a \<or> exact_match_only b then (if a = b then Ok a else Panic)
      else if is_valid a \<and> is_valid b
      then Ok (hd (filter (\<lambda>c. features c = features a \<union> features b) index2dtype))
      else Panic)"
proof -
  consider (exact) "exact_match_only a \<or> exact_match_only b"
    | (table) "promotable a" "promotable b" "\<not> exact_match_only a" "\<not> exact_match_only b"
    | (undef) "\<not> is_valid a \<or> \<not> is_valid b" "\<not> exact_match_only a" "\<not> exact_match_only b"
    using type_classes by blast
  then show ?thesis
  proof cases
    case table
    let ?js = "filter (\<lambda>c. features c = features a \<union> features b) index2dtype"
    have "table_join a b \<in> set ?js"
      using table table_join_features [of a b] by (simp add: promotable_def)
    then have "hd ?js \<in> set ?js" by (intro hd_in_set) (metis empty_iff empty_set)
    then have "hd ?js = table_join a b"
      using table table_join_features [of a b] features_inject [of "hd ?js" "table_join a b"]
      by (simp add: promotable_def)
    with table type_classes show ?thesis by (simp add: promote_types_table)
  next
    case undef
    then show ?thesis
      using promote_by_table_undefined [of a b False] type_classes by (auto simp: promote_types_split)
  qed (simp add: promote_exact_match)
qed

lemma promote_commutes: "promote_types a b h = promote_types b a h"
proof (cases "exact_match_only a \<or> exact_match_only b")
  case False
  show ?thesis
  proof (cases "promotable a \<and> promotable b")
    case True
    have "promote_types a b False = promote_types b a False"
      using True by (simp add: promote_types_table table_join_comm)
    then show ?thesis using False promote_half_to_float [of a b] promote_half_to_float [of b a]
      by (cases h) auto
  qed (use False promote_by_table_undefined in \<open>auto simp: promote_types_split\<close>)
qed (auto simp: promote_types_split)
lemma promote_assoc:
  "r_bind (promote_types a b False) (\<lambda>x. promote_types x c False) =
     r_bind (promote_types b c False) (\<lambda>x. promote_types a x False)"
proof (rule outcome_eqI)
  fix d
  show "r_bind (promote_types a b False) (\<lambda>x. promote_types x c False) = Ok d \<longleftrightarrow>
      r_bind (promote_types b c False) (\<lambda>x. promote_types a x False) = Ok d"
    unfolding promote_twice_left promote_twice_right using table_join_assoc [of a b c] by auto
qed (auto simp: promote_not_Err r_bind_Err_iff)

lemma promote_same: "promote_types a a False = (if is_valid a then Ok a else Panic)"
  by (cases a; hypsubst; code_simp)

text \<open>
  C12. Type promotion is a join. Quantized, bits, 8-bit float and barebones unsigned types promote
  only with themselves. Any two other valid types, which are the types of the promotion table, promote
  to the type whose features are the union of the features of both, where the half-to-float option
  turns a 16-bit float result into \<open>Float\<close>; every other combination aborts. Promotion is commutative
  with either setting of the option, aborts included; without it, it is associative, aborts included,
  and idempotent on the valid types; with it the result is never a 16-bit float.
\<close>
theorem promote_types_join:
  "promote_types a b h =
     (if exact_match_only a \<or> exact_match_only b then (if a = b then Ok a else Panic)
      else if is_valid a \<and> is_valid b
      then let c = hd (filter (\<lambda>c. features c = features a \<union> features b) index2dtype)
        in Ok (if h \<and> (c = Half \<or> c = BFloat16) then Float else c)
      else Panic) \<and>
   promote_types a b h = promote_types b a h \<and>
   r_bind (promote_types a b False) (\<lambda>x. promote_types x c False) =
     r_bind (promote_types b c False) (\<lambda>x. promote_types a x False) \<and>
   promote_types a a False = (if is_valid a then Ok a else Panic) \<and>
   promote_types a b True \<notin> {Ok Half, Ok BFloat16}"
proof (intro conjI)
  show "promote_types a b h =
     (if exact_match_only a \<or> exact_match_only b then (if a = b then Ok a else Panic)
      else if is_valid a \<and> is_valid b
      then let c = hd (filter (\<lambda>c. features c = features a \<union> features b) index2dtype)
        in Ok (if h \<and> (c = Half \<or> c = BFloat16) then Float else c)
      else Panic)"
    by (cases h) (auto simp: promote_joins promote_half_to_float Let_def)
  show "promote_types a b True \<notin> {Ok Half, Ok BFloat16}"
    by (auto simp: promote_types_split promote_by_table_def type_class_defs)
qed (fact promote_commutes promote_assoc promote_same)+

lemma can_cast_refl: "can_cast t t"
  by (cases t) (simp_all add: can_cast_def is_complex_type_def is_floating_type_def is_integral_type_def)

lemma features_castable:
  "promotable a \<Longrightarrow> promotable c \<Longrightarrow> features a \<subseteq> features c \<Longrightarrow> can_cast a c"
proof -
  have "list_all (\<lambda>a. list_all (\<lambda>c. features a \<subseteq> features c \<longrightarrow> can_cast a c) index2dtype) index2dtype"
    by code_simp
  then show "promotable a \<Longrightarrow> promotable c \<Longrightarrow> features a \<subseteq> features c \<Longrightarrow> can_cast a c"
    by (auto simp: list_all_iff promotable_def)
qed

text \<open>
  A promoted type can hold both operands: whenever promotion returns a type, with either
  setting of the half-to-float option, the casting rules allow casting each operand to it.
\<close>
theorem promoted_type_castable:
  assumes "promote_types a b h = Ok c"
  shows "can_cast a c \<and> can_cast b c"
proof -
  have step: "promote_types a b False = Ok c \<Longrightarrow> can_cast a c \<and> can_cast b c" for c
    using promote_Ok_features [of a b c] features_castable [of a c] features_castable [of b c]
    by (auto simp: can_cast_refl)
  show ?thesis
  proof (cases h)
    case True
    with assms obtain d where d: "promote_types a b False = Ok d"
      and "c = d \<or> (d = Half \<or> d = BFloat16) \<and> c = Float"
      using promote_half_to_float [of a b] by (cases "promote_types a b False") (auto split: if_splits)
    then show ?thesis using step [OF d] by (auto simp: can_cast_def type_class_defs is_complex_type_def
          is_floating_type_def is_integral_type_def)
  qed (use assms step in simp)
qed

theorem promoted_type_castable_witness:
  "promote_types Half BFloat16 False = Ok Float \<and> can_cast Half Float \<and> can_cast BFloat16 Float"
proof -
  have "promote_types Half BFloat16 False = Ok Float" by code_simp
  from promoted_type_castable [OF this] this show ?thesis by simp
qed

section \<open>Sizes and dispatch\<close>

lemma element_size_range:
  assumes "element_size t = Ok n"
  shows "is_valid t" "1 \<le> unat n" "unat n \<le> 16"
  using assms by (cases t; simp add: is_valid_def)+

lemma element_size_Panic_iff: "element_size t = Panic \<longleftrightarrow> \<not> is_valid t"
  by (cases t) (simp_all add: is_valid_def)

lemma element_size_not_Err: "element_size t \<noteq> Err e"
  by (cases t) simp_all

lemma valid_element_size:
  assumes "is_valid t"
  obtains n where "element_size t = Ok n" and "1 \<le> unat n" and "unat n \<le> 16"
  using assms element_size_Panic_iff [of t] element_size_not_Err [of t] element_size_range [of t]
  by (cases "element_size t") auto

lemmas switch_arm_defs =
  switch_real_types_def switch_int_types_def switch_float_types_def switch_realhbbf16_types_def
  switch_all_types_def switch_realhbf16_types_def switch_realb_types_def
  switch_floathbf16_types_def switch_floath_types_def switch_complexh_types_def
  switch_int_types_and_Bool_def

lemmas type_predicate_defs =
  is_integral_type_def is_floating_type_def is_real_type_def is_real_h_type_def is_real_hb_type_def
  is_real_hbf16_type_def is_real_hbbf16_type_def is_complex_type_def

lemma et_internal_switch_cases:
  "t \<in> set arms \<Longrightarrow> et_internal_switch arms fail t body dflt ctx = body t ctx"
  "t \<notin> set arms \<Longrightarrow> et_internal_switch arms fail t body dflt ctx = (dflt, fail InvalidArgument ctx)"
  by (simp_all add: et_internal_switch_def)

text \<open>
  The dispatch macros run their body on exactly the types that the corresponding predicate
  accepts and otherwise report \<open>InvalidArgument\<close>; the macro for all types has no arm for the
  8-bit floats and the barebones unsigned types, although it is documented to cover them.
\<close>
theorem switch_macros_match_predicates:
  "set switch_real_types = {t. is_real_type t} \<and>
   set switch_realhbf16_types = {t. is_real_hbf16_type t} \<and>
   set switch_realhbbf16_types = {t. is_real_hbbf16_type t} \<and>
   set switch_int_types = {t. is_integral_type t False} \<and>
   set switch_int_types_and_Bool = {t. is_integral_type t True} \<and>
   set switch_floathbf16_types = {t. is_floating_type t} \<and>
   set switch_complexh_types = {t. is_complex_type t} \<and>
   set switch_all_types =
     {t. is_valid t \<and> \<not> is_float8_type t \<and> \<not> is_barebones_unsigned_type t}"
proof (intro conjI)
  show "set switch_all_types =
      {t. is_valid t \<and> \<not> is_float8_type t \<and> \<not> is_barebones_unsigned_type t}" (is "_ = ?R")
  proof (rule set_eqI)
    fix t show "t \<in> set switch_all_types \<longleftrightarrow> t \<in> ?R"
      by (cases t) (simp_all add: switch_all_types_def is_valid_def is_float8_type_def
          is_barebones_unsigned_type_def)
  qed
qed (auto simp: switch_arm_defs type_predicate_defs)

end
