(* ===== verification/Dim_Order.thy ===== *)
theory Dim_Order
  imports Errors "HOL-Library.Multiset"
begin

text \<open>
  \<^verbatim>\<open>runtime/core/exec_aten/util/dim_order_util.rs\<close>: the order in which the dimensions of a
  tensor are laid out in memory, its validation, and the translations between dim orders and
  strides. The C arrays behind the raw pointers are lists; \<open>dims\<close> is the number of elements the
  code reads. \<^verbatim>\<open>i32\<close> sizes and strides are integers with their range written out, and the flag
  \<open>oc\<close> says whether the build checks overflow.
\<close>

unbundle bit_operations_syntax

definition K_TENSOR_DIMENSION_LIMIT :: nat where
  "K_TENSOR_DIMENSION_LIMIT = 16"

section \<open>Predicates on dim orders\<close>

fun validate_loop :: "nat \<Rightarrow> u16 \<Rightarrow> u8 list \<Rightarrow> bool" where
  "validate_loop dims seen [] = True"
| "validate_loop dims seen (d # ds) =
     (if dims \<le> unat d then False
      else let mask = push_bit (unat d) 1
      in if seen AND mask \<noteq> 0 then False else validate_loop dims (seen OR mask) ds)"

definition validate_dim_order :: "u8 list \<Rightarrow> nat \<Rightarrow> bool" where
  "validate_dim_order dim_order dims =
     (if dims > K_TENSOR_DIMENSION_LIMIT then False
      else validate_loop dims 0 (take dims dim_order))"

fun contiguous_loop :: "nat \<Rightarrow> u8 list \<Rightarrow> bool" where
  "contiguous_loop i [] = True"
| "contiguous_loop i (d # ds) = (if d \<noteq> of_nat i then False else contiguous_loop (Suc i) ds)"

definition is_contiguous_dim_order :: "u8 list \<Rightarrow> nat \<Rightarrow> bool" where
  "is_contiguous_dim_order dim_order dims = contiguous_loop 0 (take dims dim_order)"

definition is_channels_last_dim_order :: "u8 list \<Rightarrow> nat \<Rightarrow> bool" where
  "is_channels_last_dim_order dim_order dims =
     (if dims \<noteq> 4 \<and> dims \<noteq> 5 then False
      else if dim_order ! (dims - 1) \<noteq> 1 then False
      else if dim_order ! 0 \<noteq> 0 then False
      else list_all (\<lambda>d. dim_order ! d = of_nat d + 1) [1 ..< dims - 1])"

section \<open>From dim order to strides\<close>

fun stride_loop :: "bool \<Rightarrow> int list \<Rightarrow> u8 list \<Rightarrow> nat \<Rightarrow> int list \<Rightarrow> int list result" where
  "stride_loop oc sizes dim_order 0 strides = Ok strides"
| "stride_loop oc sizes dim_order (Suc i) strides =
     (let nxt = unat (dim_order ! Suc i); cur = unat (dim_order ! i)
      in if sizes ! nxt = 0
         then stride_loop oc sizes dim_order i (strides[cur := strides ! nxt])
         else r_bind (i32_mul oc (strides ! nxt) (sizes ! nxt)) (\<lambda>v.
              stride_loop oc sizes dim_order i (strides[cur := v])))"

definition dim_order_to_stride_nocheck ::
    "bool \<Rightarrow> int list \<Rightarrow> u8 list \<Rightarrow> nat \<Rightarrow> int list \<Rightarrow> int list result" where
  "dim_order_to_stride_nocheck oc sizes dim_order dims strides =
     (if dims = 0 then Ok strides
      else stride_loop oc sizes dim_order (dims - 1)
        (strides[unat (dim_order ! (dims - 1)) := 1]))"

definition dim_order_to_stride ::
    "bool \<Rightarrow> int list \<Rightarrow> u8 list \<Rightarrow> nat \<Rightarrow> int list \<Rightarrow> int list result" where
  "dim_order_to_stride oc sizes dim_order dims strides =
     (if dims = 0 then Ok strides
      else if \<not> validate_dim_order dim_order dims then Err InvalidArgument
      else dim_order_to_stride_nocheck oc sizes dim_order dims strides)"

section \<open>From strides to dim order\<close>

record stride_dim_order =
  sdo_stride :: int
  sdo_dim_order :: u8

definition sdo_new :: "int \<Rightarrow> u8 \<Rightarrow> stride_dim_order" where
  "sdo_new stride d = \<lparr>sdo_stride = stride, sdo_dim_order = d\<rparr>"

definition sdo_default :: stride_dim_order where
  "sdo_default = \<lparr>sdo_stride = 0, sdo_dim_order = 0\<rparr>"

definition sdo_gt :: "stride_dim_order \<Rightarrow> stride_dim_order \<Rightarrow> bool" where
  "sdo_gt a b \<longleftrightarrow> sdo_stride a < sdo_stride b"

text \<open>Indexing a slice with an \<^verbatim>\<open>i32\<close> cast to \<^verbatim>\<open>usize\<close> panics outside the slice.\<close>

definition in_slice :: "'a list \<Rightarrow> int \<Rightarrow> bool" where
  "in_slice arr i \<longleftrightarrow> 0 \<le> i \<and> i < int (length arr)"

definition sorter_swap :: "stride_dim_order list \<Rightarrow> int \<Rightarrow> int \<Rightarrow> stride_dim_order list result" where
  "sorter_swap arr pos1 pos2 =
     (if \<not> in_slice arr pos1 \<or> \<not> in_slice arr pos2 then Panic
      else let temp = arr ! nat pos1
      in Ok ((arr[nat pos1 := arr ! nat pos2])[nat pos2 := temp]))"

function partition_loop ::
    "stride_dim_order list \<Rightarrow> int \<Rightarrow> int \<Rightarrow> int \<Rightarrow> stride_dim_order \<Rightarrow> (stride_dim_order list \<times> int) result" where
  "partition_loop arr i j high pivot =
     (if i \<le> high then
        if \<not> in_slice arr i then Panic
        else if sdo_gt (arr ! nat i) pivot then partition_loop arr (i + 1) j high pivot
        else r_bind (sorter_swap arr i j) (\<lambda>arr'. partition_loop arr' (i + 1) (j + 1) high pivot)
      else Ok (arr, j - 1))"
  by pat_completeness auto
termination by (relation "measure (\<lambda>(arr, i, j, high, pivot). nat (high + 1 - i))") auto

declare partition_loop.simps [simp del]

definition sorter_partition ::
    "stride_dim_order list \<Rightarrow> int \<Rightarrow> int \<Rightarrow> stride_dim_order \<Rightarrow> (stride_dim_order list \<times> int) result" where
  "sorter_partition arr low high pivot = partition_loop arr low low high pivot"

text \<open>
  The position that partitioning returns lies between its bounds, since the pivot is the last
  element of the range and is not greater than itself; this is why quick sort terminates.
\<close>

lemma sorter_swap_nat:
  assumes "i < length arr" and "j < length arr"
  shows "sorter_swap arr (int i) (int j) = Ok (arr[i := arr ! j, j := arr ! i])"
  using assms by (simp add: sorter_swap_def in_slice_def)

lemma partition_loop_correct:
  assumes "low \<le> j" and "j \<le> i" and "i \<le> high" and "high < length arr" and "arr ! high = pivot"
    and "\<forall>k. low \<le> k \<and> k < j \<longrightarrow> \<not> sdo_gt (arr ! k) pivot"
    and "\<forall>k. j \<le> k \<and> k < i \<longrightarrow> sdo_gt (arr ! k) pivot"
  shows "\<exists>arr' pos. partition_loop arr (int i) (int j) (int high) pivot = Ok (arr', int pos) \<and>
    low \<le> pos \<and> pos \<le> high \<and> mset arr' = mset arr \<and> arr' ! pos = pivot \<and>
    (\<forall>k. low \<le> k \<and> k < pos \<longrightarrow> \<not> sdo_gt (arr' ! k) pivot) \<and>
    (\<forall>k. pos < k \<and> k \<le> high \<longrightarrow> sdo_gt (arr' ! k) pivot) \<and>
    (\<forall>k. k < low \<or> high < k \<longrightarrow> arr' ! k = arr ! k)"
  using assms
proof (induction "high - i" arbitrary: arr i j rule: less_induct)
  case less
  have slice: "in_slice arr (int i)" using less.prems by (simp add: in_slice_def)
  show ?case
  proof (cases "sdo_gt (arr ! i) pivot")
    case True
    then have "i \<noteq> high" using less.prems(5) by (auto simp: sdo_gt_def)
    then have "i < high" using less.prems(3) by simp
    moreover have "\<forall>k. j \<le> k \<and> k < Suc i \<longrightarrow> sdo_gt (arr ! k) pivot"
      using less.prems(7) True by (auto simp: less_Suc_eq)
    moreover have "partition_loop arr (int i) (int j) (int high) pivot =
        partition_loop arr (int (Suc i)) (int j) (int high) pivot"
      using True slice less.prems(3) by (subst partition_loop.simps) (simp add: add.commute)
    ultimately show ?thesis
      using less.hyps [of "Suc i" j arr] less.prems by (simp add: diff_less_mono2)
  next
    case False
    let ?arr = "arr[i := arr ! j, j := arr ! i]"
    have step: "partition_loop arr (int i) (int j) (int high) pivot =
        partition_loop ?arr (int (Suc i)) (int (Suc j)) (int high) pivot"
      using False slice less.prems
      by (subst partition_loop.simps) (simp add: sorter_swap_nat add.commute)
    have L: "\<forall>k. low \<le> k \<and> k < Suc j \<longrightarrow> \<not> sdo_gt (?arr ! k) pivot"
      using less.prems False by (auto simp: nth_list_update less_Suc_eq)
    have R: "\<forall>k. Suc j \<le> k \<and> k < Suc i \<longrightarrow> sdo_gt (?arr ! k) pivot"
      using less.prems False by (auto simp: nth_list_update less_Suc_eq)
    have outside: "\<forall>k. k < low \<or> high < k \<longrightarrow> ?arr ! k = arr ! k"
      using less.prems by (auto simp: nth_list_update)
    have mset: "mset ?arr = mset arr"
      using less.prems mset_swap [of j arr i] by simp
    show ?thesis
    proof (cases "i = high")
      case True
      have "partition_loop ?arr (int (Suc i)) (int (Suc j)) (int high) pivot = Ok (?arr, int j)"
        using True by (subst partition_loop.simps) simp
      moreover have "?arr ! j = pivot" using less.prems True by (simp add: nth_list_update)
      ultimately show ?thesis
        using step L R outside mset less.prems True by (intro exI [of _ ?arr] exI [of _ j]) simp
    next
      case neq: False
      then have "i < high" using less.prems(3) by simp
      moreover have "?arr ! high = pivot" using less.prems neq \<open>i < high\<close> by (simp add: nth_list_update)
      ultimately obtain arr' pos where
        "partition_loop ?arr (int (Suc i)) (int (Suc j)) (int high) pivot = Ok (arr', int pos)"
        "low \<le> pos" "pos \<le> high" "mset arr' = mset ?arr" "arr' ! pos = pivot"
        "\<forall>k. low \<le> k \<and> k < pos \<longrightarrow> \<not> sdo_gt (arr' ! k) pivot"
        "\<forall>k. pos < k \<and> k \<le> high \<longrightarrow> sdo_gt (arr' ! k) pivot"
        "\<forall>k. k < low \<or> high < k \<longrightarrow> arr' ! k = ?arr ! k"
        using less.hyps [of "Suc i" "Suc j" ?arr] less.prems L R
        by (auto simp: diff_less_mono2)
      then show ?thesis using step mset outside
        by (intro exI [of _ arr'] exI [of _ pos]) simp
    qed
  qed
qed

lemma sorter_partition_correct:
  assumes "low \<le> high" and "high < length arr"
  obtains arr' pos where "sorter_partition arr (int low) (int high) (arr ! high) = Ok (arr', int pos)"
    and "low \<le> pos" and "pos \<le> high" and "mset arr' = mset arr" and "arr' ! pos = arr ! high"
    and "\<forall>k. low \<le> k \<and> k < pos \<longrightarrow> \<not> sdo_gt (arr' ! k) (arr ! high)"
    and "\<forall>k. pos < k \<and> k \<le> high \<longrightarrow> sdo_gt (arr' ! k) (arr ! high)"
    and "\<forall>k. k < low \<or> high < k \<longrightarrow> arr' ! k = arr ! k"
proof -
  have "\<forall>k. low \<le> k \<and> k < low \<longrightarrow> Q k" for Q :: "nat \<Rightarrow> bool" by auto
  then show thesis
    using partition_loop_correct [OF order_refl order_refl assms refl] that
    unfolding sorter_partition_def by blast
qed

lemma sorter_partition_pos:
  assumes "low < high" and "in_slice arr high"
    and "sorter_partition arr low high (arr ! nat high) = Ok (arr', pos)"
  shows "low \<le> pos" "pos \<le> high"
proof -
  have "in_slice arr low"
    using assms(1,3) unfolding sorter_partition_def by (subst (asm) partition_loop.simps) (auto split: if_splits)
  then obtain l h where "low = int l" and "high = int h" and "h < length arr"
    using assms(2) by (metis in_slice_def nonneg_int_cases of_nat_less_iff)
  moreover have "l \<le> h" using assms(1) calculation by simp
  from sorter_partition_correct [OF this \<open>h < length arr\<close>] obtain arr2 p where
    "sorter_partition arr (int l) (int h) (arr ! h) = Ok (arr2, int p)" and "l \<le> p" and "p \<le> h"
    by metis
  ultimately show "low \<le> pos" "pos \<le> high" using assms(3) by auto
qed

function quick_sort :: "stride_dim_order list \<Rightarrow> int \<Rightarrow> int \<Rightarrow> stride_dim_order list result" where
  "quick_sort arr low high =
     (if low < high then
        if \<not> in_slice arr high then Panic
        else let pivot = arr ! nat high
        in r_bind (sorter_partition arr low high pivot) (\<lambda>(arr1, pos).
           r_bind (quick_sort arr1 low (pos - 1)) (\<lambda>arr2.
           quick_sort arr2 (pos + 1) high))
      else Ok arr)"
  by pat_completeness auto
termination
  by (relation "measure (\<lambda>(arr, low, high). nat (high + 1 - low))")
    (auto dest: sorter_partition_pos)

declare quick_sort.simps [simp del]

fun fill_array :: "int list \<Rightarrow> nat \<Rightarrow> nat \<Rightarrow> stride_dim_order list \<Rightarrow> stride_dim_order list" where
  "fill_array strides i 0 arr = arr"
| "fill_array strides i (Suc n) arr =
     fill_array strides (Suc i) n (arr[i := sdo_new (strides ! i) (of_nat i)])"

fun copy_dim_order :: "stride_dim_order list \<Rightarrow> nat \<Rightarrow> nat \<Rightarrow> u8 list \<Rightarrow> u8 list" where
  "copy_dim_order arr i 0 out = out"
| "copy_dim_order arr i (Suc n) out =
     copy_dim_order arr (Suc i) n (out[i := sdo_dim_order (arr ! i)])"

text \<open>\<open>out\<close> is the caller's array, \<open>None\<close> for a null pointer; the new array is returned with
  \<open>Error_Ok\<close>.\<close>

definition stride_to_dim_order :: "int list \<Rightarrow> nat \<Rightarrow> u8 list option \<Rightarrow> u8 list result" where
  "stride_to_dim_order strides dims out =
     (case out of
        None \<Rightarrow> Err MemoryAllocationFailed
      | Some dim_order \<Rightarrow>
          if dims > 16 then Err NotSupported
          else let arr = fill_array strides 0 dims (replicate 16 sdo_default)
          in r_bind (quick_sort arr 0 (int dims - 1)) (\<lambda>arr'.
             Ok (copy_dim_order arr' 0 dims dim_order)))"

section \<open>Validation\<close>

lemma bit_seen_push:
  fixes seen :: u16
  assumes "d < 16"
  shows "seen AND 2 ^ d = 0 \<longleftrightarrow> \<not> bit seen d"
    and "k < 16 \<Longrightarrow> bit (seen OR 2 ^ d) k \<longleftrightarrow> bit seen k \<or> k = d"
  using assms by (auto simp: and_exp_eq_0_iff_not_bit bit_or_iff bit_exp_iff)

lemma validate_loop_iff:
  assumes "dims \<le> 16"
  shows "validate_loop dims seen ds \<longleftrightarrow>
    distinct (map unat ds) \<and> (\<forall>d \<in> set ds. unat d < dims \<and> \<not> bit seen (unat d))"
  using assms
proof (induction ds arbitrary: seen)
  case (Cons d ds)
  show ?case
  proof (cases "unat d < dims")
    case True
    then have "unat d < 16" using Cons.prems by simp
    note b = bit_seen_push [OF this]
    have "unat e < dims \<Longrightarrow> bit (seen OR 2 ^ unat d) (unat e) \<longleftrightarrow> bit seen (unat e) \<or> unat e = unat d" for e :: u8
      using b(2) [of "unat e"] Cons.prems by simp
    then show ?thesis using True Cons.IH [OF Cons.prems, of "seen OR 2 ^ unat d"]
      by (auto simp: b(1) Let_def image_iff)
  qed simp
qed simp

definition is_permutation :: "u8 list \<Rightarrow> bool" where
  "is_permutation ds \<longleftrightarrow> mset (map unat ds) = mset [0 ..< length ds]"

lemma is_permutation_iff:
  "is_permutation ds \<longleftrightarrow> distinct (map unat ds) \<and> (\<forall>d \<in> set ds. unat d < length ds)"
proof
  assume "is_permutation ds"
  then have m: "mset (map unat ds) = mset [0 ..< length ds]" by (simp only: is_permutation_def)
  then have "distinct (map unat ds)" by (metis mset_eq_imp_distinct_iff distinct_upt)
  moreover have "set (map unat ds) = {0 ..< length ds}" using m by (metis mset_eq_setD set_upt)
  ultimately show "distinct (map unat ds) \<and> (\<forall>d \<in> set ds. unat d < length ds)" by auto
next
  assume a: "distinct (map unat ds) \<and> (\<forall>d \<in> set ds. unat d < length ds)"
  then have "card (set (map unat ds)) = length ds" by (metis distinct_card length_map)
  moreover have "set (map unat ds) \<subseteq> {0 ..< length ds}" using a by auto
  ultimately have "set (map unat ds) = set [0 ..< length ds]"
    by (simp add: card_subset_eq)
  then show "is_permutation ds"
    unfolding is_permutation_def using a distinct_upt set_eq_iff_mset_eq_distinct by blast
qed

lemma permutation_nth:
  assumes "is_permutation ds"
  shows "i < length ds \<Longrightarrow> unat (ds ! i) < length ds"
    and "i < length ds \<Longrightarrow> j < length ds \<Longrightarrow> unat (ds ! i) = unat (ds ! j) \<longleftrightarrow> i = j"
proof -
  note p = assms [unfolded is_permutation_iff]
  show "i < length ds \<Longrightarrow> unat (ds ! i) < length ds" using p by simp
  show "i < length ds \<Longrightarrow> j < length ds \<Longrightarrow> unat (ds ! i) = unat (ds ! j) \<longleftrightarrow> i = j"
    using p nth_eq_iff_index_eq [of "map unat ds" i j] by simp
qed

text \<open>
  \<open>validate_dim_order\<close>, a bit mask of the dimensions seen so far, accepts exactly the
  permutations of \<open>0 \<dots> dims - 1\<close> of at most sixteen dimensions; the contiguous order is the
  identity and the channels-last order moves dimension 1 to the end, for ranks 4 and 5 only.
\<close>
theorem validate_dim_order_permutation:
  assumes "length dim_order = dims"
  shows "(validate_dim_order dim_order dims \<longleftrightarrow> dims \<le> 16 \<and> is_permutation dim_order) \<and>
    (is_contiguous_dim_order dim_order dims \<longleftrightarrow> dim_order = map of_nat [0 ..< dims]) \<and>
    (is_channels_last_dim_order dim_order dims \<longleftrightarrow>
      dim_order = [0, 2, 3, 1] \<or> dim_order = [0, 2, 3, 4, 1])"
proof (intro conjI)
  show "validate_dim_order dim_order dims \<longleftrightarrow> dims \<le> 16 \<and> is_permutation dim_order"
    using assms by (auto simp: validate_dim_order_def K_TENSOR_DIMENSION_LIMIT_def validate_loop_iff
        is_permutation_iff)
  have "contiguous_loop i ds \<longleftrightarrow> ds = map of_nat [i ..< i + length ds]" for i ds
  proof (induction ds arbitrary: i)
    case (Cons d ds)
    have "[i ..< i + length (d # ds)] = i # [Suc i ..< Suc i + length ds]"
      by (simp add: upt_conv_Cons del: upt_Suc)
    then show ?case using Cons.IH [of "Suc i"] by (simp del: upt_Suc)
  qed simp
  then show "is_contiguous_dim_order dim_order dims \<longleftrightarrow> dim_order = map of_nat [0 ..< dims]"
    using assms by (simp add: is_contiguous_dim_order_def)
  have four: "dim_order = [dim_order ! 0, dim_order ! 1, dim_order ! 2, dim_order ! 3]" if "dims = 4"
    using that assms by (intro nth_equalityI) (auto simp: less_Suc_eq numeral_eq_Suc)
  have five: "dim_order = [dim_order ! 0, dim_order ! 1, dim_order ! 2, dim_order ! 3, dim_order ! 4]"
    if "dims = 5"
    using that assms by (intro nth_equalityI) (auto simp: less_Suc_eq numeral_eq_Suc)
  have range: "[Suc 0 ..< 3] = [1, 2]" "[Suc 0 ..< 4] = [1, 2, 3]" by (simp_all add: upt_rec)
  show "is_channels_last_dim_order dim_order dims \<longleftrightarrow>
      dim_order = [0, 2, 3, 1] \<or> dim_order = [0, 2, 3, 4, 1]"
  proof
    assume cl: "is_channels_last_dim_order dim_order dims"
    then consider "dims = 4" | "dims = 5" by (auto simp: is_channels_last_dim_order_def split: if_splits)
    then show "dim_order = [0, 2, 3, 1] \<or> dim_order = [0, 2, 3, 4, 1]"
    proof cases
      case 1
      then have "dim_order ! 0 = 0" "dim_order ! 1 = 2" "dim_order ! 2 = 3" "dim_order ! 3 = 1"
        using cl by (simp_all add: is_channels_last_dim_order_def range split: if_splits)
      then show ?thesis using four [OF 1] by metis
    next
      case 2
      then have "dim_order ! 0 = 0" "dim_order ! 1 = 2" "dim_order ! 2 = 3" "dim_order ! 3 = 4"
          "dim_order ! 4 = 1"
        using cl by (simp_all add: is_channels_last_dim_order_def range split: if_splits)
      then show ?thesis using five [OF 2] by metis
    qed
  qed (use assms in \<open>auto simp: is_channels_last_dim_order_def range\<close>)
qed

theorem validate_dim_order_permutation_witness:
  "validate_dim_order [2, 0, 1] 3 \<and> is_permutation [2, 0, 1] \<and>
   \<not> is_channels_last_dim_order [2, 0, 1] 3"
  using validate_dim_order_permutation [of "[2, 0, 1]" 3] by (simp add: is_permutation_def)

section \<open>Strides of a dim order\<close>

text \<open>
  The reference definition: the stride of the dimension at position \<open>k\<close> of the order is the
  product of the sizes of the dimensions after it, a size of zero counting as one.
\<close>

definition sizes_after :: "int list \<Rightarrow> u8 list \<Rightarrow> nat \<Rightarrow> int" where
  "sizes_after sizes d k = (\<Prod>j\<leftarrow>[Suc k ..< length d]. max 1 (sizes ! unat (d ! j)))"

lemma sizes_after_last: "k = length d - 1 \<Longrightarrow> sizes_after sizes d k = 1"
  by (simp add: sizes_after_def)

lemma sizes_after_step:
  "Suc k < length d \<Longrightarrow>
   sizes_after sizes d k = max 1 (sizes ! unat (d ! Suc k)) * sizes_after sizes d (Suc k)"
  by (simp add: sizes_after_def upt_conv_Cons del: upt_Suc)

lemma sizes_after_pos: "1 \<le> sizes_after sizes d k"
proof -
  have "1 \<le> prod_list (map (\<lambda>j. max 1 (f j :: int)) xs)" for f and xs :: "nat list"
  proof (induction xs)
    case (Cons x xs)
    then show ?case using mult_mono [of 1 "max 1 (f x)" 1 "prod_list (map (\<lambda>j. max 1 (f j)) xs)"]
      by simp
  qed simp
  then show ?thesis by (simp add: sizes_after_def)
qed

lemma sizes_after_step_mono: "Suc k < length d \<Longrightarrow> sizes_after sizes d (Suc k) \<le> sizes_after sizes d k"
  using mult_mono [of 1 "max 1 (sizes ! unat (d ! Suc k))" "sizes_after sizes d (Suc k)" "sizes_after sizes d (Suc k)"]
    sizes_after_pos [of sizes d "Suc k"]
  by (simp add: sizes_after_step)

lemma sizes_after_antimono: "k < length d \<Longrightarrow> sizes_after sizes d k \<le> sizes_after sizes d 0"
proof (induction k)
  case (Suc k)
  then show ?case using sizes_after_step_mono [of k d sizes] by simp
qed simp

definition strides_from :: "int list \<Rightarrow> u8 list \<Rightarrow> nat \<Rightarrow> int list \<Rightarrow> bool" where
  "strides_from sizes d i strides \<longleftrightarrow> length strides = length d \<and>
     (\<forall>k. i \<le> k \<and> k < length d \<longrightarrow> strides ! unat (d ! k) = sizes_after sizes d k)"

lemma strides_from_update:
  assumes "is_permutation d" and "strides_from sizes d (Suc i) strides" and "Suc i < length d"
  shows "strides_from sizes d i (strides[unat (d ! i) := sizes_after sizes d i])"
  unfolding strides_from_def
proof (intro conjI allI impI)
  let ?strides = "strides[unat (d ! i) := sizes_after sizes d i]"
  show "length ?strides = length d" using assms(2) by (simp add: strides_from_def)
  fix k assume k: "i \<le> k \<and> k < length d"
  show "?strides ! unat (d ! k) = sizes_after sizes d k"
  proof (cases "k = i")
    case True
    then show ?thesis using k assms(2) permutation_nth(1) [OF assms(1), of i]
      by (simp add: strides_from_def)
  next
    case False
    then have "unat (d ! k) \<noteq> unat (d ! i)" using k permutation_nth(2) [OF assms(1), of k i] by simp
    then show ?thesis using k False assms(2) by (simp add: strides_from_def Suc_le_eq)
  qed
qed

lemma stride_loop_step:
  assumes d: "is_permutation d" and s: "strides_from sizes d (Suc i) strides" and i: "Suc i < length d"
    and nonneg: "\<forall>k < length d. 0 \<le> sizes ! k"
  shows "stride_loop oc sizes d (Suc i) strides =
    (if oc \<and> \<not> fits_i32 (sizes_after sizes d i) \<and> sizes ! unat (d ! Suc i) \<noteq> 0 then Panic
     else stride_loop oc sizes d i (strides[unat (d ! i) :=
       (if sizes ! unat (d ! Suc i) = 0 then sizes_after sizes d i
        else wrap_i32 (sizes_after sizes d i))]))"
proof -
  have st: "strides ! unat (d ! Suc i) = sizes_after sizes d (Suc i)"
    using s i by (simp add: strides_from_def)
  have "0 \<le> sizes ! unat (d ! Suc i)" using nonneg permutation_nth(1) [OF d i] by blast
  then show ?thesis
    using st sizes_after_step [OF i, of sizes]
    by (auto simp: Let_def i32_mul_def mult.commute max_def)
qed

lemma stride_loop_correct:
  assumes "is_permutation d" and "strides_from sizes d i strides" and "i < length d"
    and "\<forall>k < length d. 0 \<le> sizes ! k" and "sizes_after sizes d 0 < 2 ^ 31"
  shows "\<exists>strides'. stride_loop oc sizes d i strides = Ok strides' \<and> strides_from sizes d 0 strides'"
  using assms(2,3)
proof (induction i arbitrary: strides)
  case (Suc i)
  have "fits_i32 (sizes_after sizes d i)"
    using sizes_after_antimono [of i d sizes] sizes_after_pos [of sizes d i] Suc.prems(2) assms(5)
    by (simp add: fits_i32_def)
  then show ?case
    using Suc.IH [OF strides_from_update [OF assms(1) Suc.prems]] Suc.prems(2)
      stride_loop_step [OF assms(1) Suc.prems assms(4), of oc] by simp
qed simp

lemma stride_loop_overflow:
  assumes "is_permutation d" and "strides_from sizes d i strides" and "i < length d"
    and "\<forall>k < length d. 0 \<le> sizes ! k" and "\<not> sizes_after sizes d 0 < 2 ^ 31"
    and "sizes_after sizes d i < 2 ^ 31"
  shows "stride_loop True sizes d i strides = Panic"
  using assms(2,3,6)
proof (induction i arbitrary: strides)
  case 0
  with assms(5) show ?case by simp
next
  case (Suc i)
  note step = stride_loop_step [OF assms(1) Suc.prems(1,2) assms(4), of True]
  show ?case
  proof (cases "sizes_after sizes d i < 2 ^ 31")
    case True
    then have "fits_i32 (sizes_after sizes d i)"
      using sizes_after_pos [of sizes d i] by (simp add: fits_i32_def)
    then show ?thesis using step True Suc.prems(2)
        Suc.IH [OF strides_from_update [OF assms(1) Suc.prems(1,2)]] by simp
  next
    case False
    then have "sizes ! unat (d ! Suc i) \<noteq> 0"
      using sizes_after_step [OF Suc.prems(2), of sizes] Suc.prems(3) by auto
    then show ?thesis using step False by (simp add: fits_i32_def)
  qed
qed

lemma strides_from_init:
  assumes "is_permutation d" and "length strides = length d" and "d \<noteq> []"
  shows "strides_from sizes d (length d - 1) (strides[unat (d ! (length d - 1)) := 1])"
proof -
  have "d \<noteq> [] \<Longrightarrow> length d - 1 \<le> k \<and> k < length d \<longleftrightarrow> k = length d - 1" for k
    by (cases d) auto
  then show ?thesis using assms permutation_nth(1) [OF assms(1), of "length d - 1"]
    unfolding strides_from_def by (simp add: sizes_after_last)
qed

lemma validate_iff_permutation:
  "length d = n \<Longrightarrow> validate_dim_order d n \<longleftrightarrow> n \<le> 16 \<and> is_permutation d"
  by (auto simp: validate_dim_order_def K_TENSOR_DIMENSION_LIMIT_def validate_loop_iff
      is_permutation_iff)

lemma dim_order_to_stride_correct:
  assumes "length d = n" and "is_permutation d" and "n \<le> 16" and "length strides = n"
    and "\<forall>k < n. 0 \<le> sizes ! k" and "sizes_after sizes d 0 < 2 ^ 31"
  obtains strides' where "dim_order_to_stride oc sizes d n strides = Ok strides'"
    and "length strides' = n" and "\<forall>k < n. strides' ! unat (d ! k) = sizes_after sizes d k"
proof (cases "n = 0")
  case True
  then show ?thesis using assms that [of strides] by (simp add: dim_order_to_stride_def)
next
  case False
  then have "d \<noteq> []" using assms(1) by auto
  with strides_from_init [OF assms(2) _ this] assms False
  have "\<exists>strides'. stride_loop oc sizes d (n - 1) (strides[unat (d ! (n - 1)) := 1]) = Ok strides' \<and>
      strides_from sizes d 0 strides'"
    by (intro stride_loop_correct) auto
  then show ?thesis using False assms that
    by (auto simp: dim_order_to_stride_def dim_order_to_stride_nocheck_def validate_iff_permutation
        strides_from_def)
qed

lemma dim_order_to_stride_panics:
  assumes "length d = n" and "length strides = n" and "n \<noteq> 0" and "\<forall>k < n. 0 \<le> sizes ! k"
    and "validate_dim_order d n" and "\<not> sizes_after sizes d 0 < 2 ^ 31"
  shows "dim_order_to_stride True sizes d n strides = Panic"
proof -
  have d: "is_permutation d" using assms(1,5) by (simp add: validate_iff_permutation)
  have "d \<noteq> []" using assms by auto
  with d assms have "stride_loop True sizes d (n - 1) (strides[unat (d ! (n - 1)) := 1]) = Panic"
    using strides_from_init [OF d, of strides sizes]
    by (intro stride_loop_overflow) (auto simp: sizes_after_last)
  then show ?thesis using assms by (simp add: dim_order_to_stride_def dim_order_to_stride_nocheck_def)
qed

text \<open>
  For an invalid order \<open>dim_order_to_stride\<close> reports \<open>InvalidArgument\<close>; for a valid one it
  returns the products of the sizes that follow each dimension whenever these fit \<^verbatim>\<open>i32\<close>, and
  with overflow checks it panics exactly when they do not.
\<close>
theorem dim_order_to_stride_functional:
  assumes "length d = n" and "length strides = n" and "n \<noteq> 0" and "\<forall>k < n. 0 \<le> sizes ! k"
  shows "(\<not> validate_dim_order d n \<longrightarrow> dim_order_to_stride oc sizes d n strides = Err InvalidArgument) \<and>
    (validate_dim_order d n \<and> sizes_after sizes d 0 < 2 ^ 31 \<longrightarrow>
      (\<exists>strides'. dim_order_to_stride oc sizes d n strides = Ok strides' \<and> length strides' = n \<and>
        (\<forall>k < n. strides' ! unat (d ! k) = sizes_after sizes d k))) \<and>
    (validate_dim_order d n \<and> \<not> sizes_after sizes d 0 < 2 ^ 31 \<longrightarrow>
      dim_order_to_stride True sizes d n strides = Panic)"
proof (intro conjI impI, goal_cases)
  case 1
  then show ?case using assms(3) by (simp add: dim_order_to_stride_def)
next
  case 2
  then show ?case using dim_order_to_stride_correct [of d n strides sizes oc] assms
    by (metis validate_iff_permutation)
next
  case 3
  then show ?case using dim_order_to_stride_panics [OF assms] by blast
qed

theorem dim_order_to_stride_functional_witness:
  "dim_order_to_stride True [65536, 65536, 2] [0, 1, 2] 3 [0, 0, 0] = Ok [131072, 2, 1] \<and>
   dim_order_to_stride True [2, 65536, 65536] [0, 1, 2] 3 [0, 0, 0] = Panic"
proof -
  have v: "validate_dim_order [0, 1, 2] 3" by code_simp
  have big: "\<not> sizes_after [2, 65536, 65536] [0, 1, 2] 0 < 2 ^ 31" by code_simp
  have nonneg: "\<forall>k < 3. 0 \<le> [2, 65536, 65536 :: int] ! k" by code_simp
  have "dim_order_to_stride True [2, 65536, 65536] [0, 1, 2] 3 [0, 0, 0] = Panic"
    using dim_order_to_stride_functional [of "[0, 1, 2]" 3 "[0, 0, 0]", OF _ _ _ nonneg] v big by simp
  moreover have "dim_order_to_stride True [65536, 65536, 2] [0, 1, 2] 3 [0, 0, 0] = Ok [131072, 2, 1]"
    by code_simp
  ultimately show ?thesis by simp
qed

subsection \<open>The strides lay out every index at its own offset\<close>

definition valid_index :: "int list \<Rightarrow> int list \<Rightarrow> bool" where
  "valid_index sizes idx \<longleftrightarrow>
     length idx = length sizes \<and> (\<forall>k < length sizes. 0 \<le> idx ! k \<and> idx ! k < sizes ! k)"

definition element_offset :: "int list \<Rightarrow> int list \<Rightarrow> int" where
  "element_offset strides idx = (\<Sum>k < length idx. idx ! k * strides ! k)"

text \<open>Mixed-radix numbers: digits \<open>xs\<close> in the bases \<open>ss\<close>.\<close>

fun mixed :: "int list \<Rightarrow> int list \<Rightarrow> int" where
  "mixed (x # xs) (s # ss) = x * prod_list ss + mixed xs ss"
| "mixed _ _ = 0"

abbreviation digits :: "int list \<Rightarrow> int list \<Rightarrow> bool" where
  "digits \<equiv> list_all2 (\<lambda>x s. 0 \<le> x \<and> x < s)"

lemma mixed_range: "digits xs ss \<Longrightarrow> 0 \<le> mixed xs ss \<and> mixed xs ss < prod_list ss"
proof (induction rule: list_all2_induct)
  case (Cons x xs s ss)
  then have p: "0 < prod_list ss" by linarith
  have "(x + 1) * prod_list ss \<le> s * prod_list ss"
    using Cons.hyps(1) p by (intro mult_right_mono) auto
  then show ?case using Cons p by (simp add: algebra_simps)
qed simp

lemma mixed_inject:
  "digits xs ss \<Longrightarrow> digits ys ss \<Longrightarrow> mixed xs ss = mixed ys ss \<Longrightarrow> xs = ys"
proof (induction xs ss arbitrary: ys rule: list_all2_induct)
  case (Cons x xs s ss)
  then obtain y ys' where ys: "ys = y # ys'" and y: "digits ys' ss"
    by (auto simp: list_all2_Cons2)
  let ?P = "prod_list ss"
  have eq: "x * ?P + mixed xs ss = y * ?P + mixed ys' ss" using Cons.prems(2) by (simp add: ys)
  note r = mixed_range [OF Cons.hyps(2)] mixed_range [OF y]
  have "(x * ?P + mixed xs ss) div ?P = x" and "(y * ?P + mixed ys' ss) div ?P = y"
    using r by (simp_all add: div_add1_eq)
  then have "x = y" using eq by simp
  with eq have "mixed xs ss = mixed ys' ss" by simp
  with \<open>x = y\<close> Cons.IH [OF y] show ?case by (simp add: ys)
qed simp

lemma mixed_surj: "0 \<le> v \<Longrightarrow> v < prod_list ss \<Longrightarrow> \<forall>s \<in> set ss. 1 \<le> s \<Longrightarrow> \<exists>xs. digits xs ss \<and> mixed xs ss = v"
proof (induction ss arbitrary: v)
  case (Cons s ss)
  let ?P = "prod_list ss"
  have "0 < ?P"
  proof (rule ccontr)
    assume "\<not> 0 < ?P"
    moreover have "0 < prod_list ts" if "\<forall>s \<in> set ts. 1 \<le> s" for ts :: "int list"
      using that by (induction ts) auto
    ultimately show False using Cons.prems(3) by auto
  qed
  then obtain xs where "digits xs ss" "mixed xs ss = v mod ?P"
    using Cons.IH [of "v mod ?P"] Cons.prems(3) by auto
  moreover have "0 \<le> v div ?P" using Cons.prems(1) \<open>0 < ?P\<close> by (simp add: pos_imp_zdiv_nonneg_iff)
  moreover have "v div ?P < s"
  proof -
    have "v div ?P * ?P \<le> v" using \<open>0 < ?P\<close> by (simp add: minus_mod_eq_div_mult [symmetric])
    then have "v div ?P * ?P < s * ?P" using Cons.prems(2) by simp
    then show ?thesis using \<open>0 < ?P\<close> by simp
  qed
  ultimately show ?case by (intro exI [of _ "v div ?P # xs"]) simp
qed simp

lemma mixed_upt:
  "i \<le> n \<Longrightarrow> mixed (map f [i ..< n]) (map g [i ..< n]) =
     (\<Sum>k \<in> {i ..< n}. f k * prod_list (map g [Suc k ..< n]))"
proof (induction "n - i" arbitrary: i)
  case (Suc m)
  then have "i < n" by simp
  then have "[i ..< n] = i # [Suc i ..< n]" and "{i ..< n} = insert i {Suc i ..< n}"
    by (auto simp: upt_conv_Cons)
  then show ?case using Suc.hyps(1) [of "Suc i"] Suc.hyps(2) \<open>i < n\<close> by simp
qed simp

text \<open>In the order of the dims, the offset of an index is a mixed-radix number.\<close>

definition permuted :: "u8 list \<Rightarrow> int list \<Rightarrow> int list" where
  "permuted d xs = map (\<lambda>j. xs ! unat (d ! j)) [0 ..< length d]"

lemma permutation_bij:
  assumes "is_permutation d"
  shows "bij_betw (\<lambda>j. unat (d ! j)) {..< length d} {..< length d}"
proof -
  have "inj_on (\<lambda>j. unat (d ! j)) {..< length d}"
    using permutation_nth(2) [OF assms] by (auto simp: inj_on_def)
  moreover have "(\<lambda>j. unat (d ! j)) ` {..< length d} \<subseteq> {..< length d}"
    using permutation_nth(1) [OF assms] by auto
  ultimately show ?thesis by (simp add: bij_betw_def endo_inj_surj)
qed

lemma permuted_prod:
  assumes "is_permutation d" and "length sizes = length d"
  shows "prod_list (permuted d sizes) = prod_list sizes"
proof -
  have "prod_list (permuted d sizes) = prod ((!) sizes \<circ> (\<lambda>j. unat (d ! j))) {..< length d}"
    by (simp add: permuted_def prod.list_conv_set_nth atLeast0LessThan)
  also have "\<dots> = prod ((!) sizes) {..< length d}"
    using prod.reindex_bij_betw [OF permutation_bij [OF assms(1)], of "(!) sizes"] by simp
  also have "\<dots> = prod_list sizes"
    using assms(2) by (simp add: prod.list_conv_set_nth atLeast0LessThan)
  finally show ?thesis .
qed

lemma element_offset_mixed:
  assumes d: "is_permutation d" and len: "length idx = length d" "length sizes = length d"
    and pos: "\<forall>k < length d. 1 \<le> sizes ! k"
    and strides: "\<forall>k < length d. strides ! unat (d ! k) = sizes_after sizes d k"
  shows "element_offset strides idx = mixed (permuted d idx) (permuted d sizes)"
proof -
  have size: "max 1 (sizes ! unat (d ! j)) = sizes ! unat (d ! j)" if "j < length d" for j
    using pos permutation_nth(1) [OF d that] by (simp add: max_def)
  have sa: "sizes_after sizes d k = prod_list (map (\<lambda>j. sizes ! unat (d ! j)) [Suc k ..< length d])" for k
    unfolding sizes_after_def by (intro arg_cong [where f = prod_list] map_cong) (auto simp: size)
  have "element_offset strides idx = (\<Sum>k < length d. idx ! unat (d ! k) * strides ! unat (d ! k))"
    using sum.reindex_bij_betw [OF permutation_bij [OF d], of "\<lambda>k. idx ! k * strides ! k"] len
    by (simp add: element_offset_def)
  also have "\<dots> = (\<Sum>k \<in> {0 ..< length d}. idx ! unat (d ! k) *
      prod_list (map (\<lambda>j. sizes ! unat (d ! j)) [Suc k ..< length d]))"
    using strides by (intro sum.cong) (auto simp: sa)
  also have "\<dots> = mixed (permuted d idx) (permuted d sizes)"
    unfolding permuted_def by (subst mixed_upt) simp_all
  finally show ?thesis .
qed

lemma digits_permuted:
  assumes "is_permutation d" and "valid_index sizes idx" and "length sizes = length d"
  shows "digits (permuted d idx) (permuted d sizes)"
  using assms permutation_nth(1) [OF assms(1)]
  by (auto simp: permuted_def list_all2_conv_all_nth valid_index_def)

lemma permuted_inject:
  assumes "is_permutation d" and "length xs = length d" and "length ys = length d"
    and "permuted d xs = permuted d ys"
  shows "xs = ys"
proof (rule nth_equalityI)
  fix k assume "k < length xs"
  then obtain j where "j < length d" and "k = unat (d ! j)"
    using permutation_bij [OF assms(1)] assms(2) unfolding bij_betw_def by auto
  moreover have "\<forall>j < length d. xs ! unat (d ! j) = ys ! unat (d ! j)"
    using assms(4) by (simp add: permuted_def)
  ultimately show "xs ! k = ys ! k" by blast
qed (use assms in simp)

lemma permuted_surj:
  assumes "is_permutation d" and "length xs = length d"
  obtains ys where "length ys = length d" and "permuted d ys = xs"
proof -
  let ?inv = "the_inv_into {..< length d} (\<lambda>j. unat (d ! j))"
  have "?inv (unat (d ! j)) = j" if "j < length d" for j
    using that permutation_bij [OF assms(1)] by (intro the_inv_into_f_f) (auto simp: bij_betw_def)
  then have "permuted d (map (\<lambda>k. xs ! ?inv k) [0 ..< length d]) = xs"
    using assms(2) permutation_nth(1) [OF assms(1)]
    by (intro nth_equalityI) (simp_all add: permuted_def)
  then show thesis using that [of "map (\<lambda>k. xs ! ?inv k) [0 ..< length d]"] by simp
qed

lemma digits_permuted_valid:
  assumes "is_permutation d" and "digits (permuted d idx) (permuted d sizes)"
    and "length idx = length d" and "length sizes = length d"
  shows "valid_index sizes idx"
  unfolding valid_index_def
proof (intro conjI allI impI)
  fix k assume "k < length sizes"
  then obtain j where "j < length d" and k: "k = unat (d ! j)"
    using permutation_bij [OF assms(1)] assms(4) unfolding bij_betw_def by auto
  then have "0 \<le> idx ! k \<and> idx ! k < sizes ! k"
    using assms(2) by (simp add: permuted_def list_all2_conv_all_nth)
  then show "0 \<le> idx ! k" "idx ! k < sizes ! k" by simp_all
qed (use assms in simp)

text \<open>
  C9. The strides that \<open>dim_order_to_stride\<close> computes lay a tensor out without overlap or gap:
  for at least one dimension, positive sizes, and strides that fit in their 32-bit type (the product of
  all sizes but that of the outermost dimension, which is the largest stride, is below \<open>2 ^ 31\<close>),
  mapping an index to the sum of its components times the strides is a bijection between the indices
  of the tensor and the offsets below its number of elements. Larger strides are outside the claim:
  they wrap around in a build without overflow checks.
\<close>
theorem strides_layout_bijective:
  assumes "dim_order_to_stride oc sizes d n strides0 = Ok strides"
    and "length d = n" and "length sizes = n" and "length strides0 = n" and "n \<noteq> 0"
    and "\<forall>k < n. 1 \<le> sizes ! k" and "sizes_after sizes d 0 < 2 ^ 31"
  shows "bij_betw (element_offset strides) {idx. valid_index sizes idx} {0 ..< prod_list sizes}"
proof -
  have d: "is_permutation d" and n: "n \<le> 16"
    using assms(1,2,5) validate_iff_permutation [of d n]
    by (auto simp: dim_order_to_stride_def split: if_splits)
  have nonneg: "\<forall>k < n. 0 \<le> sizes ! k" using assms(6) by force
  obtain st where "dim_order_to_stride oc sizes d n strides0 = Ok st"
      "\<forall>k < n. st ! unat (d ! k) = sizes_after sizes d k"
    by (rule dim_order_to_stride_correct [OF assms(2) d n assms(4) nonneg assms(7)])
  then have st: "\<forall>k < length d. strides ! unat (d ! k) = sizes_after sizes d k"
    using assms(1,2) by simp
  note len = assms(2,3)
  have off: "element_offset strides idx = mixed (permuted d idx) (permuted d sizes)"
    if "length idx = n" for idx
    using element_offset_mixed [OF d _ _ _ st, of idx] that len assms(6) by simp
  have prod: "prod_list (permuted d sizes) = prod_list sizes" using permuted_prod [OF d] len by simp
  show ?thesis
    unfolding bij_betw_def
  proof
    show "inj_on (element_offset strides) {idx. valid_index sizes idx}"
    proof (rule inj_onI, unfold mem_Collect_eq)
      fix xs ys assume v: "valid_index sizes xs" "valid_index sizes ys"
        and "element_offset strides xs = element_offset strides ys"
      then have "mixed (permuted d xs) (permuted d sizes) = mixed (permuted d ys) (permuted d sizes)"
        using off len by (simp add: valid_index_def)
      then have "permuted d xs = permuted d ys"
        using mixed_inject digits_permuted [OF d v(1)] digits_permuted [OF d v(2)] len by simp
      then show "xs = ys" using permuted_inject [OF d] v len by (simp add: valid_index_def)
    qed
    show "element_offset strides ` {idx. valid_index sizes idx} = {0 ..< prod_list sizes}"
    proof (intro equalityI subsetI, goal_cases)
      case (1 v)
      then obtain idx where "v = element_offset strides idx" and "valid_index sizes idx" by auto
      then show ?case
        using off [of idx] mixed_range [OF digits_permuted [OF d \<open>valid_index sizes idx\<close>]] prod len
        by (simp add: valid_index_def)
    next
      case (2 v)
      have "\<forall>s \<in> set (permuted d sizes). 1 \<le> s"
        using assms(6) permutation_nth(1) [OF d] len by (auto simp: permuted_def)
      then obtain xs where xs: "digits xs (permuted d sizes)" "mixed xs (permuted d sizes) = v"
        using mixed_surj [of v "permuted d sizes"] 2 prod by auto
      have "length xs = length d" using list_all2_lengthD [OF xs(1)] by (simp add: permuted_def)
      from permuted_surj [OF d this] obtain idx where idx: "length idx = length d" "permuted d idx = xs"
        by blast
      then have "valid_index sizes idx" using digits_permuted_valid [OF d] xs(1) len by simp
      then show ?case using off [of idx] idx xs(2) len by auto
    qed
  qed
qed

theorem strides_layout_bijective_witness:
  "\<exists>strides. dim_order_to_stride True [2, 3, 4] [2, 0, 1] 3 [0, 0, 0] = Ok strides \<and>
     bij_betw (element_offset strides) {idx. valid_index [2, 3, 4] idx} {0 ..< 24}"
proof -
  have st: "dim_order_to_stride True [2, 3, 4] [2, 0, 1] 3 [0, 0, 0] = Ok [3, 1, 6]" by code_simp
  have pos: "\<forall>k < 3. 1 \<le> [2, 3, 4 :: int] ! k" by code_simp
  have small: "sizes_after [2, 3, 4] [2, 0, 1] 0 < 2 ^ 31" by code_simp
  from strides_layout_bijective [OF st _ _ _ _ pos small] st show ?thesis by simp
qed

section \<open>Sorting by stride\<close>

lemma range_mset:
  assumes "mset arr' = mset arr" and "\<forall>k. k < l \<or> h \<le> k \<longrightarrow> arr' ! k = arr ! k"
    and "l \<le> h" and "h \<le> length arr"
  shows "mset (take (h - l) (drop l arr')) = mset (take (h - l) (drop l arr))"
proof -
  have len: "length arr' = length arr" using assms(1) mset_eq_length by blast
  have split: "xs = take l xs @ take (h - l) (drop l xs) @ drop h xs" for xs :: "'a list"
  proof -
    have "drop (h - l) (drop l xs) = drop h xs" using assms(3) by simp
    then show ?thesis by (metis append_take_drop_id)
  qed
  have "take l arr' = take l arr" using assms len by (intro nth_equalityI) auto
  moreover have "drop h arr' = drop h arr" using assms len by (intro nth_equalityI) auto
  ultimately show ?thesis
    using assms(1) arg_cong [OF split [of arr], of mset] arg_cong [OF split [of arr'], of mset] len
    by (metis add_left_cancel add_right_cancel mset_append)
qed

lemma range_all_transfer:
  assumes "mset arr' = mset arr" and "\<forall>k. k < l \<or> h \<le> k \<longrightarrow> arr' ! k = arr ! k"
    and "h \<le> length arr" and "\<forall>k. l \<le> k \<and> k < h \<longrightarrow> P (arr ! k)"
  shows "\<forall>k. l \<le> k \<and> k < h \<longrightarrow> P (arr' ! k)"
proof (cases "l \<le> h")
  case True
  have len: "length arr' = length arr" using assms(1) mset_eq_length by blast
  have "\<forall>x \<in> set (take (h - l) (drop l arr)). P x"
    using assms(3,4) by (auto simp: in_set_conv_nth)
  then have all: "\<forall>x \<in> set (take (h - l) (drop l arr')). P x"
    using range_mset [OF assms(1,2) True assms(3)] by (metis mset_eq_setD)
  show ?thesis
  proof (intro allI impI)
    fix k assume "l \<le> k \<and> k < h"
    then have kl: "k - l < h - l" by (intro diff_less_mono) auto
    then have "take (h - l) (drop l arr') ! (k - l) = drop l arr' ! (k - l)"
      by (rule nth_take)
    then have "arr' ! k = take (h - l) (drop l arr') ! (k - l)"
      using \<open>l \<le> k \<and> k < h\<close> assms(3) len by simp
    moreover have "k - l < length (take (h - l) (drop l arr'))" using kl assms(3) len by simp
    ultimately show "P (arr' ! k)" using all nth_mem by metis
  qed
qed auto

definition sorted_between :: "nat \<Rightarrow> nat \<Rightarrow> stride_dim_order list \<Rightarrow> bool" where
  "sorted_between l h arr \<longleftrightarrow>
     (\<forall>j k. l \<le> j \<and> j < k \<and> k < h \<longrightarrow> sdo_stride (arr ! k) \<le> sdo_stride (arr ! j))"

lemma sorted_between_join:
  assumes "sorted_between l p arr" and "sorted_between (Suc p) h arr"
    and "\<forall>k. l \<le> k \<and> k < p \<longrightarrow> sdo_stride (arr ! p) \<le> sdo_stride (arr ! k)"
    and "\<forall>k. Suc p \<le> k \<and> k < h \<longrightarrow> sdo_stride (arr ! k) \<le> sdo_stride (arr ! p)"
  shows "sorted_between l h arr"
  unfolding sorted_between_def
proof (intro allI impI)
  fix j k assume jk: "l \<le> j \<and> j < k \<and> k < h"
  consider "k < p" | "p < j" | "j \<le> p" "p \<le> k" by linarith
  then show "sdo_stride (arr ! k) \<le> sdo_stride (arr ! j)"
  proof cases
    case 3
    then have "sdo_stride (arr ! p) \<le> sdo_stride (arr ! j)" and "sdo_stride (arr ! k) \<le> sdo_stride (arr ! p)"
      using assms(3,4) jk by (cases "j = p"; cases "k = p"; auto)+
    then show ?thesis by simp
  qed (use jk assms(1,2) in \<open>auto simp: sorted_between_def\<close>)
qed

lemma quick_sort_correct:
  assumes "h \<le> length arr" and "l \<le> h"
  shows "\<exists>arr'. quick_sort arr (int l) (int h - 1) = Ok arr' \<and> mset arr' = mset arr \<and>
    sorted_between l h arr' \<and> (\<forall>k. k < l \<or> h \<le> k \<longrightarrow> arr' ! k = arr ! k)"
  using assms
proof (induction "h - l" arbitrary: arr l h rule: less_induct)
  case less
  show ?case
  proof (cases "Suc l < h")
    case False
    then have "quick_sort arr (int l) (int h - 1) = Ok arr"
      by (subst quick_sort.simps) auto
    then show ?thesis using False by (auto simp: sorted_between_def)
  next
    case True
    define top where "top = h - 1"
    have h: "h = Suc top" and top: "l \<le> top" "top < length arr" "int h - 1 = int top"
      using True less.prems by (simp_all add: top_def)
    obtain arr1 p where part: "sorter_partition arr (int l) (int top) (arr ! top) = Ok (arr1, int p)"
      and p: "l \<le> p" "p \<le> top" and m1: "mset arr1 = mset arr" and pivot: "arr1 ! p = arr ! top"
      and left: "\<forall>k. l \<le> k \<and> k < p \<longrightarrow> \<not> sdo_gt (arr1 ! k) (arr ! top)"
      and right: "\<forall>k. p < k \<and> k \<le> top \<longrightarrow> sdo_gt (arr1 ! k) (arr ! top)"
      and out1: "\<forall>k. k < l \<or> top < k \<longrightarrow> arr1 ! k = arr ! k"
      by (rule sorter_partition_correct [OF top(1,2)])
    have len1: "length arr1 = length arr" using m1 mset_eq_length by blast
    have dec: "p - l < h - l" "h - Suc p < h - l" and bounds: "p \<le> length arr1" "Suc p \<le> h"
      using p h less.prems len1 by linarith+
    obtain arr2 where s2: "quick_sort arr1 (int l) (int p - 1) = Ok arr2" and m2: "mset arr2 = mset arr1"
      and sorted2: "sorted_between l p arr2" and out2: "\<forall>k. k < l \<or> p \<le> k \<longrightarrow> arr2 ! k = arr1 ! k"
      using less.hyps [OF dec(1) bounds(1) p(1)] by blast
    have len2: "length arr2 = length arr" using m2 len1 mset_eq_length by metis
    obtain arr3 where s3: "quick_sort arr2 (int (Suc p)) (int h - 1) = Ok arr3" and m3: "mset arr3 = mset arr2"
      and sorted3: "sorted_between (Suc p) h arr3"
      and out3: "\<forall>k. k < Suc p \<or> h \<le> k \<longrightarrow> arr3 ! k = arr2 ! k"
      using less.hyps [OF dec(2) _ bounds(2), of arr2] less.prems(1) len2 by auto
    have pv: "arr3 ! p = arr ! top" using out2 out3 pivot by simp
    have "\<forall>k. l \<le> k \<and> k < p \<longrightarrow> \<not> sdo_gt (arr2 ! k) (arr ! top)"
      using range_all_transfer [OF m2 out2, where P = "\<lambda>x. \<not> sdo_gt x (arr ! top)"] left p h less.prems len1
      by simp
    then have L: "\<forall>k. l \<le> k \<and> k < p \<longrightarrow> sdo_stride (arr3 ! p) \<le> sdo_stride (arr3 ! k)"
      using out3 pv by (auto simp: sdo_gt_def)
    have "\<forall>k. Suc p \<le> k \<and> k < h \<longrightarrow> sdo_gt (arr2 ! k) (arr ! top)"
      using right out2 h by (auto simp: Suc_le_eq less_Suc_eq_le)
    then have R: "\<forall>k. Suc p \<le> k \<and> k < h \<longrightarrow> sdo_stride (arr3 ! k) \<le> sdo_stride (arr3 ! p)"
      using range_all_transfer [OF m3 out3, where P = "\<lambda>x. sdo_gt x (arr ! top)"] less.prems len2 pv
      by (auto simp: sdo_gt_def)
    have "sorted_between l p arr3" using sorted2 out3 by (simp add: sorted_between_def)
    then have "sorted_between l h arr3" using sorted_between_join sorted3 L R by blast
    moreover have "quick_sort arr (int l) (int h - 1) = Ok arr3"
      using part s2 s3 True top
      by (subst quick_sort.simps) (simp add: in_slice_def add.commute)
    moreover have "\<forall>k. k < l \<or> h \<le> k \<longrightarrow> arr3 ! k = arr ! k"
      using out1 out2 out3 p h by auto
    ultimately show ?thesis using m1 m2 m3 by auto
  qed
qed

lemma fill_array_length: "length (fill_array strides i n arr) = length arr"
  by (induction n arbitrary: i arr) simp_all

lemma fill_array_nth:
  "i + n \<le> length arr \<Longrightarrow> k < length arr \<Longrightarrow> fill_array strides i n arr ! k =
     (if i \<le> k \<and> k < i + n then sdo_new (strides ! k) (of_nat k) else arr ! k)"
  by (induction n arbitrary: i arr) (auto simp: nth_list_update)

lemma copy_dim_order_length: "length (copy_dim_order arr i n out) = length out"
  by (induction n arbitrary: i out) simp_all

lemma copy_dim_order_nth:
  "i + n \<le> length out \<Longrightarrow> k < length out \<Longrightarrow> copy_dim_order arr i n out ! k =
     (if i \<le> k \<and> k < i + n then sdo_dim_order (arr ! k) else out ! k)"
  by (induction n arbitrary: i out) (auto simp: nth_list_update)

lemma stride_to_dim_order_sorts:
  assumes "dims \<le> 16" and "length out = dims"
  obtains d where "stride_to_dim_order strides dims (Some out) = Ok d" and "length d = dims"
    and "is_permutation d"
    and "\<forall>j k. j < k \<and> k < dims \<longrightarrow> strides ! unat (d ! k) \<le> strides ! unat (d ! j)"
proof -
  define arr0 where "arr0 = fill_array strides 0 dims (replicate 16 sdo_default)"
  have len0: "length arr0 = 16" by (simp add: arr0_def fill_array_length)
  have arr0: "arr0 ! k = sdo_new (strides ! k) (of_nat k)" if "k < dims" for k
    using that assms(1) by (simp add: arr0_def fill_array_nth)
  obtain arr1 where sort: "quick_sort arr0 0 (int dims - 1) = Ok arr1" and m: "mset arr1 = mset arr0"
    and sorted: "sorted_between 0 dims arr1" and out1: "\<forall>k. k < 0 \<or> dims \<le> k \<longrightarrow> arr1 ! k = arr0 ! k"
    using quick_sort_correct [of dims arr0 0] assms(1) len0 by auto
  have len1: "length arr1 = 16" using m len0 mset_eq_length by metis
  have cast: "unat (of_nat k :: u8) = k" if "k < dims" for k
    using that assms(1) by (simp add: unsigned_of_nat take_bit_nat_eq_self)
  define d where "d = map sdo_dim_order (take dims arr1)"
  have d: "length d = dims" "\<And>k. k < dims \<Longrightarrow> d ! k = sdo_dim_order (arr1 ! k)"
    using assms(1) len1 by (simp_all add: d_def)
  have copy: "copy_dim_order arr1 0 dims out = d"
    using assms(2) d by (intro nth_equalityI) (simp_all add: copy_dim_order_length copy_dim_order_nth)
  have "\<forall>k. 0 \<le> k \<and> k < dims \<longrightarrow>
      sdo_stride (arr1 ! k) = strides ! unat (sdo_dim_order (arr1 ! k))"
    using assms(1) len0 cast arr0 by (intro range_all_transfer [OF m out1]) (auto simp: sdo_new_def)
  then have str: "sdo_stride (arr1 ! k) = strides ! unat (d ! k)" if "k < dims" for k
    using that d by simp
  have "mset (take dims arr1) = mset (take dims arr0)"
    using range_mset [OF m out1] assms(1) len0 by simp
  then have "mset (map unat d) = mset (map (unat \<circ> sdo_dim_order) (take dims arr0))"
    by (simp add: d_def mset_map multiset.map_comp)
  moreover have "map (unat \<circ> sdo_dim_order) (take dims arr0) = [0 ..< dims]"
    using assms(1) len0 arr0 cast by (intro nth_equalityI) (simp_all add: sdo_new_def)
  ultimately have perm: "is_permutation d" using d(1) by (simp only: is_permutation_def)
  show thesis
  proof (rule that [OF _ d(1) perm])
    show "stride_to_dim_order strides dims (Some out) = Ok d"
      using assms(1) sort copy by (simp add: stride_to_dim_order_def Let_def flip: arr0_def)
    show "\<forall>j k. j < k \<and> k < dims \<longrightarrow> strides ! unat (d ! k) \<le> strides ! unat (d ! j)"
      using sorted str by (simp add: sorted_between_def)
  qed
qed

text \<open>
  C10. \<open>stride_to_dim_order\<close> never panics: it reports \<open>MemoryAllocationFailed\<close> for a null output
  array, \<open>NotSupported\<close> above sixteen dimensions, and otherwise its quick sort terminates with a
  permutation of the dimensions in which strides never increase.
\<close>
theorem stride_to_dim_order_sorted_permutation:
  "stride_to_dim_order strides dims None = Err MemoryAllocationFailed \<and>
   (dims > 16 \<longrightarrow> stride_to_dim_order strides dims (Some out) = Err NotSupported) \<and>
   (dims \<le> 16 \<and> length out = dims \<longrightarrow>
     (\<exists>d. stride_to_dim_order strides dims (Some out) = Ok d \<and> length d = dims \<and> is_permutation d \<and>
       (\<forall>j k. j < k \<and> k < dims \<longrightarrow> strides ! unat (d ! k) \<le> strides ! unat (d ! j))))"
proof (intro conjI impI, goal_cases)
  case 3
  then obtain d where "stride_to_dim_order strides dims (Some out) = Ok d" "length d = dims"
      "is_permutation d" "\<forall>j k. j < k \<and> k < dims \<longrightarrow> strides ! unat (d ! k) \<le> strides ! unat (d ! j)"
    using stride_to_dim_order_sorts [of dims out strides] by metis
  then show ?case by (intro exI [of _ d] conjI)
qed (simp_all add: stride_to_dim_order_def)

theorem stride_to_dim_order_sorted_permutation_witness:
  "\<exists>d. stride_to_dim_order [5, 1, 15] 3 (Some [0, 0, 0]) = Ok d \<and> length d = 3 \<and> is_permutation d"
  using stride_to_dim_order_sorted_permutation [of "[5, 1, 15]" 3 "[0, 0, 0]"] by auto

lemma descending_unique:
  fixes f :: "nat \<Rightarrow> int"
  assumes "is_permutation d" and "is_permutation e" and "length d = length e"
    and "\<forall>j k. j < k \<and> k < length d \<longrightarrow> f (unat (d ! k)) \<le> f (unat (d ! j))"
    and "\<forall>j k. j < k \<and> k < length e \<longrightarrow> f (unat (e ! k)) < f (unat (e ! j))"
  shows "d = e"
proof -
  have m: "mset (map unat d) = mset (map unat e)" using assms(1-3) by (simp only: is_permutation_def)
  have sd: "sorted (map (\<lambda>x. - f (unat x)) d)" and se: "sorted (map (\<lambda>x. - f (unat x)) e)"
    using assms(4,5) by (auto simp: sorted_iff_nth_mono_less intro: less_imp_le)
  have "mset (map (\<lambda>x. - f x) (map unat d)) = mset (map (\<lambda>x. - f x) (map unat e))"
    unfolding mset_map [of "\<lambda>x. - f x"] m ..
  then have "mset (map (\<lambda>x. - f (unat x)) d) = mset (map (\<lambda>x. - f (unat x)) e)" by (simp add: comp_def)
  then have "map (\<lambda>x. - f (unat x)) d = map (\<lambda>x. - f (unat x)) e"
    using properties_for_sort [OF _ sd] sorted_sort_id [OF se] by metis
  moreover have inj: "inj_on (\<lambda>x. - f (unat x)) (set e)"
  proof (rule inj_onI)
    fix x y assume "x \<in> set e" "y \<in> set e" and eq: "- f (unat x) = - f (unat y)"
    then obtain i j where "x = e ! i" "i < length e" "y = e ! j" "j < length e"
      by (auto simp: in_set_conv_nth)
    then show "x = y" using assms(5) eq by (cases i j rule: linorder_cases) force+
  qed
  moreover have "set d = set e"
  proof -
    have "unat ` set d = unat ` set e" using m by (metis list.set_map mset_eq_setD)
    then show ?thesis by (metis (no_types, opaque_lifting) inj_image_eq_iff inj_unsigned)
  qed
  ultimately show ?thesis using inj_on_map_eq_map [of "\<lambda>x. - f (unat x)" d e] by simp
qed

text \<open>
  C11. Round trip: when every size is at least two, and the strides fit in their 32-bit type (the
  product of all sizes but that of the outermost dimension is below \<open>2 ^ 31\<close>), sorting the strides
  that \<open>dim_order_to_stride\<close> computed for a valid dim order gives back that dim order.
\<close>
theorem dim_order_stride_roundtrip:
  assumes "dim_order_to_stride oc sizes d n strides0 = Ok strides"
    and "length d = n" and "length strides0 = n" and "length out = n" and "n \<noteq> 0"
    and "\<forall>k < n. 2 \<le> sizes ! k" and "sizes_after sizes d 0 < 2 ^ 31"
  shows "stride_to_dim_order strides n (Some out) = Ok d"
proof -
  have d: "is_permutation d" and n: "n \<le> 16"
    using assms(1,2,5) validate_iff_permutation [of d n]
    by (auto simp: dim_order_to_stride_def split: if_splits)
  have nonneg: "\<forall>k < n. 0 \<le> sizes ! k" using assms(6) by force
  obtain st where "dim_order_to_stride oc sizes d n strides0 = Ok st"
      "\<forall>k < n. st ! unat (d ! k) = sizes_after sizes d k"
    by (rule dim_order_to_stride_correct [OF assms(2) d n assms(3) nonneg assms(7)])
  then have st: "\<forall>k < n. strides ! unat (d ! k) = sizes_after sizes d k" using assms(1) by simp
  have dec: "sizes_after sizes d (Suc k) < sizes_after sizes d k" if "Suc k < n" for k
  proof -
    have "2 \<le> sizes ! unat (d ! Suc k)" using assms(2,6) permutation_nth(1) [OF d] that by simp
    then have "2 * sizes_after sizes d (Suc k) \<le>
        sizes ! unat (d ! Suc k) * sizes_after sizes d (Suc k)"
      using sizes_after_pos [of sizes d "Suc k"] by (intro mult_right_mono) auto
    then show ?thesis
      using sizes_after_step [of k d sizes] that assms(2) sizes_after_pos [of sizes d "Suc k"]
        \<open>2 \<le> sizes ! unat (d ! Suc k)\<close> by (simp add: max_def)
  qed
  have desc: "j < k \<and> k < n \<longrightarrow> sizes_after sizes d k < sizes_after sizes d j" for j k
  proof (induction k)
    case (Suc k)
    then show ?case using dec [of k] by (auto simp: less_Suc_eq)
  qed simp
  obtain e where e: "stride_to_dim_order strides n (Some out) = Ok e" "length e = n" "is_permutation e"
      "\<forall>j k. j < k \<and> k < n \<longrightarrow> strides ! unat (e ! k) \<le> strides ! unat (e ! j)"
    by (rule stride_to_dim_order_sorts [OF n assms(4)])
  have "e = d"
    using descending_unique [OF e(3) d, of "\<lambda>i. strides ! i"] e(2,4) assms(2) st desc by auto
  with e(1) show ?thesis by simp
qed

theorem dim_order_stride_roundtrip_witness:
  "stride_to_dim_order [3, 1, 6] 3 (Some [0, 0, 0]) = Ok [2, 0, 1]"
proof -
  have st: "dim_order_to_stride True [2, 3, 4] [2, 0, 1] 3 [0, 0, 0] = Ok [3, 1, 6]" by code_simp
  have pos: "\<forall>k < 3. 2 \<le> [2, 3, 4 :: int] ! k" by code_simp
  have small: "sizes_after [2, 3, 4] [2, 0, 1] 0 < 2 ^ 31" by code_simp
  from dim_order_stride_roundtrip [OF st _ _ _ _ pos small, of "[0, 0, 0]"] show ?thesis by simp
qed

end
