(* ===== verification/Tensor_Impl.thy ===== *)
theory Tensor_Impl
  imports Scalar_Types Dim_Order Hierarchical_Allocator
begin

text \<open>
  Tensors: \<^verbatim>\<open>runtime/core/portable_type/tensor_impl.rs\<close> (the metadata of a tensor, its element
  count and resizing) with \<^verbatim>\<open>runtime/core/tensor_shape_dynamism.rs\<close>, and
  \<^verbatim>\<open>runtime/core/tensor_layout.rs\<close> (the description of a tensor before it exists). The arrays of
  sizes, dim order and strides that a tensor points to are options on lists, \<open>None\<close> for a null
  pointer; they are private to the tensor in the model. \<^verbatim>\<open>i32\<close> sizes and \<^verbatim>\<open>isize\<close> counts are
  integers, checked or wrapped at 64 bits as the build does.
\<close>

section \<open>Element counts\<close>

datatype TensorShapeDynamism = STATIC | DYNAMIC_BOUND | DYNAMIC_UNBOUND

definition mul_overflows :: "int \<Rightarrow> int \<Rightarrow> bool \<times> int" where
  "mul_overflows a b = (if fits_i64 (a * b) then (False, a * b) else (True, wrap_i64 (a * b)))"

fun compute_numel_loop :: "bool \<Rightarrow> int list \<Rightarrow> int \<Rightarrow> int result" where
  "compute_numel_loop oc [] numel = Ok numel"
| "compute_numel_loop oc (size_i # rest) numel =
     (if \<not> 0 \<le> size_i then Panic
      else r_bind (i64_mul oc numel size_i) (\<lambda>numel'. compute_numel_loop oc rest numel'))"

definition compute_numel :: "bool \<Rightarrow> int list option \<Rightarrow> int \<Rightarrow> int result" where
  "compute_numel oc sizes dim =
     (case sizes of
        None \<Rightarrow> if dim = 0 then Ok 1 else Panic
      | Some xs \<Rightarrow> compute_numel_loop oc (take (nat dim) xs) 1)"

fun safe_numel_loop :: "int list \<Rightarrow> int \<Rightarrow> int result" where
  "safe_numel_loop [] numel = Ok numel"
| "safe_numel_loop (size_i # rest) numel =
     (if \<not> 0 \<le> size_i then Err InvalidArgument
      else let (overflows, next_numel) = mul_overflows numel size_i
      in if overflows then Err InvalidArgument else safe_numel_loop rest next_numel)"

definition safe_numel :: "int list option \<Rightarrow> int \<Rightarrow> int result" where
  "safe_numel sizes dim =
     (case sizes of
        None \<Rightarrow> if dim = 0 then Ok 1 else Err InvalidArgument
      | Some xs \<Rightarrow> safe_numel_loop (take (nat dim) xs) 1)"

section \<open>The tensor\<close>

record tensor_impl =
  ti_sizes :: "int list option"
  ti_dim_order :: "u8 list option"
  ti_strides :: "int list option"
  ti_data :: usize
  ti_dim :: int
  ti_numel :: int
  ti_numel_bound :: usize
  ti_type :: ScalarType
  ti_shape_dynamism :: TensorShapeDynamism
  ti_device :: device

definition tensor_new ::
    "bool \<Rightarrow> ScalarType \<Rightarrow> int \<Rightarrow> int list option \<Rightarrow> usize \<Rightarrow> u8 list option \<Rightarrow> int list option \<Rightarrow>
     TensorShapeDynamism \<Rightarrow> DeviceType \<Rightarrow> int \<Rightarrow> tensor_impl result" where
  "tensor_new oc type dim sizes data dim_order strides dynamism dev_type dev_index =
     r_bind (compute_numel oc sizes dim) (\<lambda>numel.
       let this = \<lparr>ti_sizes = sizes, ti_dim_order = dim_order, ti_strides = strides, ti_data = data,
                   ti_dim = dim, ti_numel = numel, ti_numel_bound = word_of_int numel,
                   ti_type = type, ti_shape_dynamism = dynamism,
                   ti_device = \<lparr>device_type = dev_type, device_index = dev_index\<rparr>\<rparr>
       in if \<not> is_valid (ti_type this) then Panic
          else if \<not> 0 \<le> ti_dim this then Panic
          else Ok this)"

definition tensor_nbytes :: "bool \<Rightarrow> tensor_impl \<Rightarrow> usize result" where
  "tensor_nbytes oc t =
     r_bind (element_size (ti_type t)) (\<lambda>es. umul oc (word_of_int (ti_numel t)) es)"

definition tensor_size :: "tensor_impl \<Rightarrow> int \<Rightarrow> int result" where
  "tensor_size t d =
     (if \<not> (d < ti_dim t \<and> 0 \<le> d) then Panic
      else Ok (the (ti_sizes t) ! nat d))"

definition tensor_dim :: "tensor_impl \<Rightarrow> int" where
  "tensor_dim t = ti_dim t"

definition tensor_numel :: "tensor_impl \<Rightarrow> int" where
  "tensor_numel t = ti_numel t"

definition tensor_scalar_type :: "tensor_impl \<Rightarrow> ScalarType" where
  "tensor_scalar_type t = ti_type t"

definition tensor_element_size :: "tensor_impl \<Rightarrow> int result" where
  "tensor_element_size t = r_bind (element_size (ti_type t)) (\<lambda>es. Ok (sint es))"

definition tensor_sizes :: "tensor_impl \<Rightarrow> int list" where
  "tensor_sizes t = (case ti_sizes t of None \<Rightarrow> [] | Some xs \<Rightarrow> take (nat (ti_dim t)) xs)"

definition tensor_dim_order :: "tensor_impl \<Rightarrow> u8 list" where
  "tensor_dim_order t = (case ti_dim_order t of None \<Rightarrow> [] | Some xs \<Rightarrow> take (nat (ti_dim t)) xs)"

definition tensor_strides :: "tensor_impl \<Rightarrow> int list" where
  "tensor_strides t = (case ti_strides t of None \<Rightarrow> [] | Some xs \<Rightarrow> take (nat (ti_dim t)) xs)"

definition tensor_set_data :: "usize \<Rightarrow> tensor_impl \<Rightarrow> tensor_impl" where
  "tensor_set_data ptr t = t\<lparr>ti_data := ptr\<rparr>"

fun equal_sizes :: "nat \<Rightarrow> nat \<Rightarrow> int list \<Rightarrow> int list \<Rightarrow> bool" where
  "equal_sizes i 0 sizes new_sizes = True"
| "equal_sizes i (Suc n) sizes new_sizes =
     (if sizes ! i \<noteq> new_sizes ! i then False else equal_sizes (Suc i) n sizes new_sizes)"

fun copy_sizes :: "nat \<Rightarrow> int list \<Rightarrow> int list \<Rightarrow> int list" where
  "copy_sizes i [] sizes = sizes"
| "copy_sizes i (x # new_sizes) sizes = copy_sizes (Suc i) new_sizes (sizes[i := x])"

text \<open>
  Resizing returns its error code and the tensor; \<open>Panic\<close> is an overflow of the \<^verbatim>\<open>i32\<close> stride
  arithmetic in a build that checks it.
\<close>

definition internal_resize_contiguous ::
    "bool \<Rightarrow> int list \<Rightarrow> tensor_impl \<Rightarrow> (Error \<times> tensor_impl) result" where
  "internal_resize_contiguous oc new_sizes t =
     (if int (length new_sizes) \<noteq> ti_dim t then Ok (NotSupported, t)
      else if ti_dim t = 0 then Ok (Error_Ok, t)
      else case ti_shape_dynamism t of
        STATIC \<Rightarrow>
          if \<not> equal_sizes 0 (nat (ti_dim t)) (the (ti_sizes t)) new_sizes
          then Ok (NotSupported, t) else Ok (Error_Ok, t)
      | _ \<Rightarrow>
          (case safe_numel (Some new_sizes) (ti_dim t) of
             Panic \<Rightarrow> Panic
           | Err e \<Rightarrow> Ok (e, t)
           | Ok new_numel \<Rightarrow>
               if \<not> word_of_int new_numel \<le> ti_numel_bound t then Ok (NotSupported, t)
               else let done = (\<lambda>t. t\<lparr>ti_numel := new_numel,
                      ti_sizes := Some (copy_sizes 0 new_sizes (the (ti_sizes t)))\<rparr>)
               in case (ti_strides t, ti_dim_order t) of
                 (Some strides, Some dim_order) \<Rightarrow>
                   (case dim_order_to_stride oc new_sizes dim_order (nat (ti_dim t)) strides of
                      Panic \<Rightarrow> Panic
                    | Err e \<Rightarrow> Ok (e, t)
                    | Ok strides' \<Rightarrow> Ok (Error_Ok, done (t\<lparr>ti_strides := Some strides'\<rparr>)))
               | _ \<Rightarrow> Ok (Error_Ok, done t)))"

definition set_sizes_contiguous :: "bool \<Rightarrow> int list \<Rightarrow> tensor_impl \<Rightarrow> tensor_impl result" where
  "set_sizes_contiguous oc new_sizes t =
     r_bind (internal_resize_contiguous oc new_sizes t) (\<lambda>(err, t').
       if err \<noteq> Error_Ok then Panic else Ok t')"

section \<open>Tensor layouts\<close>

record tensor_layout =
  tl_sizes :: "int list"
  tl_dim_order :: "u8 list"
  tl_scalar_type :: ScalarType
  tl_nbytes :: usize

fun calculate_nbytes_loop :: "int list \<Rightarrow> usize \<Rightarrow> usize result" where
  "calculate_nbytes_loop [] n = Ok n"
| "calculate_nbytes_loop (x # xs) n =
     (if x < 0 then Err InvalidArgument
      else case checked_mul n (word_of_int x) of
        None \<Rightarrow> Err InvalidArgument
      | Some v \<Rightarrow> calculate_nbytes_loop xs v)"

definition calculate_nbytes :: "int list \<Rightarrow> ScalarType \<Rightarrow> usize result" where
  "calculate_nbytes sizes scalar_type =
     r_bind (calculate_nbytes_loop sizes 1) (\<lambda>n.
     r_bind (element_size scalar_type) (\<lambda>elem_size.
       case checked_mul n elem_size of
         None \<Rightarrow> Err InvalidArgument
       | Some total_bytes \<Rightarrow> Ok total_bytes))"

definition tensor_layout_create :: "int list \<Rightarrow> u8 list \<Rightarrow> ScalarType \<Rightarrow> tensor_layout result" where
  "tensor_layout_create sizes dim_order scalar_type =
     r_bind (calculate_nbytes sizes scalar_type) (\<lambda>nbytes.
       if length dim_order \<noteq> length sizes then Err InvalidArgument
       else if \<exists>d \<in> set dim_order. length sizes \<le> unat d then Err InvalidArgument
       else Ok \<lparr>tl_sizes = sizes, tl_dim_order = dim_order, tl_scalar_type = scalar_type,
                tl_nbytes = nbytes\<rparr>)"

section \<open>Counting elements\<close>

text \<open>The sizes whose running product, from any first count \<open>n\<close>, never leaves \<^verbatim>\<open>isize\<close>.\<close>

definition numel_fits_from :: "int \<Rightarrow> int list \<Rightarrow> bool" where
  "numel_fits_from n xs \<longleftrightarrow>
     (\<forall>x \<in> set xs. 0 \<le> x) \<and> (\<forall>k \<le> length xs. n * prod_list (take k xs) < 2 ^ 63)"

definition numel_fits :: "int list \<Rightarrow> bool" where
  "numel_fits xs \<longleftrightarrow> numel_fits_from 1 xs"

lemma numel_fits_from_Cons:
  "numel_fits_from n (x # xs) \<longleftrightarrow> n < 2 ^ 63 \<and> 0 \<le> x \<and> numel_fits_from (n * x) xs"
proof -
  have "(\<forall>k \<le> Suc (length xs). n * prod_list (take k (x # xs)) < 2 ^ 63) \<longleftrightarrow>
      n < 2 ^ 63 \<and> (\<forall>k \<le> length xs. n * x * prod_list (take k xs) < 2 ^ 63)"
    unfolding less_Suc_eq_le [symmetric] All_less_Suc2 by (simp add: mult.assoc)
  then show ?thesis by (auto simp: numel_fits_from_def)
qed

lemma numel_fits_from_first: "numel_fits_from n xs \<Longrightarrow> n < 2 ^ 63"
  unfolding numel_fits_from_def by (metis le0 mult.right_neutral prod_list.Nil take0)

lemma fits_i64_nonneg: "0 \<le> n \<Longrightarrow> fits_i64 n \<longleftrightarrow> n < 2 ^ 63"
  by (simp add: fits_i64_def)

lemma safe_numel_loop_eq:
  "0 \<le> n \<Longrightarrow> n < 2 ^ 63 \<Longrightarrow> safe_numel_loop xs n =
     (if numel_fits_from n xs then Ok (n * prod_list xs) else Err InvalidArgument)"
proof (induction xs arbitrary: n)
  case Nil
  then show ?case by (simp add: numel_fits_from_def)
next
  case (Cons x xs)
  show ?case
  proof (cases "0 \<le> x \<and> n * x < 2 ^ 63")
    case True
    then show ?thesis using Cons.IH [of "n * x"] Cons.prems
      by (simp add: numel_fits_from_Cons mul_overflows_def fits_i64_nonneg mult.assoc)
  next
    case False
    then have "\<not> numel_fits_from n (x # xs)"
      using numel_fits_from_first [of "n * x" xs] by (auto simp: numel_fits_from_Cons)
    then show ?thesis using False Cons.prems
      by (auto simp: mul_overflows_def fits_i64_nonneg)
  qed
qed

lemma compute_numel_loop_eq:
  "0 \<le> n \<Longrightarrow> n < 2 ^ 63 \<Longrightarrow> compute_numel_loop True xs n =
     (if numel_fits_from n xs then Ok (n * prod_list xs) else Panic)"
proof (induction xs arbitrary: n)
  case Nil
  then show ?case by (simp add: numel_fits_from_def)
next
  case (Cons x xs)
  show ?case
  proof (cases "0 \<le> x \<and> n * x < 2 ^ 63")
    case True
    then show ?thesis using Cons.IH [of "n * x"] Cons.prems
      by (simp add: numel_fits_from_Cons i64_mul_def fits_i64_nonneg mult.assoc)
  next
    case False
    then have "\<not> numel_fits_from n (x # xs)"
      using numel_fits_from_first [of "n * x" xs] by (auto simp: numel_fits_from_Cons)
    then show ?thesis using False Cons.prems
      by (auto simp: i64_mul_def fits_i64_nonneg)
  qed
qed

lemma compute_numel_loop_unchecked:
  "0 \<le> n \<Longrightarrow> numel_fits_from n xs \<Longrightarrow> compute_numel_loop oc xs n = Ok (n * prod_list xs)"
proof (induction xs arbitrary: n)
  case (Cons x xs)
  then have "0 \<le> x" and "n * x < 2 ^ 63" and "numel_fits_from (n * x) xs"
    using numel_fits_from_first [of "n * x" xs] by (auto simp: numel_fits_from_Cons)
  then show ?case using Cons.IH [of "n * x"] Cons.prems(1)
    by (simp add: i64_mul_def fits_i64_nonneg mult.assoc)
qed simp

lemma prod_list_nonneg_int: "\<forall>x \<in> set xs. 0 \<le> x \<Longrightarrow> 0 \<le> prod_list xs" for xs :: "int list"
  by (induction xs) auto

lemma numel_fits_range: "numel_fits xs \<Longrightarrow> 0 \<le> prod_list xs \<and> prod_list xs < 2 ^ 63"
  unfolding numel_fits_def numel_fits_from_def
  using prod_list_nonneg_int [of xs] by (metis mult_1 order_refl take_all)

lemma safe_numel_eq:
  "length xs = nat dim \<Longrightarrow> safe_numel (Some xs) dim =
     (if numel_fits xs then Ok (prod_list xs) else Err InvalidArgument)"
  using safe_numel_loop_eq [of 1 xs] by (simp add: safe_numel_def numel_fits_def)

text \<open>
  The two element counts agree: \<open>safe_numel\<close> returns the product of the sizes exactly when
  no size is negative and no partial product leaves \<^verbatim>\<open>isize\<close>, and \<open>InvalidArgument\<close> otherwise;
  \<open>compute_numel\<close> of a build with overflow checks returns the same product and aborts in the
  same cases.
\<close>
theorem numel_agree:
  "safe_numel (Some xs) (int (length xs)) =
     (if numel_fits xs then Ok (prod_list xs) else Err InvalidArgument) \<and>
   compute_numel True (Some xs) (int (length xs)) =
     (if numel_fits xs then Ok (prod_list xs) else Panic) \<and>
   safe_numel None dim = (if dim = 0 then Ok 1 else Err InvalidArgument) \<and>
   compute_numel oc None dim = (if dim = 0 then Ok 1 else Panic)"
  using safe_numel_eq [of xs "int (length xs)"] compute_numel_loop_eq [of 1 xs]
  by (simp add: safe_numel_def compute_numel_def numel_fits_def)

section \<open>The tensor's invariant\<close>

definition tensor_inv :: "tensor_impl \<Rightarrow> bool" where
  "tensor_inv t \<longleftrightarrow> 0 \<le> ti_dim t \<and> is_valid (ti_type t) \<and>
     (\<exists>xs. ti_sizes t = Some xs \<and> length xs = nat (ti_dim t) \<and> numel_fits xs \<and>
       ti_numel t = prod_list xs) \<and>
     ti_numel t \<le> uint (ti_numel_bound t) \<and> uint (ti_numel_bound t) < 2 ^ 63 \<and>
     (\<forall>d. ti_dim_order t = Some d \<longrightarrow> length d = nat (ti_dim t)) \<and>
     (\<forall>s. ti_strides t = Some s \<longrightarrow> length s = nat (ti_dim t))"

lemma uint_word_of_int_63: "0 \<le> n \<Longrightarrow> n < 2 ^ 63 \<Longrightarrow> uint (word_of_int n :: 64 word) = n"
  by (simp add: unsigned_of_int take_bit_int_eq_self)

lemma tensor_new_inv:
  assumes "tensor_new True ty dim (Some xs) data d s dyn dt di = Ok t"
    and "length xs = nat dim" and "\<forall>y. d = Some y \<longrightarrow> length y = nat dim"
    and "\<forall>y. s = Some y \<longrightarrow> length y = nat dim"
  shows "tensor_inv t"
proof -
  have fits: "numel_fits xs" and n: "compute_numel True (Some xs) dim = Ok (prod_list xs)"
    using assms(1,2) by (auto simp: tensor_new_def compute_numel_def compute_numel_loop_eq numel_fits_def
        split: if_splits)
  then have "0 \<le> dim" "is_valid ty" "t = \<lparr>ti_sizes = Some xs, ti_dim_order = d, ti_strides = s,
      ti_data = data, ti_dim = dim, ti_numel = prod_list xs, ti_numel_bound = word_of_int (prod_list xs),
      ti_type = ty, ti_shape_dynamism = dyn, ti_device = \<lparr>device_type = dt, device_index = di\<rparr>\<rparr>"
    using assms(1) by (auto simp: tensor_new_def Let_def split: if_splits)
  then show ?thesis using fits assms(2-4) numel_fits_range [OF fits]
    by (simp add: tensor_inv_def uint_word_of_int_63)
qed

lemma equal_sizes_iff:
  "equal_sizes i n xs ys \<longleftrightarrow> (\<forall>k. i \<le> k \<and> k < i + n \<longrightarrow> xs ! k = ys ! k)"
proof (induction n arbitrary: i)
  case (Suc n)
  have "(\<forall>k. i \<le> k \<and> k < i + Suc n \<longrightarrow> P k) \<longleftrightarrow> P i \<and> (\<forall>k. Suc i \<le> k \<and> k < Suc i + n \<longrightarrow> P k)" for P
    by (metis Suc_le_eq add_Suc add_Suc_right le_eq_less_or_eq less_add_Suc1 order_refl)
  with Suc show ?case by simp
qed simp

lemma equal_sizes_eq:
  "length xs = n \<Longrightarrow> length ys = n \<Longrightarrow> equal_sizes 0 n xs ys \<longleftrightarrow> xs = ys"
  by (auto simp: equal_sizes_iff list_eq_iff_nth_eq)

lemma copy_sizes_nth:
  "i + length ys \<le> length xs \<Longrightarrow> k < length xs \<Longrightarrow>
   copy_sizes i ys xs ! k = (if i \<le> k \<and> k < i + length ys then ys ! (k - i) else xs ! k)"
proof (induction ys arbitrary: i xs)
  case (Cons y ys)
  then show ?case by (auto simp: nth_list_update nth_Cons' not_less_eq_eq Suc_diff_le)
qed simp

lemma copy_sizes_length [simp]: "length (copy_sizes i ys xs) = length xs"
  by (induction ys arbitrary: i xs) simp_all

lemma copy_sizes_eq: "length ys = length xs \<Longrightarrow> copy_sizes 0 ys xs = ys"
  by (intro nth_equalityI) (simp_all add: copy_sizes_nth)

section \<open>Resizing\<close>

lemma safe_numel_not_Panic: "safe_numel xs dim \<noteq> Panic"
proof -
  have "safe_numel_loop ys n \<noteq> Panic" for ys n
    by (induction ys n rule: safe_numel_loop.induct) (simp add: Let_def split: prod.split)+
  then show ?thesis by (simp add: safe_numel_def split: option.split)
qed

lemma dim_order_to_stride_Err: "dim_order_to_stride oc sizes d n s = Err e \<Longrightarrow> e = InvalidArgument"
proof -
  have "stride_loop oc sizes d i s \<noteq> Err e" for i s
    by (induction oc sizes d i s rule: stride_loop.induct)
      (auto simp: Let_def outcome_simps i32_mul_def split: if_splits)
  then show "dim_order_to_stride oc sizes d n s = Err e \<Longrightarrow> e = InvalidArgument"
    by (auto simp: dim_order_to_stride_def dim_order_to_stride_nocheck_def split: if_splits)
qed

definition resized :: "int list \<Rightarrow> int list option \<Rightarrow> tensor_impl \<Rightarrow> tensor_impl" where
  "resized new_sizes strides t =
     t\<lparr>ti_strides := strides, ti_numel := prod_list new_sizes, ti_sizes := Some new_sizes\<rparr>"

lemma resize_success:
  assumes inv: "tensor_inv t" and ok: "internal_resize_contiguous oc new_sizes t = Ok (Error_Ok, t')"
  shows "(t' = t \<and> tensor_sizes t = new_sizes \<and> ti_sizes t = Some new_sizes) \<or>
    (numel_fits new_sizes \<and> prod_list new_sizes \<le> uint (ti_numel_bound t) \<and>
     length new_sizes = nat (ti_dim t) \<and> ti_shape_dynamism t \<noteq> STATIC \<and>
     (\<exists>strides. t' = resized new_sizes strides t \<and>
       (case (ti_strides t, ti_dim_order t) of
          (Some s, Some d) \<Rightarrow> \<exists>s'. strides = Some s' \<and>
            dim_order_to_stride oc new_sizes d (nat (ti_dim t)) s = Ok s'
        | _ \<Rightarrow> strides = ti_strides t)))"
proof -
  obtain xs where xs: "ti_sizes t = Some xs" "length xs = nat (ti_dim t)" and dim: "0 \<le> ti_dim t"
    using inv by (auto simp: tensor_inv_def)
  have len: "int (length new_sizes) = ti_dim t"
    using ok by (auto simp: internal_resize_contiguous_def split: if_splits)
  then have nlen: "length new_sizes = nat (ti_dim t)" by simp
  consider (zero) "ti_dim t = 0" | (static) "ti_dim t \<noteq> 0" "ti_shape_dynamism t = STATIC"
    | (dyn) "ti_dim t \<noteq> 0" "ti_shape_dynamism t \<noteq> STATIC" by blast
  then show ?thesis
  proof cases
    case zero
    then show ?thesis using ok len xs by (auto simp: internal_resize_contiguous_def tensor_sizes_def)
  next
    case static
    then show ?thesis using ok len nlen xs
      by (auto simp: internal_resize_contiguous_def tensor_sizes_def equal_sizes_eq split: if_splits)
  next
    case dyn
    let ?n = "prod_list new_sizes"
    have fits: "numel_fits new_sizes"
      using ok len dyn safe_numel_eq [OF nlen]
      by (auto simp: internal_resize_contiguous_def split: if_splits TensorShapeDynamism.splits)
    then have n: "safe_numel (Some new_sizes) (ti_dim t) = Ok ?n" using safe_numel_eq [OF nlen] by simp
    note range = numel_fits_range [OF fits]
    have copy: "copy_sizes 0 new_sizes (the (ti_sizes t)) = new_sizes"
      using xs nlen by (simp add: copy_sizes_eq)
    have bound: "word_of_int ?n \<le> ti_numel_bound t"
      using ok len dyn n
      by (auto simp: internal_resize_contiguous_def split: if_splits TensorShapeDynamism.splits)
    then have "?n \<le> uint (ti_numel_bound t)"
      using range by (simp add: word_le_def uint_word_of_int_63)
    moreover have "\<exists>strides. t' = resized new_sizes strides t \<and>
       (case (ti_strides t, ti_dim_order t) of
          (Some s, Some d) \<Rightarrow> \<exists>s'. strides = Some s' \<and>
            dim_order_to_stride oc new_sizes d (nat (ti_dim t)) s = Ok s'
        | _ \<Rightarrow> strides = ti_strides t)"
      using ok len dyn n bound copy
      by (cases "ti_shape_dynamism t"; cases "ti_strides t"; cases "ti_dim_order t")
        (auto simp: internal_resize_contiguous_def Let_def resized_def split: outcome.splits
          intro!: tensor_impl.equality dest: dim_order_to_stride_Err)
    ultimately show ?thesis using fits nlen dyn by simp
  qed
qed

lemma resize_failure:
  "internal_resize_contiguous oc new_sizes t = Ok (err, t') \<Longrightarrow> err \<noteq> Error_Ok \<Longrightarrow> t' = t"
  by (auto simp: internal_resize_contiguous_def Let_def
      split: if_splits TensorShapeDynamism.splits outcome.splits option.splits)

lemma dim_order_to_stride_length:
  "dim_order_to_stride oc sizes d n s = Ok s' \<Longrightarrow> length s' = length s"
proof -
  have "stride_loop oc sizes d i s = Ok s' \<Longrightarrow> length s' = length s" for i s
    by (induction oc sizes d i s rule: stride_loop.induct)
      (auto simp: Let_def outcome_simps split: if_splits)
  from this [of "n - 1" "s[unat (d ! (n - 1)) := 1]"]
  show "dim_order_to_stride oc sizes d n s = Ok s' \<Longrightarrow> length s' = length s"
    by (auto simp: dim_order_to_stride_def dim_order_to_stride_nocheck_def split: if_splits)
qed

lemma resize_Ok_facts:
  assumes "tensor_inv t" and "internal_resize_contiguous oc new_sizes t = Ok (Error_Ok, t')"
  shows "tensor_inv t' \<and> t' = t\<lparr>ti_sizes := ti_sizes t', ti_strides := ti_strides t', ti_numel := ti_numel t'\<rparr> \<and>
    tensor_sizes t' = new_sizes \<and> ti_numel t' = prod_list new_sizes \<and> prod_list new_sizes \<le> uint (ti_numel_bound t)"
  using resize_success [OF assms]
proof (elim disjE conjE exE, goal_cases)
  case 1
  then show ?case using assms(1) by (auto simp: tensor_inv_def)
next
  case (2 strides)
  then have "\<forall>s. strides = Some s \<longrightarrow> length s = nat (ti_dim t)"
    using assms(1) dim_order_to_stride_length by (auto simp: tensor_inv_def split: option.splits)
  then have "tensor_inv t'" using 2 assms(1) by (auto simp: resized_def tensor_inv_def)
  then show ?case using 2 by (auto simp: resized_def tensor_sizes_def)
qed

text \<open>
  C13. Resizing is atomic and bounded: it keeps the invariant of a tensor, never touches its
  rank, capacity, type, dim order, data or device, changes nothing at all when it reports an
  error, and when it succeeds the tensor has exactly the requested sizes and an element count
  equal to their product and within the capacity fixed at creation.
\<close>
theorem resize_preserves_invariant:
  assumes "tensor_inv t" and "internal_resize_contiguous oc new_sizes t = Ok (err, t')"
  shows "tensor_inv t' \<and>
    t' = t\<lparr>ti_sizes := ti_sizes t', ti_strides := ti_strides t', ti_numel := ti_numel t'\<rparr> \<and>
    (if err = Error_Ok
     then tensor_sizes t' = new_sizes \<and> ti_numel t' = prod_list new_sizes \<and>
       prod_list new_sizes \<le> uint (ti_numel_bound t)
     else t' = t)"
proof (cases "err = Error_Ok")
  case True
  with assms(2) have r: "internal_resize_contiguous oc new_sizes t = Ok (Error_Ok, t')" by simp
  show ?thesis unfolding if_P [OF True] by (rule resize_Ok_facts [OF assms(1) r])
next
  case False
  then have "t' = t" using resize_failure assms(2) by blast
  then show ?thesis using assms(1) False by simp
qed

definition example_tensor :: tensor_impl where
  "example_tensor = \<lparr>ti_sizes = Some [2, 3, 4], ti_dim_order = Some [0, 1, 2],
     ti_strides = Some [12, 4, 1], ti_data = 4096, ti_dim = 3, ti_numel = 24, ti_numel_bound = 24,
     ti_type = Float, ti_shape_dynamism = DYNAMIC_BOUND,
     ti_device = \<lparr>device_type = CPU, device_index = 0\<rparr>\<rparr>"

lemma example_tensor_new:
  "tensor_new True Float 3 (Some [2, 3, 4]) 4096 (Some [0, 1, 2]) (Some [12, 4, 1]) DYNAMIC_BOUND CPU 0
   = Ok example_tensor"
  by code_simp

lemma example_tensor_inv: "tensor_inv example_tensor"
  by (rule tensor_new_inv [OF example_tensor_new]) simp_all

theorem resize_preserves_invariant_witness:
  "\<exists>t'. internal_resize_contiguous True [4, 3, 1] example_tensor = Ok (Error_Ok, t') \<and>
     tensor_inv t' \<and> tensor_sizes t' = [4, 3, 1] \<and> ti_numel t' = 12"
proof -
  have "case internal_resize_contiguous True [4, 3, 1] example_tensor of Ok (Error_Ok, _) \<Rightarrow> True | _ \<Rightarrow> False"
    by code_simp
  then have "\<exists>t'. internal_resize_contiguous True [4, 3, 1] example_tensor = Ok (Error_Ok, t')"
    by (auto split: outcome.splits prod.splits Error.splits)
  then obtain t' where r: "internal_resize_contiguous True [4, 3, 1] example_tensor = Ok (Error_Ok, t')" ..
  from resize_preserves_invariant [OF example_tensor_inv r] r show ?thesis by simp
qed

text \<open>
  Resizing a dynamic tensor with a dim order succeeds for every shape of its rank and
  within its capacity whose strides fit \<^verbatim>\<open>i32\<close>, and the new strides follow its dim order. The
  capacity check does not bound the strides: for a shape within capacity whose strides leave
  \<^verbatim>\<open>i32\<close> (a zero size makes that possible at any capacity) a build with overflow checks panics.
\<close>
theorem resize_recomputes_strides:
  assumes "tensor_inv t" and "ti_dim_order t = Some d" and "ti_strides t = Some s"
    and "ti_shape_dynamism t \<noteq> STATIC" and "ti_dim t \<noteq> 0" and "validate_dim_order d (nat (ti_dim t))"
    and "length new_sizes = nat (ti_dim t)" and "numel_fits new_sizes"
    and "prod_list new_sizes \<le> uint (ti_numel_bound t)"
  shows "if sizes_after new_sizes d 0 < 2 ^ 31
    then \<exists>s'. internal_resize_contiguous oc new_sizes t =
        Ok (Error_Ok, t\<lparr>ti_sizes := Some new_sizes, ti_strides := Some s', ti_numel := prod_list new_sizes\<rparr>) \<and>
      length s' = length d \<and> (\<forall>k < length d. s' ! unat (d ! k) = sizes_after new_sizes d k)
    else internal_resize_contiguous True new_sizes t = Panic"
proof -
  obtain xs where xs: "ti_sizes t = Some xs" "length xs = nat (ti_dim t)"
    and dim: "0 \<le> ti_dim t" and ld: "length d = nat (ti_dim t)" and ls: "length s = nat (ti_dim t)"
    using assms(1-3) by (auto simp: tensor_inv_def)
  have copy: "copy_sizes 0 new_sizes (the (ti_sizes t)) = new_sizes"
    using xs assms(7) by (simp add: copy_sizes_eq)
  note range = numel_fits_range [OF assms(8)]
  have le: "word_of_int (prod_list new_sizes) \<le> ti_numel_bound t"
    using assms(9) range by (simp add: word_le_def uint_word_of_int_63)
  have n: "safe_numel (Some new_sizes) (ti_dim t) = Ok (prod_list new_sizes)"
    using safe_numel_eq [OF assms(7)] assms(8) by simp
  have nonneg: "\<forall>k < nat (ti_dim t). 0 \<le> new_sizes ! k"
    using assms(7,8) by (auto simp: numel_fits_def numel_fits_from_def)
  have nz: "nat (ti_dim t) \<noteq> 0" using assms(5) dim by simp
  have resize: "internal_resize_contiguous oc new_sizes t =
      (case dim_order_to_stride oc new_sizes d (nat (ti_dim t)) s of
         Panic \<Rightarrow> Panic
       | Err e \<Rightarrow> Ok (e, t)
       | Ok s' \<Rightarrow> Ok (Error_Ok, t\<lparr>ti_sizes := Some new_sizes, ti_strides := Some s',
            ti_numel := prod_list new_sizes\<rparr>))" for oc
    using assms(2-5,7) n le copy dim
    by (cases "ti_shape_dynamism t") (auto simp: internal_resize_contiguous_def Let_def split: outcome.splits)
  show ?thesis
  proof (cases "sizes_after new_sizes d 0 < 2 ^ 31")
    case True
    obtain s' where "dim_order_to_stride oc new_sizes d (nat (ti_dim t)) s = Ok s'"
        "length s' = nat (ti_dim t)" "\<forall>k < nat (ti_dim t). s' ! unat (d ! k) = sizes_after new_sizes d k"
      using dim_order_to_stride_correct [OF ld _ _ ls nonneg True] assms(6) validate_iff_permutation [OF ld]
      by metis
    then show ?thesis using True resize [of oc] ld by auto
  next
    case False
    have "dim_order_to_stride True new_sizes d (nat (ti_dim t)) s = Panic"
      by (rule dim_order_to_stride_panics [OF ld ls nz nonneg assms(6) False])
    then show ?thesis using False resize [of True] by simp
  qed
qed

theorem resize_recomputes_strides_witness:
  "internal_resize_contiguous True [0, 65536, 65536] example_tensor = Panic"
proof -
  have v: "validate_dim_order [0, 1, 2] 3" by code_simp
  have big: "\<not> sizes_after [0, 65536, 65536] [0, 1, 2] 0 < 2 ^ 31" by code_simp
  have fits: "numel_fits [0, 65536, 65536]"
    by (auto simp: numel_fits_def numel_fits_from_def le_Suc_eq)
  show ?thesis
    using resize_recomputes_strides [OF example_tensor_inv, of "[0, 1, 2]" "[12, 4, 1]" "[0, 65536, 65536]"]
      v big fits by (simp add: example_tensor_def)
qed

section \<open>Creating a layout\<close>

lemma calculate_nbytes_loop_Ok:
  assumes "\<forall>x \<in> set xs. fits_i32 x"
  shows "calculate_nbytes_loop xs n = Ok m \<Longrightarrow>
    (\<forall>x \<in> set xs. 0 \<le> x) \<and> int (unat m) = int (unat n) * prod_list xs"
  using assms
proof (induction xs arbitrary: n)
  case (Cons x xs)
  then obtain v where x: "0 \<le> x" and v: "checked_mul n (word_of_int x) = Some v"
    and rest: "calculate_nbytes_loop xs v = Ok m"
    by (auto split: if_splits option.splits)
  have ux: "unat (word_of_int x :: usize) = nat x"
    using x Cons.prems(2) by (intro unat_word_of_int) (auto simp: fits_i32_def)
  have "int (unat v) = int (unat n) * x"
    using v ux x by (auto simp: unat_mul_no_overflow)
  then show ?case using Cons.IH [OF rest] Cons.prems(2) x by (simp add: mult.assoc)
qed simp

lemma calculate_nbytes_loop_total:
  assumes "\<forall>x \<in> set xs. 0 \<le> x \<and> fits_i32 x" and "\<forall>k \<le> length xs. int (unat n) * prod_list (take k xs) < 2 ^ 64"
  shows "\<exists>m. calculate_nbytes_loop xs n = Ok m"
  using assms
proof (induction xs arbitrary: n)
  case (Cons x xs)
  have x: "0 \<le> x" "x < 2 ^ 64" using Cons.prems(1) by (auto simp: fits_i32_def)
  have ux: "unat (word_of_int x :: usize) = nat x" by (rule unat_word_of_int [OF x])
  have all: "int (unat n) * prod_list (take (Suc k) (x # xs)) < 2 ^ 64" if "k \<le> length xs" for k
    using Cons.prems(2) that by (metis Suc_le_mono length_Cons)
  have "int (unat n) * x < 2 ^ 64" using all [of 0] by simp
  then have "int (unat n * nat x) < int (2 ^ 64)" using x by simp
  then have fit: "unat n * unat (word_of_int x :: usize) < 2 ^ 64" by (simp only: ux of_nat_less_iff)
  define v where "v = n * word_of_int x"
  have uv: "int (unat v) = int (unat n) * x" using fit ux x by (simp add: v_def unat_mul_no_overflow)
  have "\<exists>m. calculate_nbytes_loop xs v = Ok m"
    using Cons.prems(1) all by (intro Cons.IH) (auto simp: uv [simplified] mult.assoc)
  then show ?case using x(1) fit by (simp add: checked_mul_def v_def)
qed simp

lemma calculate_nbytes_loop_not_Panic: "calculate_nbytes_loop xs n \<noteq> Panic"
  by (induction xs n rule: calculate_nbytes_loop.induct) (auto split: option.splits)

lemma layout_accepts_duplicate_dims:
  "is_Ok (tensor_layout_create [2, 2] [0, 0] Float) \<and> \<not> validate_dim_order [0, 0] 2"
  by (simp add: tensor_layout_create_def calculate_nbytes_def checked_mul_def validate_dim_order_def
      K_TENSOR_DIMENSION_LIMIT_def)

text \<open>
  A tensor layout describes a tensor whose bytes can be counted: when \<open>create\<close> succeeds, the
  sizes are non-negative, the recorded byte count is exactly the product of the sizes times the
  element size, the dim order has one entry per dimension and each is a dimension; it need not be
  a permutation, since duplicates are not rejected.
\<close>
theorem tensor_layout_create_sound:
  assumes "\<forall>x \<in> set sizes. fits_i32 x" and "tensor_layout_create sizes dim_order ty = Ok l"
  shows "(\<forall>x \<in> set sizes. 0 \<le> x) \<and> tl_sizes l = sizes \<and> tl_dim_order l = dim_order \<and>
    length dim_order = length sizes \<and> (\<forall>d \<in> set dim_order. unat d < length sizes) \<and>
    (\<exists>es. element_size ty = Ok es \<and> int (unat (tl_nbytes l)) = prod_list sizes * int (unat es))"
proof -
  obtain n es where n: "calculate_nbytes_loop sizes 1 = Ok n" and es: "element_size ty = Ok es"
    and fit: "unat n * unat es < 2 ^ 64" and l: "tl_nbytes l = n * es"
      "tl_sizes l = sizes" "tl_dim_order l = dim_order" "length dim_order = length sizes"
      "\<forall>d \<in> set dim_order. unat d < length sizes"
    using assms(2)
    by (auto simp: tensor_layout_create_def calculate_nbytes_def outcome_simps not_le
        split: if_splits option.splits)
  have "int (unat (tl_nbytes l)) = prod_list sizes * int (unat es)"
    using calculate_nbytes_loop_Ok [OF assms(1) n] fit l(1) by (simp add: unat_mul_no_overflow)
  then show ?thesis using calculate_nbytes_loop_Ok [OF assms(1) n] es l by simp
qed

theorem tensor_layout_create_sound_witness:
  "\<exists>l. tensor_layout_create [2, 3] [0, 1] Float = Ok l \<and> int (unat (tl_nbytes l)) = 24"
proof -
  have "is_Ok (tensor_layout_create [2, 3] [0, 1] Float)"
    by (simp add: tensor_layout_create_def calculate_nbytes_def checked_mul_def)
  then obtain l where l: "tensor_layout_create [2, 3] [0, 1] Float = Ok l" by (auto simp: is_Ok_iff)
  have "\<forall>x \<in> set [2, 3]. fits_i32 x" by (simp add: fits_i32_def)
  from tensor_layout_create_sound [OF this l] l show ?thesis by simp
qed

end
