(* ===== verification/EValue.thy ===== *)
theory EValue
  imports Scalar_Types Hierarchical_Allocator
begin

text \<open>
  \<^verbatim>\<open>runtime/core/evalue.rs\<close>, \<^verbatim>\<open>runtime/core/tag.rs\<close> and \<^verbatim>\<open>portable_type/scalar.rs\<close>: the tagged
  values of a method's table. The union of a payload and its tag is a datatype whose constructors
  are the tags; a pointer that may be null is an option. A tensor is a handle, the address of its
  \<^verbatim>\<open>TensorImpl\<close>; a boxed list holds pointers into the values table, here indices. A \<^verbatim>\<open>f64\<close> is its
  64-bit pattern, which this code only copies.
\<close>

section \<open>Tags\<close>

datatype Tag =
    Tag_None | Tag_Tensor | Tag_String | Tag_Double | Tag_Int | Tag_Bool | Tag_ListBool
  | Tag_ListDouble | Tag_ListInt | Tag_ListTensor | Tag_ListScalar | Tag_ListOptionalTensor

fun tag_to_string_static :: "Tag \<Rightarrow> string" where
  "tag_to_string_static Tag_None = ''None''"
| "tag_to_string_static Tag_Tensor = ''Tensor''"
| "tag_to_string_static Tag_String = ''String''"
| "tag_to_string_static Tag_Double = ''Double''"
| "tag_to_string_static Tag_Int = ''Int''"
| "tag_to_string_static Tag_Bool = ''Bool''"
| "tag_to_string_static Tag_ListBool = ''ListBool''"
| "tag_to_string_static Tag_ListDouble = ''ListDouble''"
| "tag_to_string_static Tag_ListInt = ''ListInt''"
| "tag_to_string_static Tag_ListTensor = ''ListTensor''"
| "tag_to_string_static Tag_ListScalar = ''ListScalar''"
| "tag_to_string_static Tag_ListOptionalTensor = ''ListOptionalTensor''"

text \<open>Writing a string into a buffer, truncated and terminated; the result is its full length.\<close>

definition et_snprintf_s :: "string \<Rightarrow> nat \<Rightarrow> string \<Rightarrow> string \<times> nat" where
  "et_snprintf_s buffer buffer_size s =
     (let full_len = length s; cap = min buffer_size (length buffer)
      in if 0 < cap then
           let to_copy = min full_len (cap - 1)
           in ((take to_copy s @ drop to_copy buffer)[to_copy := CHR 0x00], full_len)
         else (buffer, full_len))"

definition tag_to_string :: "Tag \<Rightarrow> string \<Rightarrow> nat \<Rightarrow> string \<times> nat" where
  "tag_to_string tag buffer buffer_size = et_snprintf_s buffer buffer_size (tag_to_string_static tag)"

definition K_TAG_NAME_BUFFER_SIZE :: nat where
  "K_TAG_NAME_BUFFER_SIZE = 19"

section \<open>Scalars\<close>

datatype Scalar = S_Int int | S_Double u64 | S_Bool bool

definition scalar_new :: Scalar where
  "scalar_new = S_Int 0"

fun scalar_is_integral :: "Scalar \<Rightarrow> bool \<Rightarrow> bool" where
  "scalar_is_integral (S_Int _) include_bool = True"
| "scalar_is_integral (S_Bool _) include_bool = include_bool"
| "scalar_is_integral (S_Double _) include_bool = False"

fun scalar_is_floating_point :: "Scalar \<Rightarrow> bool" where
  "scalar_is_floating_point (S_Double _) = True"
| "scalar_is_floating_point _ = False"

fun scalar_is_boolean :: "Scalar \<Rightarrow> bool" where
  "scalar_is_boolean (S_Bool _) = True"
| "scalar_is_boolean _ = False"

fun scalar_to_int :: "Scalar \<Rightarrow> int result" where
  "scalar_to_int (S_Int i) = Ok i"
| "scalar_to_int (S_Bool b) = Ok (if b then 1 else 0)"
| "scalar_to_int (S_Double _) = Panic"

fun scalar_to_double :: "Scalar \<Rightarrow> u64 result" where
  "scalar_to_double (S_Double d) = Ok d"
| "scalar_to_double _ = Panic"

fun scalar_to_bool :: "Scalar \<Rightarrow> bool result" where
  "scalar_to_bool (S_Bool b) = Ok b"
| "scalar_to_bool _ = Panic"

section \<open>Values\<close>

type_synonym tensor_id = nat

datatype evalue =
    E_None
  | E_Tensor tensor_id
  | E_String "string option"
  | E_Double u64
  | E_Int int
  | E_Bool bool
  | E_ListBool "bool list option"
  | E_ListDouble "u64 list option"
  | E_ListInt "nat option list option"
  | E_ListTensor "nat option list option"
  | E_ListScalar
  | E_ListOptionalTensor "nat option list option"

fun ev_tag :: "evalue \<Rightarrow> Tag" where
  "ev_tag E_None = Tag_None"
| "ev_tag (E_Tensor _) = Tag_Tensor"
| "ev_tag (E_String _) = Tag_String"
| "ev_tag (E_Double _) = Tag_Double"
| "ev_tag (E_Int _) = Tag_Int"
| "ev_tag (E_Bool _) = Tag_Bool"
| "ev_tag (E_ListBool _) = Tag_ListBool"
| "ev_tag (E_ListDouble _) = Tag_ListDouble"
| "ev_tag (E_ListInt _) = Tag_ListInt"
| "ev_tag (E_ListTensor _) = Tag_ListTensor"
| "ev_tag E_ListScalar = Tag_ListScalar"
| "ev_tag (E_ListOptionalTensor _) = Tag_ListOptionalTensor"

definition ev_is_none :: "evalue \<Rightarrow> bool" where "ev_is_none e \<longleftrightarrow> ev_tag e = Tag_None"
definition ev_is_tensor :: "evalue \<Rightarrow> bool" where "ev_is_tensor e \<longleftrightarrow> ev_tag e = Tag_Tensor"
definition ev_is_string :: "evalue \<Rightarrow> bool" where "ev_is_string e \<longleftrightarrow> ev_tag e = Tag_String"
definition ev_is_double :: "evalue \<Rightarrow> bool" where "ev_is_double e \<longleftrightarrow> ev_tag e = Tag_Double"
definition ev_is_int :: "evalue \<Rightarrow> bool" where "ev_is_int e \<longleftrightarrow> ev_tag e = Tag_Int"
definition ev_is_bool :: "evalue \<Rightarrow> bool" where "ev_is_bool e \<longleftrightarrow> ev_tag e = Tag_Bool"
definition ev_is_scalar :: "evalue \<Rightarrow> bool" where
  "ev_is_scalar e \<longleftrightarrow> ev_tag e = Tag_Int \<or> ev_tag e = Tag_Double \<or> ev_tag e = Tag_Bool"

subsection \<open>Checked accessors: abort on a mismatch\<close>

fun to_int :: "evalue \<Rightarrow> int result" where
  "to_int (E_Int i) = Ok i"
| "to_int _ = Panic"

fun to_double :: "evalue \<Rightarrow> u64 result" where
  "to_double (E_Double d) = Ok d"
| "to_double _ = Panic"

fun to_bool :: "evalue \<Rightarrow> bool result" where
  "to_bool (E_Bool b) = Ok b"
| "to_bool _ = Panic"

definition to_scalar :: "evalue \<Rightarrow> Scalar result" where
  "to_scalar e =
     (if ev_is_double e then r_bind (to_double e) (\<lambda>d. Ok (S_Double d))
      else if ev_is_int e then r_bind (to_int e) (\<lambda>i. Ok (S_Int i))
      else if ev_is_bool e then r_bind (to_bool e) (\<lambda>b. Ok (S_Bool b))
      else Panic)"

fun to_tensor :: "evalue \<Rightarrow> tensor_id result" where
  "to_tensor (E_Tensor t) = Ok t"
| "to_tensor _ = Panic"

fun to_string :: "evalue \<Rightarrow> string result" where
  "to_string (E_String (Some s)) = Ok s"
| "to_string _ = Panic"

fun to_bool_list :: "evalue \<Rightarrow> bool list result" where
  "to_bool_list (E_ListBool (Some xs)) = Ok xs"
| "to_bool_list _ = Panic"

fun to_double_list :: "evalue \<Rightarrow> u64 list result" where
  "to_double_list (E_ListDouble (Some xs)) = Ok xs"
| "to_double_list _ = Panic"

text \<open>A boxed list reads its elements through the values table at the time of the call.\<close>

fun boxed_get :: "(evalue \<Rightarrow> 'a result) \<Rightarrow> (nat \<Rightarrow> evalue) \<Rightarrow> nat option list \<Rightarrow> 'a list result" where
  "boxed_get conv vals [] = Ok []"
| "boxed_get conv vals (None # ps) = Panic"
| "boxed_get conv vals (Some i # ps) =
     r_bind (conv (vals i)) (\<lambda>x. r_bind (boxed_get conv vals ps) (\<lambda>xs. Ok (x # xs)))"

definition to_optional :: "(evalue \<Rightarrow> 'a result) \<Rightarrow> evalue \<Rightarrow> 'a option result" where
  "to_optional conv e = (if ev_is_none e then Ok None else r_bind (conv e) (\<lambda>x. Ok (Some x)))"

fun boxed_get_optional ::
    "(nat \<Rightarrow> evalue) \<Rightarrow> nat option list \<Rightarrow> tensor_id option list result" where
  "boxed_get_optional vals [] = Ok []"
| "boxed_get_optional vals (None # ps) =
     r_bind (boxed_get_optional vals ps) (\<lambda>xs. Ok (None # xs))"
| "boxed_get_optional vals (Some i # ps) =
     r_bind (to_optional to_tensor (vals i)) (\<lambda>x.
     r_bind (boxed_get_optional vals ps) (\<lambda>xs. Ok (x # xs)))"

fun to_int_list :: "(nat \<Rightarrow> evalue) \<Rightarrow> evalue \<Rightarrow> int list result" where
  "to_int_list vals (E_ListInt (Some ps)) = boxed_get to_int vals ps"
| "to_int_list vals _ = Panic"

fun to_tensor_list :: "(nat \<Rightarrow> evalue) \<Rightarrow> evalue \<Rightarrow> tensor_id list result" where
  "to_tensor_list vals (E_ListTensor (Some ps)) = boxed_get to_tensor vals ps"
| "to_tensor_list vals _ = Panic"

fun to_list_optional_tensor :: "(nat \<Rightarrow> evalue) \<Rightarrow> evalue \<Rightarrow> tensor_id option list result" where
  "to_list_optional_tensor vals (E_ListOptionalTensor (Some ps)) = boxed_get_optional vals ps"
| "to_list_optional_tensor vals _ = Panic"

subsection \<open>Fallible accessors: return an error on a mismatch\<close>

fun try_to_int :: "evalue \<Rightarrow> int result" where
  "try_to_int (E_Int i) = Ok i"
| "try_to_int _ = Err InvalidType"

fun try_to_double :: "evalue \<Rightarrow> u64 result" where
  "try_to_double (E_Double d) = Ok d"
| "try_to_double _ = Err InvalidType"

fun try_to_bool :: "evalue \<Rightarrow> bool result" where
  "try_to_bool (E_Bool b) = Ok b"
| "try_to_bool _ = Err InvalidType"

fun try_to_scalar :: "evalue \<Rightarrow> Scalar result" where
  "try_to_scalar (E_Double d) = Ok (S_Double d)"
| "try_to_scalar (E_Int i) = Ok (S_Int i)"
| "try_to_scalar (E_Bool b) = Ok (S_Bool b)"
| "try_to_scalar _ = Err InvalidType"

fun try_to_tensor :: "evalue \<Rightarrow> tensor_id result" where
  "try_to_tensor (E_Tensor t) = Ok t"
| "try_to_tensor _ = Err InvalidType"

fun try_to_string :: "evalue \<Rightarrow> string result" where
  "try_to_string (E_String None) = Err InvalidState"
| "try_to_string (E_String (Some s)) = Ok s"
| "try_to_string _ = Err InvalidType"

fun try_to_bool_list :: "evalue \<Rightarrow> bool list result" where
  "try_to_bool_list (E_ListBool None) = Err InvalidState"
| "try_to_bool_list (E_ListBool (Some xs)) = Ok xs"
| "try_to_bool_list _ = Err InvalidType"

fun try_to_double_list :: "evalue \<Rightarrow> u64 list result" where
  "try_to_double_list (E_ListDouble None) = Err InvalidState"
| "try_to_double_list (E_ListDouble (Some xs)) = Ok xs"
| "try_to_double_list _ = Err InvalidType"

fun boxed_try_get :: "(evalue \<Rightarrow> 'a result) \<Rightarrow> (nat \<Rightarrow> evalue) \<Rightarrow> nat option list \<Rightarrow> 'a list result" where
  "boxed_try_get conv vals [] = Ok []"
| "boxed_try_get conv vals (None # ps) = Err InvalidState"
| "boxed_try_get conv vals (Some i # ps) =
     r_bind (conv (vals i)) (\<lambda>x. r_bind (boxed_try_get conv vals ps) (\<lambda>xs. Ok (x # xs)))"

definition try_to_optional :: "(evalue \<Rightarrow> 'a result) \<Rightarrow> evalue \<Rightarrow> 'a option result" where
  "try_to_optional conv e = (if ev_is_none e then Ok None else r_bind (conv e) (\<lambda>x. Ok (Some x)))"

fun boxed_try_get_optional ::
    "(nat \<Rightarrow> evalue) \<Rightarrow> nat option list \<Rightarrow> tensor_id option list result" where
  "boxed_try_get_optional vals [] = Ok []"
| "boxed_try_get_optional vals (None # ps) =
     r_bind (boxed_try_get_optional vals ps) (\<lambda>xs. Ok (None # xs))"
| "boxed_try_get_optional vals (Some i # ps) =
     r_bind (try_to_optional try_to_tensor (vals i)) (\<lambda>x.
     r_bind (boxed_try_get_optional vals ps) (\<lambda>xs. Ok (x # xs)))"

fun try_to_int_list :: "(nat \<Rightarrow> evalue) \<Rightarrow> evalue \<Rightarrow> int list result" where
  "try_to_int_list vals (E_ListInt None) = Err InvalidState"
| "try_to_int_list vals (E_ListInt (Some ps)) = boxed_try_get try_to_int vals ps"
| "try_to_int_list vals _ = Err InvalidType"

fun try_to_tensor_list :: "(nat \<Rightarrow> evalue) \<Rightarrow> evalue \<Rightarrow> tensor_id list result" where
  "try_to_tensor_list vals (E_ListTensor None) = Err InvalidState"
| "try_to_tensor_list vals (E_ListTensor (Some ps)) = boxed_try_get try_to_tensor vals ps"
| "try_to_tensor_list vals _ = Err InvalidType"

fun try_to_list_optional_tensor :: "(nat \<Rightarrow> evalue) \<Rightarrow> evalue \<Rightarrow> tensor_id option list result" where
  "try_to_list_optional_tensor vals (E_ListOptionalTensor None) = Err InvalidState"
| "try_to_list_optional_tensor vals (E_ListOptionalTensor (Some ps)) = boxed_try_get_optional vals ps"
| "try_to_list_optional_tensor vals _ = Err InvalidType"

subsection \<open>Construction, copy and move\<close>

definition from_scalar :: "Scalar \<Rightarrow> evalue result" where
  "from_scalar s =
     (if scalar_is_integral s False then r_bind (scalar_to_int s) (\<lambda>i. Ok (E_Int i))
      else if scalar_is_floating_point s then r_bind (scalar_to_double s) (\<lambda>d. Ok (E_Double d))
      else if scalar_is_boolean s then r_bind (scalar_to_bool s) (\<lambda>b. Ok (E_Bool b))
      else Panic)"

text \<open>Constructors from a pointer abort on null, so a list or string built by them is never null.\<close>

definition from_string :: "string option \<Rightarrow> evalue result" where
  "from_string s = (if s = None then Panic else Ok (E_String s))"

definition from_bool_list :: "bool list option \<Rightarrow> evalue result" where
  "from_bool_list b = (if b = None then Panic else Ok (E_ListBool b))"

definition from_double_list :: "u64 list option \<Rightarrow> evalue result" where
  "from_double_list d = (if d = None then Panic else Ok (E_ListDouble d))"

definition from_int_list :: "nat option list option \<Rightarrow> evalue result" where
  "from_int_list i = (if i = None then Panic else Ok (E_ListInt i))"

definition from_tensor_list :: "nat option list option \<Rightarrow> evalue result" where
  "from_tensor_list t = (if t = None then Panic else Ok (E_ListTensor t))"

definition from_list_optional_tensor :: "nat option list option \<Rightarrow> evalue result" where
  "from_list_optional_tensor t = (if t = None then Panic else Ok (E_ListOptionalTensor t))"

definition from_ref :: "evalue \<Rightarrow> evalue" where
  "from_ref rhs = rhs"

definition move_from :: "evalue \<Rightarrow> evalue \<times> evalue" where
  "move_from rhs = (rhs, E_None)"

text \<open>Assignments between slots of the values table.\<close>

definition assign_move :: "nat \<Rightarrow> nat \<Rightarrow> evalue list \<Rightarrow> evalue list" where
  "assign_move self rhs vals =
     (if rhs = self then vals
      else let (moved, cleared) = move_from (vals ! rhs)
      in vals[self := moved, rhs := cleared])"

definition assign_ref :: "nat \<Rightarrow> evalue \<Rightarrow> evalue list \<Rightarrow> evalue list" where
  "assign_ref self rhs vals =
     (let tmp = from_ref rhs; (moved, cleared) = move_from tmp in vals[self := moved])"

section \<open>The two families of accessors agree\<close>

text \<open>Agreement: the checked accessor returns what the fallible one returns and aborts where it errs.\<close>

definition agrees :: "'a result \<Rightarrow> 'a result \<Rightarrow> bool" where
  "agrees checked tried \<longleftrightarrow>
     (case tried of Ok x \<Rightarrow> checked = Ok x | Err _ \<Rightarrow> checked = Panic | Panic \<Rightarrow> False)"

lemma agrees_bind:
  "agrees c t \<Longrightarrow> (\<And>x. agrees (f x) (g x)) \<Longrightarrow> agrees (r_bind c f) (r_bind t g)"
  by (cases t) (auto simp: agrees_def)

lemma agrees_Ok [simp]: "agrees (Ok x) (Ok x)"
  by (simp add: agrees_def)

lemma agrees_basic:
  "agrees (to_int e) (try_to_int e)" "agrees (to_double e) (try_to_double e)"
  "agrees (to_bool e) (try_to_bool e)" "agrees (to_scalar e) (try_to_scalar e)"
  "agrees (to_tensor e) (try_to_tensor e)" "agrees (to_string e) (try_to_string e)"
  "agrees (to_bool_list e) (try_to_bool_list e)" "agrees (to_double_list e) (try_to_double_list e)"
proof -
  show "agrees (to_string e) (try_to_string e)"
    by (cases e rule: to_string.cases) (simp_all add: agrees_def)
  show "agrees (to_bool_list e) (try_to_bool_list e)"
    by (cases e rule: try_to_bool_list.cases) (simp_all add: agrees_def)
  show "agrees (to_double_list e) (try_to_double_list e)"
    by (cases e rule: try_to_double_list.cases) (simp_all add: agrees_def)
  show "agrees (to_scalar e) (try_to_scalar e)"
    by (cases e) (simp_all add: agrees_def to_scalar_def ev_is_double_def ev_is_int_def ev_is_bool_def)
qed (cases e; simp add: agrees_def)+

lemma agrees_boxed:
  assumes "\<And>e. agrees (conv e) (tconv e)"
  shows "agrees (boxed_get conv vals ps) (boxed_try_get tconv vals ps)"
proof (induction ps)
  case (Cons p ps)
  then show ?case using assms by (cases p) (auto simp: agrees_def [of Panic] intro!: agrees_bind)
qed simp

lemma agrees_optional:
  assumes "\<And>e. agrees (conv e) (tconv e)"
  shows "agrees (to_optional conv e) (try_to_optional tconv e)"
  using assms by (auto simp: to_optional_def try_to_optional_def intro!: agrees_bind)

lemma agrees_boxed_optional: "agrees (boxed_get_optional vals ps) (boxed_try_get_optional vals ps)"
proof (induction ps)
  case (Cons p ps)
  then show ?case using agrees_optional [OF agrees_basic(5)]
    by (cases p) (auto intro!: agrees_bind)
qed simp

text \<open>
  The aborting and the error-returning accessors of a value agree on every tag and payload:
  where \<open>try_to_x\<close> returns a value \<open>to_x\<close> returns the same one, and where it returns an error
  (a wrong tag, a null list, a null or wrongly typed list element) \<open>to_x\<close> aborts.
\<close>
theorem accessors_agree:
  "agrees (to_int e) (try_to_int e) \<and> agrees (to_double e) (try_to_double e) \<and>
   agrees (to_bool e) (try_to_bool e) \<and> agrees (to_scalar e) (try_to_scalar e) \<and>
   agrees (to_tensor e) (try_to_tensor e) \<and> agrees (to_string e) (try_to_string e) \<and>
   agrees (to_bool_list e) (try_to_bool_list e) \<and> agrees (to_double_list e) (try_to_double_list e) \<and>
   agrees (to_int_list vals e) (try_to_int_list vals e) \<and>
   agrees (to_tensor_list vals e) (try_to_tensor_list vals e) \<and>
   agrees (to_list_optional_tensor vals e) (try_to_list_optional_tensor vals e)"
proof (intro conjI)
  show "agrees (to_int_list vals e) (try_to_int_list vals e)"
    by (cases "(vals, e)" rule: try_to_int_list.cases)
      (simp_all add: agrees_boxed agrees_basic, simp_all add: agrees_def)
  show "agrees (to_tensor_list vals e) (try_to_tensor_list vals e)"
    by (cases "(vals, e)" rule: try_to_tensor_list.cases)
      (simp_all add: agrees_boxed agrees_basic, simp_all add: agrees_def)
  show "agrees (to_list_optional_tensor vals e) (try_to_list_optional_tensor vals e)"
    by (cases "(vals, e)" rule: try_to_list_optional_tensor.cases)
      (simp_all add: agrees_boxed_optional, simp_all add: agrees_def)
qed (rule agrees_basic)+

section \<open>Lists, copies and moves\<close>

lemma boxed_get_Ok_iff:
  "boxed_get conv vals ps = Ok xs \<longleftrightarrow>
     length xs = length ps \<and>
     (\<forall>k < length ps. \<exists>i. ps ! k = Some i \<and> conv (vals i) = Ok (xs ! k))"
proof (induction ps arbitrary: xs)
  case (Cons p ps)
  have "boxed_get conv vals (p # ps) = Ok xs \<longleftrightarrow>
      (\<exists>i x ys. p = Some i \<and> conv (vals i) = Ok x \<and> boxed_get conv vals ps = Ok ys \<and> xs = x # ys)"
    by (cases p) (auto simp: outcome_simps)
  also have "\<dots> \<longleftrightarrow> (\<exists>x ys. xs = x # ys \<and> (\<exists>i. p = Some i \<and> conv (vals i) = Ok x) \<and>
      length ys = length ps \<and> (\<forall>k < length ps. \<exists>i. ps ! k = Some i \<and> conv (vals i) = Ok (ys ! k)))"
    using Cons.IH by blast
  also have "\<dots> \<longleftrightarrow> length xs = length (p # ps) \<and>
      (\<forall>k < length (p # ps). \<exists>i. (p # ps) ! k = Some i \<and> conv (vals i) = Ok (xs ! k))"
    by (cases xs) (auto simp: All_less_Suc2)
  finally show ?case .
qed auto

text \<open>
  A tensor list is materialised from the values table as it stands: it succeeds exactly when
  every element pointer is non-null and names a tensor, returns those handles in order, and sees
  the assignments made to the elements since the list was built.
\<close>
theorem tensor_list_reads_current_values:
  "to_tensor_list vals (E_ListTensor (Some ps)) = Ok ts \<longleftrightarrow>
     length ts = length ps \<and>
     (\<forall>k < length ps. \<exists>i. ps ! k = Some i \<and> vals i = E_Tensor (ts ! k))"
proof -
  have "to_tensor e = Ok t \<longleftrightarrow> e = E_Tensor t" for e t by (cases e) auto
  then show ?thesis by (simp add: boxed_get_Ok_iff)
qed

theorem tensor_list_reads_current_values_witness:
  "to_tensor_list (\<lambda>i. E_Tensor (i + 7)) (E_ListTensor (Some [Some 1, Some 0])) = Ok [8, 7]"
  unfolding tensor_list_reads_current_values by (simp add: less_Suc_eq all_conj_distrib)

text \<open>
  Moving a value between slots leaves the source \<open>None\<close> and moving a slot onto itself changes
  nothing; copying leaves the source as it was; every other slot is untouched, and a scalar
  survives the round trip through a value with its tag.
\<close>
theorem copy_and_move_semantics:
  assumes "self < length vals" and "rhs < length vals"
  shows "(self = rhs \<longrightarrow> assign_move self rhs vals = vals) \<and>
    (self \<noteq> rhs \<longrightarrow> assign_move self rhs vals ! self = vals ! rhs \<and>
       assign_move self rhs vals ! rhs = E_None) \<and>
    assign_ref self (vals ! rhs) vals ! self = vals ! rhs \<and>
    (self \<noteq> rhs \<longrightarrow> assign_ref self (vals ! rhs) vals ! rhs = vals ! rhs) \<and>
    (\<forall>k. k \<noteq> self \<and> k \<noteq> rhs \<longrightarrow> assign_move self rhs vals ! k = vals ! k \<and>
       assign_ref self (vals ! rhs) vals ! k = vals ! k) \<and>
    (\<exists>e. from_scalar s = Ok e \<and> to_scalar e = Ok s)"
proof -
  have "\<exists>e. from_scalar s = Ok e \<and> to_scalar e = Ok s"
    by (cases s) (simp_all add: from_scalar_def to_scalar_def ev_is_double_def ev_is_int_def ev_is_bool_def)
  then show ?thesis using assms
    by (auto simp: assign_move_def assign_ref_def move_from_def from_ref_def)
qed

theorem copy_and_move_semantics_witness:
  "assign_move 0 1 [E_Int 3, E_Tensor 7] = [E_Tensor 7, E_None] \<and>
   assign_move 0 1 [E_Int 3, E_Tensor 7] ! 1 = E_None"
  using copy_and_move_semantics [of 0 "[E_Int 3, E_Tensor 7]" 1 scalar_new]
  by (simp add: assign_move_def move_from_def)

lemma tag_name_fits: "length (tag_to_string_static t) < K_TAG_NAME_BUFFER_SIZE"
  by (cases t) (simp_all add: K_TAG_NAME_BUFFER_SIZE_def)

lemma tag_to_string_exact:
  assumes "length buffer = K_TAG_NAME_BUFFER_SIZE"
  shows "take (Suc (length (tag_to_string_static t))) (fst (tag_to_string t buffer K_TAG_NAME_BUFFER_SIZE))
    = tag_to_string_static t @ [CHR 0x00]"
proof -
  let ?s = "tag_to_string_static t"
  have "length ?s < length buffer" using tag_name_fits [of t] assms by simp
  then show ?thesis using assms tag_name_fits [of t]
    by (simp add: tag_to_string_def et_snprintf_s_def Let_def take_Suc_conv_app_nth nth_append)
qed

end
