(* ===== verification/Operator_Registry.thy ===== *)
theory Operator_Registry
  imports Scalar_Types Dim_Order
begin

text \<open>
  \<^verbatim>\<open>runtime/kernel/operator_registry.rs\<close>: the process-wide table of kernels, the key string that
  selects a kernel specialised to tensor types and dim orders, and the lookup. The fixed array of
  \<^verbatim>\<open>registered_kernels\<close> with its count is the list of its used prefix; a C string is the list of
  its characters before the terminator; the kernel functions are a type parameter.
\<close>

section \<open>Keys\<close>

record tensor_meta =
  tm_dtype :: ScalarType
  tm_dim_order :: "u8 list"

fun dim_orders_equal :: "nat \<Rightarrow> nat \<Rightarrow> u8 list \<Rightarrow> u8 list \<Rightarrow> bool" where
  "dim_orders_equal i 0 xs ys = True"
| "dim_orders_equal i (Suc n) xs ys =
     (if xs ! i \<noteq> ys ! i then False else dim_orders_equal (Suc i) n xs ys)"

definition tensor_meta_equals :: "tensor_meta \<Rightarrow> tensor_meta \<Rightarrow> bool" where
  "tensor_meta_equals a b =
     (if tm_dtype a \<noteq> tm_dtype b then False
      else if length (tm_dim_order a) \<noteq> length (tm_dim_order b) then False
      else dim_orders_equal 0 (length (tm_dim_order a)) (tm_dim_order a) (tm_dim_order b))"

type_synonym kernel_key = "string option"

definition key_is_fallback :: "kernel_key \<Rightarrow> bool" where
  "key_is_fallback k \<longleftrightarrow> k = None"

definition key_equals :: "kernel_key \<Rightarrow> kernel_key \<Rightarrow> bool" where
  "key_equals a b =
     (if key_is_fallback a \<noteq> key_is_fallback b then False
      else if key_is_fallback a then True
      else the a = the b)"

definition K_KERNEL_KEY_BUF_SIZE :: nat where
  "K_KERNEL_KEY_BUF_SIZE = 659"

definition copy_char_as_number_to_buf :: "int \<Rightarrow> nat \<Rightarrow> string option" where
  "copy_char_as_number_to_buf num buf_size =
     (if num < 0 then None
      else if num < 10 then
        if buf_size < 1 then None else Some [char_of (48 + nat num)]
      else if num < 100 then
        if buf_size < 2 then None
        else Some [char_of (48 + nat num div 10), char_of (48 + nat num mod 10)]
      else None)"

text \<open>The writer's state is what it has written and the bytes it has left.\<close>

type_synonym writer = "string \<times> nat"

definition put_char :: "char \<Rightarrow> writer \<Rightarrow> writer result" where
  "put_char c w = (if snd w < 1 then Err InvalidArgument else Ok (fst w @ [c], snd w - 1))"

definition put_number :: "int \<Rightarrow> writer \<Rightarrow> writer result" where
  "put_number num w =
     (case copy_char_as_number_to_buf num (snd w) of
        None \<Rightarrow> Err InvalidArgument
      | Some ds \<Rightarrow> Ok (fst w @ ds, snd w - length ds))"

fun put_dim_order :: "u8 list \<Rightarrow> writer \<Rightarrow> writer result" where
  "put_dim_order [] w = Ok w"
| "put_dim_order [d] w = put_number (uint d) w"
| "put_dim_order (d # ds) w =
     r_bind (put_number (uint d) w) (\<lambda>w.
     r_bind (put_char (CHR '','') w) (\<lambda>w.
     put_dim_order ds w))"

definition put_meta :: "tensor_meta \<Rightarrow> writer \<Rightarrow> writer result" where
  "put_meta m w =
     r_bind (put_number (discriminant (tm_dtype m)) w) (\<lambda>w.
     r_bind (put_char (CHR '';'') w) (\<lambda>w.
     put_dim_order (tm_dim_order m) w))"

fun put_metas :: "tensor_meta list \<Rightarrow> writer \<Rightarrow> writer result" where
  "put_metas [] w = Ok w"
| "put_metas [m] w = put_meta m w"
| "put_metas (m # ms) w =
     r_bind (put_meta m w) (\<lambda>w.
     r_bind (put_char (CHR ''|'') w) (\<lambda>w.
     put_metas ms w))"

definition make_kernel_key_string :: "tensor_meta list \<Rightarrow> nat \<Rightarrow> string result" where
  "make_kernel_key_string key buf_size =
     (if key = [] then Ok ''''
      else if buf_size < 1 then Err InvalidArgument
      else let buf_size = buf_size - 1
      in if buf_size < 3 then Err InvalidArgument
      else r_bind (put_metas key (''v1/'', buf_size - 3)) (\<lambda>w. Ok (fst w)))"

section \<open>The registry\<close>

record 'f kernel =
  k_name :: string
  k_key :: kernel_key
  k_op :: "'f option"

definition kernel_new_fallback :: "string \<Rightarrow> 'f \<Rightarrow> 'f kernel" where
  "kernel_new_fallback name func = \<lparr>k_name = name, k_key = None, k_op = Some func\<rparr>"

definition kernel_new :: "string \<Rightarrow> kernel_key \<Rightarrow> 'f \<Rightarrow> 'f kernel" where
  "kernel_new name key func = \<lparr>k_name = name, k_key = key, k_op = Some func\<rparr>"

definition K_MAX_REGISTERED_KERNELS :: nat where
  "K_MAX_REGISTERED_KERNELS = 250 * 8"

fun already_registered :: "'f kernel \<Rightarrow> 'f kernel list \<Rightarrow> bool" where
  "already_registered kern [] = False"
| "already_registered kern (k # ks) =
     (if k_name kern = k_name k \<and> key_equals (k_key kern) (k_key k) then True
      else already_registered kern ks)"

fun register_loop :: "'f kernel list \<Rightarrow> 'f kernel list \<Rightarrow> 'f kernel list result" where
  "register_loop [] registered = Ok registered"
| "register_loop (kern # kerns) registered =
     (if already_registered kern registered then Panic
      else register_loop kerns (registered @ [kern]))"

text \<open>\<open>Err\<close> leaves the registry as it was; a duplicate aborts the process.\<close>

definition register_kernels_internal ::
    "'f kernel list \<Rightarrow> 'f kernel list \<Rightarrow> 'f kernel list result" where
  "register_kernels_internal kernels registered =
     (if length kernels + length registered > K_MAX_REGISTERED_KERNELS
      then Err RegistrationExceedingMaxKernels
      else register_loop kernels registered)"

definition register_kernels :: "'f kernel list \<Rightarrow> 'f kernel list \<Rightarrow> 'f kernel list result" where
  "register_kernels kernels registered =
     (case register_kernels_internal kernels registered of
        Err e \<Rightarrow>
          if e = RegistrationAlreadyRegistered \<or> e = RegistrationExceedingMaxKernels
          then Panic else Err e
      | r \<Rightarrow> r)"

definition register_kernel :: "'f kernel \<Rightarrow> 'f kernel list \<Rightarrow> 'f kernel list result" where
  "register_kernel kern registered = register_kernels [kern] registered"

fun unwrap_op :: "'f option \<Rightarrow> 'f result" where
  "unwrap_op (Some f) = Ok f"
| "unwrap_op None = Panic"

fun lookup_loop ::
    "string \<Rightarrow> kernel_key \<Rightarrow> 'f kernel list \<Rightarrow> 'f kernel option \<Rightarrow> 'f result" where
  "lookup_loop name key [] fallback =
     (case fallback of Some entry \<Rightarrow> unwrap_op (k_op entry) | None \<Rightarrow> Err OperatorMissing)"
| "lookup_loop name key (entry # entries) fallback =
     (if k_name entry = name then
        if key_equals (k_key entry) key then unwrap_op (k_op entry)
        else lookup_loop name key entries (if key_is_fallback (k_key entry) then Some entry else fallback)
      else lookup_loop name key entries fallback)"

definition get_op_function_from_registry ::
    "string \<Rightarrow> tensor_meta list \<Rightarrow> 'f kernel list \<Rightarrow> 'f result" where
  "get_op_function_from_registry name meta_list kernel_list =
     r_bind (make_kernel_key_string meta_list K_KERNEL_KEY_BUF_SIZE) (\<lambda>key.
       lookup_loop name (Some key) kernel_list None)"

definition registry_has_op_function :: "string \<Rightarrow> tensor_meta list \<Rightarrow> 'f kernel list \<Rightarrow> bool" where
  "registry_has_op_function name meta_list registered \<longleftrightarrow>
     is_Ok (get_op_function_from_registry name meta_list registered)"

section \<open>The format of a key\<close>

definition number_string :: "int \<Rightarrow> string" where
  "number_string n =
     (if n < 10 then [char_of (48 + nat n)]
      else [char_of (48 + nat n div 10), char_of (48 + nat n mod 10)])"

fun join_with :: "char \<Rightarrow> string list \<Rightarrow> string" where
  "join_with c [] = ''''"
| "join_with c [x] = x"
| "join_with c (x # xs) = x @ c # join_with c xs"

definition meta_string :: "tensor_meta \<Rightarrow> string" where
  "meta_string m = number_string (discriminant (tm_dtype m)) @ CHR '';'' #
     join_with (CHR '','') (map (\<lambda>d. number_string (uint d)) (tm_dim_order m))"

definition numbers_ok :: "tensor_meta \<Rightarrow> bool" where
  "numbers_ok m \<longleftrightarrow> (\<forall>d \<in> set (tm_dim_order m). uint d < 100)"

lemma discriminant_range: "0 \<le> discriminant t" "discriminant t < 32"
  by (cases t; simp)+

lemma copy_char_eq:
  "0 \<le> n \<Longrightarrow> copy_char_as_number_to_buf n b =
     (if n < 100 \<and> length (number_string n) \<le> b then Some (number_string n) else None)"
  by (auto simp: copy_char_as_number_to_buf_def number_string_def)

lemma put_number_eq:
  "0 \<le> n \<Longrightarrow> put_number n (s, b) =
     (if n < 100 \<and> length (number_string n) \<le> b
      then Ok (s @ number_string n, b - length (number_string n)) else Err InvalidArgument)"
  by (simp add: put_number_def copy_char_eq)

lemma put_char_eq:
  "put_char c (s, b) = (if 1 \<le> b then Ok (s @ [c], b - 1) else Err InvalidArgument)"
  by (simp add: put_char_def)

lemma put_dim_order_eq:
  "put_dim_order ds (s, b) =
     (let t = join_with (CHR '','') (map (\<lambda>d. number_string (uint d)) ds)
      in if (\<forall>d \<in> set ds. uint d < 100) \<and> length t \<le> b then Ok (s @ t, b - length t)
         else Err InvalidArgument)"
proof (induction ds "(s, b)" arbitrary: s b rule: put_dim_order.induct)
  case (3 d d' ds)
  then show ?case by (auto simp: put_number_eq put_char_eq Let_def)
qed (simp_all add: put_number_eq Let_def)

lemma put_meta_eq:
  "put_meta m (s, b) =
     (if numbers_ok m \<and> length (meta_string m) \<le> b
      then Ok (s @ meta_string m, b - length (meta_string m)) else Err InvalidArgument)"
  using discriminant_range [of "tm_dtype m"]
  by (auto simp: put_meta_def put_number_eq put_char_eq put_dim_order_eq numbers_ok_def meta_string_def Let_def)

lemma put_metas_eq:
  "put_metas ms (s, b) =
     (let t = join_with (CHR ''|'') (map meta_string ms)
      in if (\<forall>m \<in> set ms. numbers_ok m) \<and> length t \<le> b then Ok (s @ t, b - length t)
         else Err InvalidArgument)"
proof (induction ms "(s, b)" arbitrary: s b rule: put_metas.induct)
  case (3 m m' ms)
  then show ?case by (auto simp: put_meta_eq put_char_eq Let_def)
qed (simp_all add: put_meta_eq Let_def)

lemma make_kernel_key_string_eq:
  assumes "ms \<noteq> []"
  shows "make_kernel_key_string ms n =
    (if (\<forall>m \<in> set ms. numbers_ok m) \<and> length (join_with (CHR ''|'') (map meta_string ms)) + 4 \<le> n
     then Ok (''v1/'' @ join_with (CHR ''|'') (map meta_string ms)) else Err InvalidArgument)"
proof -
  have "put_metas ms (''v1/'', b) =
      (if (\<forall>m \<in> set ms. numbers_ok m) \<and> length (join_with (CHR ''|'') (map meta_string ms)) \<le> b
       then Ok (''v1/'' @ join_with (CHR ''|'') (map meta_string ms),
         b - length (join_with (CHR ''|'') (map meta_string ms))) else Err InvalidArgument)" for b
    by (simp add: put_metas_eq Let_def)
  then show ?thesis using assms by (auto simp: make_kernel_key_string_def Let_def)
qed

lemma join_with_length:
  "xs \<noteq> [] \<Longrightarrow> length (join_with c xs) + 1 = sum_list (map length xs) + length xs"
  by (induction c xs rule: join_with.induct) auto

lemma sum_list_bound: "\<forall>x \<in> set xs. f x \<le> k \<Longrightarrow> sum_list (map f xs) \<le> k * length xs" for f :: "'a \<Rightarrow> nat"
  by (induction xs) auto

lemma number_string_length: "length (number_string n) = (if n < 10 then 1 else 2)"
  by (simp add: number_string_def)

lemma uint_less_numeral: "uint w < int k \<longleftrightarrow> unat w < k" for w :: u8
  unfolding of_nat_less_iff [symmetric, where 'a = int] by simp

lemma sum_list_perm: "mset xs = mset ys \<Longrightarrow> sum_list (map f xs) = sum_list (map f ys)" for f :: "'a \<Rightarrow> nat"
  by (simp add: mset_map flip: sum_mset_sum_list)

lemma permutation_digits:
  assumes "is_permutation ds" and "length ds \<le> 16"
  shows "sum_list (map (\<lambda>d. length (number_string (uint d))) ds) \<le> 22"
proof -
  let ?f = "\<lambda>n :: nat. if n < 10 then 1 else 2 :: nat"
  have "[0 ..< 16] = [0 ..< length ds] @ [length ds ..< 16]"
    using upt_add_eq_append [of 0 "length ds" "16 - length ds"] assms(2) by simp
  then have "sum_list (map ?f [0 ..< length ds]) \<le> sum_list (map ?f [0 ..< 16])" by simp
  also have "\<dots> = 22" by (simp add: upt_rec)
  finally have bound: "sum_list (map ?f [0 ..< length ds]) \<le> 22" .
  have lt: "uint d < 10 \<longleftrightarrow> unat d < 10" for d :: u8
    using uint_less_numeral [of d 10] by (simp only: of_nat_numeral)
  have "map (\<lambda>d. length (number_string (uint d))) ds = map ?f (map unat ds)"
    unfolding map_map comp_def number_string_length lt ..
  then have "sum_list (map (\<lambda>d. length (number_string (uint d))) ds) = sum_list (map ?f (map unat ds))"
    by (rule arg_cong [where f = sum_list])
  also have "\<dots> = sum_list (map ?f [0 ..< length ds])"
    using assms(1) unfolding is_permutation_def by (rule sum_list_perm)
  finally show ?thesis using bound by simp
qed

lemma meta_string_length:
  assumes "is_permutation (tm_dim_order m)" and "length (tm_dim_order m) \<le> 16"
  shows "length (meta_string m) \<le> 40"
proof (cases "tm_dim_order m = []")
  case True
  then show ?thesis by (simp add: meta_string_def number_string_length)
next
  case False
  let ?xs = "map (\<lambda>d. number_string (uint d)) (tm_dim_order m)"
  have "length (join_with (CHR '','') ?xs) + 1 = sum_list (map length ?xs) + length (tm_dim_order m)"
    using join_with_length [of ?xs] False by simp
  moreover have "sum_list (map length ?xs) \<le> 22" using permutation_digits [OF assms] by (simp add: comp_def)
  ultimately have "length (join_with (CHR '','') ?xs) \<le> 37" using assms(2) by linarith
  then show ?thesis by (simp add: meta_string_def number_string_length)
qed

text \<open>
  The key buffer is large enough for what its documentation promises: for at most sixteen
  tensors of at most sixteen dimensions each, the key string fits 659 bytes with its terminator.
\<close>
theorem kernel_key_fits_buffer:
  assumes "length ms \<le> 16"
    and "\<forall>m \<in> set ms. length (tm_dim_order m) \<le> 16 \<and> is_permutation (tm_dim_order m)"
  shows "is_Ok (make_kernel_key_string ms K_KERNEL_KEY_BUF_SIZE)"
proof (cases "ms = []")
  case True
  then show ?thesis by (simp add: make_kernel_key_string_def)
next
  case False
  have "numbers_ok m" if "m \<in> set ms" for m
  proof -
    have "unat d < 100" if "d \<in> set (tm_dim_order m)" for d
      using assms(2) \<open>m \<in> set ms\<close> that by (fastforce simp: is_permutation_iff)
    then show ?thesis using uint_less_numeral [of _ 100] by (simp add: numbers_ok_def)
  qed
  moreover have "sum_list (map length (map meta_string ms)) \<le> 40 * length ms"
    using sum_list_bound [of ms "\<lambda>m. length (meta_string m)" 40] assms(2) meta_string_length
    by (simp add: comp_def)
  then have "length (join_with (CHR ''|'') (map meta_string ms)) + 4 \<le> 659"
    using join_with_length [of "map meta_string ms" "CHR ''|''"] False assms(1) by simp
  ultimately show ?thesis using False by (simp add: make_kernel_key_string_eq K_KERNEL_KEY_BUF_SIZE_def)
qed

theorem kernel_key_fits_buffer_witness:
  "is_Ok (make_kernel_key_string
     (replicate 16 \<lparr>tm_dtype = ComplexDouble, tm_dim_order = [0, 2, 3, 1]\<rparr>) K_KERNEL_KEY_BUF_SIZE)"
proof (rule kernel_key_fits_buffer)
  have "is_permutation [0, 2, 3, 1]" by (simp add: is_permutation_iff less_Suc_eq)
  then show "\<forall>m \<in> set (replicate 16 \<lparr>tm_dtype = ComplexDouble, tm_dim_order = [0, 2, 3, 1]\<rparr>).
      length (tm_dim_order m) \<le> 16 \<and> is_permutation (tm_dim_order m)" by simp
qed simp

lemma join_with_Cons: "xs \<noteq> [] \<Longrightarrow> join_with c (x # xs) = x @ c # join_with c xs"
  by (cases xs) simp_all

lemma split_at_separator:
  assumes "x @ c # r = y @ c # r'" and "c \<notin> set x" and "c \<notin> set y"
  shows "x = y" "r = r'"
proof -
  have "takeWhile (\<lambda>d. d \<noteq> c) (x @ c # r) = x" and "takeWhile (\<lambda>d. d \<noteq> c) (y @ c # r') = y"
    using assms(2,3) by (auto simp: takeWhile_tail takeWhile_append)
  with assms(1) show "x = y" by simp
  with assms(1) show "r = r'" by simp
qed

lemma join_with_inject:
  assumes "\<forall>x \<in> set xs. c \<notin> set x \<and> x \<noteq> []" and "\<forall>y \<in> set ys. c \<notin> set y \<and> y \<noteq> []"
    and "join_with c xs = join_with c ys"
  shows "xs = ys"
  using assms
proof (induction xs arbitrary: ys)
  case Nil
  then show ?case by (cases ys rule: remdups_adj.cases) auto
next
  case (Cons x xs)
  then obtain y ys' where ys: "ys = y # ys'" by (cases ys; cases xs) auto
  have xy: "c \<notin> set x" "c \<notin> set y" using Cons.prems(1,2) ys by auto
  show ?case
  proof (cases "xs = []"; cases "ys' = []")
    assume "xs \<noteq> []" "ys' \<noteq> []"
    then have "x @ c # join_with c xs = y @ c # join_with c ys'"
      using Cons.prems(3) by (simp add: ys join_with_Cons)
    from split_at_separator [OF this xy] show ?thesis using Cons.IH [of ys'] Cons.prems(1,2) by (simp add: ys)
  next
    assume "xs = []" "ys' \<noteq> []"
    then have "c \<in> set x" using Cons.prems(3) by (simp add: ys join_with_Cons)
    then show ?thesis using xy by simp
  next
    assume "xs \<noteq> []" "ys' = []"
    then have "y = x @ c # join_with c xs" using Cons.prems(3) by (simp add: ys join_with_Cons)
    then show ?thesis using xy by simp
  qed (use Cons.prems(3) ys in simp)
qed

lemma number_string_digits:
  assumes "0 \<le> n" and "n < 100" and "c \<in> set (number_string n)"
  shows "48 \<le> (of_char c :: nat)" "of_char c < (58 :: nat)"
  using assms by (auto simp: number_string_def split: if_splits)

lemma number_string_props:
  assumes "0 \<le> n" and "n < 100"
  shows "number_string n \<noteq> []" "CHR '','' \<notin> set (number_string n)" "CHR '';'' \<notin> set (number_string n)"
    "CHR ''|'' \<notin> set (number_string n)"
proof -
  have codes: "of_char (CHR '','') = (44 :: nat)" "of_char (CHR '';'') = (59 :: nat)"
    "of_char (CHR ''|'') = (124 :: nat)" by simp_all
  show "CHR '','' \<notin> set (number_string n)" "CHR '';'' \<notin> set (number_string n)"
    "CHR ''|'' \<notin> set (number_string n)"
    using number_string_digits [OF assms] codes by fastforce+
qed (simp add: number_string_def)

lemma number_string_inject:
  assumes "0 \<le> m" "m < 100" "0 \<le> n" "n < 100" and "number_string m = number_string n"
  shows "m = n"
proof -
  have "map of_char (number_string m) = (map of_char (number_string n) :: nat list)"
    using assms(5) by simp
  then have "nat m = nat n"
    using assms(1-4) unfolding number_string_def
    by (auto split: if_splits) (metis div_mult_mod_eq)
  then show ?thesis using assms(1,3) by simp
qed

lemma numbers_ok_strings:
  assumes "numbers_ok m"
  shows "\<forall>x \<in> set (map (\<lambda>d. number_string (uint d)) (tm_dim_order m)). CHR '','' \<notin> set x \<and> x \<noteq> []"
  using assms number_string_props by (auto simp: numbers_ok_def)

lemma meta_string_inject:
  assumes "numbers_ok a" and "numbers_ok b" and "meta_string a = meta_string b"
  shows "a = b"
proof -
  let ?ds = "\<lambda>m. map (\<lambda>d. number_string (uint d)) (tm_dim_order m)"
  have dr: "0 \<le> discriminant t" "discriminant t < 100" for t
    using discriminant_range [of t] by simp_all
  have "number_string (discriminant (tm_dtype a)) = number_string (discriminant (tm_dtype b))"
    and j: "join_with (CHR '','') (?ds a) = join_with (CHR '','') (?ds b)"
    using split_at_separator [OF assms(3) [unfolded meta_string_def]] number_string_props(3) [OF dr]
    by blast+
  then have ty: "tm_dtype a = tm_dtype b"
    using number_string_inject [OF dr dr] by (simp add: discriminant_inject)
  have eq: "?ds a = ?ds b"
    by (rule join_with_inject [OF numbers_ok_strings [OF assms(1)] numbers_ok_strings [OF assms(2)] j])
  then have len: "length (tm_dim_order a) = length (tm_dim_order b)" using map_eq_imp_length_eq by blast
  have "tm_dim_order a = tm_dim_order b"
  proof (rule nth_equalityI [OF len])
    fix k assume k: "k < length (tm_dim_order a)"
    then have "number_string (uint (tm_dim_order a ! k)) = number_string (uint (tm_dim_order b ! k))"
      using eq len by (metis (no_types, lifting) nth_map)
    moreover have "uint (tm_dim_order a ! k) < 100" "uint (tm_dim_order b ! k) < 100"
      using assms(1,2) k len by (auto simp: numbers_ok_def)
    ultimately show "tm_dim_order a ! k = tm_dim_order b ! k"
      using number_string_inject by (simp add: word_uint_eq_iff)
  qed
  with ty show ?thesis by (auto intro: tensor_meta.equality)
qed

lemma meta_string_no_bar:
  assumes "numbers_ok m"
  shows "CHR ''|'' \<notin> set (meta_string m) \<and> meta_string m \<noteq> []"
proof -
  have join: "c \<notin> set (join_with d xs)" if "c \<noteq> d" "\<forall>x \<in> set xs. c \<notin> set x" for c d xs
    using that by (induction d xs rule: join_with.induct) auto
  have "CHR ''|'' \<notin> set (join_with (CHR '','') (map (\<lambda>d. number_string (uint d)) (tm_dim_order m)))"
    using assms number_string_props(4) by (intro join) (auto simp: numbers_ok_def)
  moreover have "CHR ''|'' \<notin> set (number_string (discriminant (tm_dtype m)))"
    using number_string_props(4) [of "discriminant (tm_dtype m)"] discriminant_range [of "tm_dtype m"] by simp
  ultimately show ?thesis by (simp add: meta_string_def)
qed

lemma key_empty_iff: "make_kernel_key_string ms n = Ok key \<Longrightarrow> key = [] \<longleftrightarrow> ms = []"
  by (cases "ms = []") (auto simp: make_kernel_key_string_eq make_kernel_key_string_def [of "[]"] split: if_splits)

lemma example_key:
  "make_kernel_key_string [\<lparr>tm_dtype = Float, tm_dim_order = [0, 1]\<rparr>] 659 = Ok ''v1/6;0,1''"
  by code_simp

text \<open>
  A key string identifies the argument types it was made from: two lists of tensor types and
  dim orders with the same key string are equal, so a specialised kernel is only ever selected for
  exactly the types and dim orders it was registered for.
\<close>
theorem kernel_key_injective:
  assumes "make_kernel_key_string ms n = Ok key" and "make_kernel_key_string ms' n' = Ok key"
  shows "ms = ms'"
proof (cases "ms = [] \<or> ms' = []")
  case True
  then show ?thesis using assms key_empty_iff by blast
next
  case False
  then have ok: "\<forall>m \<in> set ms. numbers_ok m" "\<forall>m \<in> set ms'. numbers_ok m"
    and "join_with (CHR ''|'') (map meta_string ms) = join_with (CHR ''|'') (map meta_string ms')"
    using assms by (auto simp: make_kernel_key_string_eq split: if_splits)
  then have eq: "map meta_string ms = map meta_string ms'"
    using meta_string_no_bar by (intro join_with_inject) auto
  moreover have "inj_on meta_string (set ms \<union> set ms')"
    using ok meta_string_inject by (auto simp: inj_on_def)
  ultimately show ?thesis by (simp add: inj_on_map_eq_map)
qed

theorem kernel_key_injective_witness:
  "{ms. make_kernel_key_string ms 659 = Ok ''v1/6;0,1''} = {[\<lparr>tm_dtype = Float, tm_dim_order = [0, 1]\<rparr>]}"
proof (intro equalityI subsetI)
  fix ms
  assume "ms \<in> {ms. make_kernel_key_string ms 659 = Ok ''v1/6;0,1''}"
  then show "ms \<in> {[\<lparr>tm_dtype = Float, tm_dim_order = [0, 1]\<rparr>]}"
    using kernel_key_injective [OF _ example_key] by blast
qed (simp add: example_key)

section \<open>Registration and lookup\<close>

definition kernel_id :: "'f kernel \<Rightarrow> string \<times> kernel_key" where
  "kernel_id k = (k_name k, k_key k)"

definition registry_inv :: "'f kernel list \<Rightarrow> bool" where
  "registry_inv ks \<longleftrightarrow> distinct (map kernel_id ks) \<and> length ks \<le> K_MAX_REGISTERED_KERNELS"

lemma key_equals_iff: "key_equals a b \<longleftrightarrow> a = b"
  by (cases a; cases b) (simp_all add: key_equals_def key_is_fallback_def)

lemma already_registered_iff: "already_registered k ks \<longleftrightarrow> kernel_id k \<in> kernel_id ` set ks"
  by (induction ks) (auto simp: key_equals_iff kernel_id_def)

lemma register_loop_eq:
  "distinct (map kernel_id ks) \<Longrightarrow>
   register_loop new ks = (if distinct (map kernel_id (ks @ new)) then Ok (ks @ new) else Panic)"
proof (induction new arbitrary: ks)
  case (Cons k new)
  show ?case
  proof (cases "already_registered k ks")
    case True
    then show ?thesis by (auto simp: already_registered_iff)
  next
    case False
    then show ?thesis using Cons.IH [of "ks @ [k]"] Cons.prems by (simp add: already_registered_iff)
  qed
qed simp

text \<open>
  The registry never holds two kernels with the same name and key nor more than its capacity:
  registering appends the new kernels in order when both stay true, refuses with an error that
  changes nothing (and aborts the process in \<open>register_kernels\<close>) when capacity would be exceeded,
  and aborts on a duplicate, in the table or within the batch.
\<close>
theorem register_kernels_exact:
  assumes "registry_inv ks"
  shows "register_kernels_internal new ks =
      (if length new + length ks > K_MAX_REGISTERED_KERNELS then Err RegistrationExceedingMaxKernels
       else if distinct (map kernel_id (ks @ new)) then Ok (ks @ new) else Panic) \<and>
    register_kernels new ks =
      (if length new + length ks \<le> K_MAX_REGISTERED_KERNELS \<and> distinct (map kernel_id (ks @ new))
       then Ok (ks @ new) else Panic) \<and>
    (\<forall>ks'. register_kernels new ks = Ok ks' \<longrightarrow> registry_inv ks')"
proof -
  have i: "register_kernels_internal new ks =
      (if length new + length ks > K_MAX_REGISTERED_KERNELS then Err RegistrationExceedingMaxKernels
       else if distinct (map kernel_id (ks @ new)) then Ok (ks @ new) else Panic)"
    using register_loop_eq [of ks new] assms
    by (simp add: register_kernels_internal_def registry_inv_def)
  then have r: "register_kernels new ks =
      (if length new + length ks \<le> K_MAX_REGISTERED_KERNELS \<and> distinct (map kernel_id (ks @ new))
       then Ok (ks @ new) else Panic)"
    by (simp add: register_kernels_def del: map_append)
  show ?thesis using i r by (auto simp: registry_inv_def)
qed

theorem register_kernels_exact_witness:
  "register_kernels [kernel_new ''add.out'' (Some ''v1/6;0,1'') (7 :: nat)]
     [kernel_new_fallback ''add.out'' 3] =
   Ok [kernel_new_fallback ''add.out'' 3, kernel_new ''add.out'' (Some ''v1/6;0,1'') 7]"
proof -
  have "registry_inv [kernel_new_fallback ''add.out'' (3 :: nat)]"
    by (simp add: registry_inv_def K_MAX_REGISTERED_KERNELS_def)
  from register_kernels_exact [OF this, of "[kernel_new ''add.out'' (Some ''v1/6;0,1'') 7]"]
  show ?thesis
    by (simp add: K_MAX_REGISTERED_KERNELS_def kernel_id_def kernel_new_def kernel_new_fallback_def)
qed

definition find_kernel :: "string \<Rightarrow> kernel_key \<Rightarrow> 'f kernel list \<Rightarrow> 'f kernel option" where
  "find_kernel name key ks = List.find (\<lambda>k. kernel_id k = (name, key)) ks"

lemma find_kernel_Cons:
  "find_kernel name key (k # ks) =
     (if k_name k = name \<and> k_key k = key then Some k else find_kernel name key ks)"
  by (simp add: find_kernel_def kernel_id_def)

lemma lookup_loop_eq:
  assumes "distinct (map kernel_id ks)" and "key \<noteq> None"
    and "fb \<noteq> None \<Longrightarrow> find_kernel name None ks = None"
  shows "lookup_loop name key ks fb =
    (case find_kernel name key ks of
       Some k \<Rightarrow> unwrap_op (k_op k)
     | None \<Rightarrow> (case find_kernel name None ks of
         Some k \<Rightarrow> unwrap_op (k_op k)
       | None \<Rightarrow> (case fb of Some k \<Rightarrow> unwrap_op (k_op k) | None \<Rightarrow> Err OperatorMissing)))"
  using assms
proof (induction ks arbitrary: fb)
  case Nil
  then show ?case by (simp add: find_kernel_def)
next
  case (Cons k ks)
  have dist: "distinct (map kernel_id ks)" using Cons.prems(1) by simp
  consider (other) "k_name k \<noteq> name" | (hit) "k_name k = name" "k_key k = key"
    | (fallback) "k_name k = name" "k_key k = None" | (spec) "k_name k = name" "k_key k \<noteq> key" "k_key k \<noteq> None"
    by blast
  then show ?case
  proof cases
    case fallback
    then have "kernel_id k = (name, None)" by (simp add: kernel_id_def)
    then have "find_kernel name None ks = None"
      using Cons.prems(1) by (force simp: find_kernel_def find_None_iff)
    then show ?thesis using fallback Cons.IH [OF dist Cons.prems(2), of "Some k"] Cons.prems(2)
      by (auto simp: find_kernel_Cons key_equals_iff key_is_fallback_def split: option.split)
  next
    case other
    then have fb: "fb \<noteq> None \<Longrightarrow> find_kernel name None ks = None"
      using Cons.prems(3) by (simp add: find_kernel_Cons)
    show ?thesis using other Cons.IH [OF dist Cons.prems(2) fb]
      by (simp add: find_kernel_Cons cong: option.case_cong)
  next
    case hit
    then show ?thesis by (simp add: find_kernel_Cons key_equals_iff)
  next
    case spec
    then have fb: "fb \<noteq> None \<Longrightarrow> find_kernel name None ks = None"
      using Cons.prems(3) by (auto simp: find_kernel_Cons)
    show ?thesis using spec Cons.IH [OF dist Cons.prems(2) fb]
      by (auto simp: find_kernel_Cons key_equals_iff key_is_fallback_def cong: option.case_cong)
  qed
qed

text \<open>
  C14. Lookup in a registry prefers the kernel specialised to exactly the argument types, falls
  back to the operator's unspecialised kernel, and reports \<open>OperatorMissing\<close> when there is
  neither; the order in which kernels were registered plays no part.
\<close>
theorem lookup_prefers_specialised:
  assumes "registry_inv ks" and "make_kernel_key_string metas K_KERNEL_KEY_BUF_SIZE = Ok key"
  shows "get_op_function_from_registry name metas ks =
    (case find_kernel name (Some key) ks of
       Some k \<Rightarrow> unwrap_op (k_op k)
     | None \<Rightarrow> (case find_kernel name None ks of
         Some k \<Rightarrow> unwrap_op (k_op k)
       | None \<Rightarrow> Err OperatorMissing))"
  using lookup_loop_eq [of ks "Some key" None name] assms
  by (auto simp: get_op_function_from_registry_def registry_inv_def split: option.split)

theorem lookup_prefers_specialised_witness:
  "get_op_function_from_registry ''add.out'' [\<lparr>tm_dtype = Float, tm_dim_order = [0, 1]\<rparr>]
     [kernel_new ''add.out'' (Some ''v1/6;0,1'') 7, kernel_new_fallback ''add.out'' (3 :: nat)] = Ok 7"
proof -
  let ?ks = "[kernel_new ''add.out'' (Some ''v1/6;0,1'') 7, kernel_new_fallback ''add.out'' (3 :: nat)]"
  have inv: "registry_inv ?ks"
    by (simp add: registry_inv_def K_MAX_REGISTERED_KERNELS_def kernel_id_def kernel_new_def kernel_new_fallback_def)
  have key: "make_kernel_key_string [\<lparr>tm_dtype = Float, tm_dim_order = [0, 1]\<rparr>] K_KERNEL_KEY_BUF_SIZE
      = Ok ''v1/6;0,1''"
    using example_key by (simp add: K_KERNEL_KEY_BUF_SIZE_def)
  show ?thesis using lookup_prefers_specialised [OF inv key, of "''add.out''"]
    by (simp add: find_kernel_def kernel_id_def kernel_new_def)
qed

end
