(* ===== verification/Kernel_Context.thy ===== *)
theory Kernel_Context
  imports Memory_Allocator Scalar_Types
begin

text \<open>
  \<^verbatim>\<open>runtime/kernel/kernel_runtime_context.rs\<close>: the context a kernel runs in (its failure state and
  its temporary allocator) and the \<^verbatim>\<open>et_kernel_check!\<close> macros that kernels use to fail. The
  temporary allocator is a pointer that may be null, here an option on the allocator's state, and
  the allocator is any that keeps the contract of \<open>allocator\<close>.
\<close>

section \<open>The context\<close>

record 's kernel_context =
  kc_event_tracer :: usize
  kc_temp_allocator :: "'s option"
  kc_failure_state :: Error

definition kernel_context_new :: "usize \<Rightarrow> 's option \<Rightarrow> 's kernel_context" where
  "kernel_context_new event_tracer temp_allocator =
     \<lparr>kc_event_tracer = event_tracer, kc_temp_allocator = temp_allocator, kc_failure_state = Error_Ok\<rparr>"

definition kc_fail :: "Error \<Rightarrow> 's kernel_context \<Rightarrow> 's kernel_context" where
  "kc_fail e c = c\<lparr>kc_failure_state := e\<rparr>"

definition failure_state :: "'s kernel_context \<Rightarrow> Error" where
  "failure_state c = kc_failure_state c"

definition allocate_temp ::
    "(usize \<Rightarrow> usize \<Rightarrow> 's \<Rightarrow> (usize \<times> 's) result) \<Rightarrow> usize \<Rightarrow> usize \<Rightarrow> 's kernel_context
     \<Rightarrow> usize result \<times> 's kernel_context" where
  "allocate_temp alloc bytes alignment c =
     (case kc_temp_allocator c of
        None \<Rightarrow> (Err NotFound, c)
      | Some s \<Rightarrow>
          (case alloc bytes alignment s of
             Ok (temp_memory, s') \<Rightarrow>
               (if temp_memory = 0 then Err MemoryAllocationFailed else Ok temp_memory,
                c\<lparr>kc_temp_allocator := Some s'\<rparr>)
           | Err e \<Rightarrow> (Err e, c)
           | Panic \<Rightarrow> (Panic, c)))"

text \<open>
  \<^verbatim>\<open>et_kernel_check!(ctx, cond, error, retval)\<close> returns from the kernel; \<open>rest\<close> is what the kernel
  does after it.
\<close>

definition et_kernel_check ::
    "bool \<Rightarrow> Error \<Rightarrow> 'r \<Rightarrow> ('s kernel_context \<Rightarrow> 'r \<times> 's kernel_context) \<Rightarrow>
     's kernel_context \<Rightarrow> 'r \<times> 's kernel_context" where
  "et_kernel_check cond err retval rest c = (if \<not> cond then (retval, kc_fail err c) else rest c)"

fun kernel_checks ::
    "(bool \<times> Error) list \<Rightarrow> 'r \<Rightarrow> ('s kernel_context \<Rightarrow> 'r \<times> 's kernel_context) \<Rightarrow>
     's kernel_context \<Rightarrow> 'r \<times> 's kernel_context" where
  "kernel_checks [] retval rest c = rest c"
| "kernel_checks ((cond, err) # checks) retval rest c =
     et_kernel_check cond err retval (kernel_checks checks retval rest) c"

section \<open>Checks\<close>

text \<open>
  A kernel that starts with a list of checks runs its body exactly when every check holds;
  otherwise it returns at once with the error of the first check that failed as its failure state,
  and nothing else of the context changed.
\<close>
theorem first_failing_check_decides:
  "kernel_checks checks retval rest c =
     (case find (\<lambda>(cond, err). \<not> cond) checks of
        None \<Rightarrow> rest c
      | Some (cond, err) \<Rightarrow> (retval, c\<lparr>kc_failure_state := err\<rparr>))"
  by (induction checks retval rest c rule: kernel_checks.induct)
    (auto simp: et_kernel_check_def kc_fail_def)

section \<open>Temporary memory\<close>

context allocator
begin

lemma allocate_temp_sound:
  assumes "kc_temp_allocator c = Some s" and "inv s" and "env_ok e n a s"
    and "allocate_temp (alloc e) n a c = (Ok p, c')"
  shows "\<exists>s'. c' = c\<lparr>kc_temp_allocator := Some s'\<rparr> \<and> inv s' \<and> p \<noteq> 0 \<and> unat a dvd unat p \<and>
    region p n \<subseteq> claimed s' - claimed s \<and> unat p + unat n < 2 ^ 64"
proof -
  obtain s' where al: "alloc e n a s = Ok (p, s')" and c': "c' = c\<lparr>kc_temp_allocator := Some s'\<rparr>"
    and p: "p \<noteq> 0"
    using assms(1,4) by (auto simp: allocate_temp_def split: outcome.splits if_splits)
  show ?thesis
    using alloc_inv [OF assms(2,3) al] alloc_aligned [OF assms(2,3) al p]
      alloc_bounds [OF assms(2,3) al p] alloc_fresh [OF assms(2,3) al p]
      alloc_claims [OF assms(2,3) al p] c' p
    by blast
qed

lemma allocate_temp_failed:
  assumes "kc_temp_allocator c = Some s" and "inv s" and "env_ok e n a s"
    and "allocate_temp (alloc e) n a c = (Err MemoryAllocationFailed, c')"
    and "\<And>e'. alloc e n a s \<noteq> Err e'"
  shows "c' = c"
proof -
  obtain p s' where al: "alloc e n a s = Ok (p, s')" and "c' = c\<lparr>kc_temp_allocator := Some s'\<rparr>"
    and "p = 0"
    using assms(1,4,5) by (auto simp: allocate_temp_def split: outcome.splits if_splits prod.splits)
  then show ?thesis using alloc_null [OF assms(2,3)] assms(1) by simp
qed

end

lemma allocate_not_Err: "allocate oc n a s \<noteq> Err e"
  by (auto simp: allocate_def arith_defs outcome_simps Let_def align_pointer_def split: if_splits)

text \<open>
  Temporary memory from a context backed by the bump allocator is fresh: a successful request
  returns a non-null aligned block disjoint from everything handed out since the last reset, and
  the context keeps its failure state; without an allocator every request is \<open>NotFound\<close>, and an
  exhausted allocator is \<open>MemoryAllocationFailed\<close> with the context unchanged.
\<close>
theorem allocate_temp_from_arena:
  assumes "kc_temp_allocator c = Some s" and "ma_inv s"
  shows "(\<forall>p c'. allocate_temp (allocate oc) n a c = (Ok p, c') \<longrightarrow>
      p \<noteq> 0 \<and> unat a dvd unat p \<and> kc_failure_state c' = kc_failure_state c \<and>
      (\<exists>s'. kc_temp_allocator c' = Some s' \<and> ma_inv s' \<and> region p n \<subseteq> ma_claimed s' - ma_claimed s)) \<and>
    (\<forall>c'. allocate_temp (allocate oc) n a c = (Err MemoryAllocationFailed, c') \<longrightarrow> c' = c) \<and>
    allocate_temp (allocate oc) n a (c\<lparr>kc_temp_allocator := None\<rparr>) =
      (Err NotFound, c\<lparr>kc_temp_allocator := None\<rparr>)"
proof (intro conjI allI impI)
  fix p c' assume ok: "allocate_temp (allocate oc) n a c = (Ok p, c')"
  then obtain s' where "c' = c\<lparr>kc_temp_allocator := Some s'\<rparr>" "ma_inv s'" "p \<noteq> 0" "unat a dvd unat p"
      "region p n \<subseteq> ma_claimed s' - ma_claimed s"
    using bump.allocate_temp_sound [OF assms(1,2) TrueI ok] by blast
  then show "p \<noteq> 0" "unat a dvd unat p" "kc_failure_state c' = kc_failure_state c"
    "\<exists>s'. kc_temp_allocator c' = Some s' \<and> ma_inv s' \<and> region p n \<subseteq> ma_claimed s' - ma_claimed s"
    by simp_all
next
  fix c' assume "allocate_temp (allocate oc) n a c = (Err MemoryAllocationFailed, c')"
  then show "c' = c"
    using bump.allocate_temp_failed [OF assms(1,2) TrueI] allocate_not_Err by blast
qed (simp add: allocate_temp_def)

theorem allocate_temp_from_arena_witness:
  "\<exists>p c'. allocate_temp (allocate True) 8 16 (kernel_context_new 0 (Some arena_example)) = (Ok p, c') \<and>
     p \<noteq> 0 \<and> 16 dvd unat p"
proof -
  let ?c = "kernel_context_new 0 (Some arena_example)"
  have "is_Ok (fst (allocate_temp (allocate True) 8 16 ?c))" by code_simp
  then obtain p c' where r: "allocate_temp (allocate True) 8 16 ?c = (Ok p, c')"
    by (metis is_Ok_iff prod.collapse)
  have "kc_temp_allocator ?c = Some arena_example" by (simp add: kernel_context_new_def)
  moreover have "ma_inv arena_example" by (simp add: arena_example_def ma_inv_def memory_allocator_new_def)
  ultimately show ?thesis using allocate_temp_from_arena [of ?c arena_example True 8 16] r by auto
qed

end
