(* ===== verification/Tensor_Util.thy ===== *)
theory Tensor_Util
  imports Tensor_Impl EValue
begin

text \<open>
  \<^verbatim>\<open>runtime/core/exec_aten/util/tensor_util_portable.rs\<close>: dim-order tests on tensors and the
  operations that share, copy, set and reset the data of a tensor. A \<^verbatim>\<open>Tensor\<close> is a handle to a
  \<^verbatim>\<open>TensorImpl\<close> that several values may share, so the operations act on a store that maps
  handles to \<^verbatim>\<open>TensorImpl\<close>s, and on byte memory where they copy data.
\<close>

section \<open>The store\<close>

type_synonym tensor_store = "tensor_id \<Rightarrow> tensor_impl"

definition get_dim_order :: "tensor_impl \<Rightarrow> nat \<Rightarrow> u8 list result" where
  "get_dim_order t out_dim_order_size =
     (if out_dim_order_size \<noteq> length (tensor_dim_order t) then Err InvalidArgument
      else Ok (tensor_dim_order t))"

definition tensor_has_valid_dim_order :: "tensor_impl \<Rightarrow> bool" where
  "tensor_has_valid_dim_order t \<longleftrightarrow> validate_dim_order (tensor_dim_order t) (length (tensor_dim_order t))"

definition tensor_is_default_or_channels_last_dim_order :: "tensor_impl \<Rightarrow> bool" where
  "tensor_is_default_or_channels_last_dim_order t \<longleftrightarrow>
     is_contiguous_dim_order (tensor_dim_order t) (length (tensor_dim_order t)) \<or>
     is_channels_last_dim_order (tensor_dim_order t) (length (tensor_dim_order t))"

definition tensor_is_default_dim_order :: "tensor_impl \<Rightarrow> bool" where
  "tensor_is_default_dim_order t \<longleftrightarrow>
     is_contiguous_dim_order (tensor_dim_order t) (length (tensor_dim_order t))"

definition tensor_is_channels_last_dim_order :: "tensor_impl \<Rightarrow> bool" where
  "tensor_is_channels_last_dim_order t \<longleftrightarrow>
     is_channels_last_dim_order (tensor_dim_order t) (length (tensor_dim_order t))"

fun same_dim_order_loop :: "tensor_impl list \<Rightarrow> bool \<Rightarrow> bool \<Rightarrow> bool \<times> bool" where
  "same_dim_order_loop [] all_contiguous all_channels_last = (all_contiguous, all_channels_last)"
| "same_dim_order_loop (t # ts) all_contiguous all_channels_last =
     same_dim_order_loop ts
       (all_contiguous \<and> is_contiguous_dim_order (tensor_dim_order t) (length (tensor_dim_order t)))
       (all_channels_last \<and> is_channels_last_dim_order (tensor_dim_order t) (length (tensor_dim_order t)))"

definition tensors_have_same_dim_order :: "tensor_impl list \<Rightarrow> bool" where
  "tensors_have_same_dim_order ts =
     (if length ts < 2 then True
      else let (all_contiguous, all_channels_last) = same_dim_order_loop ts True True
      in all_contiguous \<or> all_channels_last)"

section \<open>Data pointers\<close>

definition update_tensor :: "tensor_id \<Rightarrow> (tensor_impl \<Rightarrow> tensor_impl) \<Rightarrow> tensor_store \<Rightarrow> tensor_store" where
  "update_tensor i f st = st(i := f (st i))"

definition share_tensor_data ::
    "bool \<Rightarrow> tensor_id \<Rightarrow> tensor_id \<Rightarrow> tensor_store \<Rightarrow> (Error \<times> tensor_store) result" where
  "share_tensor_data oc dst src st =
     r_bind (tensor_nbytes oc (st dst)) (\<lambda>dst_nbytes.
     r_bind (tensor_nbytes oc (st src)) (\<lambda>src_nbytes.
       if dst_nbytes \<noteq> src_nbytes then Ok (InvalidArgument, st)
       else if \<not> (ti_data (st src) \<noteq> 0 \<or> src_nbytes = 0) then Ok (InvalidArgument, st)
       else let src_data_ptr = (if ti_numel (st src) = 0 then 0 else ti_data (st src))
       in Ok (Error_Ok, update_tensor dst (tensor_set_data src_data_ptr) st)))"

definition copy_tensor_data ::
    "bool \<Rightarrow> tensor_id \<Rightarrow> tensor_id \<Rightarrow> tensor_store \<Rightarrow> bytes \<Rightarrow> (Error \<times> bytes) result" where
  "copy_tensor_data oc dst src st mem =
     r_bind (tensor_nbytes oc (st dst)) (\<lambda>dst_nbytes.
     r_bind (tensor_nbytes oc (st src)) (\<lambda>src_nbytes.
       if \<not> (ti_data (st dst) \<noteq> 0 \<or> (dst_nbytes = 0 \<and> src_nbytes = 0)) then Ok (InvalidArgument, mem)
       else if ti_data (st src) \<noteq> 0 then
         if dst_nbytes \<noteq> src_nbytes then Ok (InvalidArgument, mem)
         else Ok (Error_Ok, copy_bytes (ti_data (st src)) (ti_data (st dst)) src_nbytes mem)
       else Ok (Error_Ok, mem)))"

definition set_tensor_data ::
    "bool \<Rightarrow> tensor_id \<Rightarrow> usize \<Rightarrow> usize \<Rightarrow> tensor_store \<Rightarrow> (Error \<times> tensor_store) result" where
  "set_tensor_data oc t buffer buffer_size st =
     r_bind (tensor_nbytes oc (st t)) (\<lambda>nbytes.
       if \<not> nbytes \<le> buffer_size then Ok (InvalidArgument, st)
       else Ok (Error_Ok, update_tensor t (tensor_set_data buffer) st))"

definition reset_data_ptr :: "tensor_id \<Rightarrow> tensor_store \<Rightarrow> tensor_store" where
  "reset_data_ptr t st = update_tensor t (tensor_set_data 0) st"

definition resize_tensor_impl ::
    "bool \<Rightarrow> tensor_id \<Rightarrow> int list \<Rightarrow> tensor_store \<Rightarrow> (Error \<times> tensor_store) result" where
  "resize_tensor_impl oc t new_sizes st =
     r_bind (internal_resize_contiguous oc new_sizes (st t)) (\<lambda>(err, t').
       Ok (err, st(t := t')))"

section \<open>Properties\<close>

lemma same_dim_order_loop_eq:
  "same_dim_order_loop ts a b =
     (a \<and> (\<forall>t \<in> set ts. tensor_is_default_dim_order t),
      b \<and> (\<forall>t \<in> set ts. tensor_is_channels_last_dim_order t))"
  by (induction ts arbitrary: a b)
    (auto simp: tensor_is_default_dim_order_def tensor_is_channels_last_dim_order_def)

text \<open>
  \<open>tensors_have_same_dim_order\<close> accepts two or more tensors when all are contiguous or all are
  channels-last; two tensors that share any other dim order are rejected as different.
\<close>

lemma tensors_have_same_dim_order_iff:
  "tensors_have_same_dim_order ts \<longleftrightarrow> length ts < 2 \<or>
     (\<forall>t \<in> set ts. tensor_is_default_dim_order t) \<or> (\<forall>t \<in> set ts. tensor_is_channels_last_dim_order t)"
  by (simp add: tensors_have_same_dim_order_def same_dim_order_loop_eq)

lemma tensor_nbytes_not_Err: "tensor_nbytes oc t \<noteq> Err e"
  using element_size_not_Err by (auto simp: tensor_nbytes_def outcome_simps umul_def split: if_splits)

text \<open>
  Sharing and copying tensor data agree on what they accept, equal byte counts, and differ in
  effect: after sharing, the destination has the source's pointer (null when the source is empty)
  and no byte moved; after copying from a non-null source into a buffer that does not overlap it,
  the destination's bytes equal the source's and every other byte is unchanged. An error changes
  neither pointers nor bytes.
\<close>
theorem share_and_copy_tensor_data:
  assumes "tensor_nbytes oc (st dst) = Ok n" and "tensor_nbytes oc (st src) = Ok n"
    and "dst \<noteq> src" and "ti_data (st src) \<noteq> 0" and "ti_data (st dst) \<noteq> 0"
    and "\<forall>i < n. \<forall>j < n. ti_data (st dst) + i \<noteq> ti_data (st src) + j"
  shows "(\<exists>st'. share_tensor_data oc dst src st = Ok (Error_Ok, st') \<and>
      ti_data (st' dst) = (if ti_numel (st src) = 0 then 0 else ti_data (st src)) \<and>
      (\<forall>t. t \<noteq> dst \<longrightarrow> st' t = st t)) \<and>
    (\<exists>mem'. copy_tensor_data oc dst src st mem = Ok (Error_Ok, mem') \<and>
      (\<forall>i < n. mem' (ti_data (st dst) + i) = mem' (ti_data (st src) + i) \<and>
               mem' (ti_data (st src) + i) = mem (ti_data (st src) + i)) \<and>
      (\<forall>a. (\<forall>i < n. a \<noteq> ti_data (st dst) + i) \<longrightarrow> mem' a = mem a)) \<and>
    (\<forall>m err st'. share_tensor_data oc dst m st = Ok (err, st') \<longrightarrow> err \<noteq> Error_Ok \<longrightarrow> st' = st) \<and>
    (\<forall>m err mem'. copy_tensor_data oc dst m st mem = Ok (err, mem') \<longrightarrow> err \<noteq> Error_Ok \<longrightarrow> mem' = mem)"
proof (intro conjI)
  show "\<exists>st'. share_tensor_data oc dst src st = Ok (Error_Ok, st') \<and>
      ti_data (st' dst) = (if ti_numel (st src) = 0 then 0 else ti_data (st src)) \<and>
      (\<forall>t. t \<noteq> dst \<longrightarrow> st' t = st t)"
    using assms by (simp add: share_tensor_data_def update_tensor_def tensor_set_data_def)
  let ?mem = "copy_bytes (ti_data (st src)) (ti_data (st dst)) n mem"
  have "?mem (ti_data (st dst) + i) = mem (ti_data (st src) + i)" if "i < n" for i
    using that by (simp add: copy_bytes_def)
  moreover have other: "?mem a = mem a" if "\<forall>i < n. a \<noteq> ti_data (st dst) + i" for a
  proof -
    have "\<not> a - ti_data (st dst) < n" using that by (metis add.commute diff_add_cancel)
    then show ?thesis by (simp add: copy_bytes_def)
  qed
  moreover have "?mem (ti_data (st src) + i) = mem (ti_data (st src) + i)" if "i < n" for i
    using assms(6) that by (intro other) metis
  ultimately show "\<exists>mem'. copy_tensor_data oc dst src st mem = Ok (Error_Ok, mem') \<and>
      (\<forall>i < n. mem' (ti_data (st dst) + i) = mem' (ti_data (st src) + i) \<and>
               mem' (ti_data (st src) + i) = mem (ti_data (st src) + i)) \<and>
      (\<forall>a. (\<forall>i < n. a \<noteq> ti_data (st dst) + i) \<longrightarrow> mem' a = mem a)"
    using assms(1,2,4,5) by (simp add: copy_tensor_data_def)
qed (auto simp: share_tensor_data_def copy_tensor_data_def outcome_simps Let_def split: if_splits)

theorem share_and_copy_tensor_data_witness:
  "\<exists>st' mem'. share_tensor_data True 0 1 (\<lambda>i. if i = 0 then example_tensor else example_tensor\<lparr>ti_data := 8192\<rparr>)
      = Ok (Error_Ok, st') \<and> ti_data (st' 0) = 8192 \<and>
    copy_tensor_data True 0 1 (\<lambda>i. if i = 0 then example_tensor else example_tensor\<lparr>ti_data := 8192\<rparr>) (\<lambda>_. 7)
      = Ok (Error_Ok, mem')"
proof -
  let ?st = "\<lambda>i :: tensor_id. if i = 0 then example_tensor else example_tensor\<lparr>ti_data := 8192\<rparr>"
  have n: "tensor_nbytes True (?st 0) = Ok 96" "tensor_nbytes True (?st 1) = Ok 96"
    by (simp_all add: tensor_nbytes_def example_tensor_def umul_def)
  have apart: "\<forall>i < 96. \<forall>j < 96. ti_data (?st 0) + i \<noteq> ti_data (?st 1) + j"
  proof (intro allI impI notI)
    fix i j :: usize assume ij: "i < 96" "j < 96" and "ti_data (?st 0) + i = ti_data (?st 1) + j"
    then have "unat (4096 + i) = unat (8192 + j)" by (simp add: example_tensor_def)
    moreover have "unat i < 96" "unat j < 96" using ij by (simp_all add: word_less_nat_alt)
    ultimately show False by (simp add: unat_word_ariths)
  qed
  have d: "ti_data (?st 0) = 4096" "ti_data (?st 1) = 8192" "ti_numel (?st 1) = 24"
    by (simp_all add: example_tensor_def)
  show ?thesis
    using share_and_copy_tensor_data [OF n _ _ _ apart, of "\<lambda>_. 7"] d by auto
qed

end
