(* ===== verification/Schema.thy ===== *)
theory Schema
  imports Errors
begin

text \<open>
  The serialized program as the flatbuffer accessors present it (the generated code itself is not
  modelled). A nullable field is an option; a union value is a constructor of \<open>s_value\<close>, whose
  payload table may be absent (for a variant unknown to the runtime, the flag of \<open>SV_Other\<close>
  says if it is present). Enumerations are stored as the numbers of their fields, of any value.
\<close>

record s_allocation =
  sa_memory_id :: u32
  sa_memory_offset_low :: u32
  sa_memory_offset_high :: u32

record s_extra_info =
  se_fully_qualified_name :: "string option"
  se_location :: int
  se_device_type :: int
  se_device_index :: int

record s_tensor =
  st_scalar_type :: int
  st_storage_offset :: int
  st_sizes :: "int list option"
  st_dim_order :: "u8 list option"
  st_data_buffer_idx :: u32
  st_allocation_info :: "s_allocation option"
  st_shape_dynamism :: int
  st_extra_tensor_info :: "s_extra_info option"

definition st_fully_qualified_name :: "s_tensor \<Rightarrow> string option" where
  "st_fully_qualified_name t =
     (case st_extra_tensor_info t of None \<Rightarrow> None | Some e \<Rightarrow> se_fully_qualified_name e)"

text \<open>\<^verbatim>\<open>TensorDataLocation::EXTERNAL\<close> is 1.\<close>

definition st_is_external :: "s_tensor \<Rightarrow> bool" where
  "st_is_external t =
     (case st_extra_tensor_info t of None \<Rightarrow> False | Some e \<Rightarrow> se_location e = 1)"

datatype s_value =
    SV_Null
  | SV_Int "int option"
  | SV_Bool "bool option"
  | SV_Double "u64 option"
  | SV_Tensor "s_tensor option"
  | SV_String "string option option"
  | SV_IntList "int list option option"
  | SV_DoubleList "u64 list option option"
  | SV_BoolList "bool list option option"
  | SV_TensorList "int list option option"
  | SV_OptionalTensorList "int list option option"
  | SV_Other nat bool

record s_buffer_device =
  sd_buffer_idx :: int
  sd_device_type :: int
  sd_device_index :: int

text \<open>The arguments of an instruction are absent when its field is.\<close>

datatype instruction =
    KernelCall int "int list option"
  | DelegateCall int "int list option"
  | JumpFalseCall int int
  | MoveCall int int
  | FreeCall int
  | OtherCall nat

record s_operator =
  so_name :: "string option"
  so_overload :: "string option"

text \<open>\<^verbatim>\<open>DataLocation::INLINE\<close> is 0 and \<^verbatim>\<open>SEGMENT\<close> 1; a blob is its address and its length.\<close>

record s_processed =
  spd_location :: int
  spd_index :: u32

record s_compile_spec =
  scs_key :: "string option"
  scs_value :: "(usize \<times> usize) option"

record s_delegate =
  sdl_id :: "string option"
  sdl_processed :: "s_processed option"
  sdl_compile_specs :: "s_compile_spec list option"

record s_plan =
  sp_name :: "string option"
  sp_container_meta_type :: "string option option"
  sp_values :: "s_value list option"
  sp_inputs :: "int list option"
  sp_outputs :: "int list option"
  sp_non_const_buffer_sizes :: "int list option"
  sp_non_const_buffer_device :: "s_buffer_device list option"
  sp_operators :: "s_operator list option"
  sp_delegates :: "s_delegate list option"
  sp_chains :: "instruction option list option list option"

text \<open>A tensor and a plan with nothing in them, from which examples are made.\<close>

definition empty_s_tensor :: s_tensor where
  "empty_s_tensor = \<lparr>st_scalar_type = 0, st_storage_offset = 0, st_sizes = None, st_dim_order = None,
     st_data_buffer_idx = 0, st_allocation_info = None, st_shape_dynamism = 0, st_extra_tensor_info = None\<rparr>"

definition named_s_tensor :: "string \<Rightarrow> s_tensor" where
  "named_s_tensor name = empty_s_tensor\<lparr>st_extra_tensor_info :=
     Some \<lparr>se_fully_qualified_name = Some name, se_location = 0, se_device_type = 0, se_device_index = 0\<rparr>\<rparr>"

definition empty_s_plan :: s_plan where
  "empty_s_plan = \<lparr>sp_name = None, sp_container_meta_type = None, sp_values = None, sp_inputs = None,
     sp_outputs = None, sp_non_const_buffer_sizes = None, sp_non_const_buffer_device = None,
     sp_operators = None, sp_delegates = None, sp_chains = None\<rparr>"

lemmas example_schema_defs = empty_s_tensor_def named_s_tensor_def empty_s_plan_def

end
