(* ===== verification/Method.thy ===== *)
theory Method
  imports Schema Kernel_Context Tensor_Util Operator_Registry
begin

text \<open>
  The execution of a loaded method: \<^verbatim>\<open>runtime/executor/method.rs\<close> (\<^verbatim>\<open>parse_cond_value\<close>,
  \<^verbatim>\<open>execute_instruction\<close>, \<^verbatim>\<open>step\<close>, \<^verbatim>\<open>execute\<close>, \<^verbatim>\<open>reset_execution\<close>, \<^verbatim>\<open>in_progress\<close>).

  The method's own fields are the record \<open>method\<close>; the memory that instructions share with kernels
  and delegates (the values table, the tensors its handles point to, the bytes of their data) is
  the record \<open>machine\<close>. Kernels, delegates and the temporary allocator's \<^verbatim>\<open>reset\<close> are code
  registered by others, the fields of \<open>env\<close>: any function of what the runtime passes them.
  Profiling scopes, event tracing and logging have no effect here, except that the message for a
  failed kernel unwraps the operator's name and overload: the record keeps the plan's operators, and
  \<open>log_kernel_failure\<close> is that message. A delegate call also unwraps the plan's name, which is
  there in a method with delegates: loading unwraps it for each of them (\<open>delegate_init\<close> runs after that).
\<close>

section \<open>State\<close>

record 'f chain =
  ch_instructions :: "instruction list option"
  ch_argument_lists :: "nat list list"
  ch_kernels :: "'f option list"

datatype InitializationState = Uninitialized | Initialized | InitializationFailed

record ('f, 's) method_state =
  m_chain_idx :: nat
  m_instr_idx :: nat
  m_temp_allocator :: "'s option"
  m_inputs :: "int list option"
  m_outputs :: "int list option"
  m_n_value :: nat
  m_input_set :: "bool list"
  m_n_delegate :: nat
  m_chains :: "'f chain list"
  m_operators :: "s_operator list option"
  m_init_state :: InitializationState

record machine =
  mc_values :: "nat \<Rightarrow> evalue"
  mc_tensors :: tensor_store
  mc_bytes :: bytes

record ('f, 's) env =
  run_kernel :: "'f \<Rightarrow> nat list \<Rightarrow> 's kernel_context \<Rightarrow> machine \<Rightarrow> ('s kernel_context \<times> machine) result"
  run_delegate :: "nat \<Rightarrow> nat list \<Rightarrow> 's option \<Rightarrow> machine \<Rightarrow> (Error \<times> 's option \<times> machine) result"
  temp_reset :: "'s \<Rightarrow> 's"

text \<open>An \<^verbatim>\<open>i32\<close> index cast to \<^verbatim>\<open>usize\<close>: negative values become huge.\<close>

definition as_usize :: "int \<Rightarrow> nat" where
  "as_usize i = nat (i mod 2 ^ 64)"

definition n_chains :: "('f, 's) method_state \<Rightarrow> nat" where
  "n_chains m = length (m_chains m)"

definition initialized :: "('f, 's) method_state \<Rightarrow> bool" where
  "initialized m \<longleftrightarrow> m_init_state m = Initialized"

definition inputs_size :: "('f, 's) method_state \<Rightarrow> nat" where
  "inputs_size m = (case m_inputs m of None \<Rightarrow> 0 | Some v \<Rightarrow> length v)"

definition outputs_size :: "('f, 's) method_state \<Rightarrow> nat" where
  "outputs_size m = (case m_outputs m of None \<Rightarrow> 0 | Some v \<Rightarrow> length v)"

definition in_progress :: "('f, 's) method_state \<Rightarrow> bool" where
  "in_progress m \<longleftrightarrow> (m_chain_idx m \<noteq> 0 \<or> m_instr_idx m \<noteq> 0) \<and> m_chain_idx m < n_chains m"

definition set_step_state :: "nat \<Rightarrow> nat \<Rightarrow> ('f, 's) method_state \<Rightarrow> ('f, 's) method_state" where
  "set_step_state ci ii m = m\<lparr>m_chain_idx := ci, m_instr_idx := ii\<rparr>"

definition reset_temp :: "('f, 's) env \<Rightarrow> ('f, 's) method_state \<Rightarrow> ('f, 's) method_state" where
  "reset_temp env m = m\<lparr>m_temp_allocator := map_option (temp_reset env) (m_temp_allocator m)\<rparr>"

definition get_value_index_checked :: "int \<Rightarrow> ('f, 's) method_state \<Rightarrow> nat result" where
  "get_value_index_checked i m = (if as_usize i < m_n_value m then Ok (as_usize i) else Panic)"

section \<open>Instructions\<close>

fun all_true :: "bytes \<Rightarrow> usize \<Rightarrow> nat \<Rightarrow> nat \<Rightarrow> bool" where
  "all_true mem p i 0 = True"
| "all_true mem p i (Suc n) = (if mem (p + of_nat i) = 0 then False else all_true mem p (Suc i) n)"

definition parse_cond_value :: "evalue \<Rightarrow> machine \<Rightarrow> bool result" where
  "parse_cond_value cond_value mc =
     (if ev_is_tensor cond_value then
        r_bind (to_tensor cond_value) (\<lambda>t.
          let cond_val = mc_tensors mc t
          in if Bool \<noteq> ti_type cond_val then Err InvalidProgram
             else if ti_data cond_val = 0 then Err InvalidState
             else Ok (all_true (mc_bytes mc) (ti_data cond_val) 0 (as_usize (ti_numel cond_val))))
      else if ev_is_bool cond_value then to_bool cond_value
      else Err InvalidProgram)"

text \<open>
  The message logged for a failed kernel: looking the operator up and unwrapping its two strings aborts
  when one of them is not there.
\<close>

definition log_kernel_failure :: "s_operator list option \<Rightarrow> int \<Rightarrow> unit result" where
  "log_kernel_failure operators op_index =
     (case operators of
        None \<Rightarrow> Panic
      | Some ops \<Rightarrow>
          if \<not> as_usize op_index < length ops then Panic
          else let op = ops ! as_usize op_index
               in if so_name op = None then Panic else if so_overload op = None then Panic else Ok ())"

text \<open>
  The body of the \<^verbatim>\<open>match\<close>: the error, the next instruction and the changed state; \<open>Inl\<close> is the
  early return of a delegate call with a bad index, which skips the reset of the temporary
  allocator.
\<close>

definition dispatch ::
    "('f, 's) env \<Rightarrow> instruction \<Rightarrow> ('f, 's) method_state \<Rightarrow> machine
     \<Rightarrow> (Error + Error \<times> nat \<times> ('f, 's) method_state \<times> machine) result" where
  "dispatch env instr m mc =
     (let chain = m_chains m ! m_chain_idx m; next_instr_idx = m_instr_idx m + 1
      in case instr of
        KernelCall op_index _ \<Rightarrow>
          (let args = ch_argument_lists chain ! m_instr_idx m
           in case ch_kernels chain ! m_instr_idx m of
             None \<Rightarrow> Panic
           | Some kern \<Rightarrow>
               r_bind (run_kernel env kern args (kernel_context_new 0 (m_temp_allocator m)) mc) (\<lambda>(c, mc').
               r_bind (if failure_state c \<noteq> Error_Ok then log_kernel_failure (m_operators m) op_index else Ok ()) (\<lambda>_.
                 Ok (Inr (failure_state c, next_instr_idx, m\<lparr>m_temp_allocator := kc_temp_allocator c\<rparr>, mc')))))
      | DelegateCall delegate_idx _ \<Rightarrow>
          if \<not> as_usize delegate_idx < m_n_delegate m then Ok (Inl Internal)
          else r_bind (run_delegate env (as_usize delegate_idx) (ch_argument_lists chain ! m_instr_idx m)
                 (m_temp_allocator m) mc) (\<lambda>(err, temp, mc').
               Ok (Inr (err, next_instr_idx, m\<lparr>m_temp_allocator := temp\<rparr>, mc')))
      | JumpFalseCall index destination \<Rightarrow>
          (case parse_cond_value (mc_values mc (as_usize index)) mc of
             Ok taken \<Rightarrow> Ok (Inr (Error_Ok, if \<not> taken then as_usize destination else next_instr_idx, m, mc))
           | Err e \<Rightarrow> Ok (Inr (e, next_instr_idx, m, mc))
           | Panic \<Rightarrow> Panic)
      | MoveCall move_from_idx move_to_idx \<Rightarrow>
          r_bind (get_value_index_checked move_to_idx m) (\<lambda>to.
          r_bind (get_value_index_checked move_from_idx m) (\<lambda>from'.
            let (moved, cleared) = move_from (from_ref (mc_values mc from'))
            in Ok (Inr (Error_Ok, next_instr_idx, m, mc\<lparr>mc_values := (mc_values mc)(to := moved)\<rparr>))))
      | FreeCall value_index \<Rightarrow>
          r_bind (get_value_index_checked value_index m) (\<lambda>i.
            case try_to_tensor (mc_values mc i) of
              Ok t \<Rightarrow> Ok (Inr (Error_Ok, next_instr_idx, m, mc\<lparr>mc_tensors := reset_data_ptr t (mc_tensors mc)\<rparr>))
            | Err e \<Rightarrow> Ok (Inr (e, next_instr_idx, m, mc))
            | Panic \<Rightarrow> Panic)
      | OtherCall _ \<Rightarrow> Ok (Inr (InvalidProgram, next_instr_idx, m, mc)))"

definition execute_instruction ::
    "('f, 's) env \<Rightarrow> ('f, 's) method_state \<Rightarrow> machine \<Rightarrow> (Error \<times> ('f, 's) method_state \<times> machine) result" where
  "execute_instruction env m mc =
     (case ch_instructions (m_chains m ! m_chain_idx m) of
        None \<Rightarrow> Panic
      | Some instructions \<Rightarrow>
          if \<not> m_instr_idx m < length instructions then Ok (Internal, m, mc)
          else r_bind (dispatch env (instructions ! m_instr_idx m) m mc) (\<lambda>out.
            case out of
              Inl err \<Rightarrow> Ok (err, m, mc)
            | Inr (err, next_instr_idx, m', mc') \<Rightarrow>
                let m'' = reset_temp env m'
                in if err = Error_Ok then Ok (err, m''\<lparr>m_instr_idx := next_instr_idx\<rparr>, mc')
                   else Ok (err, m'', mc')))"

section \<open>Running a method\<close>

definition reset_execution :: "('f, 's) method_state \<Rightarrow> Error \<times> ('f, 's) method_state" where
  "reset_execution m =
     (if \<not> m_chain_idx m = n_chains m then (InvalidState, m) else (Error_Ok, set_step_state 0 0 m))"

definition step ::
    "('f, 's) env \<Rightarrow> ('f, 's) method_state \<Rightarrow> machine \<Rightarrow> (Error \<times> ('f, 's) method_state \<times> machine) result" where
  "step env m mc =
     (if \<not> initialized m then Ok (InvalidState, m, mc)
      else if m_chain_idx m = n_chains m then Ok (EndOfMethod, m, mc)
      else case ch_instructions (m_chains m ! m_chain_idx m) of
        None \<Rightarrow> Panic
      | Some instructions \<Rightarrow>
          let num_instructions = length instructions
          in if num_instructions = 0 then Ok (Error_Ok, m\<lparr>m_chain_idx := m_chain_idx m + 1\<rparr>, mc)
             else r_bind (execute_instruction env m mc) (\<lambda>(status, m', mc').
               if status \<noteq> Error_Ok then Ok (status, m', mc')
               else if m_instr_idx m' = num_instructions
               then Ok (Error_Ok, m'\<lparr>m_instr_idx := 0, m_chain_idx := m_chain_idx m' + 1\<rparr>, mc')
               else Ok (Error_Ok, m', mc')))"

definition K_MAX_INSTRUCTIONS :: nat where
  "K_MAX_INSTRUCTIONS = 10000000"

text \<open>
  The two loops of \<^verbatim>\<open>execute\<close>, with the instruction limit as a parameter. The inner loop ends with
  \<open>Inl\<close> when \<^verbatim>\<open>execute\<close> returns from inside it and with \<open>Inr\<close> and the instruction cnt at the
  end of the chain; the cnt bounds the recursion.
\<close>

function run_chain ::
    "nat \<Rightarrow> ('f, 's) env \<Rightarrow> nat \<Rightarrow> nat \<Rightarrow> ('f, 's) method_state \<Rightarrow> machine
     \<Rightarrow> (Error \<times> ('f, 's) method_state \<times> machine + nat \<times> ('f, 's) method_state \<times> machine) result" where
  "run_chain limit env len cnt m mc =
     (if \<not> m_instr_idx m < len then Ok (Inr (cnt, m, mc))
      else if limit \<le> cnt then Ok (Inl (InvalidProgram, set_step_state 0 0 m, mc))
      else r_bind (execute_instruction env m mc) (\<lambda>(status, m', mc').
        if status \<noteq> Error_Ok then Ok (Inl (status, set_step_state 0 0 m', mc'))
        else run_chain limit env len (cnt + 1) m' mc'))"
  by pat_completeness auto
termination by (relation "measure (\<lambda>(limit, env, len, cnt, m, mc). limit - cnt)") auto

declare run_chain.simps [simp del]

fun run_chains ::
    "nat \<Rightarrow> ('f, 's) env \<Rightarrow> nat \<Rightarrow> nat \<Rightarrow> ('f, 's) method_state \<Rightarrow> machine
     \<Rightarrow> (Error \<times> ('f, 's) method_state \<times> machine) result" where
  "run_chains limit env 0 cnt m mc =
     (let (err, m') = reset_execution m in Ok (err, m', mc))"
| "run_chains limit env (Suc remaining) cnt m mc =
     (case ch_instructions (m_chains m ! m_chain_idx m) of
        None \<Rightarrow> Ok (Internal, m, mc)
      | Some instructions \<Rightarrow>
          r_bind (run_chain limit env (length instructions) cnt (m\<lparr>m_instr_idx := 0\<rparr>) mc) (\<lambda>out.
            case out of
              Inl ret \<Rightarrow> Ok ret
            | Inr (cnt', m', mc') \<Rightarrow>
                run_chains limit env remaining cnt' (m'\<lparr>m_chain_idx := m_chain_idx m' + 1\<rparr>) mc'))"

definition execute_with ::
    "nat \<Rightarrow> ('f, 's) env \<Rightarrow> ('f, 's) method_state \<Rightarrow> machine \<Rightarrow> (Error \<times> ('f, 's) method_state \<times> machine) result" where
  "execute_with limit env m mc =
     (if \<not> initialized m then Ok (NotSupported, m, mc)
      else if in_progress m then Ok (InvalidState, m, mc)
      else if \<exists>i < inputs_size m. \<not> m_input_set m ! i then Ok (InvalidArgument, m, mc)
      else run_chains limit env (n_chains m) 0 ((reset_temp env m)\<lparr>m_chain_idx := 0\<rparr>) mc)"

definition execute ::
    "('f, 's) env \<Rightarrow> ('f, 's) method_state \<Rightarrow> machine \<Rightarrow> (Error \<times> ('f, 's) method_state \<times> machine) result" where
  "execute env m mc = execute_with K_MAX_INSTRUCTIONS env m mc"

section \<open>What an instruction may change\<close>

text \<open>
  \<open>advanced m m'\<close>: the method with only the temporary allocator and the instruction index changed;
  chains, values count, inputs and the chain being executed are the same.
\<close>

definition advanced :: "('f, 's) method_state \<Rightarrow> ('f, 's) method_state \<Rightarrow> bool" where
  "advanced m m' \<longleftrightarrow> m' = m\<lparr>m_temp_allocator := m_temp_allocator m', m_instr_idx := m_instr_idx m'\<rparr>"

lemma advanced_refl [simp]: "advanced m m"
  by (simp add: advanced_def)

lemma advanced_fields:
  assumes "advanced m m'"
  shows "m_chains m' = m_chains m \<and> m_chain_idx m' = m_chain_idx m \<and> m_init_state m' = m_init_state m \<and>
    m_n_value m' = m_n_value m \<and> m_inputs m' = m_inputs m \<and> m_outputs m' = m_outputs m \<and>
    m_input_set m' = m_input_set m \<and> m_n_delegate m' = m_n_delegate m \<and> m_operators m' = m_operators m"
  using assms by (cases m, cases m') (simp add: advanced_def)

lemma advanced_trans:
  assumes "advanced m m'" and "advanced m' m''"
  shows "advanced m m''"
  using advanced_fields [OF assms(1)] advanced_fields [OF assms(2)] by (simp add: advanced_def)

lemma dispatch_frame:
  assumes "dispatch env instr m mc = Ok (Inr (e, nxt, m', mc'))"
  shows "m' = m\<lparr>m_temp_allocator := m_temp_allocator m'\<rparr>"
  using assms
  by (cases instr;
      clarsimp simp: dispatch_def Let_def r_bind_Ok_iff move_from_def from_ref_def;
      (auto simp: r_bind_Ok_iff split: option.splits if_splits outcome.splits prod.splits)?)

lemma dispatch_next:
  assumes "dispatch env instr m mc = Ok (Inr (Error_Ok, nxt, m', mc'))"
  shows "nxt = m_instr_idx m + 1 \<or> (\<exists>i d. instr = JumpFalseCall i d \<and> nxt = as_usize d)"
  using assms
  by (cases instr;
      clarsimp simp: dispatch_def Let_def r_bind_Ok_iff move_from_def from_ref_def;
      (auto simp: r_bind_Ok_iff split: option.splits if_splits outcome.splits prod.splits)?)

lemma dispatch_early:
  assumes "dispatch env instr m mc = Ok (Inl e)"
  shows "e = Internal"
  using assms
  by (cases instr;
      clarsimp simp: dispatch_def Let_def r_bind_Ok_iff move_from_def from_ref_def;
      (auto simp: r_bind_Ok_iff split: option.splits if_splits outcome.splits prod.splits)?)

lemma execute_instruction_frame:
  assumes "execute_instruction env m mc = Ok (e, m', mc')"
  shows "advanced m m' \<and> (e \<noteq> Error_Ok \<longrightarrow> m_instr_idx m' = m_instr_idx m)"
proof (cases "ch_instructions (m_chains m ! m_chain_idx m)")
  case None
  then show ?thesis using assms by (simp add: execute_instruction_def)
next
  case (Some ins)
  show ?thesis
  proof (cases "m_instr_idx m < length ins")
    case False
    then show ?thesis using assms Some by (simp add: execute_instruction_def)
  next
    case True
    then obtain out where out: "dispatch env (ins ! m_instr_idx m) m mc = Ok out"
      and rest: "(case out of Inl err \<Rightarrow> Ok (err, m, mc)
            | Inr (err, next_instr_idx, m', mc') \<Rightarrow>
                let m'' = reset_temp env m'
                in if err = Error_Ok then Ok (err, m''\<lparr>m_instr_idx := next_instr_idx\<rparr>, mc')
                   else Ok (err, m'', mc')) = (Ok (e, m', mc') :: (Error \<times> ('a, 'b) method_state \<times> machine) result)"
      using assms Some by (auto simp: execute_instruction_def r_bind_Ok_iff)
    show ?thesis
    proof (cases out)
      case (Inl err)
      then show ?thesis using rest by simp
    next
      case (Inr t)
      obtain err nxt m1 mc1 where t: "t = (err, nxt, m1, mc1)" by (cases t)
      have "m1 = m\<lparr>m_temp_allocator := m_temp_allocator m1\<rparr>"
        using dispatch_frame out Inr t by blast
      then obtain a where m1: "m1 = m\<lparr>m_temp_allocator := a\<rparr>" ..
      show ?thesis using rest Inr t m1
        by (cases "err = Error_Ok") (auto simp: advanced_def reset_temp_def)
    qed
  qed
qed

lemma execute_instruction_next:
  assumes "execute_instruction env m mc = Ok (Error_Ok, m', mc')"
    and "ch_instructions (m_chains m ! m_chain_idx m) = Some ins"
  shows "m_instr_idx m < length ins \<and>
    (m_instr_idx m' = m_instr_idx m + 1 \<or>
     (\<exists>i d. ins ! m_instr_idx m = JumpFalseCall i d \<and> m_instr_idx m' = as_usize d))"
proof (cases "m_instr_idx m < length ins")
  case False
  then show ?thesis using assms by (simp add: execute_instruction_def)
next
  case True
  then obtain out where out: "dispatch env (ins ! m_instr_idx m) m mc = Ok out"
    and rest: "(case out of Inl err \<Rightarrow> Ok (err, m, mc)
          | Inr (err, next_instr_idx, m', mc') \<Rightarrow>
              let m'' = reset_temp env m'
              in if err = Error_Ok then Ok (err, m''\<lparr>m_instr_idx := next_instr_idx\<rparr>, mc')
                 else Ok (err, m'', mc')) = (Ok (Error_Ok, m', mc') :: (Error \<times> ('a, 'b) method_state \<times> machine) result)"
    using assms by (auto simp: execute_instruction_def r_bind_Ok_iff)
  show ?thesis
  proof (cases out)
    case (Inl err)
    then have "err = Internal" using out dispatch_early by blast
    then show ?thesis using rest Inl by simp
  next
    case (Inr t)
    obtain err nxt m1 mc1 where t: "t = (err, nxt, m1, mc1)" by (cases t)
    have "err = Error_Ok" and "m_instr_idx m' = nxt"
      using rest Inr t by (auto simp: Let_def split: if_splits)
    moreover from this have "nxt = m_instr_idx m + 1 \<or>
        (\<exists>i d. ins ! m_instr_idx m = JumpFalseCall i d \<and> nxt = as_usize d)"
      using out Inr t dispatch_next by blast
    ultimately show ?thesis using True by blast
  qed
qed

section \<open>Executing is stepping\<close>

text \<open>Jumps stay in the chain or go to its end.\<close>

definition jumps_in_range :: "instruction list \<Rightarrow> bool" where
  "jumps_in_range ins \<longleftrightarrow>
     list_all (\<lambda>i. case i of JumpFalseCall _ d \<Rightarrow> as_usize d \<le> length ins | _ \<Rightarrow> True) ins"

definition chains_ok :: "('f, 's) method_state \<Rightarrow> bool" where
  "chains_ok m \<longleftrightarrow>
     list_all (\<lambda>c. case ch_instructions c of None \<Rightarrow> False | Some ins \<Rightarrow> jumps_in_range ins) (m_chains m)"

text \<open>\<open>runs env n s s'\<close>: \<open>n\<close> successful calls of \<^verbatim>\<open>step\<close> lead from \<open>s\<close> to \<open>s'\<close>.\<close>

inductive runs ::
    "('f, 's) env \<Rightarrow> nat \<Rightarrow> ('f, 's) method_state \<times> machine \<Rightarrow> ('f, 's) method_state \<times> machine \<Rightarrow> bool"
  for env where
  runs_refl: "runs env 0 s s"
| runs_step: "step env m mc = Ok (Error_Ok, m1, mc1) \<Longrightarrow> runs env n (m1, mc1) s \<Longrightarrow> runs env (Suc n) (m, mc) s"

inductive_cases runs_0E: "runs env 0 s s'"
inductive_cases runs_SucE: "runs env (Suc n) s s'"

lemma runs_trans:
  assumes "runs env n s t" and "runs env k t u"
  shows "runs env (n + k) s u"
  using assms by (induction rule: runs.induct) (auto intro: runs_step)

lemma runs_deterministic:
  assumes "runs env n s t" and "runs env n s u"
  shows "t = u"
  using assms
proof (induction arbitrary: u rule: runs.induct)
  case (runs_refl s)
  then show ?case by (elim runs_0E) simp
next
  case (runs_step m mc m1 mc1 n s)
  from runs_step.prems show ?case
  proof (rule runs_SucE)
    fix m' mc' m1' mc1'
    assume "(m, mc) = (m', mc')" "step env m' mc' = Ok (Error_Ok, m1', mc1')" "runs env n (m1', mc1') u"
    then show "s = u" using runs_step.hyps runs_step.IH by simp
  qed
qed

lemma jump_target:
  assumes "jumps_in_range ins" and "n < length ins" and "ins ! n = JumpFalseCall i d"
  shows "as_usize d \<le> length ins"
  using assms nth_mem [OF assms(2)] by (auto simp: jumps_in_range_def list_all_iff)

lemma execute_instruction_in_range:
  assumes "execute_instruction env m mc = Ok (Error_Ok, m', mc')"
    and "ch_instructions (m_chains m ! m_chain_idx m) = Some ins" and "jumps_in_range ins"
  shows "m_instr_idx m' \<le> length ins"
  using execute_instruction_next [OF assms(1,2)] jump_target [OF assms(3)] by auto

lemma step_nonempty:
  assumes "initialized m" and "m_chain_idx m < n_chains m"
    and "ch_instructions (m_chains m ! m_chain_idx m) = Some ins" and "ins \<noteq> []"
  shows "step env m mc = r_bind (execute_instruction env m mc) (\<lambda>(status, m', mc').
     if status \<noteq> Error_Ok then Ok (status, m', mc')
     else if m_instr_idx m' = length ins
     then Ok (Error_Ok, m'\<lparr>m_instr_idx := 0, m_chain_idx := m_chain_idx m' + 1\<rparr>, mc')
     else Ok (Error_Ok, m', mc'))"
  using assms by (simp add: step_def)

text \<open>How stepping ends: with the outcome \<open>r\<close> of a call of \<^verbatim>\<open>step\<close> that is not a success.\<close>

definition stops_with ::
    "('f, 's) env \<Rightarrow> ('f, 's) method_state \<times> machine \<Rightarrow> (Error \<times> ('f, 's) method_state \<times> machine) result \<Rightarrow> bool" where
  "stops_with env s r \<longleftrightarrow> (\<exists>n m1 mc1. runs env n s (m1, mc1) \<and> step env m1 mc1 = r \<and>
     (\<forall>m2 mc2. r \<noteq> Ok (Error_Ok, m2, mc2)))"

lemma stops_with_runs:
  assumes "runs env n s t" and "stops_with env t r"
  shows "stops_with env s r"
proof -
  obtain k m1 mc1 where k: "runs env k t (m1, mc1)"
    and r: "step env m1 mc1 = r" "\<forall>m2 mc2. r \<noteq> Ok (Error_Ok, m2, mc2)"
    using assms(2) unfolding stops_with_def by blast
  show ?thesis
    unfolding stops_with_def using runs_trans [OF assms(1) k] r by blast
qed

lemma stops_with_step:
  assumes "step env m mc = Ok (Error_Ok, m1, mc1)" and "stops_with env (m1, mc1) r"
  shows "stops_with env (m, mc) r"
  using stops_with_runs [OF runs_step [OF assms(1) runs_refl] assms(2)] .

lemma stops_with_now:
  assumes "step env m mc = r" and "\<And>m2 mc2. r \<noteq> Ok (Error_Ok, m2, mc2)"
  shows "stops_with env (m, mc) r"
  unfolding stops_with_def using assms runs_refl by blast

text \<open>Stepping is deterministic, so that it has one end.\<close>

lemma runs_before_stop:
  assumes "runs env k s u" and "runs env n s t" and "\<forall>m2 mc2. step env (fst t) (snd t) \<noteq> Ok (Error_Ok, m2, mc2)"
  shows "k \<le> n \<and> runs env (n - k) u t"
  using assms
proof (induction arbitrary: n rule: runs.induct)
  case (runs_refl s)
  then show ?case by simp
next
  case (runs_step m mc m1 mc1 k s)
  show ?case
  proof (cases n)
    case 0
    then have "t = (m, mc)" using runs_step.prems(1) by (auto elim: runs_0E)
    then show ?thesis using runs_step.hyps(1) runs_step.prems(2) by simp
  next
    case (Suc n')
    from runs_step.prems(1) have "runs env n' (m1, mc1) t"
      unfolding Suc using runs_step.hyps(1) by (auto elim: runs_SucE)
    then show ?thesis using runs_step.IH runs_step.prems(2) Suc by simp
  qed
qed

lemma stops_with_unique:
  assumes "stops_with env s r" and "stops_with env s r'"
  shows "r = r'"
proof -
  obtain n m1 mc1 k m2 mc2 where n: "runs env n s (m1, mc1)" "step env m1 mc1 = r" "\<forall>m mc. r \<noteq> Ok (Error_Ok, m, mc)"
    and k: "runs env k s (m2, mc2)" "step env m2 mc2 = r'" "\<forall>m mc. r' \<noteq> Ok (Error_Ok, m, mc)"
    using assms unfolding stops_with_def by blast
  have "n = k" using runs_before_stop [OF n(1) k(1)] runs_before_stop [OF k(1) n(1)] n(2,3) k(2,3) by simp
  then show ?thesis using runs_deterministic [OF n(1)] k(1,2) n(2) by auto
qed

lemma set_step_state_swap: "m\<lparr>m_instr_idx := i, m_chain_idx := c\<rparr> = set_step_state c i m"
  by (simp add: set_step_state_def)

lemma advanced_initialized: "advanced m m' \<Longrightarrow> initialized m' = initialized m"
  using advanced_fields [of m m'] by (simp add: initialized_def)

lemma advanced_n_chains: "advanced m m' \<Longrightarrow> n_chains m' = n_chains m"
  using advanced_fields [of m m'] by (simp add: n_chains_def)

text \<open>
  What a run of the inner loop with the result \<open>out\<close> says about stepping: the end of the chain is
  reached by as many steps as instructions were counted, an early return comes from the limit or
  from a failing step, an abort from an aborting step.
\<close>

definition chain_ends ::
    "('f, 's) env \<Rightarrow> nat \<Rightarrow> nat \<Rightarrow> ('f, 's) method_state \<Rightarrow> machine
     \<Rightarrow> (Error \<times> ('f, 's) method_state \<times> machine + nat \<times> ('f, 's) method_state \<times> machine) result \<Rightarrow> bool" where
  "chain_ends env limit cnt m mc out \<longleftrightarrow>
     (case out of
        Ok (Inr (cnt', m', mc')) \<Rightarrow> cnt < cnt' \<and> cnt' \<le> limit \<and> advanced m m' \<and>
          runs env (cnt' - cnt) (m, mc) (set_step_state (m_chain_idx m + 1) 0 m', mc')
      | Ok (Inl (e, m', mc')) \<Rightarrow> (\<exists>m1. m' = set_step_state 0 0 m1 \<and>
          (e = InvalidProgram \<and> runs env (limit - cnt) (m, mc) (m1, mc') \<or>
           e \<noteq> Error_Ok \<and> stops_with env (m, mc) (Ok (e, m1, mc'))))
      | Err x \<Rightarrow> stops_with env (m, mc) (Err x)
      | Panic \<Rightarrow> stops_with env (m, mc) Panic)"

lemma chain_ends_step:
  assumes one: "step env m mc = Ok (Error_Ok, m', mc')" and adv: "advanced m m'" and "cnt < limit"
    and IH: "chain_ends env limit (cnt + 1) m' mc' out"
  shows "chain_ends env limit cnt m mc out"
proof -
  have chain: "m_chain_idx m' = m_chain_idx m" using advanced_fields [OF adv] by simp
  have less: "limit - cnt = Suc (limit - (cnt + 1))" using assms(3) by simp
  consider (inr) cnt' m2 mc2 where "out = Ok (Inr (cnt', m2, mc2))" | (inl) e m2 mc2 where "out = Ok (Inl (e, m2, mc2))"
    | (err) x where "out = Err x" | (panic) "out = Panic"
    by (cases out; metis sum.exhaust prod_cases3)
  then show ?thesis
  proof cases
    case inr
    then have H: "cnt + 1 < cnt'" "cnt' \<le> limit" "advanced m' m2"
      "runs env (cnt' - (cnt + 1)) (m', mc') (set_step_state (m_chain_idx m' + 1) 0 m2, mc2)"
      using IH by (simp_all add: chain_ends_def)
    have "cnt' - cnt = Suc (cnt' - (cnt + 1))" using H(1) by simp
    then show ?thesis
      using inr H chain runs_step [OF one H(4)] advanced_trans [OF adv H(3)] by (simp add: chain_ends_def)
  next
    case inl
    then obtain m1 where m1: "m2 = set_step_state 0 0 m1"
      and how: "e = InvalidProgram \<and> runs env (limit - (cnt + 1)) (m', mc') (m1, mc2) \<or>
        e \<noteq> Error_Ok \<and> stops_with env (m', mc') (Ok (e, m1, mc2))"
      using IH by (auto simp: chain_ends_def)
    from how have "e = InvalidProgram \<and> runs env (limit - cnt) (m, mc) (m1, mc2) \<or>
        e \<noteq> Error_Ok \<and> stops_with env (m, mc) (Ok (e, m1, mc2))"
      using stops_with_step [OF one] runs_step [OF one] unfolding less by blast
    then show ?thesis using inl m1 by (auto simp: chain_ends_def)
  next
    case err
    then show ?thesis using IH stops_with_step [OF one] by (simp add: chain_ends_def)
  next
    case panic
    then show ?thesis using IH stops_with_step [OF one] by (simp add: chain_ends_def)
  qed
qed

lemma run_chain_unfold:
  assumes "m_instr_idx m < len" and "cnt < limit"
  shows "run_chain limit env len cnt m mc =
      r_bind (execute_instruction env m mc) (\<lambda>(status, m', mc').
        if status \<noteq> Error_Ok then Ok (Inl (status, set_step_state 0 0 m', mc'))
        else run_chain limit env len (cnt + 1) m' mc')"
  using assms by (subst run_chain.simps) simp

lemma run_chain_done: "\<not> m_instr_idx m < len \<Longrightarrow> run_chain limit env len cnt m mc = Ok (Inr (cnt, m, mc))"
  by (subst run_chain.simps) simp

lemma run_chain_steps:
  assumes "initialized m" and "m_chain_idx m < n_chains m"
    and "ch_instructions (m_chains m ! m_chain_idx m) = Some ins" and "jumps_in_range ins"
    and "m_instr_idx m < length ins" and "cnt \<le> limit"
  shows "chain_ends env limit cnt m mc (run_chain limit env (length ins) cnt m mc)"
  using assms
proof (induction "limit - cnt" arbitrary: cnt m mc)
  case 0
  then show ?case by (subst run_chain.simps) (auto simp: chain_ends_def intro: runs_refl)
next
  case (Suc k)
  then have ins: "ins \<noteq> []" and less: "cnt < limit" by auto
  note step_eq = step_nonempty [OF Suc.prems(1,2,3) ins, where env = env and mc = mc]
  note unfold = run_chain_unfold [OF Suc.prems(5) less, where env = env and mc = mc]
  show ?case
  proof (cases "execute_instruction env m mc")
    case (Err x)
    then show ?thesis using unfold step_eq by (simp add: stops_with_now chain_ends_def)
  next
    case Panic
    then show ?thesis using unfold step_eq by (simp add: stops_with_now chain_ends_def)
  next
    case (Ok t)
    obtain e m' mc' where t: "t = (e, m', mc')" by (cases t)
    have adv: "advanced m m'" using execute_instruction_frame Ok t by blast
    note same = advanced_fields [OF adv]
    consider (failed) "e \<noteq> Error_Ok" | (ended) "e = Error_Ok" "m_instr_idx m' = length ins"
      | (more) "e = Error_Ok" "m_instr_idx m' < length ins"
      using execute_instruction_in_range Ok t Suc.prems(3,4) le_neq_implies_less by blast
    then show ?thesis
    proof cases
      case failed
      then have "stops_with env (m, mc) (Ok (e, m', mc'))" using step_eq Ok t by (intro stops_with_now) auto
      then show ?thesis using unfold Ok t failed by (auto simp: chain_ends_def)
    next
      case ended
      have "step env m mc = Ok (Error_Ok, set_step_state (m_chain_idx m + 1) 0 m', mc')"
        using step_eq Ok t ended same by (simp add: set_step_state_swap)
      then have "runs env (Suc 0) (m, mc) (set_step_state (m_chain_idx m + 1) 0 m', mc')"
        by (rule runs_step) (rule runs_refl)
      then show ?thesis using unfold Ok t ended adv less by (simp add: run_chain_done chain_ends_def)
    next
      case more
      have "chain_ends env limit (cnt + 1) m' mc' (run_chain limit env (length ins) (cnt + 1) m' mc')"
        using Suc.hyps(2) Suc.prems more same advanced_initialized [OF adv] advanced_n_chains [OF adv]
        by (intro Suc.hyps(1)) auto
      then have "chain_ends env limit cnt m mc (run_chain limit env (length ins) (cnt + 1) m' mc')"
        using step_eq Ok t more adv less by (intro chain_ends_step [of env m mc m' mc']) auto
      then show ?thesis using unfold Ok t more by simp
    qed
  qed
qed

text \<open>The same for the loop over the chains, from the start \<open>s\<close> of a chain.\<close>

definition execution_ends ::
    "('f, 's) env \<Rightarrow> nat \<Rightarrow> nat \<Rightarrow> ('f, 's) method_state \<times> machine
     \<Rightarrow> (Error \<times> ('f, 's) method_state \<times> machine) result \<Rightarrow> bool" where
  "execution_ends env lim bound s out \<longleftrightarrow>
     (case out of
        Ok (e, m', mc') \<Rightarrow> (\<exists>m1. m' = set_step_state 0 0 m1 \<and>
          (if e = Error_Ok
           then (\<exists>n\<le>bound. runs env n s (m1, mc')) \<and> step env m1 mc' = Ok (EndOfMethod, m1, mc') \<and>
             reset_execution m1 = (Error_Ok, m')
           else e = InvalidProgram \<and> (\<exists>n\<ge>lim. runs env n s (m1, mc')) \<or>
             stops_with env s (Ok (e, m1, mc'))))
      | Err x \<Rightarrow> stops_with env s (Err x)
      | Panic \<Rightarrow> stops_with env s Panic)"

lemma execution_ends_runs:
  assumes run: "runs env k s t" and "execution_ends env lim bound t out"
    and "lim' \<le> k + lim" and "k + bound \<le> bound'"
  shows "execution_ends env lim' bound' s out"
proof (cases out)
  case (Ok r)
  obtain e m' mc' where r: "r = (e, m', mc')" by (cases r)
  obtain m1 where m1: "m' = set_step_state 0 0 m1"
    and how: "if e = Error_Ok
      then (\<exists>n\<le>bound. runs env n t (m1, mc')) \<and> step env m1 mc' = Ok (EndOfMethod, m1, mc') \<and>
        reset_execution m1 = (Error_Ok, m')
      else e = InvalidProgram \<and> (\<exists>n\<ge>lim. runs env n t (m1, mc')) \<or> stops_with env t (Ok (e, m1, mc'))"
    using assms(2) Ok r by (auto simp: execution_ends_def)
  have up: "\<exists>n\<le>bound'. runs env n s u" if "\<exists>n\<le>bound. runs env n t u" for u
    using that runs_trans [OF run] assms(4) by (meson add_left_mono order_trans)
  have low: "\<exists>n\<ge>lim'. runs env n s u" if "\<exists>n\<ge>lim. runs env n t u" for u
    using that runs_trans [OF run] assms(3) by (meson add_left_mono order_trans)
  have "if e = Error_Ok
      then (\<exists>n\<le>bound'. runs env n s (m1, mc')) \<and> step env m1 mc' = Ok (EndOfMethod, m1, mc') \<and>
        reset_execution m1 = (Error_Ok, m')
      else e = InvalidProgram \<and> (\<exists>n\<ge>lim'. runs env n s (m1, mc')) \<or> stops_with env s (Ok (e, m1, mc'))"
    using how up [of "(m1, mc')"] low [of "(m1, mc')"] stops_with_runs [OF run]
    by (cases "e = Error_Ok") auto
  then show ?thesis using Ok r m1 by (auto simp: execution_ends_def)
qed (use assms stops_with_runs [OF run] in \<open>simp_all add: execution_ends_def\<close>)

lemma step_at_end:
  assumes "initialized m" and "m_chain_idx m = n_chains m"
  shows "step env m mc = Ok (EndOfMethod, m, mc)"
  using assms by (simp add: step_def)

lemma chains_ok_nth:
  assumes "chains_ok m" and "c < n_chains m"
  obtains ins where "ch_instructions (m_chains m ! c) = Some ins" and "jumps_in_range ins"
  using assms nth_mem [of c "m_chains m"]
  by (fastforce simp: chains_ok_def n_chains_def list_all_iff split: option.splits)

lemma set_step_state_id: "m_chain_idx m = c \<Longrightarrow> m\<lparr>m_instr_idx := 0\<rparr> = set_step_state c 0 m"
  by (simp add: set_step_state_def)

lemma run_chains_steps:
  assumes "initialized m" and "m_chain_idx m + r = n_chains m" and "chains_ok m" and "cnt \<le> limit"
  shows "execution_ends env (limit - cnt) (limit - cnt + r) (m\<lparr>m_instr_idx := 0\<rparr>, mc)
    (run_chains limit env r cnt m mc)"
  using assms
proof (induction r arbitrary: cnt m mc)
  case 0
  let ?m = "m\<lparr>m_instr_idx := 0\<rparr>"
  have "step env ?m mc = Ok (EndOfMethod, ?m, mc)"
    using 0 by (intro step_at_end) (simp_all add: initialized_def n_chains_def)
  moreover have "reset_execution ?m = (Error_Ok, set_step_state 0 0 ?m)"
    using 0 by (simp add: reset_execution_def n_chains_def)
  moreover have "run_chains limit env 0 cnt m mc = Ok (Error_Ok, set_step_state 0 0 ?m, mc)"
    using 0 by (simp add: reset_execution_def set_step_state_def)
  ultimately show ?case
    using runs_refl [of env "(?m, mc)"] by (auto simp: execution_ends_def)
next
  case (Suc r)
  let ?m = "m\<lparr>m_instr_idx := 0\<rparr>"
  obtain ins where ins: "ch_instructions (m_chains m ! m_chain_idx m) = Some ins" "jumps_in_range ins"
    using chains_ok_nth [OF Suc.prems(3), of "m_chain_idx m"] Suc.prems(2) by auto
  let ?out = "run_chain limit env (length ins) cnt ?m mc"
  have run: "run_chains limit env (Suc r) cnt m mc = r_bind ?out (\<lambda>out.
      case out of Inl ret \<Rightarrow> Ok ret
      | Inr (cnt', m', mc') \<Rightarrow> run_chains limit env r cnt' (m'\<lparr>m_chain_idx := m_chain_idx m' + 1\<rparr>) mc')"
    by (simp only: run_chains.simps ins(1) option.case)
  have next_chain: "execution_ends env (limit - cnt') (limit - cnt' + r) (set_step_state (m_chain_idx m + 1) 0 m', mc')
      (run_chains limit env r cnt' (m'\<lparr>m_chain_idx := m_chain_idx m' + 1\<rparr>) mc')"
    if "advanced ?m m'" and "cnt' \<le> limit" for cnt' m' mc'
  proof -
    note same = advanced_fields [OF that(1)]
    have "m'\<lparr>m_chain_idx := m_chain_idx m' + 1, m_instr_idx := 0\<rparr> = set_step_state (m_chain_idx m + 1) 0 m'"
      using same by (simp add: set_step_state_def)
    then show ?thesis
      using Suc.IH [of "m'\<lparr>m_chain_idx := m_chain_idx m' + 1\<rparr>" cnt' mc'] Suc.prems same that(2)
      by (simp add: initialized_def n_chains_def chains_ok_def)
  qed
  show ?case
  proof (cases "ins = []")
    case True
    have "step env ?m mc = Ok (Error_Ok, set_step_state (m_chain_idx m + 1) 0 ?m, mc)"
      using True ins Suc.prems by (simp add: step_def initialized_def n_chains_def set_step_state_def)
    then have one: "runs env (Suc 0) (?m, mc) (set_step_state (m_chain_idx m + 1) 0 ?m, mc)"
      by (rule runs_step) (rule runs_refl)
    have "?out = Ok (Inr (cnt, ?m, mc))" using True by (simp add: run_chain_done)
    then have "run_chains limit env (Suc r) cnt m mc = run_chains limit env r cnt (?m\<lparr>m_chain_idx := m_chain_idx ?m + 1\<rparr>) mc"
      by (simp only: run r_bind.simps sum.case prod.case)
    then show ?thesis
      using execution_ends_runs [OF one next_chain [of ?m cnt mc]] Suc.prems(4) by (simp only: advanced_refl)
  next
    case False
    have ends: "chain_ends env limit cnt ?m mc ?out"
      using False ins Suc.prems by (intro run_chain_steps) (simp_all add: initialized_def n_chains_def)
    consider (inr) cnt' m2 mc2 where "?out = Ok (Inr (cnt', m2, mc2))" | (inl) e m2 mc2 where "?out = Ok (Inl (e, m2, mc2))"
      | (err) x where "?out = Err x" | (panic) "?out = Panic"
      by (cases ?out; metis sum.exhaust prod_cases3)
    then show ?thesis
    proof cases
      case inr
      then have H: "cnt < cnt'" "cnt' \<le> limit" "advanced ?m m2"
        "runs env (cnt' - cnt) (?m, mc) (set_step_state (m_chain_idx m + 1) 0 m2, mc2)"
        using ends by (simp_all add: chain_ends_def)
      show ?thesis
        using run inr H(1,2) execution_ends_runs [OF H(4) next_chain [OF H(3,2)]] by simp
    next
      case inl
      then obtain m1 where m1: "m2 = set_step_state 0 0 m1"
        and how: "e = InvalidProgram \<and> runs env (limit - cnt) (?m, mc) (m1, mc2) \<or>
          e \<noteq> Error_Ok \<and> stops_with env (?m, mc) (Ok (e, m1, mc2))"
        using ends by (auto simp: chain_ends_def)
      then show ?thesis using run inl by (auto simp: execution_ends_def)
    next
      case err
      then show ?thesis using run ends by (simp add: execution_ends_def chain_ends_def)
    next
      case panic
      then show ?thesis using run ends by (simp add: execution_ends_def chain_ends_def)
    qed
  qed
qed

text \<open>When \<^verbatim>\<open>execute\<close> starts the method, and the state it starts from.\<close>

definition may_start :: "('f, 's) method_state \<Rightarrow> bool" where
  "may_start m \<longleftrightarrow> initialized m \<and> \<not> in_progress m \<and> (\<forall>i < inputs_size m. m_input_set m ! i)"

definition started :: "('f, 's) env \<Rightarrow> ('f, 's) method_state \<Rightarrow> ('f, 's) method_state" where
  "started env m = set_step_state 0 0 (reset_temp env m)"

lemma execute_with_started:
  assumes "may_start m"
  shows "execute_with limit env m mc = run_chains limit env (n_chains m) 0 ((reset_temp env m)\<lparr>m_chain_idx := 0\<rparr>) mc"
  using assms by (auto simp: execute_with_def may_start_def)

lemma execute_with_ends:
  assumes "may_start m" and "chains_ok m"
  shows "execution_ends env limit (limit + n_chains m) (started env m, mc) (execute_with limit env m mc)"
proof -
  let ?m = "(reset_temp env m)\<lparr>m_chain_idx := 0\<rparr>"
  have "?m\<lparr>m_instr_idx := 0\<rparr> = started env m"
    by (simp add: started_def set_step_state_def)
  then show ?thesis
    using run_chains_steps [of ?m "n_chains m" 0 limit env mc] assms
    unfolding execute_with_started [OF assms(1)]
    by (simp add: may_start_def initialized_def n_chains_def chains_ok_def reset_temp_def)
qed

text \<open>C3. Executing a method is stepping it to the end: when every jump of its chains stays in its
  chain, \<^verbatim>\<open>execute\<close> succeeds exactly as repeated \<^verbatim>\<open>step\<close> followed by \<^verbatim>\<open>reset_execution\<close> does, with the
  same final method, values and memory; when it fails or aborts, some sequence of steps fails or
  aborts the same way, or the instruction limit was reached after that many successful steps.\<close>

theorem execute_is_stepping:
  assumes "may_start m" and "chains_ok m"
  shows "execution_ends env K_MAX_INSTRUCTIONS (K_MAX_INSTRUCTIONS + n_chains m)
    (started env m, mc) (execute env m mc)"
  unfolding execute_def by (rule execute_with_ends [OF assms])

section \<open>The state between calls\<close>

text \<open>The method is the same except for its temporary allocator and its position.\<close>

definition same_method :: "('f, 's) method_state \<Rightarrow> ('f, 's) method_state \<Rightarrow> bool" where
  "same_method m m' \<longleftrightarrow> m' = m\<lparr>m_temp_allocator := m_temp_allocator m', m_instr_idx := m_instr_idx m',
     m_chain_idx := m_chain_idx m'\<rparr>"

lemma same_method_refl [simp]: "same_method m m"
  by (simp add: same_method_def)

lemma same_method_trans: "same_method m m' \<Longrightarrow> same_method m' m'' \<Longrightarrow> same_method m m''"
  by (cases m, cases m', cases m'') (simp add: same_method_def)

lemma advanced_same_method: "advanced m m' \<Longrightarrow> same_method m m'"
  by (cases m, cases m') (simp add: same_method_def advanced_def)

lemma same_method_position [simp]:
  "same_method m (set_step_state c i m') = same_method m m'"
  "same_method m (m'\<lparr>m_chain_idx := c\<rparr>) = same_method m m'"
  "same_method m (m'\<lparr>m_instr_idx := i\<rparr>) = same_method m m'"
  "same_method (m\<lparr>m_chain_idx := c\<rparr>) m' = same_method m m'"
  "same_method (m\<lparr>m_instr_idx := i\<rparr>) m' = same_method m m'"
  "same_method (reset_temp env m) m' = same_method m m'"
  by (cases m, cases m', auto simp: same_method_def set_step_state_def reset_temp_def)+

lemma same_method_fields:
  assumes "same_method m m'"
  shows "m_chains m' = m_chains m \<and> m_init_state m' = m_init_state m \<and> m_n_value m' = m_n_value m \<and>
    m_inputs m' = m_inputs m \<and> m_input_set m' = m_input_set m \<and> m_operators m' = m_operators m"
  using assms by (cases m, cases m') (simp add: same_method_def)

lemma run_chain_frame:
  assumes "run_chain limit env len cnt m mc = Ok out"
  shows "case out of
      Inl (e, m', mc') \<Rightarrow> e \<noteq> Error_Ok \<and> m_chain_idx m' = 0 \<and> m_instr_idx m' = 0 \<and> same_method m m'
    | Inr (cnt', m', mc') \<Rightarrow> m_chain_idx m' = m_chain_idx m \<and> same_method m m'"
  using assms
proof (induction limit env len cnt m mc rule: run_chain.induct)
  case (1 limit env len cnt m mc)
  show ?case
  proof (cases "m_instr_idx m < len \<and> cnt < limit")
    case False
    then show ?thesis using "1.prems"
      by (subst (asm) run_chain.simps) (auto simp: set_step_state_def split: if_splits)
  next
    case True
    then obtain e m' mc' where exec: "execute_instruction env m mc = Ok (e, m', mc')"
      using "1.prems" by (subst (asm) run_chain_unfold) (auto simp: r_bind_Ok_iff)
    then have adv: "advanced m m'" using execute_instruction_frame by blast
    show ?thesis
    proof (cases "e = Error_Ok")
      case False
      then have "out = Inl (e, set_step_state 0 0 m', mc')"
        using "1.prems" True exec by (simp add: run_chain_unfold)
      then show ?thesis using False advanced_same_method [OF adv] by (simp, simp add: set_step_state_def)
    next
      case ok: True
      then have "run_chain limit env len (cnt + 1) m' mc' = Ok out"
        using "1.prems" True exec by (simp add: run_chain_unfold)
      then have "case out of
          Inl (e, m2, mc') \<Rightarrow> e \<noteq> Error_Ok \<and> m_chain_idx m2 = 0 \<and> m_instr_idx m2 = 0 \<and> same_method m' m2
        | Inr (cnt', m2, mc') \<Rightarrow> m_chain_idx m2 = m_chain_idx m' \<and> same_method m' m2"
        using "1.IH" [OF _ _ exec] True ok by auto
      then show ?thesis
        using advanced_fields [OF adv] same_method_trans [OF advanced_same_method [OF adv]]
        by (auto split: sum.splits)
    qed
  qed
qed

definition chains_have_instructions :: "('f, 's) method_state \<Rightarrow> bool" where
  "chains_have_instructions m \<longleftrightarrow> list_all (\<lambda>c. ch_instructions c \<noteq> None) (m_chains m)"

lemma run_chains_frame:
  assumes "run_chains limit env r cnt m mc = Ok (e, m', mc')"
    and "m_chain_idx m + r = n_chains m" and "chains_have_instructions m"
  shows "m_chain_idx m' = 0 \<and> m_instr_idx m' = 0 \<and> same_method m m'"
  using assms
proof (induction r arbitrary: cnt m mc)
  case 0
  then show ?case by (auto simp: reset_execution_def set_step_state_def [symmetric] split: if_splits)
      (simp_all add: set_step_state_def)
next
  case (Suc r)
  have "ch_instructions (m_chains m ! m_chain_idx m) \<noteq> None"
    using Suc.prems(2,3) nth_mem [of "m_chain_idx m" "m_chains m"]
    by (simp add: chains_have_instructions_def n_chains_def list_all_iff)
  then obtain ins where ins: "ch_instructions (m_chains m ! m_chain_idx m) = Some ins" by blast
  let ?m = "m\<lparr>m_instr_idx := 0\<rparr>"
  obtain out where out: "run_chain limit env (length ins) cnt ?m mc = Ok out"
    and rest: "(case out of Inl ret \<Rightarrow> Ok ret
      | Inr (cnt', m', mc') \<Rightarrow> run_chains limit env r cnt' (m'\<lparr>m_chain_idx := m_chain_idx m' + 1\<rparr>) mc')
      = Ok (e, m', mc')"
    using Suc.prems(1) unfolding run_chains.simps ins option.case r_bind_Ok_iff by blast
  note frame = run_chain_frame [OF out]
  show ?case
  proof (cases out)
    case (Inl t)
    then show ?thesis using frame rest by auto
  next
    case (Inr t)
    obtain cnt' m2 mc2 where t: "t = (cnt', m2, mc2)" by (cases t)
    have same: "m_chain_idx m2 = m_chain_idx m" "same_method m m2" using frame Inr t by auto
    let ?m2 = "m2\<lparr>m_chain_idx := m_chain_idx m2 + 1\<rparr>"
    have "m_chain_idx m' = 0 \<and> m_instr_idx m' = 0 \<and> same_method ?m2 m'"
      using rest Inr t Suc.prems(2,3) same same_method_fields [OF same(2)]
      by (intro Suc.IH [of cnt' ?m2 mc2]) (simp_all add: n_chains_def chains_have_instructions_def)
    then show ?thesis using same_method_trans [OF same(2), of m'] by simp
  qed
qed

text \<open>C4. However an execution ends, the method can be executed again: once \<^verbatim>\<open>execute\<close> has started a
  method whose chains all have instructions, it returns with the position reset, every other part of
  the method unchanged, and the checks that let an execution start hold again.\<close>

theorem execute_leaves_method_ready:
  assumes "may_start m" and "chains_have_instructions m" and "execute env m mc = Ok (e, m', mc')"
  shows "m_chain_idx m' = 0 \<and> m_instr_idx m' = 0 \<and> same_method m m' \<and> may_start m'"
proof -
  let ?m = "(reset_temp env m)\<lparr>m_chain_idx := 0\<rparr>"
  have "run_chains K_MAX_INSTRUCTIONS env (n_chains m) 0 ?m mc = Ok (e, m', mc')"
    using assms(3) unfolding execute_def execute_with_started [OF assms(1)] .
  then have "m_chain_idx m' = 0 \<and> m_instr_idx m' = 0 \<and> same_method ?m m'"
    by (rule run_chains_frame)
      (use assms(2) in \<open>simp_all add: n_chains_def reset_temp_def chains_have_instructions_def\<close>)
  then have "m_chain_idx m' = 0 \<and> m_instr_idx m' = 0 \<and> same_method m m'"
    by (simp only: same_method_position)
  then show ?thesis
    using assms(1) same_method_fields [of m m']
    by (simp add: may_start_def initialized_def in_progress_def inputs_size_def)
qed

text \<open>The positions that stepping goes through.\<close>

definition position_ok :: "('f, 's) method_state \<Rightarrow> bool" where
  "position_ok m \<longleftrightarrow>
     (if m_chain_idx m < n_chains m
      then (case ch_instructions (m_chains m ! m_chain_idx m) of
              None \<Rightarrow> False
            | Some ins \<Rightarrow> if ins = [] then m_instr_idx m = 0 else m_instr_idx m < length ins)
      else m_chain_idx m = n_chains m \<and> m_instr_idx m = 0)"

lemma position_ok_start:
  assumes "chains_ok m" and "c \<le> n_chains m"
  shows "position_ok (set_step_state c 0 m)"
proof (cases "c < n_chains m")
  case True
  then obtain ins where "ch_instructions (m_chains m ! c) = Some ins"
    using chains_ok_nth [OF assms(1)] by blast
  then show ?thesis using True by (simp add: position_ok_def set_step_state_def n_chains_def)
next
  case False
  then show ?thesis using assms by (simp add: position_ok_def set_step_state_def n_chains_def)
qed

lemma step_frame:
  assumes "step env m mc = Ok (e, m', mc')" and "chains_ok m" and "position_ok m"
  shows "same_method m m' \<and> position_ok m' \<and>
    (e \<noteq> Error_Ok \<longrightarrow> m_chain_idx m' = m_chain_idx m \<and> m_instr_idx m' = m_instr_idx m)"
proof (cases "initialized m \<and> m_chain_idx m < n_chains m")
  case False
  then show ?thesis using assms
    by (auto simp: step_def position_ok_def split: if_splits option.splits)
next
  case True
  then obtain ins where ins: "ch_instructions (m_chains m ! m_chain_idx m) = Some ins" "jumps_in_range ins"
    using chains_ok_nth [OF assms(2)] by blast
  show ?thesis
  proof (cases "ins = []")
    case empty: True
    have "m_instr_idx m = 0" using assms(3) empty ins True by (simp add: position_ok_def)
    then have "e = Error_Ok \<and> m' = set_step_state (m_chain_idx m + 1) 0 m"
      using assms(1) True ins empty by (auto simp: step_def set_step_state_def)
    then show ?thesis using position_ok_start [OF assms(2), of "m_chain_idx m + 1"] True
      by (elim conjE, hypsubst) simp
  next
    case False
    note step_eq = step_nonempty [OF _ _ ins(1) False, where env = env and mc = mc]
    obtain st m1 mc1 where exec: "execute_instruction env m mc = Ok (st, m1, mc1)"
      and rest: "(if st \<noteq> Error_Ok then Ok (st, m1, mc1)
        else if m_instr_idx m1 = length ins
        then Ok (Error_Ok, m1\<lparr>m_instr_idx := 0, m_chain_idx := m_chain_idx m1 + 1\<rparr>, mc1)
        else Ok (Error_Ok, m1, mc1)) = (Ok (e, m', mc') :: (Error \<times> ('a, 'b) method_state \<times> machine) result)"
      using assms(1) step_eq True by (auto simp: r_bind_Ok_iff)
    then have adv: "advanced m m1" and "st \<noteq> Error_Ok \<longrightarrow> m_instr_idx m1 = m_instr_idx m"
      using execute_instruction_frame by blast+
    note same = advanced_fields [OF adv] advanced_same_method [OF adv]
    have ok: "chains_ok m1" using assms(2) same by (simp add: chains_ok_def)
    consider (failed) "st \<noteq> Error_Ok" | (ended) "st = Error_Ok" "m_instr_idx m1 = length ins"
      | (more) "st = Error_Ok" "m_instr_idx m1 < length ins"
      using execute_instruction_in_range exec ins le_neq_implies_less by blast
    then show ?thesis
    proof cases
      case failed
      then have "m' = m1" and "e = st" using rest by simp_all
      then show ?thesis using same failed exec execute_instruction_frame assms(3) True ins False
        by (fastforce simp: position_ok_def n_chains_def)
    next
      case ended
      then have "m' = set_step_state (m_chain_idx m + 1) 0 m1" and "e = Error_Ok"
        using rest same by (simp_all add: set_step_state_swap)
      then show ?thesis using position_ok_start [OF ok, of "m_chain_idx m + 1"] same True
        by (simp add: n_chains_def)
    next
      case more
      then have "m' = m1" and "e = Error_Ok" using rest by simp_all
      then show ?thesis using same more True ins False by (simp add: position_ok_def n_chains_def)
    qed
  qed
qed

lemma runs_frame:
  assumes "runs env n (m, mc) (m', mc')" and "chains_ok m" and "position_ok m"
  shows "same_method m m' \<and> chains_ok m' \<and> position_ok m'"
  using assms
proof (induction n "(m, mc)" "(m', mc')" arbitrary: m mc rule: runs.induct)
  case runs_refl
  then show ?case by simp
next
  case (runs_step m mc m1 mc1 n)
  note one = step_frame [OF runs_step.hyps(1) runs_step.prems]
  then have "chains_ok m1"
    using runs_step.prems(1) same_method_fields [of m m1] by (simp add: chains_ok_def)
  then have "same_method m1 m' \<and> chains_ok m' \<and> position_ok m'"
    using one by (intro runs_step.hyps(3)) simp_all
  then show ?case using one same_method_trans [of m m1 m'] by simp
qed

text \<open>C5. Stepping never leaves the program: from a good position, any number of successful steps reach
  only positions of existing instructions, starts of chains or the end of the method; the method is
  otherwise unchanged, a step that then fails keeps the position, so that it is retried by the next
  one, and the method is in progress exactly when it is neither at its start nor at its end.\<close>

theorem stepping_stays_in_program:
  assumes "runs env n (m, mc) (m', mc')" and "chains_ok m" and "position_ok m"
  shows "same_method m m' \<and> position_ok m' \<and>
    (in_progress m' \<longleftrightarrow> \<not> (m_chain_idx m' = 0 \<and> m_instr_idx m' = 0) \<and> m_chain_idx m' \<noteq> n_chains m') \<and>
    (\<forall>e m2 mc2. step env m' mc' = Ok (e, m2, mc2) \<longrightarrow> e \<noteq> Error_Ok \<longrightarrow>
       m_chain_idx m2 = m_chain_idx m' \<and> m_instr_idx m2 = m_instr_idx m')"
proof -
  have *: "same_method m m' \<and> chains_ok m' \<and> position_ok m'"
    using runs_frame [OF assms] .
  then have "m_chain_idx m' \<le> n_chains m'" by (auto simp: position_ok_def split: if_splits)
  then have "in_progress m' \<longleftrightarrow> \<not> (m_chain_idx m' = 0 \<and> m_instr_idx m' = 0) \<and> m_chain_idx m' \<noteq> n_chains m'"
    by (auto simp: in_progress_def)
  moreover have "\<forall>e m2 mc2. step env m' mc' = Ok (e, m2, mc2) \<longrightarrow> e \<noteq> Error_Ok \<longrightarrow>
       m_chain_idx m2 = m_chain_idx m' \<and> m_instr_idx m2 = m_instr_idx m'"
    using step_frame * by blast
  ultimately show ?thesis using * by blast
qed

text \<open>C39. A jump past the end of its chain: \<^verbatim>\<open>execute\<close> takes it as the end of the chain, but
  \<^verbatim>\<open>step\<close> reports success and leaves a position from which every later \<^verbatim>\<open>step\<close> fails with
  \<open>Internal\<close>, while \<^verbatim>\<open>reset_execution\<close> and \<^verbatim>\<open>execute\<close> refuse the method: it can never run again.\<close>

theorem jump_past_end_wedges_method:
  assumes "initialized m" and "m_chain_idx m < n_chains m"
    and "ch_instructions (m_chains m ! m_chain_idx m) = Some ins" and "ins \<noteq> []"
    and "execute_instruction env m mc = Ok (Error_Ok, m', mc')" and "length ins < m_instr_idx m'"
  shows "(cnt < limit \<longrightarrow> run_chain limit env (length ins) cnt m mc = Ok (Inr (cnt + 1, m', mc'))) \<and>
    step env m mc = Ok (Error_Ok, m', mc') \<and> step env m' mc2 = Ok (Internal, m', mc2) \<and>
    reset_execution m' = (InvalidState, m') \<and> execute env m' mc2 = Ok (InvalidState, m', mc2)"
proof (intro conjI)
  note adv = advanced_fields [OF execute_instruction_frame [OF assms(5), THEN conjunct1]]
  have less: "m_instr_idx m < length ins" using execute_instruction_next [OF assms(5,3)] by simp
  then show "cnt < limit \<longrightarrow> run_chain limit env (length ins) cnt m mc = Ok (Inr (cnt + 1, m', mc'))"
    using assms(5,6) by (simp add: run_chain_unfold run_chain_done)
  show "step env m mc = Ok (Error_Ok, m', mc')"
    using assms(5,6) by (simp add: step_nonempty [OF assms(1-4)])
  have m': "initialized m'" "m_chain_idx m' < n_chains m'" "ch_instructions (m_chains m' ! m_chain_idx m') = Some ins"
    using adv assms(1-3) by (simp_all add: initialized_def n_chains_def)
  have "execute_instruction env m' mc2 = Ok (Internal, m', mc2)"
    using m'(3) assms(6) by (simp add: execute_instruction_def)
  then show "step env m' mc2 = Ok (Internal, m', mc2)"
    by (simp add: step_nonempty [OF m' assms(4)])
  show "reset_execution m' = (InvalidState, m')"
    using m'(2) by (simp add: reset_execution_def)
  have "in_progress m'" using m'(2) assms(6) by (simp add: in_progress_def)
  then show "execute env m' mc2 = Ok (InvalidState, m', mc2)"
    using m'(1) by (simp add: execute_def execute_with_def)
qed

text \<open>Witness: a chain that jumps over an invalid instruction and then copies a value.\<close>

definition example_env :: "(unit, unit) env" where
  "example_env = \<lparr>run_kernel = \<lambda>_ _ c mc. Ok (c, mc), run_delegate = \<lambda>_ _ t mc. Ok (Error_Ok, t, mc), temp_reset = id\<rparr>"

definition example_method :: "int \<Rightarrow> (unit, unit) method_state" where
  "example_method dest = \<lparr>m_chain_idx = 0, m_instr_idx = 0, m_temp_allocator = None, m_inputs = Some [], m_outputs = Some [],
     m_n_value = 2, m_input_set = [], m_n_delegate = 0,
     m_chains = [\<lparr>ch_instructions = Some [JumpFalseCall 0 dest, OtherCall 9, MoveCall 0 1],
       ch_argument_lists = [[], [], []], ch_kernels = [None, None, None]\<rparr>], m_operators = None,
     m_init_state = Initialized\<rparr>"

definition example_machine :: machine where
  "example_machine = \<lparr>mc_values = (\<lambda>_. E_Int 5)(0 := E_Bool False), mc_tensors = \<lambda>_. example_tensor,
     mc_bytes = \<lambda>_. 0\<rparr>"

lemmas example_defs = example_env_def example_method_def example_machine_def
lemmas instruction_defs = execute_instruction_def dispatch_def parse_cond_value_def ev_is_tensor_def
  ev_is_bool_def reset_temp_def get_value_index_checked_def as_usize_def from_ref_def move_from_def
lemmas start_defs = may_start_def initialized_def in_progress_def inputs_size_def n_chains_def

lemma example_starts: "may_start (example_method d) \<and> chains_have_instructions (example_method d)"
  by (simp add: example_defs start_defs chains_have_instructions_def)

lemma example_jump:
  assumes "0 \<le> d" and "d < 100"
  shows "execute_instruction example_env (example_method d) example_machine =
    Ok (Error_Ok, (example_method d)\<lparr>m_instr_idx := nat d\<rparr>, example_machine)"
  using assms by (simp add: example_defs instruction_defs)

theorem execute_is_stepping_witness:
  "execution_ends example_env K_MAX_INSTRUCTIONS (K_MAX_INSTRUCTIONS + 1)
    (started example_env (example_method 2), example_machine)
    (execute example_env (example_method 2) example_machine) \<and>
   (case execute example_env (example_method 2) example_machine of
      Ok (e, _, mc') \<Rightarrow> e = Error_Ok \<and> mc_values mc' 1 = E_Bool False | _ \<Rightarrow> False)"
proof
  have "chains_ok (example_method 2)"
    by (simp add: example_defs chains_ok_def jumps_in_range_def as_usize_def)
  then show "execution_ends example_env K_MAX_INSTRUCTIONS (K_MAX_INSTRUCTIONS + 1)
    (started example_env (example_method 2), example_machine)
    (execute example_env (example_method 2) example_machine)"
    using execute_is_stepping [of "example_method 2" example_env example_machine] example_starts
    by (simp add: n_chains_def example_method_def)
  show "case execute example_env (example_method 2) example_machine of
      Ok (e, _, mc') \<Rightarrow> e = Error_Ok \<and> mc_values mc' 1 = E_Bool False | _ \<Rightarrow> False"
    by (simp add: execute_def execute_with_started example_starts)
      (simp add: K_MAX_INSTRUCTIONS_def n_chains_def example_defs run_chain.simps instruction_defs reset_execution_def
        set_step_state_def)
qed

theorem execute_leaves_method_ready_witness:
  "\<exists>m' mc'. execute example_env (example_method 2) example_machine = Ok (Error_Ok, m', mc') \<and>
     m_chain_idx m' = 0 \<and> may_start m'"
proof -
  obtain m' mc' where "execute example_env (example_method 2) example_machine = Ok (Error_Ok, m', mc')"
    by (simp add: execute_def execute_with_started example_starts)
      (simp add: K_MAX_INSTRUCTIONS_def n_chains_def example_defs run_chain.simps instruction_defs reset_execution_def
        set_step_state_def)
  then show ?thesis
    using execute_leaves_method_ready [of "example_method 2" example_env example_machine] example_starts by blast
qed

theorem stepping_stays_in_program_witness:
  "\<exists>m'. runs example_env 1 (example_method 2, example_machine) (m', example_machine) \<and>
     position_ok m' \<and> in_progress m'"
proof -
  let ?m = "example_method 2" and ?mc = example_machine
  have start: "chains_ok ?m" "position_ok ?m"
    by (simp_all add: example_defs chains_ok_def jumps_in_range_def as_usize_def position_ok_def n_chains_def)
  have "step example_env ?m ?mc = Ok (Error_Ok, ?m\<lparr>m_instr_idx := 2\<rparr>, ?mc)"
    by (subst step_nonempty)
      (simp_all add: example_jump, simp_all add: example_method_def initialized_def n_chains_def, simp_all)
  then have "runs example_env (Suc 0) (?m, ?mc) (?m\<lparr>m_instr_idx := 2\<rparr>, ?mc)"
    by (rule runs_step) (rule runs_refl)
  then show ?thesis
    using stepping_stays_in_program [of example_env 1 ?m ?mc "?m\<lparr>m_instr_idx := 2\<rparr>" ?mc] start
    by (intro exI [of _ "?m\<lparr>m_instr_idx := 2\<rparr>"]) (simp add: example_method_def n_chains_def)
qed

theorem jump_past_end_wedges_method_witness:
  "step example_env (example_method 7) example_machine =
     Ok (Error_Ok, (example_method 7)\<lparr>m_instr_idx := 7\<rparr>, example_machine) \<and>
   execute example_env ((example_method 7)\<lparr>m_instr_idx := 7\<rparr>) example_machine =
     Ok (InvalidState, (example_method 7)\<lparr>m_instr_idx := 7\<rparr>, example_machine)"
  using jump_past_end_wedges_method [of "example_method 7" "[JumpFalseCall 0 7, OtherCall 9, MoveCall 0 1]"
      example_env example_machine "(example_method 7)\<lparr>m_instr_idx := 7\<rparr>" example_machine 0 1
      example_machine] example_jump [of 7]
  by (simp add: initialized_def n_chains_def) (simp add: example_method_def)

end
