(* ===== verification/Method_Load.thy ===== *)
theory Method_Load
  imports Method
begin

text \<open>
  Loading the chains of a method: the last block of \<^verbatim>\<open>Method::init\<close> in
  \<^verbatim>\<open>runtime/executor/method.rs\<close>, with \<^verbatim>\<open>gen_instruction_arguments\<close>, \<^verbatim>\<open>populate_operator_name\<close> and
  \<^verbatim>\<open>resolve_operator\<close>. The serialized plan is what the flatbuffer accessors return: an absent field
  is \<open>None\<close>, an instruction is \<open>None\<close> when its arguments are absent. The two allocators of the
  memory manager are values of one type \<open>'s\<close> with the operations of the trait as fields of the
  environment; memory they return is not initialised, so that a kernel slot that is never written
  holds \<open>le_uninit\<close>.
\<close>

section \<open>Argument arg_lists\<close>

fun arguments_loop :: "nat \<Rightarrow> int list \<Rightarrow> nat list option" where
  "arguments_loop num_values [] = Some []"
| "arguments_loop num_values (arg_idx # rest) =
     (if as_usize arg_idx < num_values
      then map_option (\<lambda>args. as_usize arg_idx # args) (arguments_loop num_values rest)
      else None)"

definition gen_instruction_arguments ::
    "(usize \<Rightarrow> usize \<Rightarrow> 's \<Rightarrow> (usize \<times> 's) result) \<Rightarrow> nat \<Rightarrow> int list \<Rightarrow> 's
     \<Rightarrow> ((Error + nat list) \<times> 's) result" where
  "gen_instruction_arguments alloc num_values arg_idxs s =
     r_bind (allocate_list alloc 8 (of_nat (length arg_idxs)) 8 s) (\<lambda>(arg_list, s').
       if arg_list = 0 then Ok (Inl MemoryAllocationFailed, s')
       else case arguments_loop num_values arg_idxs of
         None \<Rightarrow> Ok (Inl InvalidProgram, s')
       | Some args \<Rightarrow> Ok (Inr args, s'))"

section \<open>Operators\<close>

text \<open>\<^verbatim>\<open>snprintf3\<close>: the truncated contents of the buffer and the length the whole string has.\<close>

definition snprintf3 :: "nat \<Rightarrow> string \<Rightarrow> string \<Rightarrow> string \<Rightarrow> string \<times> int" where
  "snprintf3 sz a b c =
     (let total' = length a + length b + length c
      in if sz = 0 then ([], wrap_i32 (int total'))
         else (take (sz - 1) (a @ b @ c), wrap_i32 (int total')))"

definition populate_operator_name :: "s_operator \<Rightarrow> nat \<Rightarrow> Error \<times> string" where
  "populate_operator_name op operator_name_size =
     (let has_overload = (case so_overload op of None \<Rightarrow> False | Some s \<Rightarrow> s \<noteq> [])
      in case so_name op of
        None \<Rightarrow> (InvalidProgram, [])
      | Some name \<Rightarrow>
          let overload = (if has_overload then the (so_overload op) else []);
              dot = (if has_overload then ''.'' else []);
              (buf, cx) = snprintf3 operator_name_size name dot overload
          in if \<not> 0 \<le> cx then (Internal, buf)
             else if \<not> as_usize cx < operator_name_size then (Internal, buf)
             else (Error_Ok, buf))"

record ('f, 's) load_env =
  le_alloc :: "usize \<Rightarrow> usize \<Rightarrow> 's \<Rightarrow> (usize \<times> 's) result"
  le_reset :: "'s \<Rightarrow> 's"
  le_size :: "'s \<Rightarrow> u32"
  le_operators :: "s_operator list option"
  le_kernel_registry :: "'f kernel list"
  le_registered_kernels :: "'f kernel list"
  le_n_value :: nat
  le_values :: "nat \<Rightarrow> evalue"
  le_tensors :: tensor_store
  le_uninit :: "'f option"
  le_sizeof_chain :: usize

text \<open>
  The allocators of the memory manager. \<open>on_meta_allocator\<close> is the choice that
  \<^verbatim>\<open>resolve_operator\<close> makes: the temporary allocator, unless it is missing or empty.
\<close>

record 's allocators =
  al_method :: 's
  al_temp :: "'s option"

definition uses_temp :: "('f, 's) load_env \<Rightarrow> 's allocators \<Rightarrow> bool" where
  "uses_temp env al = (case al_temp al of None \<Rightarrow> False | Some t \<Rightarrow> le_size env t \<noteq> 0)"

definition meta_allocator :: "('f, 's) load_env \<Rightarrow> 's allocators \<Rightarrow> 's" where
  "meta_allocator env al = (if uses_temp env al then the (al_temp al) else al_method al)"

definition put_back :: "('f, 's) load_env \<Rightarrow> 's \<Rightarrow> 's allocators \<Rightarrow> 's allocators" where
  "put_back env s al = (if uses_temp env al then al\<lparr>al_temp := Some s\<rparr> else al\<lparr>al_method := s\<rparr>)"

definition put_back_reset :: "('f, 's) load_env \<Rightarrow> 's \<Rightarrow> 's allocators \<Rightarrow> 's allocators" where
  "put_back_reset env s al =
     (if uses_temp env al then al\<lparr>al_temp := Some (le_reset env s)\<rparr> else al\<lparr>al_method := s\<rparr>)"

text \<open>The tensor types of the arguments; an error comes with whether the allocator is reset.\<close>

fun meta_loop :: "('f, 's) load_env \<Rightarrow> nat list \<Rightarrow> 's \<Rightarrow> ((Error \<times> bool + tensor_meta list) \<times> 's) result" where
  "meta_loop env [] s = Ok (Inr [], s)"
| "meta_loop env (v # args) s =
     (if ev_is_tensor (le_values env v) then
        r_bind (to_tensor (le_values env v)) (\<lambda>i.
          let tensor = le_tensors env i; sz = as_usize (tensor_dim tensor)
          in r_bind (allocate_list (le_alloc env) 1 (of_nat sz) 1 s) (\<lambda>(dim_order_ptr, s1).
            if dim_order_ptr = 0 then Ok (Inl (MemoryAllocationFailed, True), s1)
            else case get_dim_order tensor sz of
              Ok dim_order \<Rightarrow>
                r_bind (meta_loop env args s1) (\<lambda>(metas, s2).
                  case metas of
                    Inl e \<Rightarrow> Ok (Inl e, s2)
                  | Inr ms \<Rightarrow>
                      Ok (Inr (\<lparr>tm_dtype = tensor_scalar_type tensor, tm_dim_order = dim_order\<rparr> # ms), s2))
            | Err _ \<Rightarrow> Ok (Inl (InvalidArgument, False), s1)
            | Panic \<Rightarrow> Panic))
      else meta_loop env args s)"

definition find_op :: "('f, 's) load_env \<Rightarrow> string \<Rightarrow> tensor_meta list \<Rightarrow> 'f result" where
  "find_op env name metas =
     (let global = get_op_function_from_registry name metas (le_registered_kernels env)
      in if le_kernel_registry env \<noteq> [] then
           (case get_op_function_from_registry name metas (le_kernel_registry env) of
              Ok f \<Rightarrow> Ok f
            | Err _ \<Rightarrow> global
            | Panic \<Rightarrow> Panic)
         else global)"

definition resolve_operator ::
    "('f, 's) load_env \<Rightarrow> int \<Rightarrow> 'f option list \<Rightarrow> nat \<Rightarrow> nat list \<Rightarrow> 's allocators
     \<Rightarrow> (Error \<times> 'f option list \<times> 's allocators) result" where
  "resolve_operator env op_index kernels kernel_index args al =
     (case le_operators env of
        None \<Rightarrow> Ok (InvalidProgram, kernels, al)
      | Some ops \<Rightarrow>
          if \<not> op_index mod 2 ^ 32 < int (length ops) mod 2 ^ 32 then Ok (InvalidProgram, kernels, al)
          else let op = ops ! as_usize op_index; (err, buf) = populate_operator_name op 100
          in if err \<noteq> Error_Ok then Ok (err, kernels, al)
             else r_bind (allocate_list (le_alloc env) 24 (of_nat (length args)) 8 (meta_allocator env al))
               (\<lambda>(meta, s).
                 if meta = 0 then Ok (MemoryAllocationFailed, kernels, put_back_reset env s al)
                 else r_bind (meta_loop env args s) (\<lambda>(metas, s').
                   case metas of
                     Inl (e, reset_it) \<Rightarrow>
                       Ok (e, kernels, if reset_it then put_back_reset env s' al else put_back env s' al)
                   | Inr meta_list \<Rightarrow>
                       (case find_op env (c_string buf) meta_list of
                          Ok f \<Rightarrow> Ok (Error_Ok, kernels[kernel_index := Some f], put_back_reset env s' al)
                        | Err e \<Rightarrow> Ok (e, kernels, put_back_reset env s' al)
                        | Panic \<Rightarrow> Panic))))"

section \<open>Chains\<close>

definition valid_value_index :: "int \<Rightarrow> nat \<Rightarrow> bool" where
  "valid_value_index index n_value \<longleftrightarrow> 0 \<le> index \<and> as_usize index < n_value"

text \<open>What the loops accumulate: the allocators, \<^verbatim>\<open>num_instructions_missing_op\<close>, \<^verbatim>\<open>delayed_error\<close>.\<close>

record 's load_state =
  ls_allocators :: "'s allocators"
  ls_missing :: nat
  ls_delayed :: Error

definition arguments_step ::
    "('f, 's) load_env \<Rightarrow> int list option \<Rightarrow> 's load_state \<Rightarrow> ((Error + nat list) \<times> 's load_state) result" where
  "arguments_step env arg_idxs st =
     (case arg_idxs of
        None \<Rightarrow> Ok (Inl InvalidProgram, st)
      | Some idxs \<Rightarrow>
          r_bind (gen_instruction_arguments (le_alloc env) (le_n_value env) idxs (al_method (ls_allocators st)))
            (\<lambda>(res, s). Ok (res, st\<lparr>ls_allocators := (ls_allocators st)\<lparr>al_method := s\<rparr>\<rparr>)))"

definition load_instruction ::
    "('f, 's) load_env \<Rightarrow> instruction option \<Rightarrow> nat \<Rightarrow> 'f option list \<Rightarrow> 's load_state
     \<Rightarrow> ((Error + nat list \<times> 'f option list) \<times> 's load_state) result" where
  "load_instruction env instr instr_idx kernels st =
     (case instr of
        None \<Rightarrow> Ok (Inl InvalidProgram, st)
      | Some (KernelCall op_index arg_idxs) \<Rightarrow>
          r_bind (arguments_step env arg_idxs st) (\<lambda>(res, st1).
            case res of
              Inl e \<Rightarrow> Ok (Inl e, st1)
            | Inr args \<Rightarrow>
                r_bind (resolve_operator env op_index kernels instr_idx args (ls_allocators st1)) (\<lambda>(err, kernels', al).
                  let st2 = st1\<lparr>ls_allocators := al\<rparr>
                  in if err = OperatorMissing then Ok (Inr (args, kernels'), st2\<lparr>ls_missing := ls_missing st2 + 1\<rparr>)
                     else if err = MemoryAllocationFailed then Ok (Inl err, st2)
                     else Ok (Inr (args, kernels'), st2\<lparr>ls_delayed := err\<rparr>)))
      | Some (DelegateCall _ arg_idxs) \<Rightarrow>
          r_bind (arguments_step env arg_idxs st) (\<lambda>(res, st1).
            case res of Inl e \<Rightarrow> Ok (Inl e, st1) | Inr args \<Rightarrow> Ok (Inr (args, kernels), st1))
      | Some (JumpFalseCall index _) \<Rightarrow>
          Ok (if valid_value_index index (le_n_value env) then Inr ([], kernels) else Inl InvalidProgram, st)
      | Some (MoveCall from' to) \<Rightarrow>
          Ok (if valid_value_index from' (le_n_value env) \<and> valid_value_index to (le_n_value env)
              then Inr ([], kernels) else Inl InvalidProgram, st)
      | Some (FreeCall index) \<Rightarrow>
          Ok (if valid_value_index index (le_n_value env) then Inr ([], kernels) else Inl InvalidProgram, st)
      | Some (OtherCall _) \<Rightarrow> Ok (Inl InvalidProgram, st))"

fun load_instructions ::
    "('f, 's) load_env \<Rightarrow> instruction option list \<Rightarrow> nat \<Rightarrow> 'f option list \<Rightarrow> 's load_state
     \<Rightarrow> ((Error + nat list list \<times> 'f option list) \<times> 's load_state) result" where
  "load_instructions env [] i kernels st = Ok (Inr ([], kernels), st)"
| "load_instructions env (instr # rest) i kernels st =
     r_bind (load_instruction env instr i kernels st) (\<lambda>(res, st1).
       case res of
         Inl e \<Rightarrow> Ok (Inl e, st1)
       | Inr (args, kernels') \<Rightarrow>
           r_bind (load_instructions env rest (Suc i) kernels' st1) (\<lambda>(res', st2).
             case res' of
               Inl e \<Rightarrow> Ok (Inl e, st2)
             | Inr (arg_lists, ks) \<Rightarrow> Ok (Inr (args # arg_lists, ks), st2)))"

definition load_chain ::
    "('f, 's) load_env \<Rightarrow> instruction option list option \<Rightarrow> 's load_state
     \<Rightarrow> ((Error + 'f chain) \<times> 's load_state) result" where
  "load_chain env s_instructions st =
     (case s_instructions of
        None \<Rightarrow> Ok (Inl InvalidProgram, st)
      | Some instrs \<Rightarrow>
          let n = of_nat (length instrs); put = (\<lambda>s st. st\<lparr>ls_allocators := (ls_allocators st)\<lparr>al_method := s\<rparr>\<rparr>)
          in r_bind (allocate_list (le_alloc env) 8 n 8 (al_method (ls_allocators st))) (\<lambda>(kernels_ptr, s1).
            if kernels_ptr = 0 then Ok (Inl MemoryAllocationFailed, put s1 st)
            else r_bind (allocate_list (le_alloc env) 16 n 8 s1) (\<lambda>(arg_lists_ptr, s2).
              if arg_lists_ptr = 0 then Ok (Inl MemoryAllocationFailed, put s2 st)
              else r_bind (load_instructions env instrs 0 (replicate (length instrs) (le_uninit env)) (put s2 st))
                (\<lambda>(res, st'). case res of
                  Inl e \<Rightarrow> Ok (Inl e, st')
                | Inr (arg_lists, kernels) \<Rightarrow>
                    Ok (Inr \<lparr>ch_instructions = Some (map the instrs), ch_argument_lists = arg_lists, ch_kernels = kernels\<rparr>,
                      st')))))"

fun load_chains_loop ::
    "('f, 's) load_env \<Rightarrow> instruction option list option list \<Rightarrow> 's load_state
     \<Rightarrow> ((Error + 'f chain list) \<times> 's load_state) result" where
  "load_chains_loop env [] st = Ok (Inr [], st)"
| "load_chains_loop env (s_chain # rest) st =
     r_bind (load_chain env s_chain st) (\<lambda>(res, st1).
       case res of
         Inl e \<Rightarrow> Ok (Inl e, st1)
       | Inr chain \<Rightarrow>
           r_bind (load_chains_loop env rest st1) (\<lambda>(res', st2).
             case res' of Inl e \<Rightarrow> Ok (Inl e, st2) | Inr loaded \<Rightarrow> Ok (Inr (chain # loaded), st2)))"

definition load_chains ::
    "('f, 's) load_env \<Rightarrow> instruction option list option list option \<Rightarrow> 's allocators
     \<Rightarrow> ((Error + 'f chain list) \<times> 's allocators) result" where
  "load_chains env s_chains al =
     (case s_chains of
        None \<Rightarrow> Ok (Inl InvalidProgram, al)
      | Some cs \<Rightarrow>
          if cs = [] then Ok (Inl InvalidProgram, al)
          else r_bind (allocate_list (le_alloc env) (le_sizeof_chain env) (of_nat (length cs)) 8 (al_method al)) (\<lambda>(chains_ptr, s).
            if chains_ptr = 0 then Ok (Inl MemoryAllocationFailed, al\<lparr>al_method := s\<rparr>)
            else r_bind (load_chains_loop env cs
                \<lparr>ls_allocators = al\<lparr>al_method := s\<rparr>, ls_missing = 0, ls_delayed = Error_Ok\<rparr>) (\<lambda>(res, st).
              case res of
                Inl e \<Rightarrow> Ok (Inl e, ls_allocators st)
              | Inr loaded \<Rightarrow>
                  if ls_missing st \<noteq> 0 then Ok (Inl OperatorMissing, ls_allocators st)
                  else if ls_delayed st \<noteq> Error_Ok then Ok (Inl (ls_delayed st), ls_allocators st)
                  else Ok (Inr loaded, ls_allocators st))))"

section \<open>What a loaded chain satisfies\<close>

text \<open>The indices of an instruction are valid, and its argument list refers to existing values.\<close>

fun instruction_valid :: "nat \<Rightarrow> instruction \<Rightarrow> bool" where
  "instruction_valid n (KernelCall _ idxs) = (idxs \<noteq> None)"
| "instruction_valid n (DelegateCall _ idxs) = (idxs \<noteq> None)"
| "instruction_valid n (JumpFalseCall index _) = valid_value_index index n"
| "instruction_valid n (MoveCall from' to) = (valid_value_index from' n \<and> valid_value_index to n)"
| "instruction_valid n (FreeCall index) = valid_value_index index n"
| "instruction_valid n (OtherCall _) = False"

fun instruction_arguments :: "instruction \<Rightarrow> nat list" where
  "instruction_arguments (KernelCall _ idxs) = map as_usize (case idxs of None \<Rightarrow> [] | Some xs \<Rightarrow> xs)"
| "instruction_arguments (DelegateCall _ idxs) = map as_usize (case idxs of None \<Rightarrow> [] | Some xs \<Rightarrow> xs)"
| "instruction_arguments _ = []"

definition chain_valid :: "nat \<Rightarrow> 'f chain \<Rightarrow> bool" where
  "chain_valid n c \<longleftrightarrow>
     (case ch_instructions c of
        None \<Rightarrow> False
      | Some ins \<Rightarrow> list_all (instruction_valid n) ins \<and> ch_argument_lists c = map instruction_arguments ins \<and>
          list_all (list_all (\<lambda>a. a < n)) (ch_argument_lists c) \<and> length (ch_kernels c) = length ins)"

lemma arguments_loop_eq:
  "arguments_loop n idxs =
    (if list_all (\<lambda>i. as_usize i < n) idxs then Some (map as_usize idxs) else None)"
  by (induction idxs) auto

lemma list_all_as_usize: "list_all (\<lambda>i. as_usize i < n) idxs = list_all (\<lambda>a. a < n) (map as_usize idxs)"
  by (induction idxs) auto

lemma gen_instruction_arguments_post:
  "ok_post (\<lambda>(res, s'). \<forall>args. res = Inr args \<longrightarrow> args = map as_usize idxs \<and> list_all (\<lambda>a. a < n) args)
    (gen_instruction_arguments alloc n idxs s)"
  unfolding gen_instruction_arguments_def ok_post_bind
  by (rule ok_post_trivial) (auto simp: arguments_loop_eq list_all_as_usize)

lemma arguments_step_post:
  "ok_post (\<lambda>(res, st'). \<forall>args. res = Inr args \<longrightarrow>
     (\<exists>idxs. arg_idxs = Some idxs \<and> args = map as_usize idxs \<and> list_all (\<lambda>a. a < le_n_value env) args))
    (arguments_step env arg_idxs st)"
proof (cases arg_idxs)
  case (Some idxs)
  show ?thesis unfolding arguments_step_def Some option.case ok_post_bind
    by (rule ok_post_mono [OF gen_instruction_arguments_post]) auto
qed (simp add: arguments_step_def)

lemma resolve_operator_post:
  "ok_post (\<lambda>(e, kernels', al'). kernels' = kernels \<or> (e = Error_Ok \<and> (\<exists>f. kernels' = kernels[k := Some f])))
    (resolve_operator env op_index kernels k args al)"
  unfolding resolve_operator_def
  by (auto simp: Let_def split: option.split prod.split sum.split outcome.split intro!: ok_post_trivial)

lemma load_instruction_post:
  "ok_post (\<lambda>(res, st'). \<forall>args kernels'. res = Inr (args, kernels') \<longrightarrow>
     (\<exists>ins. instr = Some ins \<and> instruction_valid (le_n_value env) ins \<and> args = instruction_arguments ins \<and>
       list_all (\<lambda>a. a < le_n_value env) args \<and> length kernels' = length kernels))
    (load_instruction env instr i kernels st)"
proof (cases instr)
  case None
  then show ?thesis by (simp add: load_instruction_def)
next
  case (Some ins)
  show ?thesis
  proof (cases ins)
    case (KernelCall op idxs)
    show ?thesis unfolding load_instruction_def Some option.case KernelCall instruction.case ok_post_bind
      apply (rule ok_post_mono [OF arguments_step_post])
      apply (clarsimp split: sum.split)
      apply (rule ok_post_mono [OF resolve_operator_post])
      apply (auto simp: Let_def)
      done
  next
    case (DelegateCall d idxs)
    show ?thesis unfolding load_instruction_def Some option.case DelegateCall instruction.case ok_post_bind
      by (rule ok_post_mono [OF arguments_step_post]) (auto split: sum.split)
  qed (simp_all add: Some load_instruction_def)
qed

lemma load_instructions_post:
  "ok_post (\<lambda>(res, st'). \<forall>arg_lists kernels'. res = Inr (arg_lists, kernels') \<longrightarrow>
     None \<notin> set instrs \<and> list_all (instruction_valid (le_n_value env)) (map the instrs) \<and>
     arg_lists = map instruction_arguments (map the instrs) \<and>
     list_all (list_all (\<lambda>a. a < le_n_value env)) arg_lists \<and> length kernels' = length kernels)
    (load_instructions env instrs i kernels st)"
proof (induction instrs arbitrary: i kernels st)
  case (Cons instr rest)
  show ?case unfolding load_instructions.simps ok_post_bind
    apply (rule ok_post_mono [OF load_instruction_post])
    apply (clarsimp split: sum.split)
    apply (rule ok_post_mono [OF Cons.IH])
    subgoal for b ba ins x by (cases x; cases "fst x"; clarsimp)
    done
qed simp

lemma load_chain_post:
  "ok_post (\<lambda>(res, st'). \<forall>c. res = Inr c \<longrightarrow> chain_valid (le_n_value env) c \<and>
     ch_instructions c = map_option (map the) s_instructions)
    (load_chain env s_instructions st)"
proof (cases s_instructions)
  case (Some instrs)
  show ?thesis unfolding load_chain_def Some option.case Let_def ok_post_bind
    apply (rule ok_post_trivial)
    apply (clarsimp)
    apply (rule ok_post_trivial)
    apply (clarsimp)
    apply (rule ok_post_mono [OF load_instructions_post])
    apply (auto simp: chain_valid_def split: sum.split)
    done
qed (simp add: load_chain_def)

lemma load_chains_loop_post:
  "ok_post (\<lambda>(res, st'). \<forall>loaded. res = Inr loaded \<longrightarrow> list_all (chain_valid (le_n_value env)) loaded \<and>
     map ch_instructions loaded = map (map_option (map the)) cs)
    (load_chains_loop env cs st)"
proof (induction cs arbitrary: st)
  case (Cons c cs)
  show ?case unfolding load_chains_loop.simps ok_post_bind
    apply (rule ok_post_mono [OF load_chain_post])
    apply (clarsimp split: sum.split)
    apply (rule ok_post_mono [OF Cons.IH])
    apply (auto split: sum.split)
    done
qed simp

lemma load_chains_post:
  "ok_post (\<lambda>(res, al'). \<forall>loaded. res = Inr loaded \<longrightarrow> list_all (chain_valid (le_n_value env)) loaded \<and>
     (\<exists>cs. s_chains = Some cs \<and> map ch_instructions loaded = map (map_option (map the)) cs))
    (load_chains env s_chains al)"
proof (cases s_chains)
  case (Some cs)
  show ?thesis unfolding load_chains_def Some option.case
    apply (simp add: if_distrib [of "ok_post P" for P] del: Product_Type.split_paired_All)
    apply (rule impI, rule ok_post_trivial)
    apply (clarsimp)
    apply (rule ok_post_mono [OF load_chains_loop_post])
    apply (auto split: sum.split)
    done
qed (simp add: load_chains_def)

section \<open>How a loaded method may abort\<close>

text \<open>
  Every kernel call of the chain has its kernel; the operator of every kernel call has the name and the
  overload that the message for a failed kernel unwraps; the code that others registered returns.
\<close>

definition kernels_filled :: "'f chain \<Rightarrow> bool" where
  "kernels_filled c \<longleftrightarrow>
     (case ch_instructions c of
        None \<Rightarrow> True
      | Some ins \<Rightarrow> list_all (\<lambda>i. case ins ! i of KernelCall _ _ \<Rightarrow> ch_kernels c ! i \<noteq> None | _ \<Rightarrow> True) [0..<length ins])"

definition operator_reportable :: "s_operator list option \<Rightarrow> int \<Rightarrow> bool" where
  "operator_reportable operators op_index \<longleftrightarrow>
     (case operators of
        None \<Rightarrow> False
      | Some ops \<Rightarrow> as_usize op_index < length ops \<and> so_name (ops ! as_usize op_index) \<noteq> None \<and>
          so_overload (ops ! as_usize op_index) \<noteq> None)"

definition calls_reportable :: "s_operator list option \<Rightarrow> 'f chain \<Rightarrow> bool" where
  "calls_reportable operators c \<longleftrightarrow>
     (case ch_instructions c of
        None \<Rightarrow> True
      | Some ins \<Rightarrow> list_all (\<lambda>i. case i of KernelCall op _ \<Rightarrow> operator_reportable operators op | _ \<Rightarrow> True) ins)"

lemma log_kernel_failure_eq:
  "log_kernel_failure operators op = (if operator_reportable operators op then Ok () else Panic)"
  by (auto simp: log_kernel_failure_def operator_reportable_def Let_def split: option.splits)

text \<open>The next instruction is a kernel call that fails and whose failure cannot be reported.\<close>

definition failure_aborts :: "('f, 's) env \<Rightarrow> ('f, 's) method_state \<Rightarrow> machine \<Rightarrow> bool" where
  "failure_aborts env m mc \<longleftrightarrow>
     m_chain_idx m < n_chains m \<and>
     (\<exists>ins op idxs kern c mc'. ch_instructions (m_chains m ! m_chain_idx m) = Some ins \<and>
       m_instr_idx m < length ins \<and> ins ! m_instr_idx m = KernelCall op idxs \<and>
       ch_kernels (m_chains m ! m_chain_idx m) ! m_instr_idx m = Some kern \<and>
       run_kernel env kern (ch_argument_lists (m_chains m ! m_chain_idx m) ! m_instr_idx m)
         (kernel_context_new 0 (m_temp_allocator m)) mc = Ok (c, mc') \<and>
       failure_state c \<noteq> Error_Ok \<and> \<not> operator_reportable (m_operators m) op)"

definition callees_return :: "('f, 's) env \<Rightarrow> bool" where
  "callees_return env \<longleftrightarrow>
     (\<forall>f args c mc. is_Ok (run_kernel env f args c mc)) \<and> (\<forall>d args t mc. is_Ok (run_delegate env d args t mc))"

lemma is_Ok_bind: "is_Ok (r_bind m f) \<longleftrightarrow> (\<exists>x. m = Ok x \<and> is_Ok (f x))"
  by (cases m) simp_all

lemma is_Ok_bindI: "is_Ok m \<Longrightarrow> (\<And>x. m = Ok x \<Longrightarrow> is_Ok (f x)) \<Longrightarrow> is_Ok (r_bind m f)"
  by (cases m) simp_all

lemma try_to_tensor_no_panic: "try_to_tensor e \<noteq> Panic"
  by (cases e) simp_all

lemma parse_cond_value_no_panic: "parse_cond_value e mc \<noteq> Panic"
  by (cases e) (auto simp: parse_cond_value_def ev_is_tensor_def ev_is_bool_def Let_def)

lemma dispatch_total:
  assumes "callees_return env" and "instruction_valid (m_n_value m) instr"
    and "\<And>op idxs. instr = KernelCall op idxs \<Longrightarrow> ch_kernels (m_chains m ! m_chain_idx m) ! m_instr_idx m \<noteq> None"
  shows "is_Ok (dispatch env instr m mc) \<or> dispatch env instr m mc = Panic \<and>
    (\<exists>op idxs kern c mc'. instr = KernelCall op idxs \<and>
       ch_kernels (m_chains m ! m_chain_idx m) ! m_instr_idx m = Some kern \<and>
       run_kernel env kern (ch_argument_lists (m_chains m ! m_chain_idx m) ! m_instr_idx m)
         (kernel_context_new 0 (m_temp_allocator m)) mc = Ok (c, mc') \<and>
       failure_state c \<noteq> Error_Ok \<and> \<not> operator_reportable (m_operators m) op)"
proof (cases instr)
  case (KernelCall op idxs)
  then obtain f where f: "ch_kernels (m_chains m ! m_chain_idx m) ! m_instr_idx m = Some f" using assms(3) by blast
  obtain c mc' where run: "run_kernel env f (ch_argument_lists (m_chains m ! m_chain_idx m) ! m_instr_idx m)
      (kernel_context_new 0 (m_temp_allocator m)) mc = Ok (c, mc')"
    using assms(1) unfolding callees_return_def is_Ok_iff by (metis surj_pair)
  show ?thesis using KernelCall f run
    by (cases "failure_state c = Error_Ok"; cases "operator_reportable (m_operators m) op")
      (simp_all add: dispatch_def Let_def log_kernel_failure_eq)
next
  case (DelegateCall d idxs)
  then show ?thesis using assms(1)
    by (auto simp: dispatch_def Let_def callees_return_def intro!: is_Ok_bindI)
next
  case (JumpFalseCall index dest)
  then show ?thesis using parse_cond_value_no_panic
    by (auto simp: dispatch_def Let_def split: outcome.split)
next
  case (MoveCall from' to)
  then show ?thesis using assms(2)
    by (auto simp: dispatch_def Let_def get_value_index_checked_def valid_value_index_def split: prod.split)
next
  case (FreeCall index)
  then show ?thesis using assms(2) try_to_tensor_no_panic
    by (auto simp: dispatch_def Let_def get_value_index_checked_def valid_value_index_def split: outcome.split)
next
  case (OtherCall t)
  then show ?thesis by (simp add: dispatch_def)
qed

lemma kernels_filledD:
  assumes "kernels_filled c" and "ch_instructions c = Some ins" and "i < length ins" and "ins ! i = KernelCall op idxs"
  shows "ch_kernels c ! i \<noteq> None"
proof -
  have "\<forall>i \<in> set [0..<length ins]. case ins ! i of KernelCall _ _ \<Rightarrow> ch_kernels c ! i \<noteq> None | _ \<Rightarrow> True"
    using assms(1,2) by (simp add: kernels_filled_def list_all_iff)
  from bspec [OF this, of i] show ?thesis using assms(3,4) by simp
qed

lemma calls_reportableD:
  assumes "calls_reportable operators c" and "ch_instructions c = Some ins" and "i < length ins" and "ins ! i = KernelCall op idxs"
  shows "operator_reportable operators op"
proof -
  have "\<forall>i \<in> set ins. case i of KernelCall op _ \<Rightarrow> operator_reportable operators op | _ \<Rightarrow> True"
    using assms(1,2) by (simp add: calls_reportable_def list_all_iff)
  from bspec [OF this nth_mem [OF assms(3)]] show ?thesis using assms(4) by simp
qed

lemma execute_instruction_total:
  assumes "callees_return env" and "m_chain_idx m < n_chains m"
    and "chain_valid (m_n_value m) (m_chains m ! m_chain_idx m)" and "kernels_filled (m_chains m ! m_chain_idx m)"
  shows "is_Ok (execute_instruction env m mc) \<or> execute_instruction env m mc = Panic \<and> failure_aborts env m mc"
proof -
  obtain ins where ins: "ch_instructions (m_chains m ! m_chain_idx m) = Some ins"
    using assms(3) by (auto simp: chain_valid_def split: option.splits)
  show ?thesis
  proof (cases "m_instr_idx m < length ins")
    case True
    have valid: "instruction_valid (m_n_value m) (ins ! m_instr_idx m)"
      using assms(3) ins True by (simp add: chain_valid_def list_all_length)
    have "is_Ok (dispatch env (ins ! m_instr_idx m) m mc) \<or>
        dispatch env (ins ! m_instr_idx m) m mc = Panic \<and> failure_aborts env m mc"
      using dispatch_total [OF assms(1) valid, of mc] kernels_filledD [OF assms(4) ins True] assms(2) ins True
      unfolding failure_aborts_def by blast
    then show ?thesis using ins True
      by (cases "dispatch env (ins ! m_instr_idx m) m mc")
        (simp_all add: execute_instruction_def Let_def split: sum.split)
  qed (simp add: execute_instruction_def ins)
qed

text \<open>
  A method whose chains are valid and have their kernels; when its failures can be reported as well,
  nothing aborts.
\<close>

definition method_valid :: "('f, 's) method_state \<Rightarrow> bool" where
  "method_valid m \<longleftrightarrow> list_all (\<lambda>c. chain_valid (m_n_value m) c \<and> kernels_filled c) (m_chains m)"

definition method_sound :: "('f, 's) method_state \<Rightarrow> bool" where
  "method_sound m \<longleftrightarrow> method_valid m \<and> list_all (calls_reportable (m_operators m)) (m_chains m)"

lemma method_sound_same: "same_method m m' \<Longrightarrow> method_sound m \<Longrightarrow> method_sound m'"
  using same_method_fields [of m m'] by (simp add: method_sound_def method_valid_def)

lemma method_valid_nth:
  assumes "method_valid m" and "c < n_chains m"
  shows "chain_valid (m_n_value m) (m_chains m ! c) \<and> kernels_filled (m_chains m ! c)"
  using assms by (simp add: method_valid_def n_chains_def list_all_length)

lemma sound_failure_reported: "method_sound m \<Longrightarrow> \<not> failure_aborts env m mc"
  using calls_reportableD [of "m_operators m" "m_chains m ! m_chain_idx m"]
  by (auto simp: failure_aborts_def method_sound_def n_chains_def list_all_length)

lemma execute_instruction_sound:
  assumes "callees_return env" and "method_sound m" and "m_chain_idx m < n_chains m"
  shows "is_Ok (execute_instruction env m mc)"
  using execute_instruction_total [OF assms(1,3)] method_valid_nth [OF _ assms(3)] assms(2) sound_failure_reported
  unfolding method_sound_def by blast

lemma run_chain_total:
  assumes "callees_return env" and "method_sound m" and "m_chain_idx m < n_chains m"
  shows "is_Ok (run_chain limit env len cnt m mc)"
  using assms
proof (induction limit env len cnt m mc rule: run_chain.induct)
  case (1 limit env len cnt m mc)
  show ?case
  proof (cases "m_instr_idx m < len \<and> cnt < limit")
    case False
    then show ?thesis by (subst run_chain.simps) auto
  next
    case True
    obtain e m' mc' where exec: "execute_instruction env m mc = Ok (e, m', mc')"
      using execute_instruction_sound [OF "1.prems", of mc] unfolding is_Ok_iff by (metis prod_cases3)
    then have adv: "advanced m m'" using execute_instruction_frame by blast
    have "is_Ok (run_chain limit env len (cnt + 1) m' mc')" if "e = Error_Ok"
      using "1.IH" [OF _ _ exec] True that "1.prems" advanced_fields [OF adv]
        method_sound_same [OF advanced_same_method [OF adv]]
      by (simp add: n_chains_def)
    then show ?thesis using exec True by (simp add: run_chain_unfold)
  qed
qed

lemma run_chains_total:
  assumes "callees_return env" and "method_sound m" and "m_chain_idx m + r = n_chains m"
  shows "is_Ok (run_chains limit env r cnt m mc)"
  using assms
proof (induction r arbitrary: cnt m mc)
  case 0
  then show ?case by (simp split: prod.split)
next
  case (Suc r)
  obtain ins where ins: "ch_instructions (m_chains m ! m_chain_idx m) = Some ins"
    using method_valid_nth [of m "m_chain_idx m"] Suc.prems(2) Suc.prems(3)
    by (auto simp: chain_valid_def method_sound_def split: option.splits)
  let ?m = "m\<lparr>m_instr_idx := 0\<rparr>"
  have m: "method_sound ?m" "m_chain_idx ?m < n_chains ?m"
    using Suc.prems(2,3) by (simp_all add: method_sound_def method_valid_def n_chains_def)
  have "is_Ok (case out of Inl ret \<Rightarrow> Ok ret
      | Inr (cnt', m', mc') \<Rightarrow> run_chains limit env r cnt' (m'\<lparr>m_chain_idx := m_chain_idx m' + 1\<rparr>) mc')"
    if out: "run_chain limit env (length ins) cnt ?m mc = Ok out" for out
  proof (cases out)
    case (Inr t)
    obtain cnt' m' mc' where t: "t = (cnt', m', mc')" by (cases t)
    have same: "m_chain_idx m' = m_chain_idx m" "same_method m m'"
      using run_chain_frame [OF out] Inr t by simp_all
    then have "method_sound (m'\<lparr>m_chain_idx := m_chain_idx m' + 1\<rparr>)"
      using method_sound_same [of m] Suc.prems(2) by simp
    then show ?thesis
      using Suc.IH [OF Suc.prems(1), of "m'\<lparr>m_chain_idx := m_chain_idx m' + 1\<rparr>" cnt' mc'] Suc.prems(3) same
        same_method_fields [OF same(2)] Inr t
      by (simp add: n_chains_def)
  qed simp
  then show ?case
    unfolding run_chains.simps ins option.case
    by (intro is_Ok_bindI run_chain_total [OF Suc.prems(1) m])
qed

lemma sound_execute_returns:
  assumes "method_sound m" and "callees_return env"
  shows "is_Ok (execute env m mc)"
proof -
  let ?m = "(reset_temp env m)\<lparr>m_chain_idx := 0\<rparr>"
  have "is_Ok (run_chains K_MAX_INSTRUCTIONS env (n_chains m) 0 ?m mc)"
    using assms(1) by (intro run_chains_total [OF assms(2)]) (simp_all add: method_sound_def method_valid_def n_chains_def reset_temp_def)
  then show ?thesis by (simp add: execute_def execute_with_def)
qed

lemma sound_step_returns:
  assumes sound: "method_sound m" and "callees_return env" and "m_chain_idx m \<le> n_chains m"
  shows "is_Ok (step env m mc)"
proof (cases "initialized m \<and> m_chain_idx m < n_chains m")
  case True
  then obtain ins where ins: "ch_instructions (m_chains m ! m_chain_idx m) = Some ins"
    using method_valid_nth [of m "m_chain_idx m"] sound by (auto simp: chain_valid_def method_sound_def split: option.splits)
  show ?thesis
  proof (cases "ins = []")
    case True
    then show ?thesis using ins by (simp add: step_def)
  next
    case False
    have "is_Ok (execute_instruction env m mc)"
      using execute_instruction_sound [OF assms(2) sound] True by blast
    then show ?thesis using step_nonempty [OF _ _ ins False] True by (auto intro!: is_Ok_bindI)
  qed
next
  case False
  then show ?thesis using assms(3) by (auto simp: step_def)
qed

lemma step_aborts_iff:
  assumes "method_valid m" and "callees_return env" and "initialized m" and "m_chain_idx m \<le> n_chains m"
  shows "(step env m mc = Panic \<longleftrightarrow> failure_aborts env m mc) \<and> (is_Ok (step env m mc) \<or> step env m mc = Panic)"
proof (cases "m_chain_idx m < n_chains m")
  case False
  then show ?thesis using assms(3,4) by (simp add: step_at_end failure_aborts_def)
next
  case True
  then obtain ins where ins: "ch_instructions (m_chains m ! m_chain_idx m) = Some ins"
    using method_valid_nth [OF assms(1) True] by (auto simp: chain_valid_def split: option.splits)
  show ?thesis
  proof (cases "ins = []")
    case empty: True
    then show ?thesis using ins assms(3) True by (simp add: step_def failure_aborts_def)
  next
    case False
    note step_eq = step_nonempty [OF assms(3) True ins False, where env = env and mc = mc]
    have aborts: "execute_instruction env m mc = Panic" if "failure_aborts env m mc"
      using that by (auto simp: failure_aborts_def execute_instruction_def dispatch_def Let_def log_kernel_failure_eq)
    have "is_Ok (execute_instruction env m mc) \<or> execute_instruction env m mc = Panic \<and> failure_aborts env m mc"
      using execute_instruction_total [OF assms(2) True] method_valid_nth [OF assms(1) True] by blast
    then show ?thesis
    proof
      assume "is_Ok (execute_instruction env m mc)"
      then have "is_Ok (step env m mc)" "\<not> failure_aborts env m mc" 
        using aborts by (auto simp: step_eq intro!: is_Ok_bindI)
      then show ?thesis by (cases "step env m mc") simp_all
    qed (simp add: step_eq)
  qed
qed

lemma abort_decides_execution:
  assumes ends: "execution_ends env limit bound s out"
    and run: "runs env n s (m1, mc1)" and panic: "step env m1 mc1 = Panic" and less: "n < limit"
  shows "out = Panic"
proof -
  have "stops_with env s Panic" using run panic unfolding stops_with_def by blast
  then have only: "r = Panic" if "stops_with env s r" for r
    using stops_with_unique [OF that] by simp
  show ?thesis
  proof (cases out)
    case (Ok t)
    obtain e m' mc' where t: "t = (e, m', mc')" by (cases t)
    have "\<exists>m1. (if e = Error_Ok
        then (\<exists>k\<le>bound. runs env k s (m1, mc')) \<and> step env m1 mc' = Ok (EndOfMethod, m1, mc') \<and>
          reset_execution m1 = (Error_Ok, m')
        else e = InvalidProgram \<and> (\<exists>k\<ge>limit. runs env k s (m1, mc')) \<or> stops_with env s (Ok (e, m1, mc')))"
      using ends unfolding Ok t execution_ends_def outcome.case prod.case by blast
    then obtain m2 where cases: "(\<exists>k. runs env k s (m2, mc') \<and> step env m2 mc' = Ok (EndOfMethod, m2, mc')) \<or>
        (\<exists>k\<ge>limit. runs env k s (m2, mc')) \<or> stops_with env s (Ok (e, m2, mc'))"
      by (metis (full_types))
    have "\<not> (runs env k s (m2, mc') \<and> limit \<le> k)" for k
      using runs_before_stop [OF _ run, of k "(m2, mc')"] panic less by auto
    moreover have "\<not> stops_with env s (Ok (e, m2, mc'))" using only by blast
    moreover have "\<not> (runs env k s (m2, mc') \<and> step env m2 mc' = Ok (EndOfMethod, m2, mc'))" for k
      using only [of "Ok (EndOfMethod, m2, mc')"] unfolding stops_with_def by auto
    ultimately show ?thesis using cases by blast
  qed (use ends only in \<open>auto simp: execution_ends_def\<close>)
qed

text \<open>C40. The one way in which a valid method aborts: kernels and delegates that return, valid chains
  with a kernel for every kernel call and jumps that stay in their chain assumed, \<^verbatim>\<open>execute\<close> of a method
  that may start returns or aborts the program; when it aborts, stepping reaches a kernel call whose
  kernel fails and whose operator has no name or no overload to put in the error message, and whenever
  stepping reaches one in fewer steps than the instruction limit, \<^verbatim>\<open>execute\<close> aborts instead of returning
  the kernel's error.\<close>

theorem failing_kernel_aborts_execution:
  assumes "may_start m" and "chains_ok m" and "method_valid m" and "callees_return env"
  shows "(is_Ok (execute env m mc) \<or> execute env m mc = Panic) \<and>
    (execute env m mc = Panic \<longrightarrow>
       (\<exists>n m1 mc1. runs env n (started env m, mc) (m1, mc1) \<and> failure_aborts env m1 mc1)) \<and>
    (\<forall>n<K_MAX_INSTRUCTIONS. \<forall>m1 mc1. runs env n (started env m, mc) (m1, mc1) \<and> failure_aborts env m1 mc1 \<longrightarrow>
       execute env m mc = Panic)"
proof -
  let ?s = "(started env m, mc)" and ?out = "execute env m mc"
  have ends: "execution_ends env K_MAX_INSTRUCTIONS (K_MAX_INSTRUCTIONS + n_chains m) ?s ?out"
    unfolding execute_def by (rule execute_with_ends [OF assms(1,2)])
  have same: "same_method m (started env m)"
    unfolding started_def same_method_position(1) by (simp add: same_method_def reset_temp_def)
  have start: "chains_ok (started env m)" "position_ok (started env m)"
    using assms(2) position_ok_start [of "reset_temp env m" 0]
    by (simp_all add: started_def chains_ok_def reset_temp_def set_step_state_def)
  have reached: "(step env m1 mc1 = Panic \<longleftrightarrow> failure_aborts env m1 mc1) \<and> (is_Ok (step env m1 mc1) \<or> step env m1 mc1 = Panic)"
    if "runs env n ?s (m1, mc1)" for n m1 mc1
  proof (rule step_aborts_iff [OF _ assms(4)])
    have at: "same_method m m1" "position_ok m1"
      using runs_frame [OF that start] same_method_trans [OF same] by simp_all
    show "method_valid m1" "initialized m1" using same_method_fields [OF at(1)] assms(1,3)
      by (simp_all add: method_valid_def may_start_def initialized_def)
    show "m_chain_idx m1 \<le> n_chains m1" using at(2) by (auto simp: position_ok_def split: if_splits)
  qed
  have "\<not> stops_with env ?s (Err x)" for x
    using reached unfolding stops_with_def by (metis is_Ok_simps(2) outcome.distinct(5))
  then have "is_Ok ?out \<or> ?out = Panic"
    using ends by (cases ?out) (simp_all add: execution_ends_def)
  moreover have "\<exists>n m1 mc1. runs env n ?s (m1, mc1) \<and> failure_aborts env m1 mc1" if "?out = Panic"
  proof -
    have "stops_with env ?s Panic" using ends that by (simp add: execution_ends_def)
    then show ?thesis using reached unfolding stops_with_def by blast
  qed
  moreover have "?out = Panic"
    if "n < K_MAX_INSTRUCTIONS" and run: "runs env n ?s (m1, mc1)" and "failure_aborts env m1 mc1" for n m1 mc1
    using abort_decides_execution [OF ends run _ that(1)] reached [OF run] that(3) by blast
  ultimately show ?thesis by blast
qed

text \<open>Loading the chains of a program validates them: when it succeeds, every instruction of every
  chain is of a known kind, its value indices are in range, its argument list is the serialized one,
  and the chains are the program's in order. A method with these chains never aborts: as long as the
  kernels and delegates return, every kernel call has its kernel and its operator's name and overload,
  \<^verbatim>\<open>execute\<close> returns from any state of the method and so does \<^verbatim>\<open>step\<close> from every position in the program.\<close>

theorem loaded_method_never_aborts:
  assumes "load_chains lenv s_chains al = Ok (Inr loaded, al')"
    and "m_chains m = loaded" and "m_n_value m = le_n_value lenv"
    and "list_all kernels_filled loaded" and "list_all (calls_reportable (m_operators m)) loaded"
    and "callees_return env"
  shows "list_all (chain_valid (le_n_value lenv)) loaded \<and>
    map ch_instructions loaded = map (map_option (map the)) (the s_chains) \<and>
    is_Ok (execute env m mc) \<and> (m_chain_idx m \<le> n_chains m \<longrightarrow> is_Ok (step env m mc))"
proof -
  have valid: "list_all (chain_valid (le_n_value lenv)) loaded"
    "map ch_instructions loaded = map (map_option (map the)) (the s_chains)"
    using ok_postD [OF load_chains_post assms(1)] by auto
  then have "method_sound m"
    using assms(2-5) by (simp add: method_sound_def method_valid_def list_all_iff)
  then show ?thesis using valid sound_execute_returns sound_step_returns assms(6) by blast
qed

section \<open>The delayed error\<close>

text \<open>
  A program whose first operator has no name and whose second is a kernel that is registered. The
  allocator always has memory.
\<close>

definition example_load_env :: "'f option \<Rightarrow> 'f \<Rightarrow> ('f, unit) load_env" where
  "example_load_env junk f =
     \<lparr>le_alloc = \<lambda>_ _ s. Ok (8, s), le_reset = id, le_size = \<lambda>_. 0,
      le_operators = Some [\<lparr>so_name = None, so_overload = None\<rparr>, \<lparr>so_name = Some ''op'', so_overload = Some ''out''\<rparr>],
      le_kernel_registry = [], le_registered_kernels = [kernel_new_fallback ''op.out'' f],
      le_n_value = 1, le_values = \<lambda>_. E_Int 5, le_tensors = \<lambda>_. example_tensor,
      le_uninit = junk, le_sizeof_chain = 48\<rparr>"

lemmas load_defs = load_chains_def load_chain_def load_instruction_def arguments_step_def
  gen_instruction_arguments_def resolve_operator_def uses_temp_def meta_allocator_def put_back_reset_def
  populate_operator_name_def snprintf3_def find_op_def c_string_def valid_value_index_def

lemma example_lookup:
  "get_op_function_from_registry ''op.out'' [] [kernel_new_fallback ''op.out'' f] = Ok f"
  by (simp add: get_op_function_from_registry_def make_kernel_key_string_def kernel_new_fallback_def key_equals_def
      key_is_fallback_def)

text \<open>An unresolvable operator can be hidden by the next one: this program loads without an error
  although its first kernel call has no operator name, and that call's kernel slot keeps whatever the
  uninitialised memory held; with the two calls in the other order the same program is refused.\<close>

theorem later_kernel_hides_load_error:
  "(case load_chains (example_load_env junk f) (Some [Some [Some (KernelCall 0 (Some [0])), Some (KernelCall 1 (Some [0]))]])
       \<lparr>al_method = (), al_temp = None\<rparr> of
      Ok (Inr [c], _) \<Rightarrow> ch_kernels c = [junk, Some f] | _ \<Rightarrow> False) \<and>
   (case load_chains (example_load_env junk f) (Some [Some [Some (KernelCall 1 (Some [0])), Some (KernelCall 0 (Some [0]))]])
       \<lparr>al_method = (), al_temp = None\<rparr> of
      Ok (Inl e, _) \<Rightarrow> e = InvalidProgram | _ \<Rightarrow> False)"
  by (simp add: example_load_env_def load_defs example_lookup as_usize_def Let_def allocate_list_def checked_mul_def
      ev_is_tensor_def wrap_i32_def)

text \<open>Witness: the program with its two calls the right way round, cut to the resolvable one.\<close>

theorem loaded_method_never_aborts_witness:
  "is_Ok (execute example_env ((example_method 0)\<lparr>m_chains :=
      [\<lparr>ch_instructions = Some [KernelCall 1 (Some [0])], ch_argument_lists = [[0]], ch_kernels = [Some ()]\<rparr>],
      m_n_value := 1, m_operators := le_operators (example_load_env None ())\<rparr>) example_machine)"
proof -
  let ?loaded = "[\<lparr>ch_instructions = Some [KernelCall 1 (Some [0])], ch_argument_lists = [[0]], ch_kernels = [Some ()]\<rparr>]"
  let ?m = "(example_method 0)\<lparr>m_chains := ?loaded, m_n_value := 1,
    m_operators := le_operators (example_load_env None ())\<rparr>"
  have "load_chains (example_load_env None ()) (Some [Some [Some (KernelCall 1 (Some [0]))]]) \<lparr>al_method = (), al_temp = None\<rparr>
      = Ok (Inr ?loaded, \<lparr>al_method = (), al_temp = None\<rparr>)"
    by (simp add: example_load_env_def load_defs example_lookup as_usize_def Let_def allocate_list_def checked_mul_def
        ev_is_tensor_def wrap_i32_def)
  moreover have "list_all kernels_filled ?loaded" by (simp add: kernels_filled_def)
  moreover have "list_all (calls_reportable (m_operators ?m)) ?loaded"
    by (simp add: calls_reportable_def operator_reportable_def example_load_env_def as_usize_def)
  moreover have "callees_return example_env" by (simp add: callees_return_def example_env_def)
  ultimately show ?thesis
    using loaded_method_never_aborts [of "example_load_env None ()" "Some [Some [Some (KernelCall 1 (Some [0]))]]"
        "\<lparr>al_method = (), al_temp = None\<rparr>" ?loaded "\<lparr>al_method = (), al_temp = None\<rparr>" ?m example_env
        example_machine]
    by (simp add: example_load_env_def)
qed

text \<open>
  Witness: an operator without an overload is found in the registry and the program loads; its
  kernel fails and the program aborts.
\<close>

definition failing_env :: "(unit, unit) env" where
  "failing_env = example_env\<lparr>run_kernel := \<lambda>_ _ c mc. Ok (kc_fail InvalidArgument c, mc)\<rparr>"

theorem failing_kernel_aborts_execution_witness:
  "\<exists>chains al. load_chains ((example_load_env None ())\<lparr>le_operators := Some [\<lparr>so_name = Some ''op'', so_overload = None\<rparr>],
       le_registered_kernels := [kernel_new_fallback ''op'' ()]\<rparr>) (Some [Some [Some (KernelCall 0 (Some [0]))]])
       \<lparr>al_method = (), al_temp = None\<rparr> = Ok (Inr chains, al) \<and>
     execute failing_env ((example_method 0)\<lparr>m_chains := chains,
       m_operators := Some [\<lparr>so_name = Some ''op'', so_overload = None\<rparr>]\<rparr>) example_machine = Panic"
proof -
  let ?chains = "[\<lparr>ch_instructions = Some [KernelCall 0 (Some [0])], ch_argument_lists = [[0]], ch_kernels = [Some ()]\<rparr>]"
  let ?m = "(example_method 0)\<lparr>m_chains := ?chains, m_operators := Some [\<lparr>so_name = Some ''op'', so_overload = None\<rparr>]\<rparr>"
  have lookup: "get_op_function_from_registry ''op'' [] [kernel_new_fallback ''op'' f] = Ok f" for f :: unit
    by (simp add: get_op_function_from_registry_def make_kernel_key_string_def kernel_new_fallback_def key_equals_def
        key_is_fallback_def)
  have load: "load_chains ((example_load_env None ())\<lparr>le_operators := Some [\<lparr>so_name = Some ''op'', so_overload = None\<rparr>],
       le_registered_kernels := [kernel_new_fallback ''op'' ()]\<rparr>) (Some [Some [Some (KernelCall 0 (Some [0]))]])
       \<lparr>al_method = (), al_temp = None\<rparr> = Ok (Inr ?chains, \<lparr>al_method = (), al_temp = None\<rparr>)"
    by (simp add: example_load_env_def load_defs lookup as_usize_def Let_def allocate_list_def checked_mul_def
        ev_is_tensor_def wrap_i32_def)
  have limit: "0 < K_MAX_INSTRUCTIONS" by (simp add: K_MAX_INSTRUCTIONS_def)
  have "may_start ?m" "chains_ok ?m" "callees_return failing_env"
    by (simp_all add: example_defs start_defs chains_ok_def jumps_in_range_def callees_return_def failing_env_def)
  moreover have "method_valid ?m"
    by (simp add: example_defs method_valid_def chain_valid_def kernels_filled_def as_usize_def)
  moreover have "runs failing_env 0 (started failing_env ?m, example_machine) (started failing_env ?m, example_machine)"
    by (rule runs_refl)
  moreover have "failure_aborts failing_env (started failing_env ?m) example_machine"
    by (simp add: failure_aborts_def failing_env_def example_defs started_def set_step_state_def reset_temp_def n_chains_def
        operator_reportable_def as_usize_def kc_fail_def failure_state_def kernel_context_new_def)
  ultimately have "execute failing_env ?m example_machine = Panic"
    using failing_kernel_aborts_execution [of ?m failing_env example_machine] limit by blast
  then show ?thesis using load by blast
qed

end
