(* ===== verification/Program_Validation.thy ===== *)
theory Program_Validation
  imports Tensor_Impl Schema
begin

text \<open>
  The validation of a serialized program after loading, \<^verbatim>\<open>runtime/executor/program_validation.rs\<close>.
\<close>


section \<open>Tensors\<close>

definition mul_overflows_ssize :: "int \<Rightarrow> int \<Rightarrow> bool \<times> int" where
  "mul_overflows_ssize a b = (if fits_i64 (a * b) then (False, a * b) else (True, wrap_i64 (a * b)))"

definition mul_overflows_size :: "usize \<Rightarrow> usize \<Rightarrow> bool \<times> usize" where
  "mul_overflows_size a b = (case checked_mul a b of Some product \<Rightarrow> (False, product) | None \<Rightarrow> (True, a * b))"

fun validate_sizes_loop :: "int list \<Rightarrow> bool \<Rightarrow> int \<Rightarrow> (bool \<times> int) option" where
  "validate_sizes_loop [] numel_overflowed numel = Some (numel_overflowed, numel)"
| "validate_sizes_loop (size_i # rest) numel_overflowed numel =
     (if size_i < 0 then None
      else if \<not> numel_overflowed
      then let (overflowed, numel') = mul_overflows_ssize numel size_i
           in validate_sizes_loop rest overflowed numel'
      else validate_sizes_loop rest numel_overflowed numel)"

definition scalar_type_from_i8 :: "int \<Rightarrow> ScalarType" where
  "scalar_type_from_i8 v =
     (if 0 \<le> v \<and> v \<le> discriminant NumOptions then all_scalar_types ! nat v else Undefined)"

definition validate_tensor :: "s_tensor \<Rightarrow> Error result" where
  "validate_tensor tensor =
     (case st_sizes tensor of
        None \<Rightarrow> Ok InvalidProgram
      | Some sizes \<Rightarrow>
          (case validate_sizes_loop sizes False 1 of
             None \<Rightarrow> Ok InvalidProgram
           | Some (numel_overflowed, numel) \<Rightarrow>
               let scalar_type = scalar_type_from_i8 (st_scalar_type tensor)
               in if \<not> is_valid scalar_type then Ok InvalidProgram
                  else if numel_overflowed then Ok InvalidProgram
                  else r_bind (element_size scalar_type) (\<lambda>elem_size.
                    let (nbytes_overflow, nbytes) = mul_overflows_size (word_of_int numel) elem_size
                    in Ok (if nbytes_overflow then InvalidProgram else Error_Ok))))"

section \<open>Programs\<close>

text \<open>\<^verbatim>\<open>TensorShapeDynamism::STATIC\<close> is zero. Only the first input with the index is looked at.\<close>

fun is_dynamic_input_loop :: "s_value list \<Rightarrow> nat \<Rightarrow> int list \<Rightarrow> bool" where
  "is_dynamic_input_loop values idx [] = False"
| "is_dynamic_input_loop values idx (i # rest) =
     (if i = wrap_i32 (int idx) then
        (case values ! idx of SV_Tensor (Some tensor) \<Rightarrow> st_shape_dynamism tensor \<noteq> 0 | _ \<Rightarrow> False)
      else is_dynamic_input_loop values idx rest)"

definition is_dynamic_input :: "int list option \<Rightarrow> s_value list \<Rightarrow> nat \<Rightarrow> bool" where
  "is_dynamic_input inputs values idx =
     (case inputs of None \<Rightarrow> False | Some is \<Rightarrow> is_dynamic_input_loop values idx is)"

fun validate_items :: "s_value list \<Rightarrow> int list \<Rightarrow> Error" where
  "validate_items values [] = Error_Ok"
| "validate_items values (evalue_index # rest) =
     (if evalue_index < 0 \<or> int (length values) \<le> evalue_index then InvalidProgram
      else case values ! nat evalue_index of SV_Tensor _ \<Rightarrow> validate_items values rest | _ \<Rightarrow> InvalidProgram)"

definition validate_value :: "int list option \<Rightarrow> s_value list \<Rightarrow> nat \<Rightarrow> Error result" where
  "validate_value inputs values value_idx =
     (case values ! value_idx of
        SV_Tensor val \<Rightarrow>
          r_bind (case val of Some tensor \<Rightarrow> validate_tensor tensor | None \<Rightarrow> Ok InvalidProgram) (\<lambda>err.
            Ok (if err \<noteq> Error_Ok then if is_dynamic_input inputs values value_idx then Error_Ok else err
                else Error_Ok))
      | SV_TensorList val \<Rightarrow>
          Ok (case val of
                None \<Rightarrow> InvalidProgram
              | Some None \<Rightarrow> InvalidProgram
              | Some (Some items) \<Rightarrow> validate_items values items)
      | _ \<Rightarrow> Ok Error_Ok)"

fun validate_values :: "int list option \<Rightarrow> s_value list \<Rightarrow> nat list \<Rightarrow> Error result" where
  "validate_values inputs values [] = Ok Error_Ok"
| "validate_values inputs values (value_idx # rest) =
     r_bind (validate_value inputs values value_idx) (\<lambda>err.
       if err \<noteq> Error_Ok then Ok err else validate_values inputs values rest)"

fun validate_plans :: "s_plan list \<Rightarrow> Error result" where
  "validate_plans [] = Ok Error_Ok"
| "validate_plans (plan # plans) =
     (case sp_values plan of
        None \<Rightarrow> Ok InvalidProgram
      | Some values \<Rightarrow>
          r_bind (validate_values (sp_inputs plan) values [0..<length values]) (\<lambda>err.
            if err \<noteq> Error_Ok then Ok err else validate_plans plans))"

definition validate_program :: "s_plan list option \<Rightarrow> Error result" where
  "validate_program execution_plan =
     (case execution_plan of None \<Rightarrow> Ok InvalidProgram | Some plans \<Rightarrow> validate_plans plans)"

section \<open>Valid tensors\<close>

definition tensor_valid :: "s_tensor \<Rightarrow> bool" where
  "tensor_valid t \<longleftrightarrow>
     (case st_sizes t of
        None \<Rightarrow> False
      | Some xs \<Rightarrow> numel_fits xs \<and> 0 \<le> st_scalar_type t \<and> st_scalar_type t < 30 \<and>
          (case element_size (all_scalar_types ! nat (st_scalar_type t)) of
             Ok e \<Rightarrow> prod_list xs * uint e < 2 ^ 64 | _ \<Rightarrow> False))"

lemma validate_sizes_overflowed:
  "validate_sizes_loop xs True n = (if \<forall>x \<in> set xs. 0 \<le> x then Some (True, n) else None)"
  by (induction xs arbitrary: n) auto

lemma validate_sizes_eq:
  assumes "0 \<le> n" and "n < 2 ^ 63"
  shows "case validate_sizes_loop xs False n of
      None \<Rightarrow> \<not> numel_fits_from n xs
    | Some (ov, m) \<Rightarrow> (ov \<longleftrightarrow> \<not> numel_fits_from n xs) \<and> (\<not> ov \<longrightarrow> m = n * prod_list xs)"
  using assms
proof (induction xs arbitrary: n)
  case Nil
  then show ?case by (simp add: numel_fits_from_def)
next
  case (Cons x xs)
  show ?case
  proof (cases "0 \<le> x")
    case False
    then show ?thesis by (simp add: numel_fits_from_Cons)
  next
    case True
    then have nonneg: "0 \<le> n * x" using Cons.prems by simp
    show ?thesis
    proof (cases "n * x < 2 ^ 63")
      case True
      then show ?thesis
        using Cons.IH [of "n * x"] nonneg \<open>0 \<le> x\<close> Cons.prems fits_i64_nonneg [OF nonneg]
        by (auto simp: mul_overflows_ssize_def numel_fits_from_Cons mult.assoc split: option.split)
    next
      case False
      then have "\<not> numel_fits_from (n * x) xs" using numel_fits_from_first by blast
      then show ?thesis
        using False nonneg \<open>0 \<le> x\<close> fits_i64_nonneg [OF nonneg]
        by (simp add: mul_overflows_ssize_def numel_fits_from_Cons validate_sizes_overflowed)
    qed
  qed
qed

lemma scalar_type_from_i8_valid: "is_valid (scalar_type_from_i8 v) \<longleftrightarrow> 0 \<le> v \<and> v < 30"
proof (cases "0 \<le> v \<and> v \<le> 31")
  case True
  then have "nat v \<in> set [0..<32]" by auto
  moreover have "\<forall>k \<in> set [0..<32]. is_valid (all_scalar_types ! k) \<longleftrightarrow> k < 30"
    by (simp add: all_scalar_types_def is_valid_def upt_rec)
  ultimately show ?thesis using True by (simp add: scalar_type_from_i8_def) linarith
next
  case False
  then show ?thesis by (auto simp: scalar_type_from_i8_def is_valid_def)
qed

lemma scalar_type_from_i8_eq: "0 \<le> v \<Longrightarrow> v < 30 \<Longrightarrow> scalar_type_from_i8 v = all_scalar_types ! nat v"
  by (simp add: scalar_type_from_i8_def)

lemma validate_tensor_eq: "validate_tensor t = Ok (if tensor_valid t then Error_Ok else InvalidProgram)"
proof (cases "st_sizes t")
  case None
  then show ?thesis by (simp add: validate_tensor_def tensor_valid_def)
next
  case (Some xs)
  let ?v = "st_scalar_type t"
  have loop: "case validate_sizes_loop xs False 1 of
      None \<Rightarrow> \<not> numel_fits xs
    | Some (ov, m) \<Rightarrow> (ov \<longleftrightarrow> \<not> numel_fits xs) \<and> (\<not> ov \<longrightarrow> m = prod_list xs)"
    using validate_sizes_eq [of 1 xs] by (auto simp: numel_fits_def split: option.splits)
  show ?thesis
  proof (cases "numel_fits xs \<and> 0 \<le> ?v \<and> ?v < 30")
    case False
    then show ?thesis using loop Some
      by (auto simp: validate_tensor_def tensor_valid_def scalar_type_from_i8_valid Let_def
          split: option.splits if_splits)
  next
    case True
    then have ty: "scalar_type_from_i8 ?v = all_scalar_types ! nat ?v" "is_valid (all_scalar_types ! nat ?v)"
      using scalar_type_from_i8_eq scalar_type_from_i8_valid by metis+
    obtain e where e: "element_size (all_scalar_types ! nat ?v) = Ok e"
      using element_size_Panic_iff element_size_not_Err ty(2) by (metis outcome.exhaust)
    have loop': "validate_sizes_loop xs False 1 = Some (False, prod_list xs)"
      using loop True by (auto split: option.splits)
    have range: "0 \<le> prod_list xs" "prod_list xs < 2 ^ 63" using True numel_fits_range by blast+
    have small: "k < 2 ^ 64 \<longleftrightarrow> int k < 2 ^ 64" for k :: nat by simp
    have "int (nat (prod_list xs) * unat e) = prod_list xs * uint e"
      using range(1) by (simp only: of_nat_mult uint_nat) simp
    then have fits: "nat (prod_list xs) * unat e < 2 ^ 64 \<longleftrightarrow> prod_list xs * uint e < 2 ^ 64"
      using small [of "nat (prod_list xs) * unat e"] by (simp only:)
    have n: "unat (word_of_int (prod_list xs) :: usize) = nat (prod_list xs)"
      using range by (intro unat_word_of_int) simp_all
    have valid: "tensor_valid t \<longleftrightarrow> nat (prod_list xs) * unat e < 2 ^ 64"
      unfolding tensor_valid_def Some option.case e outcome.case fits using True by simp
    have "validate_tensor t = Ok (if fst (mul_overflows_size (word_of_int (prod_list xs)) e) then InvalidProgram else Error_Ok)"
      by (simp add: validate_tensor_def Some loop' ty Let_def e split: prod.split)
    also have "fst (mul_overflows_size (word_of_int (prod_list xs)) e) \<longleftrightarrow> \<not> tensor_valid t"
      unfolding mul_overflows_size_def checked_mul_def n valid by simp
    finally show ?thesis by simp
  qed
qed

section \<open>Valid programs\<close>

definition is_tensor_value :: "s_value \<Rightarrow> bool" where
  "is_tensor_value v \<longleftrightarrow> (case v of SV_Tensor _ \<Rightarrow> True | _ \<Rightarrow> False)"

definition value_valid :: "int list option \<Rightarrow> s_value list \<Rightarrow> nat \<Rightarrow> bool" where
  "value_valid inputs values idx \<longleftrightarrow>
     (case values ! idx of
        SV_Tensor val \<Rightarrow>
          (case val of Some t \<Rightarrow> tensor_valid t | None \<Rightarrow> False) \<or> is_dynamic_input inputs values idx
      | SV_TensorList val \<Rightarrow>
          (case val of
             Some (Some items) \<Rightarrow>
               list_all (\<lambda>i. 0 \<le> i \<and> i < int (length values) \<and> is_tensor_value (values ! nat i)) items
           | _ \<Rightarrow> False)
      | _ \<Rightarrow> True)"

definition program_valid :: "s_plan list option \<Rightarrow> bool" where
  "program_valid execution_plan \<longleftrightarrow>
     (case execution_plan of
        None \<Rightarrow> False
      | Some plans \<Rightarrow>
          list_all (\<lambda>plan. case sp_values plan of
              None \<Rightarrow> False
            | Some values \<Rightarrow> list_all (value_valid (sp_inputs plan) values) [0..<length values]) plans)"

definition verdict :: "bool \<Rightarrow> Error result" where
  "verdict ok = Ok (if ok then Error_Ok else InvalidProgram)"

lemma validate_items_eq:
  "validate_items values items =
     (if list_all (\<lambda>i. 0 \<le> i \<and> i < int (length values) \<and> is_tensor_value (values ! nat i)) items
      then Error_Ok else InvalidProgram)"
  by (induction items) (auto simp: is_tensor_value_def split: s_value.splits)

lemma validate_value_eq: "validate_value inputs values idx = verdict (value_valid inputs values idx)"
  by (auto simp: validate_value_def value_valid_def verdict_def validate_tensor_eq validate_items_eq
      split: s_value.splits option.splits)

lemma validate_values_eq:
  "validate_values inputs values idxs = verdict (list_all (value_valid inputs values) idxs)"
  by (induction idxs) (auto simp: validate_value_eq verdict_def)

lemma validate_plans_eq: "validate_plans plans = verdict (program_valid (Some plans))"
  by (induction plans) (auto simp: validate_values_eq verdict_def program_valid_def split: option.splits)

lemma validate_program_eq: "validate_program execution_plan = verdict (program_valid execution_plan)"
  by (cases execution_plan)
    (simp_all add: validate_program_def validate_plans_eq, simp add: verdict_def program_valid_def)

text \<open>C22. Validation is exact and total: it accepts a program exactly when every plan has a values table,
  every tensor has sizes without overflow, a real scalar type and a byte count below \<open>2^64\<close> or is a
  dynamic input of its plan, and every tensor list refers to tensors of its plan; it never aborts,
  and any other program is an \<open>InvalidProgram\<close>.\<close>

theorem validate_program_exact:
  "validate_program execution_plan = Ok (if program_valid execution_plan then Error_Ok else InvalidProgram)"
  by (simp add: validate_program_eq verdict_def)

text \<open>The exemption of dynamic inputs is wider than overflow: a program whose only value is an input
  tensor that is not static is accepted whatever the tensor says, without sizes, with negative sizes
  or with a number that is no scalar type.\<close>

theorem dynamic_inputs_not_validated:
  assumes "st_shape_dynamism t \<noteq> 0" and "sp_values plan = Some [SV_Tensor (Some t)]" and "sp_inputs plan = Some [0]"
  shows "validate_program (Some [plan]) = Ok Error_Ok \<and>
    (\<not> tensor_valid t \<longrightarrow> validate_tensor t = Ok InvalidProgram)"
  using assms
  by (simp add: validate_program_eq verdict_def program_valid_def value_valid_def is_dynamic_input_def wrap_i32_def
      validate_tensor_eq)

theorem dynamic_inputs_not_validated_witness:
  "let t = empty_s_tensor\<lparr>st_scalar_type := 99, st_shape_dynamism := 1\<rparr>;
      plan = empty_s_plan\<lparr>sp_values := Some [SV_Tensor (Some t)], sp_inputs := Some [0]\<rparr>
   in validate_program (Some [plan]) = Ok Error_Ok \<and> validate_tensor t = Ok InvalidProgram"
  unfolding Let_def
  by (subst dynamic_inputs_not_validated [THEN conjunct1])
    (simp_all add: validate_tensor_def example_schema_defs)

end
