(* ===== verification/Method_Meta.thy ===== *)
theory Method_Meta
  imports Program_Validation EValue Method
begin

text \<open>
  The description of a method, \<^verbatim>\<open>runtime/executor/method_meta.rs\<close>: what a client can ask about the
  inputs, outputs, attributes, buffers and backends of a serialized plan before loading it. An
  \<^verbatim>\<open>unwrap\<close> of an absent field aborts; the casts of serialized numbers to enumerations are unsafe
  \<^verbatim>\<open>transmute\<close>s, whose undefined cases are \<open>Panic\<close> here.
\<close>

section \<open>Tensors\<close>

definition static_cast_scalar_type :: "int \<Rightarrow> ScalarType result" where
  "static_cast_scalar_type st =
     (if 0 \<le> st \<and> st \<le> discriminant NumOptions then Ok (all_scalar_types ! nat st) else Panic)"

definition static_cast_device_type :: "int \<Rightarrow> DeviceType result" where
  "static_cast_device_type dt = (if dt = 0 then Ok CPU else if dt = 1 then Ok CUDA else Panic)"

fun get_tag :: "s_value \<Rightarrow> Tag result" where
  "get_tag SV_Null = Ok Tag_None"
| "get_tag (SV_Int _) = Ok Tag_Int"
| "get_tag (SV_Double _) = Ok Tag_Double"
| "get_tag (SV_Bool _) = Ok Tag_Bool"
| "get_tag (SV_String _) = Ok Tag_String"
| "get_tag (SV_Tensor _) = Ok Tag_Tensor"
| "get_tag _ = Err Internal"

fun meta_nbytes_loop :: "int list \<Rightarrow> usize \<Rightarrow> usize result" where
  "meta_nbytes_loop [] n = Ok n"
| "meta_nbytes_loop (size_i # rest) n =
     (if \<not> 0 \<le> size_i then Err InvalidProgram
      else case checked_mul n (word_of_int size_i) of
        None \<Rightarrow> Err InvalidArgument
      | Some next_n \<Rightarrow> meta_nbytes_loop rest next_n)"

definition meta_calculate_nbytes :: "int list \<Rightarrow> ScalarType \<Rightarrow> usize result" where
  "meta_calculate_nbytes sizes scalar_type =
     r_bind (meta_nbytes_loop sizes 1) (\<lambda>n.
     r_bind (element_size scalar_type) (\<lambda>elem_size.
       case checked_mul n elem_size of
         None \<Rightarrow> Err InvalidArgument
       | Some total_bytes \<Rightarrow> Ok total_bytes))"

record tensor_info =
  in_sizes :: "int list"
  in_dim_order :: "u8 list"
  in_name :: string
  in_scalar_type :: ScalarType
  in_is_memory_planned :: bool
  in_nbytes :: usize

definition tensor_info_create ::
    "int list \<Rightarrow> u8 list \<Rightarrow> ScalarType \<Rightarrow> bool \<Rightarrow> string \<Rightarrow> tensor_info result" where
  "tensor_info_create sizes dim_order scalar_type is_memory_planned name =
     (case meta_calculate_nbytes sizes scalar_type of
        Ok nbytes \<Rightarrow>
          Ok \<lparr>in_sizes = sizes, in_dim_order = dim_order, in_name = name, in_scalar_type = scalar_type,
              in_is_memory_planned = is_memory_planned, in_nbytes = nbytes\<rparr>
      | Err _ \<Rightarrow> Err InvalidArgument
      | Panic \<Rightarrow> Panic)"

text \<open>The common end of the three queries: the metadata of a tensor, under the name \<open>name\<close>.\<close>

definition tensor_meta_of :: "s_tensor option \<Rightarrow> string \<Rightarrow> tensor_info result" where
  "tensor_meta_of tensor_value name =
     (case tensor_value of
        None \<Rightarrow> Err InvalidProgram
      | Some t \<Rightarrow>
          (case (st_sizes t, st_dim_order t) of
             (Some sizes, Some dim_order) \<Rightarrow>
               r_bind (static_cast_scalar_type (st_scalar_type t)) (\<lambda>scalar_type.
                 tensor_info_create sizes dim_order scalar_type
                   (st_allocation_info t \<noteq> None \<or> st_data_buffer_idx t \<noteq> 0) name)
           | _ \<Rightarrow> Err InvalidProgram))"

section \<open>Inputs and outputs\<close>

definition unwrap :: "'a option \<Rightarrow> 'a result" where
  "unwrap x = (case x of None \<Rightarrow> Panic | Some v \<Rightarrow> Ok v)"

definition num_inputs :: "s_plan \<Rightarrow> nat result" where
  "num_inputs plan = r_bind (unwrap (sp_inputs plan)) (\<lambda>is. Ok (length is))"

definition num_outputs :: "s_plan \<Rightarrow> nat result" where
  "num_outputs plan = r_bind (unwrap (sp_outputs plan)) (\<lambda>os. Ok (length os))"

definition input_tag :: "s_plan \<Rightarrow> nat \<Rightarrow> Tag result" where
  "input_tag plan index =
     r_bind (num_inputs plan) (\<lambda>n.
       if \<not> index < n then Err InvalidArgument
       else r_bind (unwrap (sp_inputs plan)) (\<lambda>inputs.
         r_bind (unwrap (sp_values plan)) (\<lambda>values.
           let input_index = inputs ! index
           in if \<not> (0 \<le> input_index \<and> input_index < int (length values)) then Err InvalidProgram
              else get_tag (values ! nat input_index))))"

definition input_tensor_meta :: "s_plan \<Rightarrow> nat \<Rightarrow> tensor_info result" where
  "input_tensor_meta plan index =
     r_bind (input_tag plan index) (\<lambda>tag.
       if tag \<noteq> Tag_Tensor then Err InvalidArgument
       else r_bind (unwrap (sp_inputs plan)) (\<lambda>inputs.
         r_bind (unwrap (sp_values plan)) (\<lambda>values.
           case values ! nat (inputs ! index) of SV_Tensor t \<Rightarrow> tensor_meta_of t [] | _ \<Rightarrow> Err InvalidProgram)))"

definition output_tag :: "s_plan \<Rightarrow> nat \<Rightarrow> Tag result" where
  "output_tag plan index =
     r_bind (num_outputs plan) (\<lambda>n.
       if \<not> index < n then Err InvalidArgument
       else r_bind (unwrap (sp_outputs plan)) (\<lambda>outputs.
         r_bind (unwrap (sp_values plan)) (\<lambda>values.
           let output_index = outputs ! index
           in if \<not> (0 \<le> output_index \<and> output_index < int (length values)) then Err InvalidProgram
              else get_tag (values ! nat output_index))))"

definition output_tensor_meta :: "s_plan \<Rightarrow> nat \<Rightarrow> tensor_info result" where
  "output_tensor_meta plan index =
     r_bind (output_tag plan index) (\<lambda>tag.
       if tag \<noteq> Tag_Tensor then Err InvalidArgument
       else r_bind (unwrap (sp_outputs plan)) (\<lambda>outputs.
         r_bind (unwrap (sp_values plan)) (\<lambda>values.
           case values ! nat (outputs ! index) of SV_Tensor t \<Rightarrow> tensor_meta_of t [] | _ \<Rightarrow> Err InvalidProgram)))"

section \<open>Attributes\<close>

fun is_attribute :: "s_value \<Rightarrow> bool" where
  "is_attribute (SV_Tensor (Some t)) = (st_fully_qualified_name t \<noteq> None)"
| "is_attribute _ = False"

fun count_attributes :: "s_value list \<Rightarrow> nat \<Rightarrow> nat" where
  "count_attributes [] counter = counter"
| "count_attributes (v # vs) counter = count_attributes vs (if is_attribute v then counter + 1 else counter)"

definition num_attributes :: "s_plan \<Rightarrow> nat result" where
  "num_attributes plan = r_bind (unwrap (sp_values plan)) (\<lambda>values. Ok (count_attributes values 0))"

fun attribute_loop :: "nat \<Rightarrow> s_value list \<Rightarrow> nat \<Rightarrow> tensor_info result" where
  "attribute_loop index [] counter = Err InvalidArgument"
| "attribute_loop index (v # vs) counter =
     (case v of
        SV_Tensor (Some t) \<Rightarrow>
          (case st_fully_qualified_name t of
             None \<Rightarrow> attribute_loop index vs counter
           | Some t_name \<Rightarrow>
               if counter = index then tensor_meta_of (Some t) t_name else attribute_loop index vs (counter + 1))
      | _ \<Rightarrow> attribute_loop index vs counter)"

definition attribute_tensor_meta :: "s_plan \<Rightarrow> nat \<Rightarrow> tensor_info result" where
  "attribute_tensor_meta plan index =
     r_bind (unwrap (sp_values plan)) (\<lambda>values. attribute_loop index values 0)"

section \<open>Buffers and backends\<close>

definition num_memory_planned_buffers :: "s_plan \<Rightarrow> nat" where
  "num_memory_planned_buffers plan =
     (case sp_non_const_buffer_sizes plan of
        None \<Rightarrow> 0
      | Some sizes \<Rightarrow> if 0 < length sizes then length sizes - 1 else 0)"

definition memory_planned_buffer_size :: "s_plan \<Rightarrow> nat \<Rightarrow> int result" where
  "memory_planned_buffer_size plan index =
     (if \<not> index < num_memory_planned_buffers plan then Err InvalidArgument
      else r_bind (unwrap (sp_non_const_buffer_sizes plan)) (\<lambda>sizes.
        let sz = sizes ! (index + 1) in if \<not> 0 \<le> sz then Err InvalidProgram else Ok sz))"

definition wrap_i8 :: "int \<Rightarrow> int" where
  "wrap_i8 n = (n + 2 ^ 7) mod 2 ^ 8 - 2 ^ 7"

fun device_loop :: "int \<Rightarrow> s_buffer_device list \<Rightarrow> device result" where
  "device_loop internal_idx [] = Ok \<lparr>device_type = CPU, device_index = 0\<rparr>"
| "device_loop internal_idx (entry # rest) =
     (if sd_buffer_idx entry = internal_idx
      then r_bind (static_cast_device_type (sd_device_type entry)) (\<lambda>dt.
        Ok \<lparr>device_type = dt, device_index = wrap_i8 (sd_device_index entry)\<rparr>)
      else device_loop internal_idx rest)"

definition memory_planned_buffer_device :: "s_plan \<Rightarrow> nat \<Rightarrow> device result" where
  "memory_planned_buffer_device plan index =
     (if \<not> index < num_memory_planned_buffers plan then Err InvalidArgument
      else case sp_non_const_buffer_device plan of
        None \<Rightarrow> Ok \<lparr>device_type = CPU, device_index = 0\<rparr>
      | Some buffer_devices \<Rightarrow> device_loop (wrap_i32 (int index + 1)) buffer_devices)"

fun uses_backend_loop :: "string \<Rightarrow> s_delegate list \<Rightarrow> bool result" where
  "uses_backend_loop backend_name [] = Ok False"
| "uses_backend_loop backend_name (delegate # rest) =
     r_bind (unwrap (sdl_id delegate)) (\<lambda>id'.
       if id' = backend_name then Ok True else uses_backend_loop backend_name rest)"

definition uses_backend :: "s_plan \<Rightarrow> string \<Rightarrow> bool result" where
  "uses_backend plan backend_name =
     r_bind (unwrap (sp_delegates plan)) (uses_backend_loop backend_name)"

definition num_backends :: "s_plan \<Rightarrow> nat" where
  "num_backends plan = (case sp_delegates plan of Some delegates \<Rightarrow> length delegates | None \<Rightarrow> 0)"

definition get_backend_name :: "s_plan \<Rightarrow> nat \<Rightarrow> string result" where
  "get_backend_name plan index =
     (if \<not> index < num_backends plan then Err InvalidArgument
      else r_bind (unwrap (sp_delegates plan)) (\<lambda>delegates. unwrap (sdl_id (delegates ! index))))"

fun count_instructions :: "instruction option list option list \<Rightarrow> nat \<Rightarrow> nat" where
  "count_instructions [] n = n"
| "count_instructions (c # cs) n = count_instructions cs (case c of None \<Rightarrow> n | Some s_instructions \<Rightarrow> n + length s_instructions)"

definition num_instructions :: "s_plan \<Rightarrow> nat" where
  "num_instructions plan = (case sp_chains plan of None \<Rightarrow> 0 | Some cs \<Rightarrow> count_instructions cs 0)"

section \<open>Properties\<close>

lemma meta_nbytes_loop_Ok: "meta_nbytes_loop xs n = Ok m \<longleftrightarrow> calculate_nbytes_loop xs n = Ok m"
  by (induction xs arbitrary: n) (auto simp: checked_mul_def split: option.splits)

lemma meta_calculate_nbytes_Ok: "meta_calculate_nbytes xs ty = Ok m \<longleftrightarrow> calculate_nbytes xs ty = Ok m"
  by (auto simp: meta_calculate_nbytes_def calculate_nbytes_def r_bind_Ok_iff meta_nbytes_loop_Ok)

lemma tensor_valid_nbytes:
  assumes "tensor_valid t" and "st_sizes t = Some xs" and "\<forall>x \<in> set xs. fits_i32 x"
  shows "\<exists>ty es n. static_cast_scalar_type (st_scalar_type t) = Ok ty \<and> is_valid ty \<and> element_size ty = Ok es \<and>
    calculate_nbytes xs ty = Ok n \<and> int (unat n) = prod_list xs * int (unat es)"
proof -
  let ?ty = "all_scalar_types ! nat (st_scalar_type t)"
  have num: "numel_fits xs" and v: "0 \<le> st_scalar_type t" "st_scalar_type t < 30"
    using assms(1,2) by (simp_all add: tensor_valid_def)
  then have cast: "static_cast_scalar_type (st_scalar_type t) = Ok ?ty" by (simp add: static_cast_scalar_type_def)
  have ty: "is_valid ?ty" using scalar_type_from_i8_valid scalar_type_from_i8_eq v by metis
  then obtain es where es: "element_size ?ty = Ok es" using valid_element_size by blast
  have fits: "prod_list xs * int (unat es) < 2 ^ 64" using assms(1,2) es by (simp add: tensor_valid_def)
  have "\<forall>x \<in> set xs. 0 \<le> x" and parts: "\<forall>k \<le> length xs. prod_list (take k xs) < 2 ^ 63"
    using num by (simp_all add: numel_fits_def numel_fits_from_def)
  then obtain m where m: "calculate_nbytes_loop xs 1 = Ok m"
    using calculate_nbytes_loop_total [of xs 1] assms(3) by fastforce
  have um: "int (unat m) = prod_list xs" using calculate_nbytes_loop_Ok [OF assms(3) m] by simp
  have "int (unat m * unat es) < int (2 ^ 64)" using fits um by simp
  then have small: "unat m * unat es < 2 ^ 64" by (simp only: of_nat_less_iff)
  then have "calculate_nbytes xs ?ty = Ok (m * es)"
    by (simp add: calculate_nbytes_def m es checked_mul_def)
  moreover have "int (unat (m * es)) = prod_list xs * int (unat es)"
    using small um by (simp add: unat_mul_no_overflow)
  ultimately show ?thesis using cast ty es by blast
qed

text \<open>Validation is enough for the metadata: for an input of a plan that refers to a tensor which
  validation accepts on its own and which has a dim order, the query returns its sizes, dim order and
  scalar type and the exact byte count, the one a tensor layout of the same sizes has; it neither
  fails nor casts an undefined number.\<close>

theorem validated_input_has_meta:
  assumes "sp_inputs plan = Some inputs" and "sp_values plan = Some values"
    and "index < length inputs" and "inputs ! index = int i" and "i < length values"
    and "values ! i = SV_Tensor (Some t)" and "validate_tensor t = Ok Error_Ok"
    and "st_sizes t = Some xs" and "\<forall>x \<in> set xs. fits_i32 x" and "st_dim_order t = Some d"
  shows "\<exists>info es. input_tensor_meta plan index = Ok info \<and> in_sizes info = xs \<and> in_dim_order info = d \<and>
    discriminant (in_scalar_type info) = st_scalar_type t \<and> is_valid (in_scalar_type info) \<and>
    element_size (in_scalar_type info) = Ok es \<and> int (unat (in_nbytes info)) = prod_list xs * int (unat es) \<and>
    calculate_nbytes xs (in_scalar_type info) = Ok (in_nbytes info)"
proof -
  have valid: "tensor_valid t" using assms(7) by (simp add: validate_tensor_eq split: if_splits)
  obtain ty es n where ty: "static_cast_scalar_type (st_scalar_type t) = Ok ty" "is_valid ty" "element_size ty = Ok es"
    and n: "calculate_nbytes xs ty = Ok n" "int (unat n) = prod_list xs * int (unat es)"
    using tensor_valid_nbytes [OF valid assms(8,9)] by blast
  have "discriminant ty = st_scalar_type t"
  proof -
    have "\<forall>k \<in> set [0..<32]. discriminant (all_scalar_types ! k) = int k"
      by (simp add: all_scalar_types_def upt_rec)
    then have "\<forall>k < 32. discriminant (all_scalar_types ! k) = int k" by simp
    moreover have "ty = all_scalar_types ! nat (st_scalar_type t)" "0 \<le> st_scalar_type t" "st_scalar_type t \<le> 31"
      using ty(1) by (simp_all add: static_cast_scalar_type_def split: if_splits)
    ultimately show ?thesis by simp
  qed
  moreover have "input_tensor_meta plan index =
      Ok \<lparr>in_sizes = xs, in_dim_order = d, in_name = [], in_scalar_type = ty,
        in_is_memory_planned = (st_allocation_info t \<noteq> None \<or> st_data_buffer_idx t \<noteq> 0), in_nbytes = n\<rparr>"
    using assms(1-6,8,10) ty(1) n(1) meta_calculate_nbytes_Ok [of xs ty n]
    by (simp add: input_tensor_meta_def input_tag_def num_inputs_def unwrap_def tensor_meta_of_def
        tensor_info_create_def)
  ultimately show ?thesis using ty n by simp
qed

definition example_plan :: s_plan where
  "example_plan = empty_s_plan
     \<lparr>sp_values := Some [SV_Int (Some 3), SV_Tensor (Some ((named_s_tensor ''w'')
        \<lparr>st_scalar_type := 6, st_sizes := Some [2, 3], st_dim_order := Some [0, 1]\<rparr>))],
      sp_inputs := Some [1], sp_outputs := Some [0], sp_non_const_buffer_sizes := Some [0, 64]\<rparr>"

theorem validated_input_has_meta_witness:
  "\<exists>info. input_tensor_meta example_plan 0 = Ok info \<and> int (unat (in_nbytes info)) = 24"
proof -
  let ?t = "(named_s_tensor ''w'')\<lparr>st_scalar_type := 6, st_sizes := Some [2, 3], st_dim_order := Some [0, 1]\<rparr>"
  have n: "numel_fits [2, 3]" by (simp add: numel_fits_def numel_fits_from_def le_Suc_eq)
  have "tensor_valid ?t" by (simp add: tensor_valid_def n all_scalar_types_def example_schema_defs)
  then have "validate_tensor ?t = Ok Error_Ok" by (simp add: validate_tensor_eq)
  then obtain info es where info: "input_tensor_meta example_plan 0 = Ok info"
    and ty: "discriminant (in_scalar_type info) = 6" "element_size (in_scalar_type info) = Ok es"
    and nb: "int (unat (in_nbytes info)) = 6 * int (unat es)"
    using validated_input_has_meta [of example_plan "[1]" _ 0 1 ?t "[2, 3]" "[0, 1]"]
    by (auto simp: example_plan_def fits_i32_def example_schema_defs)
  have "in_scalar_type info = Float" using ty(1) discriminant_inject [of _ Float] by simp
  then show ?thesis using info ty(2) nb by auto
qed

text \<open>Attributes are the named tensors, in the order of the values table.\<close>

fun attributes_of :: "s_value list \<Rightarrow> (s_tensor \<times> string) list" where
  "attributes_of [] = []"
| "attributes_of (v # vs) =
     (case v of
        SV_Tensor (Some t) \<Rightarrow>
          (case st_fully_qualified_name t of None \<Rightarrow> [] | Some n \<Rightarrow> [(t, n)])
      | _ \<Rightarrow> []) @ attributes_of vs"

lemma count_attributes_eq: "count_attributes vs n = n + length (attributes_of vs)"
  by (induction vs arbitrary: n rule: attributes_of.induct)
    (auto split: s_value.split option.split elim!: is_attribute.elims)

lemma attribute_loop_eq:
  "n \<le> index \<Longrightarrow> attribute_loop index vs n =
     (if index - n < length (attributes_of vs)
      then tensor_meta_of (Some (fst (attributes_of vs ! (index - n)))) (snd (attributes_of vs ! (index - n)))
      else Err InvalidArgument)"
proof (induction vs arbitrary: n)
  case (Cons v vs)
  show ?case
  proof (cases "\<exists>t nm. v = SV_Tensor (Some t) \<and> st_fully_qualified_name t = Some nm")
    case True
    then obtain t nm where v: "v = SV_Tensor (Some t)" "st_fully_qualified_name t = Some nm" by blast
    show ?thesis
    proof (cases "n = index")
      case True
      then show ?thesis using v by simp
    next
      case False
      then have "Suc n \<le> index" "index - n = Suc (index - Suc n)" using Cons.prems by auto
      then show ?thesis using Cons.IH [of "Suc n"] v False by simp
    qed
  next
    case False
    then show ?thesis using Cons by (auto split: s_value.split option.split)
  qed
qed simp

lemma attributes_are_enumerated:
  assumes "sp_values plan = Some values"
  shows "num_attributes plan = Ok (length (attributes_of values)) \<and>
    attribute_tensor_meta plan index =
      (if index < length (attributes_of values)
       then tensor_meta_of (Some (fst (attributes_of values ! index))) (snd (attributes_of values ! index))
       else Err InvalidArgument)"
  using assms attribute_loop_eq [of 0 index "values"]
  by (simp add: num_attributes_def attribute_tensor_meta_def unwrap_def count_attributes_eq)

end
