(* ===== verification/Method_IO.thy ===== *)
theory Method_IO
  imports Method Method_Meta
begin

text \<open>
  Inputs and outputs of a loaded method: \<^verbatim>\<open>set_input\<close>, \<^verbatim>\<open>set_inputs\<close>, \<^verbatim>\<open>set_output_data_ptr\<close>,
  \<^verbatim>\<open>get_outputs\<close>, \<^verbatim>\<open>get_inputs\<close> and the deprecated accessors of \<^verbatim>\<open>runtime/executor/method.rs\<close>. The tensors of the caller are
  handles into the same store as the method's own. \<open>plan\<close> is the plan that \<^verbatim>\<open>method_meta\<close> looks up
  by the method's name; \<open>close\<close> is the floating-point comparison of \<^verbatim>\<open>set_input\<close>, on the bits of two
  doubles. A caller's array of values is a list, whose length is the length passed with it.
\<close>

section \<open>Values\<close>

definition get_value :: "nat \<Rightarrow> ('f, 's) method_state \<Rightarrow> machine \<Rightarrow> evalue result" where
  "get_value i m mc = (if i < m_n_value m then Ok (mc_values mc i) else Panic)"

definition get_input_index :: "nat \<Rightarrow> ('f, 's) method_state \<Rightarrow> nat result" where
  "get_input_index i m = (if i < inputs_size m then Ok (as_usize (the (m_inputs m) ! i)) else Panic)"

definition get_output_index :: "nat \<Rightarrow> ('f, 's) method_state \<Rightarrow> nat result" where
  "get_output_index i m = (if i < outputs_size m then Ok (as_usize (the (m_outputs m) ! i)) else Panic)"

definition get_output :: "nat \<Rightarrow> ('f, 's) method_state \<Rightarrow> machine \<Rightarrow> evalue result" where
  "get_output i m mc = r_bind (get_output_index i m) (\<lambda>idx. r_bind (get_value idx m mc) (\<lambda>e. Ok (from_ref e)))"

section \<open>Setting inputs\<close>

fun input_numel_loop :: "int list \<Rightarrow> int \<Rightarrow> int option" where
  "input_numel_loop [] numel = Some numel"
| "input_numel_loop (x # xs) numel =
     (let (overflow, numel') = mul_overflows_ssize numel x
      in if overflow then None else input_numel_loop xs numel')"

text \<open>The overflow check of a forwarded tensor, in elements and in bytes.\<close>

definition input_size_ok :: "tensor_impl \<Rightarrow> bool result" where
  "input_size_ok src =
     (case input_numel_loop (tensor_sizes src) 1 of
        None \<Rightarrow> Ok False
      | Some numel \<Rightarrow>
          r_bind (element_size (tensor_scalar_type src)) (\<lambda>elem_size.
            Ok (\<not> fst (mul_overflows_size (word_of_int numel) elem_size))))"

text \<open>A planned destination is copied into, any other one shares the source's memory.\<close>

definition forward_data ::
    "bool \<Rightarrow> s_plan \<Rightarrow> tensor_id \<Rightarrow> tensor_id \<Rightarrow> nat \<Rightarrow> machine \<Rightarrow> (Error \<times> machine) result" where
  "forward_data oc plan t_dst t_src input_idx mc =
     (case input_tensor_meta plan input_idx of
        Ok info \<Rightarrow>
          if in_is_memory_planned info
          then r_bind (copy_tensor_data oc t_dst t_src (mc_tensors mc) (mc_bytes mc)) (\<lambda>(err, mem).
            Ok (err, mc\<lparr>mc_bytes := mem\<rparr>))
          else r_bind (share_tensor_data oc t_dst t_src (mc_tensors mc)) (\<lambda>(err, st).
            Ok (err, mc\<lparr>mc_tensors := st\<rparr>))
      | _ \<Rightarrow> Panic)"

definition set_input_tensor ::
    "bool \<Rightarrow> s_plan \<Rightarrow> tensor_id \<Rightarrow> tensor_id \<Rightarrow> nat \<Rightarrow> machine \<Rightarrow> (Error \<times> machine) result" where
  "set_input_tensor oc plan t_dst t_src input_idx mc =
     (let dst = mc_tensors mc t_dst; src = mc_tensors mc t_src
      in if tensor_scalar_type dst \<noteq> tensor_scalar_type src then Ok (InvalidArgument, mc)
         else r_bind (input_size_ok src) (\<lambda>ok.
           if \<not> ok then Ok (InvalidArgument, mc)
           else r_bind (resize_tensor_impl oc t_dst (tensor_sizes src) (mc_tensors mc)) (\<lambda>(err, st).
             if err \<noteq> Error_Ok then Ok (err, mc\<lparr>mc_tensors := st\<rparr>)
             else forward_data oc plan t_dst t_src input_idx (mc\<lparr>mc_tensors := st\<rparr>))))"

definition set_input ::
    "bool \<Rightarrow> (u64 \<Rightarrow> u64 \<Rightarrow> bool) \<Rightarrow> s_plan \<Rightarrow> evalue \<Rightarrow> nat \<Rightarrow> ('f, 's) method_state \<Rightarrow> machine
     \<Rightarrow> (Error \<times> ('f, 's) method_state \<times> machine) result" where
  "set_input oc close plan input_evalue input_idx m mc =
     (if \<not> initialized m then Ok (InvalidState, m, mc)
      else if \<not> (m_instr_idx m = 0 \<and> m_chain_idx m = 0) then Ok (InvalidState, m, mc)
      else if \<not> input_idx < inputs_size m then Ok (InvalidArgument, m, mc)
      else r_bind (get_input_index input_idx m) (\<lambda>e_idx.
        r_bind (get_value e_idx m mc) (\<lambda>e.
          let done = (\<lambda>mc'. Ok (Error_Ok, m\<lparr>m_input_set := (m_input_set m)[input_idx := True]\<rparr>, mc'));
              require = (\<lambda>b. if b then done mc else Ok (InvalidArgument, m, mc))
          in if \<not> (ev_is_none e \<or> ev_is_tensor e \<or> ev_is_scalar e \<or> ev_is_string e)
             then Ok (InvalidArgument, m, mc)
             else if ev_tag e \<noteq> ev_tag input_evalue then Ok (InvalidArgument, m, mc)
             else if ev_is_none e then done mc
             else if ev_is_tensor e then
               r_bind (to_tensor e) (\<lambda>t_dst.
               r_bind (to_tensor input_evalue) (\<lambda>t_src.
               r_bind (set_input_tensor oc plan t_dst t_src input_idx mc) (\<lambda>(err, mc').
                 if err \<noteq> Error_Ok then Ok (err, m, mc') else done mc')))
             else if ev_is_int e then
               r_bind (to_int e) (\<lambda>a. r_bind (to_int input_evalue) (\<lambda>b. require (a = b)))
             else if ev_is_bool e then
               r_bind (to_bool e) (\<lambda>a. r_bind (to_bool input_evalue) (\<lambda>b. require (a = b)))
             else if ev_is_double e then
               r_bind (to_double input_evalue) (\<lambda>lhs. r_bind (to_double e) (\<lambda>rhs. require (close lhs rhs)))
             else if ev_is_string e then
               r_bind (to_string e) (\<lambda>a. r_bind (to_string input_evalue) (\<lambda>b. require (a = b)))
             else Ok (InvalidArgument, m, mc))))"

fun set_inputs_loop ::
    "bool \<Rightarrow> (u64 \<Rightarrow> u64 \<Rightarrow> bool) \<Rightarrow> s_plan \<Rightarrow> evalue list \<Rightarrow> nat \<Rightarrow> ('f, 's) method_state \<Rightarrow> machine
     \<Rightarrow> (Error \<times> ('f, 's) method_state \<times> machine) result" where
  "set_inputs_loop oc close plan [] i m mc = Ok (Error_Ok, m, mc)"
| "set_inputs_loop oc close plan (e # es) i m mc =
     r_bind (set_input oc close plan e i m mc) (\<lambda>(err, m', mc').
       if err \<noteq> Error_Ok then Ok (err, m', mc') else set_inputs_loop oc close plan es (Suc i) m' mc')"

definition set_inputs ::
    "bool \<Rightarrow> (u64 \<Rightarrow> u64 \<Rightarrow> bool) \<Rightarrow> s_plan \<Rightarrow> evalue list \<Rightarrow> ('f, 's) method_state \<Rightarrow> machine
     \<Rightarrow> (Error \<times> ('f, 's) method_state \<times> machine) result" where
  "set_inputs oc close plan input_evalues m mc =
     (if length input_evalues \<noteq> inputs_size m then Ok (InvalidArgument, m, mc)
      else set_inputs_loop oc close plan input_evalues 0 m mc)"

section \<open>Outputs\<close>

definition set_output_data_ptr ::
    "bool \<Rightarrow> s_plan \<Rightarrow> usize \<Rightarrow> usize \<Rightarrow> nat \<Rightarrow> ('f, 's) method_state \<Rightarrow> machine \<Rightarrow> (Error \<times> machine) result" where
  "set_output_data_ptr oc plan buffer sz output_idx m mc =
     (if \<not> initialized m then Ok (InvalidState, mc)
      else if \<not> output_idx < outputs_size m then Ok (InvalidArgument, mc)
      else r_bind (get_output_index output_idx m) (\<lambda>out_idx.
        r_bind (get_value out_idx m mc) (\<lambda>output.
          if \<not> ev_is_tensor output then Ok (InvalidArgument, mc)
          else case output_tensor_meta plan output_idx of
            Ok info \<Rightarrow>
              if in_is_memory_planned info then Ok (InvalidState, mc)
              else r_bind (to_tensor output) (\<lambda>t.
                r_bind (tensor_nbytes oc (mc_tensors mc t)) (\<lambda>nbytes.
                  if \<not> nbytes \<le> sz then Ok (InvalidArgument, mc)
                  else r_bind (set_tensor_data oc t buffer sz (mc_tensors mc)) (\<lambda>(err, st).
                    Ok (err, mc\<lparr>mc_tensors := st\<rparr>))))
          | _ \<Rightarrow> Panic)))"

fun outputs_loop :: "('f, 's) method_state \<Rightarrow> machine \<Rightarrow> nat list \<Rightarrow> evalue list \<Rightarrow> evalue list result" where
  "outputs_loop m mc [] arr = Ok arr"
| "outputs_loop m mc (i # is) arr =
     r_bind (get_output i m mc) (\<lambda>out. outputs_loop m mc is (arr[i := fst (move_from out)]))"

fun clear_loop :: "nat list \<Rightarrow> evalue list \<Rightarrow> evalue list" where
  "clear_loop [] arr = arr"
| "clear_loop (i # is) arr = clear_loop is (arr[i := E_None])"

definition get_outputs :: "('f, 's) method_state \<Rightarrow> machine \<Rightarrow> evalue list \<Rightarrow> (Error \<times> evalue list) result" where
  "get_outputs m mc arr =
     (if \<not> initialized m then Ok (InvalidState, arr)
      else let n_output = outputs_size m
      in if \<not> n_output \<le> length arr then Ok (InvalidArgument, arr)
         else r_bind (outputs_loop m mc [0..<n_output] arr) (\<lambda>arr'.
           Ok (Error_Ok, clear_loop [n_output..<length arr] arr')))"

fun inputs_loop ::
    "machine \<Rightarrow> nat list \<Rightarrow> ('f, 's) method_state \<Rightarrow> evalue list \<Rightarrow> (('f, 's) method_state \<times> evalue list) result" where
  "inputs_loop mc [] m arr = Ok (m, arr)"
| "inputs_loop mc (i # is) m arr =
     r_bind (get_input_index i m) (\<lambda>idx.
     r_bind (get_value idx m mc) (\<lambda>e.
       inputs_loop mc is (m\<lparr>m_input_set := (m_input_set m)[i := True]\<rparr>) (arr[i := fst (move_from (from_ref e))])))"

definition get_inputs ::
    "('f, 's) method_state \<Rightarrow> machine \<Rightarrow> evalue list \<Rightarrow> (Error \<times> ('f, 's) method_state \<times> evalue list) result" where
  "get_inputs m mc arr =
     (if \<not> initialized m then Ok (InvalidState, m, arr)
      else let n_input = inputs_size m
      in if \<not> n_input \<le> length arr then Ok (InvalidArgument, m, arr)
         else r_bind (inputs_loop mc [0..<n_input] m arr) (\<lambda>(m', arr').
           Ok (Error_Ok, m', clear_loop [n_input..<length arr] arr')))"

section \<open>Other accessors\<close>

text \<open>
  The deprecated accessors of an input mark it as set; the mark is written before the index is
  checked, which past the end of the array is undefined. A mutable reference is the index of the value.
\<close>

definition mark_input :: "nat \<Rightarrow> ('f, 's) method_state \<Rightarrow> ('f, 's) method_state result" where
  "mark_input i m =
     (if i < length (m_input_set m) then Ok (m\<lparr>m_input_set := (m_input_set m)[i := True]\<rparr>) else Panic)"

definition get_input :: "nat \<Rightarrow> ('f, 's) method_state \<Rightarrow> machine \<Rightarrow> (evalue \<times> ('f, 's) method_state) result" where
  "get_input i m mc =
     r_bind (mark_input i m) (\<lambda>m'.
     r_bind (get_input_index i m') (\<lambda>idx.
     r_bind (get_value idx m' mc) (\<lambda>e. Ok (e, m'))))"

definition mutable_value :: "nat \<Rightarrow> ('f, 's) method_state \<Rightarrow> nat result" where
  "mutable_value i m = (if i < m_n_value m then Ok i else Panic)"

definition mutable_input :: "nat \<Rightarrow> ('f, 's) method_state \<Rightarrow> (nat \<times> ('f, 's) method_state) result" where
  "mutable_input i m =
     r_bind (mark_input i m) (\<lambda>m'.
     r_bind (get_input_index i m') (\<lambda>idx.
     r_bind (mutable_value idx m') (\<lambda>v. Ok (v, m'))))"

definition mutable_output :: "nat \<Rightarrow> ('f, 's) method_state \<Rightarrow> nat result" where
  "mutable_output i m = r_bind (get_output_index i m) (\<lambda>idx. mutable_value idx m)"

text \<open>The tensor of an attribute: that of the first serialized tensor with the name.\<close>

fun attribute_loop :: "string \<Rightarrow> s_value list \<Rightarrow> nat \<Rightarrow> ('f, 's) method_state \<Rightarrow> machine \<Rightarrow> tensor_id result" where
  "attribute_loop name [] counter m mc = Err NotFound"
| "attribute_loop name (v # vs) counter m mc =
     (case v of
        SV_Tensor None \<Rightarrow> Panic
      | SV_Tensor (Some t) \<Rightarrow>
          if st_fully_qualified_name t = Some name then
            r_bind (get_value counter m mc) (\<lambda>e. if \<not> ev_is_tensor e then Err Internal else to_tensor e)
          else attribute_loop name vs (counter + 1) m mc
      | _ \<Rightarrow> attribute_loop name vs (counter + 1) m mc)"

definition get_attribute :: "string \<Rightarrow> s_plan \<Rightarrow> ('f, 's) method_state \<Rightarrow> machine \<Rightarrow> tensor_id result" where
  "get_attribute name plan m mc =
     r_bind (unwrap (sp_values plan)) (\<lambda>flatbuffer_values. attribute_loop name flatbuffer_values 0 m mc)"

section \<open>Properties\<close>

text \<open>The bounds check of a forwarded tensor does not depend on the destination.\<close>

lemma input_numel_loop_nonneg:
  assumes "\<forall>x \<in> set xs. 0 \<le> x" and "0 \<le> n" and "n < 2 ^ 63"
  shows "input_numel_loop xs n = (if numel_fits_from n xs then Some (n * prod_list xs) else None)"
  using assms
proof (induction xs arbitrary: n)
  case Nil
  then show ?case by (simp add: numel_fits_from_def)
next
  case (Cons x xs)
  have nn: "0 \<le> n * x" using Cons.prems by simp
  show ?case
  proof (cases "n * x < 2 ^ 63")
    case True
    then have "input_numel_loop (x # xs) n = input_numel_loop xs (n * x)"
      using fits_i64_nonneg [OF nn] by (simp add: mul_overflows_ssize_def)
    then show ?thesis using Cons.IH [of "n * x"] Cons.prems nn True
      by (simp add: numel_fits_from_Cons mult.assoc)
  next
    case False
    then have "\<not> numel_fits_from (n * x) xs" using numel_fits_from_first by blast
    then show ?thesis using False fits_i64_nonneg [OF nn]
      by (simp add: mul_overflows_ssize_def numel_fits_from_Cons)
  qed
qed

text \<open>What forwarding a tensor may change: only the destination's header and the bytes.\<close>

definition only_tensor :: "tensor_id \<Rightarrow> machine \<Rightarrow> machine \<Rightarrow> bool" where
  "only_tensor t mc mc' \<longleftrightarrow> mc_values mc' = mc_values mc \<and> (\<forall>u. u \<noteq> t \<longrightarrow> mc_tensors mc' u = mc_tensors mc u)"

lemma resize_only_tensor:
  "ok_post (\<lambda>(err, st). \<forall>u. u \<noteq> t \<longrightarrow> st u = st0 u) (resize_tensor_impl oc t sizes st0)"
  unfolding resize_tensor_impl_def ok_post_bind by (rule ok_post_trivial) auto

lemma share_only_tensor:
  "ok_post (\<lambda>(err, st). \<forall>u. u \<noteq> t \<longrightarrow> st u = st0 u) (share_tensor_data oc t src st0)"
  unfolding share_tensor_data_def ok_post_bind
  by (rule ok_post_trivial, rule ok_post_trivial) (auto simp: update_tensor_def Let_def)

lemma forward_data_post:
  "ok_post (\<lambda>(err, mc'). only_tensor t_dst mc mc') (forward_data oc plan t_dst t_src input_idx mc)"
proof (cases "input_tensor_meta plan input_idx")
  case (Ok info)
  show ?thesis
  proof (cases "in_is_memory_planned info")
    case True
    show ?thesis unfolding forward_data_def Ok outcome.case if_P [OF True] ok_post_bind
      by (rule ok_post_trivial) (auto simp: only_tensor_def)
  next
    case False
    show ?thesis unfolding forward_data_def Ok outcome.case if_not_P [OF False] ok_post_bind
      by (rule ok_post_mono [OF share_only_tensor [of t_dst "mc_tensors mc"]]) (auto simp: only_tensor_def)
  qed
qed (simp_all add: forward_data_def)

lemma only_tensor_refl [simp]: "only_tensor t mc mc"
  by (simp add: only_tensor_def)

lemma only_tensor_trans: "only_tensor t a b \<Longrightarrow> only_tensor t b c \<Longrightarrow> only_tensor t a c"
  by (simp add: only_tensor_def)

lemma set_input_tensor_post:
  "ok_post (\<lambda>(err, mc'). only_tensor t_dst mc mc') (set_input_tensor oc plan t_dst t_src input_idx mc)"
proof -
  have "ok_post (\<lambda>x. ok_post (\<lambda>(err, mc'). only_tensor t_dst mc mc') (case x of (err, st) \<Rightarrow>
      if err \<noteq> Error_Ok then Ok (err, mc\<lparr>mc_tensors := st\<rparr>)
      else forward_data oc plan t_dst t_src input_idx (mc\<lparr>mc_tensors := st\<rparr>)))
    (resize_tensor_impl oc t_dst sizes (mc_tensors mc))" for sizes
  proof (rule ok_post_mono [OF resize_only_tensor [of t_dst "mc_tensors mc"]], clarify)
    fix err st
    assume st: "\<forall>u. u \<noteq> t_dst \<longrightarrow> st u = mc_tensors mc u"
    then have one: "only_tensor t_dst mc (mc\<lparr>mc_tensors := st\<rparr>)" by (simp add: only_tensor_def)
    have "ok_post (\<lambda>(err, mc'). only_tensor t_dst mc mc')
        (forward_data oc plan t_dst t_src input_idx (mc\<lparr>mc_tensors := st\<rparr>))"
      by (rule ok_post_mono [OF forward_data_post]) (use only_tensor_trans [OF one] in auto)
    then show "ok_post (\<lambda>(err, mc'). only_tensor t_dst mc mc')
        (if err \<noteq> Error_Ok then Ok (err, mc\<lparr>mc_tensors := st\<rparr>)
         else forward_data oc plan t_dst t_src input_idx (mc\<lparr>mc_tensors := st\<rparr>))"
      using one by simp
  qed
  then show ?thesis
    unfolding set_input_tensor_def Let_def by (auto intro!: ok_post_trivial)
qed

lemma tag_cases:
  "ev_tag v = Tag_None \<longleftrightarrow> v = E_None"
  "ev_tag v = Tag_Tensor \<longleftrightarrow> (\<exists>t. v = E_Tensor t)"
  "ev_tag v = Tag_Int \<longleftrightarrow> (\<exists>x. v = E_Int x)"
  "ev_tag v = Tag_Bool \<longleftrightarrow> (\<exists>x. v = E_Bool x)"
  "ev_tag v = Tag_Double \<longleftrightarrow> (\<exists>x. v = E_Double x)"
  "ev_tag v = Tag_String \<longleftrightarrow> (\<exists>x. v = E_String x)"
  by (cases v; simp)+

lemmas ev_tests = ev_is_none_def ev_is_tensor_def ev_is_scalar_def ev_is_string_def ev_is_int_def ev_is_bool_def
  ev_is_double_def

lemma to_string_eq: "to_string (E_String x) = (case x of None \<Rightarrow> Panic | Some s \<Rightarrow> Ok s)"
  by (cases x) simp_all

text \<open>The value of the method that an accepted input is compared with, or that it replaces.\<close>

definition input_matches :: "(u64 \<Rightarrow> u64 \<Rightarrow> bool) \<Rightarrow> evalue \<Rightarrow> evalue \<Rightarrow> machine \<Rightarrow> machine \<Rightarrow> bool" where
  "input_matches close e input_evalue mc mc' \<longleftrightarrow> ev_tag e = ev_tag input_evalue \<and>
     (case e of
        E_Tensor t \<Rightarrow> only_tensor t mc mc'
      | E_Double d \<Rightarrow> mc' = mc \<and> (\<exists>x. input_evalue = E_Double x \<and> close x d)
      | v \<Rightarrow> mc' = mc \<and> input_evalue = v)"

lemma set_input_post:
  "ok_post (\<lambda>(err, m', mc'). mc_values mc' = mc_values mc \<and>
     (if err \<noteq> Error_Ok then m' = m
      else m' = m\<lparr>m_input_set := (m_input_set m)[input_idx := True]\<rparr> \<and> initialized m \<and> m_chain_idx m = 0 \<and>
        m_instr_idx m = 0 \<and> input_idx < inputs_size m \<and>
        (\<exists>i. get_input_index input_idx m = Ok i \<and> input_matches close (mc_values mc i) input_evalue mc mc')))
    (set_input oc close plan input_evalue input_idx m mc)"
proof (cases "initialized m \<and> m_instr_idx m = 0 \<and> m_chain_idx m = 0 \<and> input_idx < inputs_size m")
  case False
  then show ?thesis by (auto simp: set_input_def)
next
  case True
  then obtain i where i: "get_input_index input_idx m = Ok i" by (auto simp: get_input_index_def)
  show ?thesis
  proof (cases "ev_tag (mc_values mc i) = ev_tag input_evalue")
    case False
    then show ?thesis using True i by (simp add: set_input_def get_value_def)
  next
    case tag: True
    note guards = True i ev_tests get_value_def input_matches_def
    show ?thesis
    proof (cases "mc_values mc i")
      case (E_Tensor t)
      then obtain u where u: "input_evalue = E_Tensor u" using tag tag_cases(2) [of input_evalue] by auto
      have post: "ok_post (\<lambda>(err, mc'). only_tensor t mc mc') (set_input_tensor oc plan t u input_idx mc)"
        by (rule set_input_tensor_post)
      show ?thesis
        by (simp add: set_input_def guards E_Tensor u)
          (rule impI, rule ok_post_mono [OF post], auto simp: only_tensor_def)
    next
      case E_None
      then have "input_evalue = E_None" using tag tag_cases(1) [of input_evalue] by simp
      then show ?thesis using E_None by (simp add: set_input_def guards)
    next
      case (E_Int x)
      then obtain y where "input_evalue = E_Int y" using tag tag_cases(3) [of input_evalue] by auto
      then show ?thesis using E_Int by (simp add: set_input_def guards)
    next
      case (E_Bool x)
      then obtain y where "input_evalue = E_Bool y" using tag tag_cases(4) [of input_evalue] by auto
      then show ?thesis using E_Bool by (simp add: set_input_def guards)
    next
      case (E_Double x)
      then obtain y where "input_evalue = E_Double y" using tag tag_cases(5) [of input_evalue] by auto
      then show ?thesis using E_Double by (simp add: set_input_def guards)
    next
      case (E_String x)
      then obtain y where "input_evalue = E_String y" using tag tag_cases(6) [of input_evalue] by auto
      then show ?thesis using E_String by (simp add: set_input_def guards to_string_eq split: option.split)
    qed (use True i in \<open>simp_all add: set_input_def get_value_def ev_tests\<close>)
  qed
qed

lemma set_inputs_loop_post:
  "i + length es \<le> length (m_input_set m) \<Longrightarrow>
   ok_post (\<lambda>(err, m', mc'). mc_values mc' = mc_values mc \<and> m' = m\<lparr>m_input_set := m_input_set m'\<rparr> \<and>
     length (m_input_set m') = length (m_input_set m) \<and>
     (err = Error_Ok \<longrightarrow>
       (\<forall>k < length (m_input_set m). m_input_set m' ! k = (m_input_set m ! k \<or> i \<le> k \<and> k < i + length es)) \<and>
       (\<forall>k < length es. \<exists>j. get_input_index (i + k) m = Ok j \<and> ev_tag (mc_values mc j) = ev_tag (es ! k))))
    (set_inputs_loop oc close plan es i m mc)"
proof (induction es arbitrary: i m mc)
  case (Cons e es)
  have rest: "ok_post (\<lambda>(err, m', mc'). mc_values mc' = mc_values mc \<and> m' = m\<lparr>m_input_set := m_input_set m'\<rparr> \<and>
      length (m_input_set m') = length (m_input_set m) \<and>
      (err = Error_Ok \<longrightarrow>
        (\<forall>k < length (m_input_set m). m_input_set m' ! k = (m_input_set m ! k \<or> i \<le> k \<and> k < i + length (e # es))) \<and>
        (\<forall>k < length (e # es). \<exists>j. get_input_index (i + k) m = Ok j \<and> ev_tag (mc_values mc j) = ev_tag ((e # es) ! k))))
      (set_inputs_loop oc close plan es (Suc i) m1 mc1)"
    if m1: "m1 = m\<lparr>m_input_set := (m_input_set m)[i := True]\<rparr>" and mc1: "mc_values mc1 = mc_values mc"
      and j: "get_input_index i m = Ok j" "ev_tag (mc_values mc j) = ev_tag e" for m1 mc1 j
  proof -
    have same: "get_input_index k m1 = get_input_index k m" for k
      by (simp add: m1 get_input_index_def inputs_size_def)
    have "Suc i + length es \<le> length (m_input_set m1)" using Cons.prems m1 by simp
    then show ?thesis
    proof (rule ok_post_mono [OF Cons.IH], clarify, intro conjI impI)
      fix err m' mc'
      assume H: "mc_values mc' = mc_values mc1" "m' = m1\<lparr>m_input_set := m_input_set m'\<rparr>"
        "length (m_input_set m') = length (m_input_set m1)"
        "err = Error_Ok \<longrightarrow>
          (\<forall>k < length (m_input_set m1). m_input_set m' ! k = (m_input_set m1 ! k \<or> Suc i \<le> k \<and> k < Suc i + length es)) \<and>
          (\<forall>k < length es. \<exists>j. get_input_index (Suc i + k) m1 = Ok j \<and> ev_tag (mc_values mc1 j) = ev_tag (es ! k))"
      show "mc_values mc' = mc_values mc" using H(1) mc1 by simp
      show "m' = m\<lparr>m_input_set := m_input_set m'\<rparr>" using H(2) m1 by (cases m, cases m') simp
      show "length (m_input_set m') = length (m_input_set m)" using H(3) m1 by simp
      assume ok: "err = Error_Ok"
      show "\<forall>k < length (m_input_set m). m_input_set m' ! k = (m_input_set m ! k \<or> i \<le> k \<and> k < i + length (e # es))"
      proof (intro allI impI)
        fix k
        assume k: "k < length (m_input_set m)"
        then have "m_input_set m' ! k = ((m_input_set m)[i := True] ! k \<or> Suc i \<le> k \<and> k < Suc i + length es)"
          using H(4) ok m1 by simp
        then show "m_input_set m' ! k = (m_input_set m ! k \<or> i \<le> k \<and> k < i + length (e # es))"
          using k by (cases "k = i") auto
      qed
      show "\<forall>k < length (e # es). \<exists>j. get_input_index (i + k) m = Ok j \<and> ev_tag (mc_values mc j) = ev_tag ((e # es) ! k)"
      proof (intro allI impI)
        fix k
        assume "k < length (e # es)"
        then show "\<exists>j. get_input_index (i + k) m = Ok j \<and> ev_tag (mc_values mc j) = ev_tag ((e # es) ! k)"
          using H(4) ok same mc1 j by (cases k) auto
      qed
    qed
  qed
  show ?case
    unfolding set_inputs_loop.simps ok_post_bind
  proof (rule ok_post_mono [OF set_input_post], clarify)
    fix err m1 mc1
    assume H: "mc_values mc1 = mc_values mc"
      "if err \<noteq> Error_Ok then m1 = m
       else m1 = m\<lparr>m_input_set := (m_input_set m)[i := True]\<rparr> \<and> initialized m \<and> m_chain_idx m = 0 \<and>
        m_instr_idx m = 0 \<and> i < inputs_size m \<and>
        (\<exists>j. get_input_index i m = Ok j \<and> input_matches close (mc_values mc j) e mc mc1)"
    show "ok_post (\<lambda>(err, m', mc'). mc_values mc' = mc_values mc \<and> m' = m\<lparr>m_input_set := m_input_set m'\<rparr> \<and>
        length (m_input_set m') = length (m_input_set m) \<and>
        (err = Error_Ok \<longrightarrow>
          (\<forall>k < length (m_input_set m). m_input_set m' ! k = (m_input_set m ! k \<or> i \<le> k \<and> k < i + length (e # es))) \<and>
          (\<forall>k < length (e # es). \<exists>j. get_input_index (i + k) m = Ok j \<and> ev_tag (mc_values mc j) = ev_tag ((e # es) ! k))))
        (if err \<noteq> Error_Ok then Ok (err, m1, mc1) else set_inputs_loop oc close plan es (Suc i) m1 mc1)"
    proof (cases "err = Error_Ok")
      case True
      then show ?thesis using H rest [of m1 mc1] by (auto simp: input_matches_def)
    next
      case False
      then show ?thesis using H by simp
    qed
  qed
qed auto

text \<open>C25. Setting all inputs makes a method ready: on an initialised method that is not in the middle of
  an execution, a successful \<^verbatim>\<open>set_inputs\<close> was given as many values as the method has inputs, each of
  the input's type, and leaves a method that \<^verbatim>\<open>execute\<close> accepts; the values table, the position and
  everything else of the method are unchanged.\<close>

theorem set_inputs_makes_ready:
  assumes "initialized m" and "\<not> in_progress m" and "length (m_input_set m) = inputs_size m"
    and "set_inputs oc close plan es m mc = Ok (Error_Ok, m', mc')"
  shows "may_start m' \<and> m' = m\<lparr>m_input_set := m_input_set m'\<rparr> \<and> mc_values mc' = mc_values mc \<and>
    length es = inputs_size m \<and>
    (\<forall>k < length es. \<exists>j. get_input_index k m = Ok j \<and> ev_tag (mc_values mc j) = ev_tag (es ! k))"
proof -
  have len: "length es = inputs_size m" and loop: "set_inputs_loop oc close plan es 0 m mc = Ok (Error_Ok, m', mc')"
    using assms(4) by (simp_all add: set_inputs_def split: if_splits)
  have post: "mc_values mc' = mc_values mc" "m' = m\<lparr>m_input_set := m_input_set m'\<rparr>"
    "\<forall>k < length (m_input_set m). m_input_set m' ! k"
    "\<forall>k < length es. \<exists>j. get_input_index k m = Ok j \<and> ev_tag (mc_values mc j) = ev_tag (es ! k)"
    using ok_postD [OF set_inputs_loop_post loop] len assms(3) by auto
  have "initialized m' = initialized m" "in_progress m' = in_progress m" "inputs_size m' = inputs_size m"
    by (subst post(2), simp add: initialized_def in_progress_def n_chains_def inputs_size_def)+
  then have "may_start m'" using assms(1-3) post(3) by (simp add: may_start_def)
  then show ?thesis using post len by blast
qed

theorem set_inputs_makes_ready_witness:
  "\<exists>m' mc'. set_inputs True (=) example_plan [E_Int 5] ((example_method 2)\<lparr>m_inputs := Some [1], m_input_set := [False]\<rparr>)
      example_machine = Ok (Error_Ok, m', mc') \<and> may_start m'"
proof -
  let ?m = "(example_method 2)\<lparr>m_inputs := Some [1], m_input_set := [False]\<rparr>"
  have "set_inputs True (=) example_plan [E_Int 5] ?m example_machine =
      Ok (Error_Ok, ?m\<lparr>m_input_set := [True]\<rparr>, example_machine)"
    by (simp add: set_inputs_def set_input_def example_defs start_defs get_input_index_def get_value_def as_usize_def ev_tests)
  then show ?thesis
    using set_inputs_makes_ready [of ?m True "(=)" example_plan "[E_Int 5]" example_machine]
    by (simp add: example_method_def start_defs)
qed

lemma outputs_loop_eq:
  assumes "n \<le> length arr" and "\<forall>i < n. get_output i m mc = Ok (val i)" and "j \<le> n"
  shows "outputs_loop m mc [j..<n] arr = Ok (take j arr @ map val [j..<n] @ drop n arr)"
  using assms
proof (induction "n - j" arbitrary: j arr)
  case 0
  then show ?case by simp
next
  case (Suc k)
  then have j: "j < n" "[j..<n] = j # [Suc j..<n]" by (auto simp: upt_conv_Cons)
  have "outputs_loop m mc [Suc j..<n] (arr[j := val j]) =
      Ok (take (Suc j) (arr[j := val j]) @ map val [Suc j..<n] @ drop n (arr[j := val j]))"
    using Suc.hyps(2) Suc.prems j(1) by (intro Suc.hyps(1)) simp_all
  then show ?case using j Suc.prems by (simp add: move_from_def take_Suc_conv_app_nth)
qed

lemma clear_loop_eq:
  "j \<le> length arr \<Longrightarrow> clear_loop [j..<length arr] arr = take j arr @ replicate (length arr - j) E_None"
proof (induction "length arr - j" arbitrary: j arr)
  case 0
  then show ?case by simp
next
  case (Suc k)
  then have j: "j < length arr" "[j..<length arr] = j # [Suc j..<length arr]" by (auto simp: upt_conv_Cons)
  have "clear_loop [Suc j..<length (arr[j := E_None])] (arr[j := E_None]) =
      take (Suc j) (arr[j := E_None]) @ replicate (length (arr[j := E_None]) - Suc j) E_None"
    using Suc.hyps(2) j(1) by (intro Suc.hyps(1)) simp_all
  then show ?case using j Suc.hyps(2)
    by (simp add: take_Suc_conv_app_nth flip: replicate_Suc)
qed

text \<open>The outputs are delivered exactly: into an array with room for them, \<^verbatim>\<open>get_outputs\<close> copies the
  method's output values in order and clears the rest of the array, whatever it held; without room
  it writes nothing.\<close>

theorem get_outputs_exact:
  assumes "initialized m" and "m_outputs m = Some outs" and "\<forall>o' \<in> set outs. as_usize o' < m_n_value m"
  shows "get_outputs m mc arr =
    (if length outs \<le> length arr
     then Ok (Error_Ok, map (\<lambda>o'. mc_values mc (as_usize o')) outs @ replicate (length arr - length outs) E_None)
     else Ok (InvalidArgument, arr))"
proof (cases "length outs \<le> length arr")
  case False
  then show ?thesis using assms by (simp add: get_outputs_def outputs_size_def)
next
  case True
  let ?val = "\<lambda>i. mc_values mc (as_usize (outs ! i))"
  have "\<forall>i < length outs. get_output i m mc = Ok (?val i)"
    using assms by (simp add: get_output_def get_output_index_def outputs_size_def get_value_def from_ref_def)
  then have loop: "outputs_loop m mc [0..<length outs] arr = Ok (map ?val [0..<length outs] @ drop (length outs) arr)"
    using outputs_loop_eq [of "length outs" arr m mc ?val 0] True by simp
  have "map ?val [0..<length outs] = map (\<lambda>o'. mc_values mc (as_usize o')) outs"
    by (rule nth_equalityI) simp_all
  then show ?thesis
    using assms(1,2) True loop
      clear_loop_eq [of "length outs" "map (\<lambda>o'. mc_values mc (as_usize o')) outs @ drop (length outs) arr"]
    by (simp add: get_outputs_def outputs_size_def)
qed

theorem get_outputs_exact_witness:
  "get_outputs ((example_method 2)\<lparr>m_outputs := Some [1, 0]\<rparr>) example_machine [E_Int 1, E_Int 2, E_Int 3] =
    Ok (Error_Ok, [E_Int 5, E_Bool False, E_None])"
  using get_outputs_exact [of "(example_method 2)\<lparr>m_outputs := Some [1, 0]\<rparr>" "[1, 0]" example_machine
      "[E_Int 1, E_Int 2, E_Int 3]"]
  by (simp add: example_method_def initialized_def as_usize_def example_machine_def)

text \<open>Redirecting an output never gives a buffer that is too small, and never a planned output.\<close>

lemma set_output_data_ptr_post:
  "ok_post (\<lambda>(err, mc'). if err = Error_Ok
      then \<exists>t n info. output_tensor_meta plan output_idx = Ok info \<and> \<not> in_is_memory_planned info \<and>
        tensor_nbytes oc (mc_tensors mc t) = Ok n \<and> n \<le> sz \<and>
        mc' = mc\<lparr>mc_tensors := update_tensor t (tensor_set_data buffer) (mc_tensors mc)\<rparr>
      else mc' = mc)
    (set_output_data_ptr oc plan buffer sz output_idx m mc)"
proof (cases "initialized m \<and> output_idx < outputs_size m")
  case False
  then show ?thesis by (auto simp: set_output_data_ptr_def)
next
  case True
  obtain idx where idx: "get_output_index output_idx m = Ok idx" using True by (auto simp: get_output_index_def)
  show ?thesis
  proof (cases "idx < m_n_value m \<and> ev_is_tensor (mc_values mc idx)")
    case False
    then show ?thesis using True idx by (auto simp: set_output_data_ptr_def get_value_def)
  next
    case tensor: True
    then obtain t where t: "mc_values mc idx = E_Tensor t" using tag_cases(2) by (auto simp: ev_is_tensor_def)
    note eqs = set_output_data_ptr_def get_value_def idx t ev_is_tensor_def
    show ?thesis
    proof (cases "output_tensor_meta plan output_idx")
      case (Ok info)
      show ?thesis
      proof (cases "in_is_memory_planned info")
        case planned: True
        then show ?thesis using True tensor Ok by (simp add: eqs)
      next
        case False
        then show ?thesis using True tensor Ok
          by (cases "tensor_nbytes oc (mc_tensors mc t)") (auto simp: eqs set_tensor_data_def)
      qed
    qed (use True tensor in \<open>simp_all add: eqs\<close>)
  qed
qed

section \<open>Attributes\<close>

text \<open>A value is the tensor with the name.\<close>

definition value_named :: "string \<Rightarrow> s_value \<Rightarrow> bool" where
  "value_named name v \<longleftrightarrow> (\<exists>t. v = SV_Tensor (Some t) \<and> st_fully_qualified_name t = Some name)"

definition first_named :: "string \<Rightarrow> s_value list \<Rightarrow> nat" where
  "first_named name vs = length (takeWhile (\<lambda>v. \<not> value_named name v) vs)"

lemma attribute_loop_first:
  assumes "SV_Tensor None \<notin> set vs"
  shows "attribute_loop name vs c m mc =
    (if first_named name vs < length vs
     then r_bind (get_value (c + first_named name vs) m mc) (\<lambda>e. if \<not> ev_is_tensor e then Err Internal else to_tensor e)
     else Err NotFound)"
  using assms
  by (induction vs arbitrary: c) (auto simp: first_named_def value_named_def split: s_value.splits option.splits)

text \<open>
  An attribute is the tensor in the slot of the first serialized tensor with its name; no other slot is
  looked at, and a slot that no longer holds a tensor is an error. A name that no tensor has is not found.
\<close>

theorem get_attribute_first:
  assumes "sp_values plan = Some vs" and "SV_Tensor None \<notin> set vs" and "m_n_value m = length vs"
  shows "get_attribute name plan m mc =
    (if \<exists>v \<in> set vs. value_named name v
     then (case mc_values mc (first_named name vs) of E_Tensor t \<Rightarrow> Ok t | _ \<Rightarrow> Err Internal)
     else Err NotFound)"
proof -
  have "first_named name vs < length vs \<longleftrightarrow> (\<exists>v \<in> set vs. value_named name v)"
    using takeWhile_eq_all_conv [of "\<lambda>v. \<not> value_named name v" vs] length_takeWhile_le [of "\<lambda>v. \<not> value_named name v" vs]
      takeWhile_dropWhile_id [of "\<lambda>v. \<not> value_named name v" vs]
    unfolding first_named_def by (metis append_eq_conv_conj le_neq_implies_less nat_less_le take_all_iff order.refl)
  then show ?thesis
    by (simp add: get_attribute_def unwrap_def assms(1,3) attribute_loop_first [OF assms(2)] get_value_def ev_is_tensor_def
        split: evalue.split)
qed

theorem get_attribute_first_witness:
  "get_attribute ''a'' (empty_s_plan\<lparr>sp_values := Some [SV_Null, SV_Tensor (Some (named_s_tensor ''a''))]\<rparr>)
     (example_method 2) (example_machine\<lparr>mc_values := \<lambda>_. E_Tensor 4\<rparr>) = Ok 4"
  using get_attribute_first [of "empty_s_plan\<lparr>sp_values := Some [SV_Null, SV_Tensor (Some (named_s_tensor ''a''))]\<rparr>"
      "[SV_Null, SV_Tensor (Some (named_s_tensor ''a''))]" "example_method 2" "''a''"
      "example_machine\<lparr>mc_values := \<lambda>_. E_Tensor 4\<rparr>"]
  by (simp add: example_schema_defs value_named_def st_fully_qualified_name_def example_method_def)

end
