(* ===== verification/Data_Loader.thy ===== *)
theory Data_Loader
  imports Freeable_Buffer
begin

text \<open>
  Data loaders: the trait of \<^verbatim>\<open>runtime/core/data_loader.rs\<close>, its contract, and the loaders over
  memory, \<^verbatim>\<open>extension/data_loader/buffer_data_loader.rs\<close> and
  \<^verbatim>\<open>extension/data_loader/shared_ptr_data_loader.rs\<close>. The descriptor of a segment is only printed
  and is left out.
\<close>

section \<open>The trait\<close>

datatype segment_type = Program_Segment | Constant_Segment | Backend_Segment | Mutable_Segment | External_Segment

record segment_info =
  si_segment_type :: segment_type
  si_segment_index :: nat

text \<open>
  A trait object is the record of its methods; the clients only look at the answers. The default
  \<open>load_into\<close> is not implemented.
\<close>

record data_loader =
  dl_load :: "usize \<Rightarrow> usize \<Rightarrow> segment_info \<Rightarrow> freeable_buffer result"
  dl_load_into :: "usize \<Rightarrow> usize \<Rightarrow> segment_info \<Rightarrow> usize \<Rightarrow> Error result"
  dl_size :: "usize result"

definition default_load_into :: "usize \<Rightarrow> usize \<Rightarrow> segment_info \<Rightarrow> usize \<Rightarrow> Error result" where
  "default_load_into off sz segment_info' buffer = Ok NotImplemented"

text \<open>The check that every loader makes before it reads.\<close>

definition range_in_bounds :: "usize \<Rightarrow> usize \<Rightarrow> usize \<Rightarrow> bool" where
  "range_in_bounds off sz limit =
     (case checked_add off sz of Some total_size \<Rightarrow> total_size \<le> limit | None \<Rightarrow> False)"

lemma range_in_bounds_iff: "range_in_bounds off sz limit \<longleftrightarrow> unat off + unat sz \<le> unat limit"
  using unat_lt_64 [of limit]
  by (auto simp: range_in_bounds_def checked_add_def word_le_nat_alt unat_add_no_overflow)

section \<open>The contract\<close>

text \<open>
  A loader stands for a sequence of bytes, its \<open>content\<close>. A range inside it loads, when it loads,
  as a buffer of the requested size that holds exactly the bytes of the range; a range that leaves
  it, or whose end overflows, is an argument error without effect; no load disturbs the content.
\<close>

locale loader_contract =
  fixes load :: "'l \<Rightarrow> usize \<Rightarrow> usize \<Rightarrow> 's \<Rightarrow> freeable_buffer result \<times> 's"
    and loader_size :: "'l \<Rightarrow> usize result"
    and memory_of :: "'s \<Rightarrow> bytes"
    and content :: "'l \<Rightarrow> u8 list"
    and inv :: "'l \<Rightarrow> 's \<Rightarrow> bool"
  assumes content_size: "inv l s \<Longrightarrow> loader_size l = Ok (of_nat (length (content l)))"
    and content_fits: "inv l s \<Longrightarrow> length (content l) < 2 ^ 64"
    and out_of_range: "inv l s \<Longrightarrow> length (content l) < unat off + unat sz \<Longrightarrow>
      load l off sz s = (Err InvalidArgument, s)"
    and loaded: "inv l s \<Longrightarrow> load l off sz s = (Ok fb, s') \<Longrightarrow>
      fb_size fb = sz \<and> (\<exists>p. fb_data_safe fb = Ok p \<and>
        bytes_at (memory_of s') p (unat sz) = take (unat sz) (drop (unat off) (content l)))"
    and inv_load: "inv l s \<Longrightarrow> load l off sz s = (r, s') \<Longrightarrow> inv l s'"
begin

lemma loaded_in_range: "inv l s \<Longrightarrow> load l off sz s = (Ok fb, s') \<Longrightarrow> unat off + unat sz \<le> length (content l)"
  using out_of_range [of l s off sz] by (cases "length (content l) < unat off + unat sz") auto

lemma loads_agree:
  assumes "inv l s" and "load l off sz s = (Ok fb, s1)" and "inv l s2" and "load l off' sz' s2 = (Ok fb', s3)"
    and "unat off' \<le> unat off" and "unat off + unat sz \<le> unat off' + unat sz'"
  shows "\<exists>p p'. fb_data_safe fb = Ok p \<and> fb_data_safe fb' = Ok p' \<and>
    bytes_at (memory_of s1) p (unat sz) =
      take (unat sz) (drop (unat off - unat off') (bytes_at (memory_of s3) p' (unat sz')))"
proof -
  obtain p where p: "fb_data_safe fb = Ok p"
    "bytes_at (memory_of s1) p (unat sz) = take (unat sz) (drop (unat off) (content l))"
    using loaded [OF assms(1,2)] by blast
  obtain p' where p': "fb_data_safe fb' = Ok p'"
    "bytes_at (memory_of s3) p' (unat sz') = take (unat sz') (drop (unat off') (content l))"
    using loaded [OF assms(3,4)] by blast
  have "take (unat sz) (drop (unat off - unat off') (take (unat sz') (drop (unat off') (content l))))
    = take (unat sz) (drop (unat off) (content l))"
    using assms(5,6) by (simp add: drop_take min_def)
  then show ?thesis using p p' by auto
qed

end

section \<open>Loaders over memory\<close>

record buffer_data_loader =
  bdl_data :: usize
  bdl_size :: usize

definition buffer_load :: "buffer_data_loader \<Rightarrow> usize \<Rightarrow> usize \<Rightarrow> freeable_buffer result" where
  "buffer_load l off sz =
     (if \<not> range_in_bounds off sz (bdl_size l) then Err InvalidArgument
      else Ok (fb_from_pointer (bdl_data l + off) sz None 0))"

definition buffer_loader_size :: "buffer_data_loader \<Rightarrow> usize result" where
  "buffer_loader_size l = Ok (bdl_size l)"

definition buffer_load_into ::
    "buffer_data_loader \<Rightarrow> usize \<Rightarrow> usize \<Rightarrow> usize \<Rightarrow> bytes \<Rightarrow> (Error \<times> bytes) result" where
  "buffer_load_into l off sz buffer mem =
     (if buffer = 0 then Ok (InvalidArgument, mem)
      else case buffer_load l off sz of
        Err e \<Rightarrow> Ok (e, mem)
      | Panic \<Rightarrow> Panic
      | Ok fb \<Rightarrow> r_bind (fb_data_ptr fb) (\<lambda>data. Ok (Error_Ok, copy_bytes data buffer sz mem)))"

definition buffer_dyn :: "buffer_data_loader \<Rightarrow> bytes \<Rightarrow> data_loader" where
  "buffer_dyn l mem =
     \<lparr>dl_load = (\<lambda>off sz _. buffer_load l off sz),
      dl_load_into = (\<lambda>off sz _ buffer. r_bind (buffer_load_into l off sz buffer mem) (\<lambda>(e, _). Ok e)),
      dl_size = buffer_loader_size l\<rparr>"

record shared_ptr_data_loader =
  sdl_data_ptr :: usize
  sdl_size :: usize

definition shared_load :: "shared_ptr_data_loader \<Rightarrow> usize \<Rightarrow> usize \<Rightarrow> freeable_buffer result" where
  "shared_load l off sz =
     (if \<not> range_in_bounds off sz (sdl_size l) then Err InvalidArgument
      else Ok (fb_from_pointer (sdl_data_ptr l + off) sz None 0))"

definition shared_loader_size :: "shared_ptr_data_loader \<Rightarrow> usize result" where
  "shared_loader_size l = Ok (sdl_size l)"

text \<open>The content of such a loader is the memory it wraps, which loading does not change.\<close>

lemma take_drop_bytes_at:
  "i + n \<le> k \<Longrightarrow> take n (drop i (bytes_at mem p k)) = bytes_at mem (p + of_nat i) n"
  by (rule nth_equalityI) (simp_all add: add.assoc)

interpretation buffer: loader_contract "\<lambda>(l, _) off sz mem. (buffer_load l off sz, mem)"
  "\<lambda>(l, _). buffer_loader_size l" "\<lambda>mem. mem" snd
  "\<lambda>(l, c) mem. c = bytes_at mem (bdl_data l) (unat (bdl_size l))"
proof (unfold_locales, goal_cases)
  case (4 l s off sz fb s')
  obtain b where l: "l = (b, bytes_at s (bdl_data b) (unat (bdl_size b)))"
    using 4 by (cases l) simp
  with 4 have fb: "fb = fb_from_pointer (bdl_data b + off) sz None 0" "s' = s"
    and r: "unat off + unat sz \<le> unat (bdl_size b)"
    by (auto simp: buffer_load_def range_in_bounds_iff split: if_splits)
  show ?case
    using r by (simp add: fb l fb_from_pointer_def fb_data_safe_def take_drop_bytes_at)
qed (auto simp: buffer_load_def buffer_loader_size_def range_in_bounds_iff unat_lt_64 [simplified])

interpretation shared: loader_contract "\<lambda>(l, _) off sz mem. (shared_load l off sz, mem)"
  "\<lambda>(l, _). shared_loader_size l" "\<lambda>mem. mem" snd
  "\<lambda>(l, c) mem. c = bytes_at mem (sdl_data_ptr l) (unat (sdl_size l))"
proof (unfold_locales, goal_cases)
  case (4 l s off sz fb s')
  obtain b where l: "l = (b, bytes_at s (sdl_data_ptr b) (unat (sdl_size b)))"
    using 4 by (cases l) simp
  with 4 have fb: "fb = fb_from_pointer (sdl_data_ptr b + off) sz None 0" "s' = s"
    and r: "unat off + unat sz \<le> unat (sdl_size b)"
    by (auto simp: shared_load_def range_in_bounds_iff split: if_splits)
  show ?case
    using r by (simp add: fb l fb_from_pointer_def fb_data_safe_def take_drop_bytes_at)
qed (auto simp: shared_load_def shared_loader_size_def range_in_bounds_iff unat_lt_64 [simplified])

lemma buffer_load_into_exact:
  "buffer_load_into l off sz buffer mem =
     Ok (if buffer = 0 \<or> \<not> range_in_bounds off sz (bdl_size l) then (InvalidArgument, mem)
         else (Error_Ok, copy_bytes (bdl_data l + off) buffer sz mem))"
  by (simp add: buffer_load_into_def buffer_load_def fb_data_ptr_def fb_from_pointer_def)

end
