(* ===== verification/Data_Maps.thy ===== *)
theory Data_Maps
  imports Tensor_Impl Data_Loader
begin

text \<open>
  Named data: the trait of \<^verbatim>\<open>runtime/core/named_data_map.rs\<close>, the map over the segments of a
  program file (\<^verbatim>\<open>runtime/executor/pte_data_map.rs\<close>) and the map that joins two others
  (\<^verbatim>\<open>runtime/executor/merged_data_map.rs\<close>). A trait object is the record of its methods, which
  only read. Keys are byte strings; \<open>get_key\<close> hands out a pointer, here the C string it points
  to.
\<close>

section \<open>The trait\<close>

record named_data_map =
  nm_get_tensor_layout :: "string \<Rightarrow> tensor_layout result"
  nm_get_data :: "string \<Rightarrow> freeable_buffer result"
  nm_load_data_into :: "string \<Rightarrow> usize \<Rightarrow> usize \<Rightarrow> Error"
  nm_get_num_keys :: "u32 result"
  nm_get_key :: "u32 \<Rightarrow> string result"

section \<open>The map of a program file\<close>

text \<open>A flatbuffer vector has fewer than \<open>2 ^ 32\<close> elements, so the 32-bit counters of the loops do
  not overflow.\<close>

record named_data =
  nd_key :: "string option"
  nd_segment_index :: u32

record data_segment =
  ds_offset :: u64
  ds_size :: u64

record pte_data_map =
  pdm_loader :: data_loader
  pdm_segment_base_offset :: usize
  pdm_named_data :: "named_data list"
  pdm_segments :: "data_segment list"

definition pte_create ::
    "data_loader option \<Rightarrow> usize \<Rightarrow> named_data list \<Rightarrow> data_segment list \<Rightarrow> pte_data_map result" where
  "pte_create loader segment_base_offset named_data' segments =
     (case loader of
        None \<Rightarrow> Err InvalidArgument
      | Some l \<Rightarrow> Ok \<lparr>pdm_loader = l, pdm_segment_base_offset = segment_base_offset,
                     pdm_named_data = named_data', pdm_segments = segments\<rparr>)"

definition pte_get_tensor_layout :: "pte_data_map \<Rightarrow> string \<Rightarrow> tensor_layout result" where
  "pte_get_tensor_layout m key = Err NotImplemented"

definition pte_load_segment :: "bool \<Rightarrow> pte_data_map \<Rightarrow> nat \<Rightarrow> freeable_buffer result" where
  "pte_load_segment oc m segment_index =
     (if \<not> segment_index < length (pdm_segments m) then Err InvalidArgument
      else let segment = pdm_segments m ! segment_index
           in r_bind (uadd oc (pdm_segment_base_offset m) (ds_offset segment)) (\<lambda>off.
                dl_load (pdm_loader m) off (ds_size segment) \<lparr>si_segment_type = Constant_Segment, si_segment_index = 0\<rparr>))"

fun pte_search :: "bool \<Rightarrow> pte_data_map \<Rightarrow> string \<Rightarrow> named_data list \<Rightarrow> freeable_buffer result" where
  "pte_search oc m key [] = Err NotFound"
| "pte_search oc m key (item # rest) =
     (case nd_key item of
        None \<Rightarrow> Err InvalidArgument
      | Some named_data_key \<Rightarrow>
          if named_data_key = key then pte_load_segment oc m (unat (nd_segment_index item))
          else pte_search oc m key rest)"

definition pte_get_data :: "bool \<Rightarrow> pte_data_map \<Rightarrow> string \<Rightarrow> freeable_buffer result" where
  "pte_get_data oc m key = pte_search oc m key (pdm_named_data m)"

definition pte_load_data_into :: "pte_data_map \<Rightarrow> string \<Rightarrow> usize \<Rightarrow> usize \<Rightarrow> Error" where
  "pte_load_data_into m key buffer sz = NotImplemented"

definition pte_get_num_keys :: "pte_data_map \<Rightarrow> u32 result" where
  "pte_get_num_keys m = Ok (of_nat (length (pdm_named_data m)))"

definition pte_get_key :: "pte_data_map \<Rightarrow> u32 \<Rightarrow> string result" where
  "pte_get_key m index =
     (if \<not> unat index < length (pdm_named_data m) then Err InvalidArgument
      else case nd_key (pdm_named_data m ! unat index) of
        None \<Rightarrow> Err InvalidArgument
      | Some key \<Rightarrow> Ok (c_string key))"

definition pte_dyn :: "bool \<Rightarrow> pte_data_map \<Rightarrow> named_data_map" where
  "pte_dyn oc m =
     \<lparr>nm_get_tensor_layout = pte_get_tensor_layout m, nm_get_data = pte_get_data oc m,
      nm_load_data_into = pte_load_data_into m, nm_get_num_keys = pte_get_num_keys m,
      nm_get_key = pte_get_key m\<rparr>"

section \<open>The merged map\<close>

record merged_data_map =
  mdm_first :: named_data_map
  mdm_second :: named_data_map

text \<open>
  The check for duplicate keys: for every key of the first map, the second map's layout must be
  an error, and the error \<open>NotFound\<close> or \<open>NotImplemented\<close>. The number of keys is read again in
  every iteration, with the same result; \<^verbatim>\<open>ResultExt::get\<close> aborts on an error.
\<close>

fun merged_check_loop :: "named_data_map \<Rightarrow> named_data_map \<Rightarrow> nat list \<Rightarrow> unit result" where
  "merged_check_loop first second [] = Ok ()"
| "merged_check_loop first second (k # rest) =
     r_bind (result_get (nm_get_key first (of_nat k))) (\<lambda>key.
       let key_str = (if valid_utf8 key then key else [])
       in case result_error (nm_get_tensor_layout second key_str) of
            None \<Rightarrow> Panic
          | Some error \<Rightarrow>
              if error = NotFound \<or> error = NotImplemented then merged_check_loop first second rest
              else Err InvalidArgument)"

definition merged_load ::
    "named_data_map option \<Rightarrow> named_data_map option \<Rightarrow> merged_data_map result" where
  "merged_load first second =
     (case (first, second) of
        (Some a, Some b) \<Rightarrow>
          r_bind (result_get (nm_get_num_keys a)) (\<lambda>n.
          r_bind (merged_check_loop a b [0..<unat n]) (\<lambda>_.
          Ok \<lparr>mdm_first = a, mdm_second = b\<rparr>))
      | _ \<Rightarrow> Err InvalidArgument)"

definition merged_get_tensor_layout :: "merged_data_map \<Rightarrow> string \<Rightarrow> tensor_layout result" where
  "merged_get_tensor_layout m key =
     (case nm_get_tensor_layout (mdm_first m) key of
        Ok layout \<Rightarrow> Ok layout
      | Err e \<Rightarrow> if e \<noteq> NotFound then Err e else nm_get_tensor_layout (mdm_second m) key
      | Panic \<Rightarrow> Panic)"

definition merged_get_data :: "merged_data_map \<Rightarrow> string \<Rightarrow> freeable_buffer result" where
  "merged_get_data m key =
     (let data = nm_get_data (mdm_first m) key
      in if result_error data \<noteq> Some NotFound then data else nm_get_data (mdm_second m) key)"

definition merged_load_data_into :: "merged_data_map \<Rightarrow> string \<Rightarrow> usize \<Rightarrow> usize \<Rightarrow> Error" where
  "merged_load_data_into m key buffer sz = NotImplemented"

definition merged_get_num_keys :: "bool \<Rightarrow> merged_data_map \<Rightarrow> u32 result" where
  "merged_get_num_keys oc m =
     r_bind (result_get (nm_get_num_keys (mdm_first m))) (\<lambda>a.
     r_bind (result_get (nm_get_num_keys (mdm_second m))) (\<lambda>b. uadd oc a b))"

definition merged_get_key :: "bool \<Rightarrow> merged_data_map \<Rightarrow> u32 \<Rightarrow> string result" where
  "merged_get_key oc m index =
     r_bind (result_get (merged_get_num_keys oc m)) (\<lambda>total_num_keys.
       if \<not> index < total_num_keys then Err InvalidArgument
       else r_bind (result_get (nm_get_num_keys (mdm_first m))) (\<lambda>n.
         if index < n then nm_get_key (mdm_first m) index
         else r_bind (usub oc index n) (\<lambda>i. nm_get_key (mdm_second m) i)))"

definition merged_dyn :: "bool \<Rightarrow> merged_data_map \<Rightarrow> named_data_map" where
  "merged_dyn oc m =
     \<lparr>nm_get_tensor_layout = merged_get_tensor_layout m, nm_get_data = merged_get_data m,
      nm_load_data_into = merged_load_data_into m, nm_get_num_keys = merged_get_num_keys oc m,
      nm_get_key = merged_get_key oc m\<rparr>"

section \<open>The contract of a data map\<close>

text \<open>
  What a user of the trait relies on: the keys can be enumerated by index, an index out of range is
  an argument error, and looking up data says \<open>NotFound\<close> exactly for the names that are not keys.
\<close>

locale data_map =
  fixes dyn :: "'m \<Rightarrow> named_data_map"
    and keys :: "'m \<Rightarrow> string list"
    and inv :: "'m \<Rightarrow> bool"
  assumes few_keys: "inv m \<Longrightarrow> length (keys m) < 2 ^ 32"
    and num_keys: "inv m \<Longrightarrow> nm_get_num_keys (dyn m) = Ok (of_nat (length (keys m)))"
    and key_in_range: "inv m \<Longrightarrow> unat i < length (keys m) \<Longrightarrow> nm_get_key (dyn m) i = Ok (keys m ! unat i)"
    and key_out_of_range: "inv m \<Longrightarrow> \<not> unat i < length (keys m) \<Longrightarrow> nm_get_key (dyn m) i = Err InvalidArgument"
    and data_found: "inv m \<Longrightarrow> nm_get_data (dyn m) k = Err NotFound \<longleftrightarrow> k \<notin> set (keys m)"
begin

lemma unat_of_index: "inv m \<Longrightarrow> i \<le> length (keys m) \<Longrightarrow> unat (of_nat i :: u32) = i"
  using few_keys [of m] by (simp add: unat_of_nat)

lemma key_at: "inv m \<Longrightarrow> i < length (keys m) \<Longrightarrow> nm_get_key (dyn m) (of_nat i) = Ok (keys m ! i)"
  using unat_of_index [of m i] key_in_range [of m "of_nat i"] by simp

lemma check_loop:
  assumes "inv m" and "\<forall>i \<in> set is. i < length (keys m)" and "\<forall>k \<in> set (keys m). valid_utf8 k"
    and "\<forall>k \<in> set (keys m). nm_get_tensor_layout second k \<noteq> Panic"
  shows "merged_check_loop (dyn m) second is =
    (if \<forall>i \<in> set is. nm_get_tensor_layout second (keys m ! i) \<in> {Err NotFound, Err NotImplemented}
     then Ok () else Err InvalidArgument)"
  using assms(2)
proof (induction "is")
  case Nil
  then show ?case by simp
next
  case (Cons i rest)
  have "keys m ! i \<in> set (keys m)" using Cons.prems by simp
  moreover have "merged_check_loop (dyn m) second rest =
    (if \<forall>i \<in> set rest. nm_get_tensor_layout second (keys m ! i) \<in> {Err NotFound, Err NotImplemented}
     then Ok () else Err InvalidArgument)"
    using Cons by simp
  ultimately show ?case
    using Cons.prems key_at [OF assms(1), of i] assms(3,4)
    by (cases "nm_get_tensor_layout second (keys m ! i)") auto
qed

lemma merged_load_iff:
  assumes "inv m" and "\<forall>k \<in> set (keys m). valid_utf8 k"
    and "\<forall>k \<in> set (keys m). nm_get_tensor_layout second k \<noteq> Panic"
  shows "merged_load (Some (dyn m)) (Some second) =
    (if \<forall>k \<in> set (keys m). nm_get_tensor_layout second k \<in> {Err NotFound, Err NotImplemented}
     then Ok \<lparr>mdm_first = dyn m, mdm_second = second\<rparr> else Err InvalidArgument)"
  using check_loop [OF assms(1) _ assms(2,3), of "[0..<length (keys m)]"]
    unat_of_index [OF assms(1), of "length (keys m)"] num_keys [OF assms(1)]
  by (simp add: merged_load_def all_set_conv_all_nth)

end

section \<open>Lawful trait objects\<close>

definition nm_keys :: "named_data_map \<Rightarrow> string list" where
  "nm_keys m = map (\<lambda>i. ok_value (nm_get_key m (of_nat i))) [0..<unat (ok_value (nm_get_num_keys m))]"

definition nm_lawful :: "named_data_map \<Rightarrow> bool" where
  "nm_lawful m \<longleftrightarrow>
     is_Ok (nm_get_num_keys m) \<and>
     (\<forall>i. if i < ok_value (nm_get_num_keys m) then is_Ok (nm_get_key m i)
          else nm_get_key m i = Err InvalidArgument) \<and>
     (\<forall>k. nm_get_data m k = Err NotFound \<longleftrightarrow> k \<notin> set (nm_keys m))"

interpretation obj: data_map "\<lambda>m. m" nm_keys nm_lawful
proof
  fix m i k
  assume lawful: "nm_lawful m"
  then obtain n where n: "nm_get_num_keys m = Ok n" by (auto simp: nm_lawful_def is_Ok_iff)
  then have length_eq: "length (nm_keys m) = unat n" by (simp add: nm_keys_def)
  show "length (nm_keys m) < 2 ^ 32" using length_eq unsigned_less [of n] by simp
  show "nm_get_num_keys m = Ok (of_nat (length (nm_keys m)))" using n length_eq by simp
  show "nm_get_data m k = Err NotFound \<longleftrightarrow> k \<notin> set (nm_keys m)"
    using lawful by (simp add: nm_lawful_def)
  show "nm_get_key m i = Ok (nm_keys m ! unat i)" if "unat i < length (nm_keys m)"
  proof -
    have "i < n" using that length_eq by (simp add: word_less_nat_alt)
    then have "is_Ok (nm_get_key m i)" using lawful n by (simp add: nm_lawful_def)
    then obtain k where k: "nm_get_key m i = Ok k" by (auto simp: is_Ok_iff)
    have "nm_keys m ! unat i = ok_value (nm_get_key m (of_nat (unat i)))"
      using that n length_eq by (simp add: nm_keys_def)
    then show ?thesis using k by simp
  qed
  show "nm_get_key m i = Err InvalidArgument" if "\<not> unat i < length (nm_keys m)"
    using that lawful n length_eq by (simp add: nm_lawful_def word_less_nat_alt)
qed

text \<open>The map of a program file keeps the contract when every key is present and has no zero byte.\<close>

definition pte_keys :: "pte_data_map \<Rightarrow> string list" where
  "pte_keys m = map (the \<circ> nd_key) (pdm_named_data m)"

definition pte_inv :: "pte_data_map \<Rightarrow> bool" where
  "pte_inv m \<longleftrightarrow>
     length (pdm_named_data m) < 2 ^ 32 \<and>
     (\<forall>item \<in> set (pdm_named_data m). \<exists>k. nd_key item = Some k \<and> CHR 0x00 \<notin> set k) \<and>
     (\<forall>off sz info. dl_load (pdm_loader m) off sz info \<noteq> Err NotFound)"

lemma pte_search_NotFound:
  assumes "\<forall>item \<in> set items. nd_key item \<noteq> None" and "\<forall>off sz info. dl_load (pdm_loader m) off sz info \<noteq> Err NotFound"
  shows "pte_search oc m key items = Err NotFound \<longleftrightarrow> key \<notin> set (map (the \<circ> nd_key) items)"
  using assms(1)
  by (induction items)
     (auto simp: pte_load_segment_def Let_def uadd_def assms(2) split: option.splits)

interpretation pte: data_map "pte_dyn oc" pte_keys pte_inv
proof
  fix m i k
  assume inv: "pte_inv m"
  then show "length (pte_keys m) < 2 ^ 32" by (simp add: pte_inv_def pte_keys_def)
  show "nm_get_num_keys (pte_dyn oc m) = Ok (of_nat (length (pte_keys m)))"
    by (simp add: pte_dyn_def pte_get_num_keys_def pte_keys_def)
  have "\<forall>item \<in> set (pdm_named_data m). nd_key item \<noteq> None" using inv by (auto simp: pte_inv_def)
  then show "nm_get_data (pte_dyn oc m) k = Err NotFound \<longleftrightarrow> k \<notin> set (pte_keys m)"
    using pte_search_NotFound [of "pdm_named_data m" m oc k] inv
    by (simp add: pte_dyn_def pte_get_data_def pte_keys_def pte_inv_def)
  show "nm_get_key (pte_dyn oc m) i = Ok (pte_keys m ! unat i)" if "unat i < length (pte_keys m)"
  proof -
    have "pdm_named_data m ! unat i \<in> set (pdm_named_data m)" using that by (simp add: pte_keys_def)
    then obtain k where "nd_key (pdm_named_data m ! unat i) = Some k" and "CHR 0x00 \<notin> set k"
      using inv by (auto simp: pte_inv_def)
    then show ?thesis using that by (simp add: pte_dyn_def pte_get_key_def pte_keys_def c_string_id)
  qed
  show "nm_get_key (pte_dyn oc m) i = Err InvalidArgument" if "\<not> unat i < length (pte_keys m)"
    using that by (simp add: pte_dyn_def pte_get_key_def pte_keys_def)
qed

text \<open>Two lawful maps, merged, are lawful, with the first map's keys before the second's.\<close>

definition merged_keys :: "merged_data_map \<Rightarrow> string list" where
  "merged_keys m = nm_keys (mdm_first m) @ nm_keys (mdm_second m)"

definition merged_inv :: "merged_data_map \<Rightarrow> bool" where
  "merged_inv m \<longleftrightarrow> nm_lawful (mdm_first m) \<and> nm_lawful (mdm_second m) \<and> length (merged_keys m) < 2 ^ 32"

lemma merged_num_keys:
  assumes "merged_inv m"
  shows "merged_get_num_keys oc m = Ok (of_nat (length (merged_keys m)))"
  using assms obj.num_keys [of "mdm_first m"] obj.num_keys [of "mdm_second m"]
    obj.unat_of_index [of "mdm_first m"] obj.unat_of_index [of "mdm_second m"]
  by (simp add: merged_get_num_keys_def merged_inv_def merged_keys_def uadd_def)

lemma merged_key:
  assumes inv: "merged_inv m"
  shows "merged_get_key oc m i =
    (if unat i < length (merged_keys m) then Ok (merged_keys m ! unat i) else Err InvalidArgument)"
proof -
  let ?a = "mdm_first m" and ?b = "mdm_second m"
  let ?n = "of_nat (length (nm_keys ?a)) :: u32"
  have lawful: "nm_lawful ?a" "nm_lawful ?b" and few: "length (merged_keys m) < 2 ^ 32"
    using inv by (simp_all add: merged_inv_def)
  have n: "unat ?n = length (nm_keys ?a)" using obj.unat_of_index [OF lawful(1)] by simp
  have total': "unat (of_nat (length (merged_keys m)) :: u32) = length (merged_keys m)"
    using few by (simp add: unat_of_nat)
  have less: "i < of_nat (length (merged_keys m)) \<longleftrightarrow> unat i < length (merged_keys m)"
    "i < ?n \<longleftrightarrow> unat i < length (nm_keys ?a)"
    using n total' by (simp_all add: word_less_nat_alt)
  have diff: "unat (i - ?n) = unat i - length (nm_keys ?a)" if "\<not> i < ?n"
    using that n by (simp add: unat_sub not_less)
  show ?thesis
    using obj.num_keys [OF lawful(1)] obj.key_in_range [OF lawful(1), of i] diff less
      obj.key_in_range [OF lawful(2), of "i - ?n"] merged_num_keys [OF inv]
    by (simp add: merged_get_key_def usub_def nth_append merged_keys_def)
qed

lemma merged_data:
  assumes "merged_inv m"
  shows "merged_get_data m k =
    (if k \<in> set (nm_keys (mdm_first m)) then nm_get_data (mdm_first m) k else nm_get_data (mdm_second m) k)"
proof -
  have "nm_get_data (mdm_first m) k = Err NotFound \<longleftrightarrow> k \<notin> set (nm_keys (mdm_first m))"
    using assms obj.data_found [of "mdm_first m" k] by (simp add: merged_inv_def)
  then show ?thesis
    by (cases "nm_get_data (mdm_first m) k") (auto simp: merged_get_data_def)
qed

interpretation merged: data_map "merged_dyn oc" merged_keys merged_inv
proof
  fix m i k
  assume inv: "merged_inv m"
  then show "length (merged_keys m) < 2 ^ 32" by (simp add: merged_inv_def)
  show "nm_get_num_keys (merged_dyn oc m) = Ok (of_nat (length (merged_keys m)))"
    using merged_num_keys [OF inv] by (simp add: merged_dyn_def)
  show "nm_get_data (merged_dyn oc m) k = Err NotFound \<longleftrightarrow> k \<notin> set (merged_keys m)"
    using merged_data [OF inv, of k] inv obj.data_found [of "mdm_first m" k] obj.data_found [of "mdm_second m" k]
    by (auto simp: merged_dyn_def merged_keys_def merged_inv_def)
  show "nm_get_key (merged_dyn oc m) i = Ok (merged_keys m ! unat i)" if "unat i < length (merged_keys m)"
    using that merged_key [OF inv, of oc i] by (simp add: merged_dyn_def)
  show "nm_get_key (merged_dyn oc m) i = Err InvalidArgument" if "\<not> unat i < length (merged_keys m)"
    using that merged_key [OF inv, of oc i] by (simp add: merged_dyn_def)
qed

lemma lawful_pte: "pte_inv m \<Longrightarrow> nm_lawful (pte_dyn oc m)" and nm_keys_pte: "pte_inv m \<Longrightarrow> nm_keys (pte_dyn oc m) = pte_keys m"
proof -
  assume inv: "pte_inv m"
  show keys: "nm_keys (pte_dyn oc m) = pte_keys m"
    unfolding nm_keys_def pte.num_keys [OF inv]
    by (rule nth_equalityI) (simp_all add: pte.unat_of_index [OF inv] pte.key_at [OF inv])
  show "nm_lawful (pte_dyn oc m)"
    using pte.num_keys [OF inv] pte.key_in_range [OF inv] pte.key_out_of_range [OF inv]
      pte.data_found [OF inv] pte.unat_of_index [OF inv, of "length (pte_keys m)"]
    by (simp add: nm_lawful_def keys word_less_nat_alt)
qed

lemma lawful_merged: "merged_inv m \<Longrightarrow> nm_lawful (merged_dyn oc m)"
  and nm_keys_merged: "merged_inv m \<Longrightarrow> nm_keys (merged_dyn oc m) = merged_keys m"
proof -
  assume inv: "merged_inv m"
  show keys: "nm_keys (merged_dyn oc m) = merged_keys m"
    unfolding nm_keys_def merged.num_keys [OF inv]
    by (rule nth_equalityI) (simp_all add: merged.unat_of_index [OF inv] merged.key_at [OF inv])
  show "nm_lawful (merged_dyn oc m)"
    using merged.num_keys [OF inv] merged.key_in_range [OF inv] merged.key_out_of_range [OF inv]
      merged.data_found [OF inv] merged.unat_of_index [OF inv, of "length (merged_keys m)"]
    by (simp add: nm_lawful_def keys word_less_nat_alt)
qed

section \<open>Properties\<close>

definition example_loader :: data_loader where
  "example_loader = buffer_dyn \<lparr>bdl_data = 0x1000, bdl_size = 4096\<rparr> (\<lambda>_. 0)"

definition example_pte :: pte_data_map where
  "example_pte =
     \<lparr>pdm_loader = example_loader, pdm_segment_base_offset = 64,
      pdm_named_data = [\<lparr>nd_key = Some ''key0'', nd_segment_index = 0\<rparr>,
                        \<lparr>nd_key = Some ''key1'', nd_segment_index = 1\<rparr>,
                        \<lparr>nd_key = Some ''bad'', nd_segment_index = 10\<rparr>],
      pdm_segments = [\<lparr>ds_offset = 0, ds_size = 17\<rparr>, \<lparr>ds_offset = 32, ds_size = 8\<rparr>]\<rparr>"

definition example_pte_other :: pte_data_map where
  "example_pte_other = example_pte\<lparr>pdm_named_data :=
     [\<lparr>nd_key = Some ''key1'', nd_segment_index = 0\<rparr>, \<lparr>nd_key = Some ''w'', nd_segment_index = 1\<rparr>]\<rparr>"

lemma example_pte_inv: "pte_inv example_pte" "pte_inv example_pte_other"
  by (simp_all add: pte_inv_def example_pte_def example_pte_other_def example_loader_def buffer_dyn_def buffer_load_def)

lemma example_keys:
  "pte_keys example_pte = [''key0'', ''key1'', ''bad'']"
  "pte_keys example_pte_other = [''key1'', ''w'']"
  by (simp_all add: pte_keys_def example_pte_def example_pte_other_def)

text \<open>
  Looking up data in a program's map takes the first entry with the key, provided that no
  entry before it lacks a key: an index outside the segments is an argument error, otherwise the
  loader is asked for exactly the segment's range, moved by the base offset (which panics or wraps
  when the sum overflows).
\<close>

theorem pte_get_data_first_match:
  assumes "pdm_named_data m = earlier @ item # later"
    and "\<forall>x \<in> set earlier. \<exists>k. nd_key x = Some k \<and> k \<noteq> key"
    and "nd_key item = Some key"
  shows "pte_get_data oc m key =
    (let i = unat (nd_segment_index item)
     in if i < length (pdm_segments m)
        then let segment = pdm_segments m ! i
             in if oc \<and> 2 ^ 64 \<le> unat (pdm_segment_base_offset m) + unat (ds_offset segment) then Panic
                else dl_load (pdm_loader m) (pdm_segment_base_offset m + ds_offset segment) (ds_size segment)
                       \<lparr>si_segment_type = Constant_Segment, si_segment_index = 0\<rparr>
        else Err InvalidArgument)"
proof -
  have "pte_search oc m key (earlier @ item # later) =
    pte_load_segment oc m (unat (nd_segment_index item))"
    using assms(2) by (induction earlier) (auto simp: assms(3))
  then show ?thesis
    by (simp add: pte_get_data_def assms(1) pte_load_segment_def uadd_def Let_def)
qed

theorem pte_get_data_first_match_witness:
  "pte_get_data True example_pte ''key1'' = Ok (fb_from_pointer 0x1060 8 None 0)"
  using pte_get_data_first_match [of example_pte "[\<lparr>nd_key = Some ''key0'', nd_segment_index = 0\<rparr>]"
      "\<lparr>nd_key = Some ''key1'', nd_segment_index = 1\<rparr>"
      "[\<lparr>nd_key = Some ''bad'', nd_segment_index = 10\<rparr>]" "''key1''" True]
  by (simp add: example_pte_def example_loader_def buffer_dyn_def buffer_load_def range_in_bounds_iff)

text \<open>
  C38. A merged map keeps the contract of its parts: its keys are those of the first map followed
  by those of the second, enumerated by index, data of a key of the first map comes from the first
  map and all other data from the second, and a name is reported missing exactly when it is a key
  of neither.
\<close>

theorem merged_map_joins_maps:
  assumes "merged_load (Some a) (Some b) = Ok m" and "nm_lawful a" and "nm_lawful b"
    and "length (nm_keys a) + length (nm_keys b) < 2 ^ 32"
  shows "nm_keys (merged_dyn oc m) = nm_keys a @ nm_keys b \<and> nm_lawful (merged_dyn oc m) \<and>
    merged_get_data m k = (if k \<in> set (nm_keys a) then nm_get_data a k else nm_get_data b k) \<and>
    (merged_get_data m k = Err NotFound \<longleftrightarrow> k \<notin> set (nm_keys a) \<and> k \<notin> set (nm_keys b))"
proof -
  have m: "m = \<lparr>mdm_first = a, mdm_second = b\<rparr>"
    using assms(1) by (auto simp: merged_load_def r_bind_Ok_iff)
  have inv: "merged_inv m" using assms m by (simp add: merged_inv_def merged_keys_def)
  show ?thesis
    using lawful_merged [OF inv] nm_keys_merged [OF inv] merged_data [OF inv] m
      obj.data_found [OF assms(2)] obj.data_found [OF assms(3)]
    by (simp add: merged_keys_def)
qed

theorem merged_map_joins_maps_witness:
  "merged_get_data \<lparr>mdm_first = pte_dyn True example_pte, mdm_second = pte_dyn True example_pte_other\<rparr> ''w''
     = nm_get_data (pte_dyn True example_pte_other) ''w''"
proof -
  let ?p = "\<lambda>m. pte_dyn True m"
  have "\<forall>k \<in> set (pte_keys example_pte). valid_utf8 k" by (simp add: example_keys valid_utf8_def)
  then have "merged_load (Some (?p example_pte)) (Some (?p example_pte_other)) =
      Ok \<lparr>mdm_first = ?p example_pte, mdm_second = ?p example_pte_other\<rparr>"
    using pte.merged_load_iff [OF example_pte_inv(1), of "?p example_pte_other" True]
    by (simp add: pte_dyn_def pte_get_tensor_layout_def)
  from merged_map_joins_maps [OF this, of True "''w''"] show ?thesis
    using lawful_pte [OF example_pte_inv(1)] lawful_pte [OF example_pte_inv(2)]
      nm_keys_pte [OF example_pte_inv(1)] nm_keys_pte [OF example_pte_inv(2)]
    by (simp add: example_keys)
qed

text \<open>
  The check for duplicate keys asks the second map for a layout, which the map of a program
  file never has: an external map merged with a program's map is accepted whatever keys they share.
  A shared key is then listed twice and the program's data for it cannot be reached.
\<close>

theorem program_map_hides_duplicates:
  assumes "nm_lawful a" and "\<forall>k \<in> set (nm_keys a). valid_utf8 k" and "pte_inv p"
    and "length (nm_keys a) + length (pte_keys p) < 2 ^ 32"
    and "k \<in> set (nm_keys a)" and "k \<in> set (pte_keys p)"
  shows "\<exists>m. merged_load (Some a) (Some (pte_dyn oc p)) = Ok m \<and>
    \<not> distinct (nm_keys (merged_dyn oc m)) \<and> merged_get_data m k = nm_get_data a k"
proof -
  let ?m = "\<lparr>mdm_first = a, mdm_second = pte_dyn oc p\<rparr>"
  have "\<forall>k. nm_get_tensor_layout (pte_dyn oc p) k = Err NotImplemented"
    by (simp add: pte_dyn_def pte_get_tensor_layout_def)
  then have "merged_load (Some a) (Some (pte_dyn oc p)) = Ok ?m"
    using obj.merged_load_iff [OF assms(1,2), of "pte_dyn oc p"] by simp
  moreover have inv: "merged_inv ?m"
    using assms(1,4) lawful_pte [OF assms(3)] nm_keys_pte [OF assms(3)]
    by (simp add: merged_inv_def merged_keys_def)
  ultimately show ?thesis
    using nm_keys_merged [OF inv] merged_data [OF inv, of k] nm_keys_pte [OF assms(3)] assms(5,6)
    by (auto simp: merged_keys_def)
qed

theorem program_map_hides_duplicates_witness:
  "is_Ok (merged_load (Some (pte_dyn True example_pte)) (Some (pte_dyn True example_pte_other)))"
  using program_map_hides_duplicates [of "pte_dyn True example_pte" example_pte_other "''key1''" True]
    example_pte_inv lawful_pte [OF example_pte_inv(1)] nm_keys_pte [OF example_pte_inv(1)]
  by (auto simp: example_keys valid_utf8_def)

end
