(* ===== verification/File_Loader.thy ===== *)
theory File_Loader
  imports Data_Loader Allocator_Interface
begin

text \<open>
  Loaders that read a file: \<^verbatim>\<open>extension/data_loader/file_data_loader.rs\<close> and
  \<^verbatim>\<open>extension/data_loader/file_descriptor_data_loader.rs\<close>. The operating system is a parameter:
  \<open>os_env\<close> says what the \<open>n\<close>-th call of \<^verbatim>\<open>pread\<close>, of the global allocator, and so on answers;
  \<open>os\<close> is what the calls changed: memory, the live blocks with their layouts, the open file
  descriptors, the blocks of the C heap and the number of calls made. What the code relies on is \<open>pread_reads\<close>: the bytes a
  \<^verbatim>\<open>pread\<close> delivers are bytes of the file at the offset, no more than were asked for; it may
  deliver fewer, fail, or be interrupted. A loop around \<^verbatim>\<open>pread\<close> need not end, so it runs on fuel,
  one unit for each call; \<open>None\<close> means that it has not returned yet.
\<close>

unbundle bit_operations_syntax

section \<open>The operating system\<close>

datatype pread_reply = PRead "u8 list" | PFailed bool

record os_env =
  en_alloc :: "nat \<Rightarrow> usize \<Rightarrow> usize \<Rightarrow> usize"
  en_pread :: "nat \<Rightarrow> int \<Rightarrow> usize \<Rightarrow> usize \<Rightarrow> pread_reply"
  en_open :: "nat \<Rightarrow> string \<Rightarrow> int"
  en_fstat :: "nat \<Rightarrow> int \<Rightarrow> usize option"
  en_strdup :: "nat \<Rightarrow> usize"

record os =
  os_memory :: bytes
  os_blocks :: "usize \<Rightarrow> (usize \<times> usize) option"
  os_fds :: "int list"
  os_c_blocks :: "usize list"
  os_calls :: nat

definition os_tick :: "os \<Rightarrow> os" where
  "os_tick s = s\<lparr>os_calls := Suc (os_calls s)\<rparr>"

definition pread_reads :: "u8 list \<Rightarrow> (nat \<Rightarrow> usize \<Rightarrow> usize \<Rightarrow> pread_reply) \<Rightarrow> bool" where
  "pread_reads file pread \<longleftrightarrow>
     (\<forall>k c off bs. pread k c off = PRead bs \<longrightarrow>
        length bs \<le> unat c \<and> bs = take (length bs) (drop (unat off) file))"

text \<open>
  \<^verbatim>\<open>Layout::from_size_align\<close>: the alignment is a power of two and the size, rounded up to it, does
  not exceed \<^verbatim>\<open>isize::MAX\<close>. A deallocation must name a live block with its layout.
\<close>

definition valid_layout :: "usize \<Rightarrow> usize \<Rightarrow> bool" where
  "valid_layout sz alignment \<longleftrightarrow> is_power_of2 alignment \<and> unat sz + unat alignment \<le> 2 ^ 63"

definition et_aligned_alloc :: "os_env \<Rightarrow> usize \<Rightarrow> usize \<Rightarrow> os \<Rightarrow> usize \<times> os" where
  "et_aligned_alloc env sz alignment s =
     (if \<not> valid_layout sz alignment then (0, s)
      else if sz = 0 then (alignment, s)
      else let p = en_alloc env (os_calls s) sz alignment; s1 = os_tick s
           in (p, if p = 0 then s1 else s1\<lparr>os_blocks := (os_blocks s1)(p \<mapsto> (sz, alignment))\<rparr>))"

definition et_aligned_free :: "usize \<Rightarrow> usize \<Rightarrow> usize \<Rightarrow> os \<Rightarrow> os result" where
  "et_aligned_free p sz alignment s =
     (if p = 0 then Ok s
      else if \<not> valid_layout sz alignment \<or> sz = 0 then Ok s
      else if os_blocks s p = Some (sz, alignment) then Ok (s\<lparr>os_blocks := (os_blocks s)(p := None)\<rparr>)
      else Panic)"

definition free_segment :: "usize \<Rightarrow> usize \<Rightarrow> usize \<Rightarrow> os \<Rightarrow> os result" where
  "free_segment context data sz s = et_aligned_free data sz context s"

definition is_power_of_2 :: "usize \<Rightarrow> bool" where
  "is_power_of_2 v \<longleftrightarrow> 0 < v \<and> v AND NOT (v - 1) = v"

definition close_fd :: "int \<Rightarrow> os \<Rightarrow> os" where
  "close_fd fd s = s\<lparr>os_fds := remove1 fd (os_fds s)\<rparr>"

section \<open>Reading a range\<close>

fun read_loop :: "nat \<Rightarrow> bool \<Rightarrow> (nat \<Rightarrow> usize \<Rightarrow> usize \<Rightarrow> pread_reply) \<Rightarrow> usize \<Rightarrow> usize \<Rightarrow> usize \<Rightarrow> nat \<Rightarrow> bytes
    \<Rightarrow> (Error result \<times> nat \<times> bytes) option" where
  "read_loop 0 oc pread needed buf off k mem = None"
| "read_loop (Suc fuel) oc pread needed buf off k mem =
     (if needed = 0 then Some (Ok Error_Ok, k, mem)
      else let chunk_size = min needed 0x7FFFFFFF
      in case pread k chunk_size off of
           PFailed interrupted \<Rightarrow>
             if interrupted then read_loop fuel oc pread needed buf off (Suc k) mem
             else Some (Ok AccessFailed, Suc k, mem)
         | PRead bs \<Rightarrow>
             if bs = [] then Some (Ok AccessFailed, Suc k, mem)
             else let nread = of_nat (length bs); mem' = write_bytes buf bs mem
             in case usub oc needed nread of
                  Ok needed' \<Rightarrow>
                    (case uadd oc off nread of
                       Ok off' \<Rightarrow> read_loop fuel oc pread needed' (buf + nread) off' (Suc k) mem'
                     | Err e \<Rightarrow> Some (Err e, Suc k, mem')
                     | Panic \<Rightarrow> Some (Panic, Suc k, mem'))
                | Err e \<Rightarrow> Some (Err e, Suc k, mem')
                | Panic \<Rightarrow> Some (Panic, Suc k, mem'))"

record file_loader =
  fl_file_name :: usize
  fl_file_name_len :: usize
  fl_file_size :: usize
  fl_alignment :: usize
  fl_fd :: int

definition file_load_into ::
    "nat \<Rightarrow> bool \<Rightarrow> os_env \<Rightarrow> file_loader \<Rightarrow> usize \<Rightarrow> usize \<Rightarrow> usize \<Rightarrow> os \<Rightarrow> (Error result \<times> os) option" where
  "file_load_into fuel oc env l off sz buffer s =
     (if \<not> 0 \<le> fl_fd l then Some (Ok InvalidState, s)
      else if \<not> range_in_bounds off sz (fl_file_size l) then Some (Ok InvalidArgument, s)
      else if buffer = 0 then Some (Ok InvalidArgument, s)
      else case read_loop fuel oc (\<lambda>k. en_pread env k (fl_fd l)) sz buffer off (os_calls s) (os_memory s) of
        None \<Rightarrow> None
      | Some (r, k, mem) \<Rightarrow> Some (r, s\<lparr>os_memory := mem, os_calls := k\<rparr>))"

text \<open>The identifier of the free function that a loaded buffer carries.\<close>

definition FREE_SEGMENT :: nat where
  "FREE_SEGMENT = 1"

definition file_load ::
    "nat \<Rightarrow> bool \<Rightarrow> os_env \<Rightarrow> file_loader \<Rightarrow> usize \<Rightarrow> usize \<Rightarrow> os \<Rightarrow> (freeable_buffer result \<times> os) option" where
  "file_load fuel oc env l off sz s =
     (if \<not> 0 \<le> fl_fd l then Some (Err InvalidState, s)
      else if \<not> range_in_bounds off sz (fl_file_size l) then Some (Err InvalidArgument, s)
      else if sz = 0 then Some (Ok (fb_from_pointer 0 0 None 0), s)
      else let (aligned_buffer, s1) = et_aligned_alloc env sz (fl_alignment l) s
      in if aligned_buffer = 0 then Some (Err MemoryAllocationFailed, s1)
      else case file_load_into fuel oc env l off sz aligned_buffer s1 of
        None \<Rightarrow> None
      | Some (Ok err, s2) \<Rightarrow>
          if err \<noteq> Error_Ok
          then (case et_aligned_free aligned_buffer sz (fl_alignment l) s2 of
                  Ok s3 \<Rightarrow> Some (Err err, s3) | _ \<Rightarrow> Some (Panic, s2))
          else Some (Ok (fb_from_pointer aligned_buffer sz (Some FREE_SEGMENT) (fl_alignment l)), s2)
      | Some (Err e, s2) \<Rightarrow> Some (Err e, s2)
      | Some (Panic, s2) \<Rightarrow> Some (Panic, s2))"

definition file_size :: "file_loader \<Rightarrow> usize result" where
  "file_size l = (if \<not> 0 \<le> fl_fd l then Err InvalidState else Ok (fl_file_size l))"

section \<open>Opening and closing\<close>

definition file_from :: "os_env \<Rightarrow> string option \<Rightarrow> usize \<Rightarrow> os \<Rightarrow> file_loader result \<times> os" where
  "file_from env file_name alignment s =
     (if \<not> is_power_of_2 alignment then (Err InvalidArgument, s)
      else case file_name of
        None \<Rightarrow> (Err InvalidArgument, s)
      | Some name \<Rightarrow>
          let fd = en_open env (os_calls s) name; s1 = os_tick s
          in if fd < 0 then (Err AccessFailed, s1)
          else let s2 = s1\<lparr>os_fds := fd # os_fds s1\<rparr>
          in case en_fstat env (os_calls s2) fd of
               None \<Rightarrow> (Err AccessFailed, close_fd fd (os_tick s2))
             | Some st_size \<Rightarrow>
                 let file_name_len = of_nat (length name) + 1;
                     (file_name_copy, s3) = et_aligned_alloc env file_name_len alignment (os_tick s2)
                 in if file_name_copy = 0 then (Err MemoryAllocationFailed, close_fd fd s3)
                    else (Ok \<lparr>fl_file_name = file_name_copy, fl_file_name_len = file_name_len,
                             fl_file_size = st_size, fl_alignment = alignment, fl_fd = fd\<rparr>,
                          s3\<lparr>os_memory := write_bytes file_name_copy (map of_char name @ [0]) (os_memory s3)\<rparr>))"

definition file_drop :: "file_loader \<Rightarrow> os \<Rightarrow> os result" where
  "file_drop l s =
     r_bind (et_aligned_free (fl_file_name l) (fl_file_name_len l) (fl_alignment l) s) (\<lambda>s1.
       if fl_fd l = -1 then Ok s1 else Ok (close_fd (fl_fd l) s1))"

section \<open>The file descriptor loader\<close>

text \<open>
  A loader that is handed an open file descriptor in a URI. \<^verbatim>\<open>strdup\<close> and \<^verbatim>\<open>atoi\<close> are functions of
  the C library, so they are parameters. The bodies of its \<open>load\<close> and \<open>load_into\<close> are those of the
  file loader on the fields that the two share.
\<close>

record fd_loader =
  fdl_file_descriptor_uri :: usize
  fdl_file_size :: usize
  fdl_alignment :: usize
  fdl_fd :: int

definition K_FD_FILESYSTEM_PREFIX :: string where
  "K_FD_FILESYSTEM_PREFIX = ''fd:///''"

definition get_fd_from_uri :: "(string \<Rightarrow> int) \<Rightarrow> string \<Rightarrow> int result" where
  "get_fd_from_uri atoi uri =
     (let prefix_len = length K_FD_FILESYSTEM_PREFIX
      in if take prefix_len uri \<noteq> K_FD_FILESYSTEM_PREFIX then Err InvalidArgument
         else Ok (atoi (drop prefix_len uri)))"

definition c_free :: "usize \<Rightarrow> os \<Rightarrow> os result" where
  "c_free p s =
     (if p = 0 then Ok s
      else if p \<in> set (os_c_blocks s) then Ok (s\<lparr>os_c_blocks := remove1 p (os_c_blocks s)\<rparr>)
      else Panic)"

definition fd_from_uri ::
    "(string \<Rightarrow> int) \<Rightarrow> os_env \<Rightarrow> string \<Rightarrow> usize \<Rightarrow> os \<Rightarrow> fd_loader result \<times> os" where
  "fd_from_uri atoi env uri alignment s =
     (if \<not> is_power_of_2 alignment then (Err InvalidArgument, s)
      else case get_fd_from_uri atoi uri of
        Err e \<Rightarrow> (Err e, s)
      | Panic \<Rightarrow> (Panic, s)
      | Ok fd \<Rightarrow>
          (case en_fstat env (os_calls s) fd of
             None \<Rightarrow> (Err AccessFailed, close_fd fd (os_tick s))
           | Some st_size \<Rightarrow>
               let s1 = os_tick s; uri_copy = en_strdup env (os_calls s1); s2 = os_tick s1
               in if uri_copy = 0 then (Err MemoryAllocationFailed, close_fd fd s2)
                  else (Ok \<lparr>fdl_file_descriptor_uri = uri_copy, fdl_file_size = st_size,
                           fdl_alignment = alignment, fdl_fd = fd\<rparr>,
                        s2\<lparr>os_c_blocks := uri_copy # os_c_blocks s2\<rparr>)))"

definition fd_drop :: "fd_loader \<Rightarrow> os \<Rightarrow> os result" where
  "fd_drop l s = r_bind (c_free (fdl_file_descriptor_uri l) s) (\<lambda>s1. Ok (close_fd (fdl_fd l) s1))"

definition fd_view :: "fd_loader \<Rightarrow> file_loader" where
  "fd_view l = \<lparr>fl_file_name = fdl_file_descriptor_uri l, fl_file_name_len = 0, fl_file_size = fdl_file_size l,
                fl_alignment = fdl_alignment l, fl_fd = fdl_fd l\<rparr>"

definition fd_load ::
    "nat \<Rightarrow> bool \<Rightarrow> os_env \<Rightarrow> fd_loader \<Rightarrow> usize \<Rightarrow> usize \<Rightarrow> os \<Rightarrow> (freeable_buffer result \<times> os) option" where
  "fd_load fuel oc env l off sz s = file_load fuel oc env (fd_view l) off sz s"

definition fd_load_into ::
    "nat \<Rightarrow> bool \<Rightarrow> os_env \<Rightarrow> fd_loader \<Rightarrow> usize \<Rightarrow> usize \<Rightarrow> usize \<Rightarrow> os \<Rightarrow> (Error result \<times> os) option" where
  "fd_load_into fuel oc env l off sz buffer s = file_load_into fuel oc env (fd_view l) off sz buffer s"

definition fd_size :: "fd_loader \<Rightarrow> usize result" where
  "fd_size l = (if \<not> 0 \<le> fdl_fd l then Err InvalidState else Ok (fdl_file_size l))"

section \<open>What a range read delivers\<close>

lemma write_bytes_append:
  assumes "length bs + length cs < 2 ^ 64"
  shows "write_bytes (buf + of_nat (length bs)) cs (write_bytes buf bs mem) = write_bytes buf (bs @ cs) mem"
proof
  fix a :: usize
  let ?n = "of_nat (length bs) :: usize"
  have n: "unat ?n = length bs" using assms by (simp add: unat_of_nat_64)
  have d: "a - (buf + ?n) = (a - buf) - ?n" by simp
  show "write_bytes (buf + ?n) cs (write_bytes buf bs mem) a = write_bytes buf (bs @ cs) mem a"
  proof (cases "unat (a - buf) < length bs")
    case True
    then have lt: "a - buf < ?n" by (simp add: word_less_nat_alt n)
    have "unat ((a - buf) - ?n) = 2 ^ 64 + unat (a - buf) - length bs"
      using lt n unat_sub_if_size [of "a - buf" ?n] by (simp add: word_size not_le word_less_nat_alt)
    then have "\<not> unat ((a - buf) - ?n) < length cs" using assms True by simp
    then show ?thesis using True by (simp add: write_bytes_def d nth_append)
  next
    case False
    then have "unat ((a - buf) - ?n) = unat (a - buf) - length bs"
      using n by (simp add: unat_sub word_le_nat_alt)
    then show ?thesis using False by (auto simp: write_bytes_def d nth_append)
  qed
qed

lemma write_bytes_Nil [simp]: "write_bytes buf [] mem = mem"
  by (simp add: write_bytes_def)

lemma pread_at_most: "unat (min needed 0x7FFFFFFF :: usize) \<le> unat needed"
  by (simp add: min_def word_le_nat_alt)

text \<open>The invariant of the loop: what has been read so far is a prefix of the range.\<close>

lemma read_loop_reads:
  assumes "pread_reads file pread"
    and "read_loop fuel oc pread needed buf off k mem = Some (r, k', mem')"
    and "unat off + unat needed < 2 ^ 64"
  shows "\<exists>e. r = Ok e \<and> (e = Error_Ok \<or> e = AccessFailed) \<and>
    (e = Error_Ok \<longrightarrow> unat off + unat needed \<le> max (unat off) (length file) \<and>
       mem' = write_bytes buf (take (unat needed) (drop (unat off) file)) mem)"
  using assms(2,3)
proof (induction fuel arbitrary: needed buf off k mem)
  case 0
  then show ?case by simp
next
  case (Suc fuel)
  show ?case
  proof (cases "needed = 0")
    case True
    then show ?thesis using Suc.prems by auto
  next
    case False
    show ?thesis
    proof (cases "pread k (min needed 0x7FFFFFFF) off")
      case (PFailed interrupted)
      then show ?thesis
        using Suc.prems False Suc.IH [of needed buf off "Suc k" mem] by (auto simp: Let_def split: if_splits)
    next
      case (PRead bs)
      then have len: "length bs \<le> unat needed" and bs: "bs = take (length bs) (drop (unat off) file)"
        using assms(1) pread_at_most [of needed] le_trans unfolding pread_reads_def by blast+
      show ?thesis
      proof (cases "bs = []")
        case True
        then show ?thesis using Suc.prems PRead False by (auto simp: Let_def)
      next
        case bs_ne: False
        let ?n = "of_nat (length bs) :: usize"
        have n: "unat ?n = length bs" using len unat_lt_64 [of needed] by (simp add: unat_of_nat_64)
        have le: "?n \<le> needed" by (simp add: word_le_nat_alt n len)
        have needed': "unat (needed - ?n) = unat needed - length bs" using le by (simp add: unat_sub n)
        have off': "unat (off + ?n) = unat off + length bs"
          using Suc.prems(2) len by (simp add: unat_add_no_overflow n)
        have rec: "read_loop fuel oc pread (needed - ?n) (buf + ?n) (off + ?n) (Suc k) (write_bytes buf bs mem)
            = Some (r, k', mem')"
          using Suc.prems PRead False bs_ne le off' n len
          by (simp add: Let_def usub_def uadd_def not_less split: if_splits)
        have "unat (off + ?n) + unat (needed - ?n) < 2 ^ 64" using Suc.prems(2) needed' off' len by simp
        from Suc.IH [OF rec this] obtain e where e: "r = Ok e" "e = Error_Ok \<or> e = AccessFailed"
          and ok: "e = Error_Ok \<Longrightarrow>
            unat off + unat needed \<le> max (unat off + length bs) (length file) \<and>
            mem' = write_bytes (buf + ?n) (take (unat needed - length bs) (drop (unat off + length bs) file))
                     (write_bytes buf bs mem)"
          using needed' off' len by auto
        have in_file: "unat off + length bs \<le> length file"
        proof -
          have "length bs \<le> length (drop (unat off) file)" by (subst bs) simp
          then show ?thesis using bs_ne by (cases "unat off \<le> length file") auto
        qed
        have app: "bs @ take (unat needed - length bs) (drop (unat off + length bs) file)
            = take (unat needed) (drop (unat off) file)"
        proof -
          have "take (unat needed) (drop (unat off) file) =
              take (length bs) (drop (unat off) file) @
              take (unat needed - length bs) (drop (length bs) (drop (unat off) file))"
            using len by (metis le_add_diff_inverse take_add)
          then show ?thesis by (simp flip: bs add: add.commute)
        qed
        have "length bs + length (take (unat needed - length bs) (drop (unat off + length bs) file)) < 2 ^ 64"
          using len unat_lt_64 [of needed] by simp
        from write_bytes_append [OF this, of buf mem] app
        show ?thesis using e ok in_file by auto
      qed
    qed
  qed
qed

text \<open>
  Progress: on a file that holds the range, a \<^verbatim>\<open>pread\<close> of at least one byte delivers at least one
  byte or is interrupted, and it is not interrupted from the \<open>N\<close>-th call on. Then as many units of
  fuel as there are bytes and interrupted calls are enough.
\<close>

definition pread_progresses :: "u8 list \<Rightarrow> nat \<Rightarrow> (nat \<Rightarrow> usize \<Rightarrow> usize \<Rightarrow> pread_reply) \<Rightarrow> bool" where
  "pread_progresses file N pread \<longleftrightarrow>
     (\<forall>k c off. 0 < c \<and> unat off < length file \<longrightarrow>
        pread k c off \<noteq> PFailed False \<and> pread k c off \<noteq> PRead [] \<and> (N \<le> k \<longrightarrow> pread k c off \<noteq> PFailed True))"

lemma read_loop_returns:
  assumes "pread_reads file pread" and "pread_progresses file N pread"
    and "unat off + unat needed \<le> length file" and "length file < 2 ^ 64"
    and "N - k + unat needed < fuel"
  shows "\<exists>k' mem'. read_loop fuel oc pread needed buf off k mem = Some (Ok Error_Ok, k', mem')"
  using assms(3,5)
proof (induction fuel arbitrary: needed buf off k mem)
  case 0
  then show ?case by simp
next
  case (Suc fuel)
  show ?case
  proof (cases "needed = 0")
    case True
    then show ?thesis by simp
  next
    case False
    then have pos: "0 < unat needed" by (simp add: unat_gt_0)
    have "0 < (min needed 0x7FFFFFFF :: usize)" using False by (simp add: min_def word_gt_0)
    moreover have "unat off < length file" using Suc.prems(1) pos by simp
    ultimately have p: "pread k (min needed 0x7FFFFFFF) off \<noteq> PFailed False"
      "pread k (min needed 0x7FFFFFFF) off \<noteq> PRead []"
      "N \<le> k \<Longrightarrow> pread k (min needed 0x7FFFFFFF) off \<noteq> PFailed True"
      using assms(2) by (auto simp: pread_progresses_def)
    show ?thesis
    proof (cases "pread k (min needed 0x7FFFFFFF) off")
      case (PFailed interrupted)
      then have "interrupted" and "k < N" using p by (auto intro: leI elim: contrapos_np)
      moreover have "N - Suc k + unat needed < fuel" using Suc.prems(2) \<open>k < N\<close> by simp
      ultimately show ?thesis using PFailed False Suc.IH [OF Suc.prems(1), of "Suc k"] by (simp add: Let_def)
    next
      case (PRead bs)
      then have len: "length bs \<le> unat needed" and ne: "bs \<noteq> []"
        using assms(1) pread_at_most [of needed] le_trans p unfolding pread_reads_def by blast+
      let ?n = "of_nat (length bs) :: usize"
      have n: "unat ?n = length bs" using len unat_lt_64 [of needed] by (simp add: unat_of_nat_64)
      have le: "?n \<le> needed" by (simp add: word_le_nat_alt n len)
      have needed': "unat (needed - ?n) = unat needed - length bs" using le by (simp add: unat_sub n)
      have off': "unat (off + ?n) = unat off + length bs"
        using Suc.prems(1) assms(4) len by (simp add: unat_add_no_overflow n)
      have "unat (off + ?n) + unat (needed - ?n) \<le> length file" using Suc.prems(1) needed' off' len by simp
      moreover have "N - Suc k + unat (needed - ?n) < fuel"
        using Suc.prems(2) needed' ne len by (cases bs) auto
      ultimately have "\<exists>k' mem'. read_loop fuel oc pread (needed - ?n) (buf + ?n) (off + ?n) (Suc k)
          (write_bytes buf bs mem) = Some (Ok Error_Ok, k', mem')"
        by (rule Suc.IH)
      then show ?thesis
        using PRead False ne le off' n Suc.prems(1) assms(4) len
        by (simp add: Let_def usub_def uadd_def not_less)
    qed
  qed
qed

section \<open>Loading as an instance of the contract\<close>

lemma file_load_into_reads:
  assumes "pread_reads file (\<lambda>k. en_pread env k (fl_fd l))" and "length file = unat (fl_file_size l)"
    and "file_load_into fuel oc env l off sz buffer s = Some (r, s')"
  shows "\<exists>e. r = Ok e \<and> os_blocks s' = os_blocks s \<and> os_fds s' = os_fds s \<and>
    (e = Error_Ok \<longrightarrow> unat off + unat sz \<le> length file \<and>
       os_memory s' = write_bytes buffer (take (unat sz) (drop (unat off) file)) (os_memory s))"
proof (cases "0 \<le> fl_fd l \<and> range_in_bounds off sz (fl_file_size l) \<and> buffer \<noteq> 0")
  case False
  then show ?thesis using assms(3) by (auto simp: file_load_into_def split: if_splits)
next
  case True
  then have r: "unat off + unat sz \<le> length file" by (simp add: range_in_bounds_iff assms(2))
  then have small: "unat off + unat sz < 2 ^ 64" using unat_lt_64 [of "fl_file_size l"] assms(2) by simp
  from assms(3) True obtain k mem where
    loop: "read_loop fuel oc (\<lambda>k. en_pread env k (fl_fd l)) sz buffer off (os_calls s) (os_memory s) = Some (r, k, mem)"
    and s': "s' = s\<lparr>os_memory := mem, os_calls := k\<rparr>"
    by (auto simp: file_load_into_def split: option.splits)
  from read_loop_reads [OF assms(1) loop small] show ?thesis using r by (auto simp: s')
qed

lemma et_aligned_alloc_cases:
  assumes "et_aligned_alloc env sz alignment s = (p, s')" and "sz \<noteq> 0"
  shows "os_fds s' = os_fds s \<and>
    (if p = 0 then os_blocks s' = os_blocks s
     else valid_layout sz alignment \<and> os_blocks s' = (os_blocks s)(p \<mapsto> (sz, alignment)) \<and>
       p = en_alloc env (os_calls s) sz alignment)"
  using assms by (auto simp: et_aligned_alloc_def os_tick_def Let_def split: if_splits)

lemma file_load_into_errors:
  assumes "pread_reads file (\<lambda>k. en_pread env k (fl_fd l))" and "length file = unat (fl_file_size l)"
    and "file_load_into fuel oc env l off sz buffer s = Some (Ok e, s')"
  shows "e \<in> {Error_Ok, AccessFailed, InvalidState, InvalidArgument}"
proof -
  have "unat off + unat sz < 2 ^ 64" if "range_in_bounds off sz (fl_file_size l)"
    using that unat_lt_64 [of "fl_file_size l"] by (simp add: range_in_bounds_iff)
  then show ?thesis
    using assms(3) read_loop_reads [OF assms(1)]
    by (fastforce simp: file_load_into_def split: if_splits option.splits)
qed

text \<open>Every way a load can end, in one rule.\<close>

lemma file_load_cases:
  assumes "pread_reads file (\<lambda>k. en_pread env k (fl_fd l))" and "length file = unat (fl_file_size l)"
    and "file_load fuel oc env l off sz s = Some (r, s')"
  obtains (failed) e where "r = Err e" "e \<noteq> NotFound" "os_fds s' = os_fds s"
      "os_blocks s' = os_blocks s \<or>
       (\<exists>p. p = en_alloc env (os_calls s) sz (fl_alignment l) \<and> os_blocks s' = (os_blocks s)(p := None))"
    | (empty) "sz = 0" "r = Ok (fb_from_pointer 0 0 None 0)" "s' = s"
    | (loaded) p where "sz \<noteq> 0" "p \<noteq> 0" "r = Ok (fb_from_pointer p sz (Some FREE_SEGMENT) (fl_alignment l))"
      "p = en_alloc env (os_calls s) sz (fl_alignment l)" "valid_layout sz (fl_alignment l)"
      "unat off + unat sz \<le> length file" "os_fds s' = os_fds s"
      "os_blocks s' = (os_blocks s)(p \<mapsto> (sz, fl_alignment l))"
      "bytes_at (os_memory s') p (unat sz) = take (unat sz) (drop (unat off) file)"
proof (cases "0 \<le> fl_fd l \<and> range_in_bounds off sz (fl_file_size l) \<and> sz \<noteq> 0")
  case False
  then show ?thesis using assms(3) that(1,2) by (auto simp: file_load_def split: if_splits)
next
  case True
  obtain p s1 where alloc: "et_aligned_alloc env sz (fl_alignment l) s = (p, s1)" by force
  note a = et_aligned_alloc_cases [OF alloc] True
  show ?thesis
  proof (cases "p = 0")
    case True
    then show ?thesis
      using assms(3) that(1) [of MemoryAllocationFailed] a alloc by (auto simp: file_load_def)
  next
    case p: False
    with assms(3) True alloc obtain r2 s2
      where load: "file_load_into fuel oc env l off sz p s1 = Some (r2, s2)"
      by (cases "file_load_into fuel oc env l off sz p s1") (auto simp: file_load_def)
    obtain e where e: "r2 = Ok e" "os_blocks s2 = os_blocks s1" "os_fds s2 = os_fds s1"
      and ok: "e = Error_Ok \<Longrightarrow> unat off + unat sz \<le> length file \<and>
        os_memory s2 = write_bytes p (take (unat sz) (drop (unat off) file)) (os_memory s1)"
      using file_load_into_reads [OF assms(1,2) load] by auto
    show ?thesis
    proof (cases "e = Error_Ok")
      case True
      then have "unat off + unat sz \<le> length file" using ok by simp
      then have "length (take (unat sz) (drop (unat off) file)) = unat sz" by simp
      then have "bytes_at (os_memory s2) p (unat sz) = take (unat sz) (drop (unat off) file)"
        using ok True unat_lt_64 [of sz] bytes_at_write [of "take (unat sz) (drop (unat off) file)" "unat sz"]
        by metis
      then show ?thesis
        using assms(3) p load e a alloc ok True that(3) [of p] by (auto simp: file_load_def)
    next
      case False
      have "e = AccessFailed \<or> e = InvalidState \<or> e = InvalidArgument"
        using file_load_into_errors [OF assms(1,2) load [unfolded e(1)]] False by simp
      then show ?thesis
        using assms(3) p load e a alloc False that(1) [of e]
        by (auto simp: file_load_def et_aligned_free_def)
    qed
  qed
qed

text \<open>
  A loader that runs on enough fuel for its calls to return is a loader in the sense of the
  contract, whatever way the operating system cuts up the reads. Not returning within the fuel
  counts as \<open>Panic\<close> here, about which the contract says nothing.
\<close>

definition file_load_total ::
    "nat \<Rightarrow> bool \<Rightarrow> os_env \<Rightarrow> file_loader \<Rightarrow> usize \<Rightarrow> usize \<Rightarrow> os \<Rightarrow> freeable_buffer result \<times> os" where
  "file_load_total fuel oc env l off sz s =
     (case file_load fuel oc env l off sz s of Some r \<Rightarrow> r | None \<Rightarrow> (Panic, s))"

definition file_loader_inv :: "os_env \<Rightarrow> file_loader \<times> u8 list \<Rightarrow> bool" where
  "file_loader_inv env = (\<lambda>(l, file). 0 \<le> fl_fd l \<and> length file = unat (fl_file_size l) \<and>
     pread_reads file (\<lambda>k. en_pread env k (fl_fd l)))"

interpretation fileio: loader_contract "\<lambda>(l, _). file_load_total fuel oc env l" "\<lambda>(l, _). file_size l"
  os_memory snd "\<lambda>l s. file_loader_inv env l"
proof (unfold_locales, goal_cases)
  case (4 l s off sz fb s')
  obtain f c where l: "l = (f, c)" by (cases l)
  have load: "file_load fuel oc env f off sz s = Some (Ok fb, s')"
    using 4 by (auto simp: l file_load_total_def split: option.splits)
  have "pread_reads c (\<lambda>k. en_pread env k (fl_fd f))" "length c = unat (fl_file_size f)"
    using 4 by (simp_all add: l file_loader_inv_def)
  from file_load_cases [OF this load] show ?case
    by cases (simp_all add: l fb_from_pointer_def fb_data_safe_def bytes_at_def)
qed (auto simp: file_loader_inv_def file_size_def file_load_total_def file_load_def range_in_bounds_iff
    unat_lt_64 [simplified])

interpretation fd: loader_contract
  "\<lambda>(l, _) off sz s. case fd_load fuel oc env l off sz s of Some r \<Rightarrow> r | None \<Rightarrow> (Panic, s)"
  "\<lambda>(l, _). fd_size l" os_memory snd "\<lambda>l s. file_loader_inv env (fd_view (fst l), snd l)"
proof (unfold_locales, goal_cases)
  case (4 l s off sz fb s')
  then show ?case
    using fileio.loaded [of env "(fd_view (fst l), snd l)" fuel oc off sz s fb s']
    by (cases l) (simp add: fd_load_def file_load_total_def)
next
  case (3 l s off sz)
  then show ?case
    using fileio.out_of_range [of env "(fd_view (fst l), snd l)" off sz fuel oc s]
    by (cases l) (simp add: fd_load_def file_load_total_def)
qed (auto simp: file_loader_inv_def fd_size_def fd_view_def unat_lt_64 [simplified])

lemma fd_from_then_drop:
  assumes "fd_from_uri atoi env uri al s = (Ok l, s1)"
  shows "\<exists>s2. fd_drop l s1 = Ok s2 \<and> os_c_blocks s2 = os_c_blocks s \<and> os_fds s2 = remove1 (fdl_fd l) (os_fds s)"
  using assms
  by (auto simp: fd_from_uri_def get_fd_from_uri_def fd_drop_def c_free_def os_tick_def close_fd_def Let_def
      split: if_splits option.splits)

lemma file_load_terminates:
  assumes "pread_reads file (\<lambda>k. en_pread env k (fl_fd l))"
    and "pread_progresses file N (\<lambda>k. en_pread env k (fl_fd l))"
    and "length file = unat (fl_file_size l)" and "0 \<le> fl_fd l"
    and "unat off + unat sz \<le> length file" and "N + unat sz < fuel"
  shows "\<exists>r s'. file_load fuel oc env l off sz s = Some (r, s') \<and>
    (if sz \<noteq> 0 \<and> fst (et_aligned_alloc env sz (fl_alignment l) s) = 0 then r = Err MemoryAllocationFailed else is_Ok r)"
proof (cases "sz = 0")
  case True
  then show ?thesis using assms(3,4,5) by (simp add: file_load_def range_in_bounds_iff)
next
  case sz: False
  obtain p s1 where alloc: "et_aligned_alloc env sz (fl_alignment l) s = (p, s1)" by force
  show ?thesis
  proof (cases "p = 0")
    case True
    then show ?thesis using alloc sz assms(3,4,5) by (simp add: file_load_def range_in_bounds_iff)
  next
    case False
    have "length file < 2 ^ 64" using assms(3) unat_lt_64 by simp
    moreover have "N - os_calls s1 + unat sz < fuel" using assms(6) by simp
    ultimately obtain k mem where "read_loop fuel oc (\<lambda>k. en_pread env k (fl_fd l)) sz p off (os_calls s1)
        (os_memory s1) = Some (Ok Error_Ok, k, mem)"
      using read_loop_returns [OF assms(1,2,5)] by blast
    then show ?thesis
      using alloc sz False assms(3,4,5) by (simp add: file_load_def file_load_into_def range_in_bounds_iff)
  qed
qed

lemma file_from_failed:
  assumes "file_from env name al s = (Err e, s1)"
  shows "os_blocks s1 = os_blocks s \<and> os_fds s1 = os_fds s"
proof -
  have "os_blocks s' = os_blocks s0 \<and> os_fds s' = os_fds s0"
    if "et_aligned_alloc env sz al' s0 = (0, s')" for sz al' s0 s'
    using that by (auto simp: et_aligned_alloc_def os_tick_def Let_def split: if_splits)
  then show ?thesis
    using assms
    by (auto simp: file_from_def Let_def close_fd_def os_tick_def split: if_splits option.splits prod.splits)
qed

lemma file_from_drop:
  assumes "\<forall>n sz al. os_blocks s (en_alloc env n sz al) = None"
    and "file_from env name al s = (Ok l, s1)"
  shows "\<exists>s2. file_drop l s1 = Ok s2 \<and> os_blocks s2 = os_blocks s \<and> os_fds s2 = os_fds s"
proof -
  from assms(2) obtain n where name: "name = Some n"
    by (auto simp: file_from_def split: if_splits option.splits)
  let ?fd = "en_open env (os_calls s) n" and ?len = "of_nat (length n) + 1 :: usize"
  let ?s2 = "(os_tick s)\<lparr>os_fds := ?fd # os_fds s\<rparr>"
  obtain p s3 where alloc: "et_aligned_alloc env ?len al (os_tick ?s2) = (p, s3)" by force
  have l: "fl_file_name l = p" "fl_file_name_len l = ?len" "fl_alignment l = al" "fl_fd l = ?fd" "0 \<le> ?fd" "p \<noteq> 0"
    and s1: "os_blocks s1 = os_blocks s3" "os_fds s1 = os_fds s3"
    using assms(2) alloc
    by (auto simp: file_from_def name Let_def os_tick_def split: if_splits option.splits)
  show ?thesis
  proof (cases "?len = 0")
    case True
    then show ?thesis
      using l s1 alloc
      by (auto simp: file_drop_def et_aligned_free_def et_aligned_alloc_def os_tick_def close_fd_def split: if_splits)
  next
    case False
    from et_aligned_alloc_cases [OF alloc False] show ?thesis
      using l s1 assms(1) False
      by (simp add: file_drop_def et_aligned_free_def os_tick_def close_fd_def fun_upd_idem)
  qed
qed

section \<open>Properties\<close>

definition example_file :: "u8 list" where
  "example_file = map of_nat [0..<40]"

text \<open>An operating system that delivers at most three bytes at a time and interrupts every fourth call.\<close>

definition example_os_env :: os_env where
  "example_os_env =
     \<lparr>en_alloc = (\<lambda>k sz al. 0x10000 * (of_nat k + 1)),
      en_pread = (\<lambda>k fd c off. if k mod 4 = 3 \<and> k < 16 then PFailed True
                              else PRead (take (min 3 (unat c)) (drop (unat off) example_file))),
      en_open = (\<lambda>k name. 5), en_fstat = (\<lambda>k fd. Some 40), en_strdup = (\<lambda>k. 0x500)\<rparr>"

definition example_file_loader :: file_loader where
  "example_file_loader =
     \<lparr>fl_file_name = 0x10000, fl_file_name_len = 2, fl_file_size = 40, fl_alignment = 16, fl_fd = 5\<rparr>"

definition example_os :: os where
  "example_os = \<lparr>os_memory = (\<lambda>_. 0), os_blocks = Map.empty, os_fds = [], os_c_blocks = [], os_calls = 0\<rparr>"

lemma take_length_take: "take (length (take n xs)) xs = take n xs"
  by (cases "n \<le> length xs") auto

lemma example_os_reads: "pread_reads example_file (\<lambda>k. en_pread example_os_env k fd)"
  unfolding pread_reads_def example_os_env_def
  by (auto simp del: length_take simp: take_length_take split: if_splits) simp_all

lemma example_os_progresses: "pread_progresses example_file 16 (\<lambda>k. en_pread example_os_env k fd)"
  by (auto simp: pread_progresses_def example_os_env_def unat_gt_0)

text \<open>
  C34. A file load that succeeds hands out a buffer of the requested size that holds exactly the
  bytes of the file in the requested range, however the operating system splits the range into
  reads and however often it interrupts them.
\<close>

theorem file_load_delivers_range:
  assumes "0 \<le> fl_fd l" and "pread_reads file (\<lambda>k. en_pread env k (fl_fd l))"
    and "length file = unat (fl_file_size l)"
    and "file_load fuel oc env l off sz s = Some (Ok fb, s')"
  shows "unat off + unat sz \<le> length file \<and> fb_size fb = sz \<and>
    (\<exists>p. fb_data_safe fb = Ok p \<and>
       bytes_at (os_memory s') p (unat sz) = take (unat sz) (drop (unat off) file))"
proof -
  have inv: "file_loader_inv env (l, file)" using assms by (simp add: file_loader_inv_def)
  have load: "file_load_total fuel oc env l off sz s = (Ok fb, s')"
    using assms(4) by (simp add: file_load_total_def)
  show ?thesis
    using fileio.loaded [of env "(l, file)" fuel oc off sz s fb s']
      fileio.loaded_in_range [of env "(l, file)" fuel oc off sz s fb s'] inv load
    by simp
qed

theorem file_load_delivers_range_witness:
  "\<exists>fb s'. file_load 40 True example_os_env example_file_loader 5 7 example_os = Some (Ok fb, s') \<and>
     fb_size fb = 7 \<and> (\<exists>p. fb_data_safe fb = Ok p \<and> bytes_at (os_memory s') p 7 = [5, 6, 7, 8, 9, 10, 11])"
proof -
  have fits: "length example_file = unat (fl_file_size example_file_loader)" "0 \<le> fl_fd example_file_loader"
    by (simp_all add: example_file_def example_file_loader_def)
  have "fst (et_aligned_alloc example_os_env 7 (fl_alignment example_file_loader) example_os) \<noteq> 0"
    by (simp add: et_aligned_alloc_def valid_layout_def is_power_of2_def example_file_loader_def
        example_os_env_def example_os_def Let_def)
  then obtain fb s' where
    load: "file_load 40 True example_os_env example_file_loader 5 7 example_os = Some (Ok fb, s')"
    using file_load_terminates [OF example_os_reads example_os_progresses fits, of 5 7 40 True example_os]
    by (auto simp: is_Ok_iff example_file_def)
  have "take 7 (drop 5 example_file) = [5, 6, 7, 8, 9, 10, 11]"
    by (simp add: example_file_def upt_rec)
  then show ?thesis
    using file_load_delivers_range [OF fits(2) example_os_reads fits(1) load] load by auto
qed

text \<open>
  C35. A file load inside the file comes to an end: when every read of a nonempty range makes
  progress or is interrupted, and interruptions stop after the \<open>N\<close>-th call, then \<open>N\<close> plus the size
  of the range plus one calls are enough, and the load succeeds unless memory has run out.
\<close>

theorem file_load_returns:
  assumes "pread_reads file (\<lambda>k. en_pread env k (fl_fd l))"
    and "pread_progresses file N (\<lambda>k. en_pread env k (fl_fd l))"
    and "length file = unat (fl_file_size l)" and "0 \<le> fl_fd l"
    and "unat off + unat sz \<le> length file" and "N + unat sz < fuel"
  shows "\<exists>r s'. file_load fuel oc env l off sz s = Some (r, s') \<and> (is_Ok r \<or> r = Err MemoryAllocationFailed)"
  using file_load_terminates [OF assms, of oc s] by (auto split: if_splits)

theorem file_load_returns_witness:
  "\<exists>r s'. file_load 57 True example_os_env example_file_loader 0 40 example_os = Some (r, s')"
  using file_load_returns [OF example_os_reads example_os_progresses, of example_file_loader 0 40 57 True example_os]
  by (simp add: example_file_def example_file_loader_def) blast

text \<open>
  C36. Resources of a file loader come in pairs. A failed \<^verbatim>\<open>from\<close> leaves no block and no file
  descriptor behind and dropping a loader returns both; a failed load leaves the blocks as they
  were, and freeing the buffer of a successful one gives its block back with the layout it was
  allocated with. The allocator is relied on not to hand out a live block.
\<close>

theorem file_loader_releases_resources:
  assumes fresh: "\<forall>n sz al. os_blocks s (en_alloc env n sz al) = None"
    and reads: "pread_reads file (\<lambda>k. en_pread env k (fl_fd l))"
    and size: "length file = unat (fl_file_size l)"
  shows "(\<forall>name al e s1. file_from env name al s = (Err e, s1) \<longrightarrow>
       os_blocks s1 = os_blocks s \<and> os_fds s1 = os_fds s) \<and>
    (\<forall>name al l' s1. file_from env name al s = (Ok l', s1) \<longrightarrow>
       (\<exists>s2. file_drop l' s1 = Ok s2 \<and> os_blocks s2 = os_blocks s \<and> os_fds s2 = os_fds s)) \<and>
    (\<forall>e s1. file_load fuel oc env l off sz s = Some (Err e, s1) \<longrightarrow> os_blocks s1 = os_blocks s) \<and>
    (\<forall>fb s1. file_load fuel oc env l off sz s = Some (Ok fb, s1) \<longrightarrow>
       (case fst (fb_free fb) of
          [] \<Rightarrow> os_blocks s1 = os_blocks s
        | [FreeFn f context data sz'] \<Rightarrow>
            f = FREE_SEGMENT \<and> (\<exists>s2. free_segment context data sz' s1 = Ok s2 \<and> os_blocks s2 = os_blocks s)
        | _ \<Rightarrow> False))"
proof (intro conjI allI impI, goal_cases)
  case 1
  then show ?case using file_from_failed by blast
next
  case 2
  then show ?case using file_from_failed by blast
next
  case (3 name al l' s1)
  then show ?case using fresh by (intro file_from_drop)
next
  case (4 e s1)
  from file_load_cases [OF reads size 4] show ?case
    using fresh by cases (auto simp: fun_upd_idem)
next
  case (5 fb s1)
  from file_load_cases [OF reads size 5] show ?case
    using fresh
    by cases (auto simp: fb_from_pointer_def fb_free_def free_segment_def et_aligned_free_def fun_upd_idem)
qed

theorem file_loader_releases_resources_witness:
  "\<exists>l s1 s2. file_from example_os_env (Some ''m'') 16 example_os = (Ok l, s1) \<and> file_drop l s1 = Ok s2 \<and>
     os_blocks s2 = Map.empty \<and> os_fds s2 = []"
proof -
  have "is_Ok (fst (file_from example_os_env (Some ''m'') 16 example_os))"
    by (simp add: file_from_def is_power_of_2_def example_os_env_def example_os_def et_aligned_alloc_def
        valid_layout_def is_power_of2_def os_tick_def Let_def)
  then obtain l s1 where "file_from example_os_env (Some ''m'') 16 example_os = (Ok l, s1)"
    by (metis is_Ok_iff prod.collapse)
  then show ?thesis
    using file_loader_releases_resources [of example_os example_os_env example_file example_file_loader 40 True 0 0]
      example_os_reads
    by (auto simp: example_os_def example_file_def example_file_loader_def)
qed

end
