(* ===== verification/Mmap_Loader.thy ===== *)
theory Mmap_Loader
  imports Data_Loader Allocator_Interface
begin

text \<open>
  The loader that maps files into memory, \<^verbatim>\<open>extension/data_loader/mmap_data_loader.rs\<close>, on the
  POSIX variant of \<^verbatim>\<open>extension/data_loader/mman.rs\<close>. The system calls are parameters, and the calls
  that the code makes are recorded in a log. What the code relies on is \<open>maps_file\<close>: a mapping is
  aligned to pages, lies inside the address space and shows the bytes of the file.
\<close>

unbundle bit_operations_syntax

section \<open>System calls\<close>

datatype map_event =
    Mapped usize usize
  | Unmapped usize usize
  | Locked usize usize
  | Advised usize usize

record map_env =
  me_mmap :: "usize \<Rightarrow> usize \<Rightarrow> bytes \<Rightarrow> (usize \<times> bytes) option"
  me_mlock :: "usize \<Rightarrow> usize \<Rightarrow> int"
  me_page_size :: int
  me_open :: "string \<Rightarrow> int"
  me_file_stat :: "int \<Rightarrow> usize option"
  me_strdup :: usize

record map_state =
  ms_memory :: bytes
  ms_log :: "map_event list"
  ms_open :: "int list"

definition log_event :: "map_event \<Rightarrow> map_state \<Rightarrow> map_state" where
  "log_event e s = s\<lparr>ms_log := ms_log s @ [e]\<rparr>"

section \<open>The loader\<close>

record page_range =
  pr_start :: usize
  pr_size :: usize

definition get_overlapping_pages :: "bool \<Rightarrow> usize \<Rightarrow> usize \<Rightarrow> usize \<Rightarrow> page_range result" where
  "get_overlapping_pages oc off sz page_size =
     r_bind (usub oc page_size 1) (\<lambda>m.
       let page_mask = NOT m; start = off AND page_mask; end' = (off + sz + NOT page_mask) AND page_mask
       in r_bind (usub oc end' start) (\<lambda>n. Ok \<lparr>pr_start = start, pr_size = n\<rparr>))"

datatype MlockConfig = NoMlock | UseMlock | UseMlockIgnoreErrors | UseMadvise

record mmap_loader =
  ml_file_name :: usize
  ml_file_size :: usize
  ml_page_size :: usize
  ml_fd :: int
  ml_mlock_config :: MlockConfig

definition mmap_from :: "map_env \<Rightarrow> string \<Rightarrow> MlockConfig \<Rightarrow> map_state \<Rightarrow> mmap_loader result \<times> map_state" where
  "mmap_from env file_name mlock_config s =
     (let page_size = me_page_size env
      in if page_size < 0 then (Err AccessFailed, s)
      else if (page_size AND NOT (page_size - 1)) \<noteq> page_size then (Err InvalidState, s)
      else let fd = me_open env file_name
      in if fd < 0 then (Err AccessFailed, s)
      else let s1 = s\<lparr>ms_open := fd # ms_open s\<rparr>
      in case me_file_stat env fd of
           None \<Rightarrow> (Err AccessFailed, s1\<lparr>ms_open := remove1 fd (ms_open s1)\<rparr>)
         | Some file_size' \<Rightarrow>
             if me_strdup env = 0 then (Err MemoryAllocationFailed, s1\<lparr>ms_open := remove1 fd (ms_open s1)\<rparr>)
             else (Ok \<lparr>ml_file_name = me_strdup env, ml_file_size = file_size', ml_page_size = word_of_int page_size,
                      ml_fd = fd, ml_mlock_config = mlock_config\<rparr>, s1))"

definition validate_input :: "mmap_loader \<Rightarrow> usize \<Rightarrow> usize \<Rightarrow> Error" where
  "validate_input l off sz =
     (if \<not> 0 \<le> ml_fd l then InvalidState
      else if \<not> range_in_bounds off sz (ml_file_size l) then InvalidArgument
      else Error_Ok)"

definition MUNMAP_SEGMENT :: nat where
  "MUNMAP_SEGMENT = 2"

definition munmap_segment :: "bool \<Rightarrow> usize \<Rightarrow> usize \<Rightarrow> usize \<Rightarrow> map_state \<Rightarrow> map_state result" where
  "munmap_segment oc context data sz s =
     r_bind (get_overlapping_pages oc data sz context) (\<lambda>rng.
       Ok (log_event (Unmapped (pr_start rng) (pr_size rng)) s))"

text \<open>The size to map: the pages that cover the range, cut off at the end of the file.\<close>

definition clamped_size :: "bool \<Rightarrow> mmap_loader \<Rightarrow> page_range \<Rightarrow> usize result" where
  "clamped_size oc l rng =
     r_bind (uadd oc (pr_start rng) (pr_size rng)) (\<lambda>e.
       if e > ml_file_size l then usub oc (ml_file_size l) (pr_start rng) else Ok (pr_size rng))"

text \<open>Locking: \<open>Inl\<close> when the load fails because of it.\<close>

definition lock_pages :: "map_env \<Rightarrow> mmap_loader \<Rightarrow> usize \<Rightarrow> usize \<Rightarrow> usize \<Rightarrow> map_state \<Rightarrow> (Error + unit) \<times> map_state" where
  "lock_pages env l pages sz map_size s =
     (let s1 = (if ml_mlock_config l \<in> {UseMlock, UseMlockIgnoreErrors} then log_event (Locked pages sz) s else s)
      in if ml_mlock_config l \<in> {UseMlock, UseMlockIgnoreErrors} \<and> me_mlock env pages sz < 0 \<and>
            ml_mlock_config l \<noteq> UseMlockIgnoreErrors
         then (Inl NotSupported, log_event (Unmapped pages sz) s1)
         else (Inr (), if ml_mlock_config l = UseMadvise then log_event (Advised pages map_size) s1 else s1))"

definition mmap_load ::
    "bool \<Rightarrow> map_env \<Rightarrow> mmap_loader \<Rightarrow> usize \<Rightarrow> usize \<Rightarrow> map_state \<Rightarrow> freeable_buffer result \<times> map_state" where
  "mmap_load oc env l off sz s =
     (let validation_err = validate_input l off sz
      in if validation_err \<noteq> Error_Ok then (Err validation_err, s)
      else if sz = 0 then (Ok (fb_from_pointer 0 0 None 0), s)
      else case r_bind (get_overlapping_pages oc off sz (ml_page_size l)) (\<lambda>rng.
                  r_bind (clamped_size oc l rng) (\<lambda>map_size. Ok (pr_start rng, map_size))) of
        Err e \<Rightarrow> (Err e, s)
      | Panic \<Rightarrow> (Panic, s)
      | Ok (start, map_size) \<Rightarrow>
          (case me_mmap env map_size start (ms_memory s) of
             None \<Rightarrow> (Err AccessFailed, s)
           | Some (pages, mem) \<Rightarrow>
               let s1 = log_event (Mapped pages map_size) (s\<lparr>ms_memory := mem\<rparr>)
               in case lock_pages env l pages sz map_size s1 of
                    (Inl e, s2) \<Rightarrow> (Err e, s2)
                  | (Inr _, s2) \<Rightarrow>
                      (case usub oc off start of
                         Ok delta \<Rightarrow> (Ok (fb_from_pointer (pages + delta) sz (Some MUNMAP_SEGMENT) (ml_page_size l)), s2)
                       | Err e \<Rightarrow> (Err e, s2)
                       | Panic \<Rightarrow> (Panic, s2))))"

definition mmap_size :: "mmap_loader \<Rightarrow> usize result" where
  "mmap_size l = (if \<not> 0 \<le> ml_fd l then Err InvalidState else Ok (ml_file_size l))"

definition mmap_load_into ::
    "bool \<Rightarrow> map_env \<Rightarrow> mmap_loader \<Rightarrow> usize \<Rightarrow> usize \<Rightarrow> usize \<Rightarrow> map_state \<Rightarrow> Error result \<times> map_state" where
  "mmap_load_into oc env l off sz buffer s =
     (if buffer = 0 then (Ok InvalidArgument, s)
      else let err = validate_input l off sz
      in if err \<noteq> Error_Ok then (Ok err, s)
      else if sz = 0 then (Ok Error_Ok, s)
      else case r_bind (get_overlapping_pages oc off sz (ml_page_size l)) (\<lambda>rng.
                  r_bind (clamped_size oc l rng) (\<lambda>map_size.
                  r_bind (usub oc off (pr_start rng)) (\<lambda>map_delta.
                  Ok (pr_start rng, map_size, map_delta)))) of
        Err e \<Rightarrow> (Err e, s)
      | Panic \<Rightarrow> (Panic, s)
      | Ok (start, map_size, map_delta) \<Rightarrow>
          (case me_mmap env map_size start (ms_memory s) of
             None \<Rightarrow> (Ok AccessFailed, s)
           | Some (pages, mem) \<Rightarrow>
               (Ok Error_Ok,
                log_event (Unmapped pages map_size)
                  (log_event (Mapped pages map_size)
                     (s\<lparr>ms_memory := copy_bytes (pages + map_delta) buffer sz mem\<rparr>)))))"

definition mmap_drop :: "mmap_loader \<Rightarrow> map_state \<Rightarrow> map_state" where
  "mmap_drop l s = (if ml_fd l \<noteq> -1 then s\<lparr>ms_open := remove1 (ml_fd l) (ms_open s)\<rparr> else s)"

section \<open>Pages\<close>

text \<open>
  \<open>covered k p n\<close> are the numbers of the pages of size \<open>2 ^ k\<close> that hold a byte of the \<open>n\<close> bytes at
  \<open>p\<close>: what a \<^verbatim>\<open>mmap\<close>, a \<^verbatim>\<open>munmap\<close> or an \<^verbatim>\<open>mlock\<close> of these bytes applies to.
\<close>

definition covered :: "nat \<Rightarrow> usize \<Rightarrow> usize \<Rightarrow> nat set" where
  "covered k p n = {unat p div 2 ^ k ..< (unat p + unat n + (2 ^ k - 1)) div 2 ^ k}"

lemma overlapping_pages_exact:
  assumes "k < 63" and "unat off + unat sz + 2 ^ k \<le> 2 ^ 64"
  shows "get_overlapping_pages oc off sz (2 ^ k) =
      Ok \<lparr>pr_start = off AND NOT (mask k), pr_size = ((off + sz + mask k) AND NOT (mask k)) - (off AND NOT (mask k))\<rparr>"
    and "unat (off AND NOT (mask k)) = unat off div 2 ^ k * 2 ^ k"
    and "unat (((off + sz + mask k) AND NOT (mask k)) - (off AND NOT (mask k))) =
      next_aligned (unat off + unat sz) (2 ^ k) - unat off div 2 ^ k * 2 ^ k"
proof -
  have k: "k < 64" using assms(1) by simp
  have pk: "\<not> 2 ^ k < (1 :: usize)" "(2 :: usize) ^ k - 1 = mask k"
    using k by (simp_all add: word_less_1 mask_eq_exp_minus_1)
  have s: "unat (off AND NOT (mask k)) = unat off div 2 ^ k * 2 ^ k" by (rule and_not_mask_unat)
  have "(0 :: nat) < 2 ^ k" by simp
  with assms(2) have "unat off + unat sz < 2 ^ 64" by linarith
  then have sum: "unat (off + sz) = unat off + unat sz" by (simp add: unat_add_no_overflow)
  have "next_aligned (unat off + unat sz) (2 ^ k) < unat off + unat sz + 2 ^ k"
    by (rule next_aligned_less) simp
  then have e: "unat ((off + sz + mask k) AND NOT (mask k)) = next_aligned (unat off + unat sz) (2 ^ k)"
    using aligned_start_unat [OF k, of "off + sz"] assms(2) by (simp add: sum)
  have "unat off div 2 ^ k * 2 ^ k \<le> next_aligned (unat off + unat sz) (2 ^ k)"
    by (rule order_trans [OF div_times_less_eq_dividend]) (rule order_trans [OF le_add1 next_aligned_ge], simp)
  then have le: "off AND NOT (mask k) \<le> (off + sz + mask k) AND NOT (mask k)"
    by (simp add: word_le_nat_alt s e)
  show "get_overlapping_pages oc off sz (2 ^ k) =
      Ok \<lparr>pr_start = off AND NOT (mask k), pr_size = ((off + sz + mask k) AND NOT (mask k)) - (off AND NOT (mask k))\<rparr>"
    using le k by (simp add: get_overlapping_pages_def usub_def pk Let_def not_less)
  show "unat (off AND NOT (mask k)) = unat off div 2 ^ k * 2 ^ k" by (fact s)
  show "unat (((off + sz + mask k) AND NOT (mask k)) - (off AND NOT (mask k))) =
      next_aligned (unat off + unat sz) (2 ^ k) - unat off div 2 ^ k * 2 ^ k"
    using le by (simp add: unat_sub s e)
qed

definition maps_file :: "nat \<Rightarrow> u8 list \<Rightarrow> map_env \<Rightarrow> bool" where
  "maps_file k file env \<longleftrightarrow>
     (\<forall>n off mem p mem'. unat off + unat n \<le> length file \<longrightarrow> me_mmap env n off mem = Some (p, mem') \<longrightarrow>
        p \<noteq> 0 \<and> 2 ^ k dvd unat p \<and> unat p + unat n + 2 * 2 ^ k \<le> 2 ^ 64 \<and>
        bytes_at mem' p (unat n) = take (unat n) (drop (unat off) file))"

definition mmap_loader_inv :: "nat \<Rightarrow> map_env \<Rightarrow> mmap_loader \<times> u8 list \<Rightarrow> bool" where
  "mmap_loader_inv k env = (\<lambda>(l, file). k < 62 \<and> 0 \<le> ml_fd l \<and> ml_page_size l = 2 ^ k \<and>
     length file = unat (ml_file_size l) \<and> length file < 2 ^ 63 \<and> maps_file k file env)"

text \<open>The range that is mapped: whole pages from the page of \<open>off\<close>, cut off at the end of the file.\<close>

lemma mapped_range:
  assumes "mmap_loader_inv k env (l, file)" and "unat off + unat sz \<le> length file"
  obtains start n where
    "r_bind (get_overlapping_pages oc off sz (ml_page_size l)) (\<lambda>rng.
       r_bind (clamped_size oc l rng) (\<lambda>map_size. Ok (pr_start rng, map_size))) = Ok (start, n)"
    "unat start = unat off div 2 ^ k * 2 ^ k"
    "unat start + unat n = min (length file) (next_aligned (unat off + unat sz) (2 ^ k))"
proof -
  have k: "k < 63" and ps: "ml_page_size l = 2 ^ k" and len: "length file = unat (ml_file_size l)"
    and small: "length file < 2 ^ 63" using assms(1) by (simp_all add: mmap_loader_inv_def)
  have "k \<le> 62" using assms(1) by (simp add: mmap_loader_inv_def)
  then have "(2 :: nat) ^ k \<le> 2 ^ 62" by (rule power_increasing) simp
  then have fit: "unat off + unat sz + 2 ^ k \<le> 2 ^ 64" using assms(2) small by simp
  let ?start = "off AND NOT (mask k)" and ?n = "((off + sz + mask k) AND NOT (mask k)) - (off AND NOT (mask k))"
  note ex = overlapping_pages_exact [OF k fit]
  have le: "unat off div 2 ^ k * 2 ^ k \<le> unat off" by simp
  have ge: "unat off + unat sz \<le> next_aligned (unat off + unat sz) (2 ^ k)" by (rule next_aligned_ge) simp
  have lt: "next_aligned (unat off + unat sz) (2 ^ k) < 2 ^ 64"
    using next_aligned_less [of "2 ^ k" "unat off + unat sz"] fit by simp
  have sum: "unat ?start + unat ?n = next_aligned (unat off + unat sz) (2 ^ k)"
    unfolding ex(2,3) using le ge by linarith
  then have add: "unat ((off + sz + mask k) AND NOT (mask k)) = next_aligned (unat off + unat sz) (2 ^ k)"
    using unat_add_no_overflow [of ?start ?n] lt by simp
  have start_le: "?start \<le> ml_file_size l" 
    unfolding word_le_nat_alt ex(2) using le assms(2) len by linarith
  show ?thesis
  proof (cases "ml_file_size l < ?start + ?n")
    case True
    then have "length file < next_aligned (unat off + unat sz) (2 ^ k)" by (simp add: word_less_nat_alt add len)
    with True show ?thesis
      using ex sum lt start_le len
      by (intro that [of ?start "ml_file_size l - ?start"])
         (simp_all add: clamped_size_def ps uadd_def usub_def not_less unat_sub word_le_nat_alt)
  next
    case False
    then have "next_aligned (unat off + unat sz) (2 ^ k) \<le> length file"
      by (simp add: word_less_nat_alt add len)
    then have m: "min (length file) (next_aligned (unat off + unat sz) (2 ^ k)) = next_aligned (unat off + unat sz) (2 ^ k)"
      by (rule min_absorb2)
    show ?thesis
    proof (rule that [of ?start ?n])
      show "r_bind (get_overlapping_pages oc off sz (ml_page_size l)) (\<lambda>rng.
         r_bind (clamped_size oc l rng) (\<lambda>map_size. Ok (pr_start rng, map_size))) = Ok (?start, ?n)"
        using False ex(1) sum lt by (simp add: clamped_size_def ps uadd_def)
      show "unat ?start = unat off div 2 ^ k * 2 ^ k" by (fact ex(2))
      show "unat ?start + unat ?n = min (length file) (next_aligned (unat off + unat sz) (2 ^ k))"
        unfolding m by (fact sum)
    qed
  qed
qed

section \<open>Loading\<close>

text \<open>Every way a load of a nonempty range inside the file can end.\<close>

lemma mmap_load_cases:
  assumes inv: "mmap_loader_inv k env (l, file)" and load: "mmap_load oc env l off sz s = (r, s')"
    and range_ok: "unat off + unat sz \<le> length file" and sz: "sz \<noteq> 0"
  obtains (refused) "r = Err AccessFailed" "s' = s"
  | (unlocked) start n pages mem where
      "ml_mlock_config l = UseMlock" "me_mlock env pages sz < 0" "r = Err NotSupported"
      "me_mmap env n start (ms_memory s) = Some (pages, mem)"
      "unat start = unat off div 2 ^ k * 2 ^ k"
      "unat start + unat n = min (length file) (next_aligned (unat off + unat sz) (2 ^ k))"
      "ms_log s' = ms_log s @ [Mapped pages n, Locked pages sz, Unmapped pages sz]"
  | (loaded) start n pages mem extra where
      "me_mmap env n start (ms_memory s) = Some (pages, mem)"
      "unat start = unat off div 2 ^ k * 2 ^ k"
      "unat start + unat n = min (length file) (next_aligned (unat off + unat sz) (2 ^ k))"
      "r = Ok (fb_from_pointer (pages + (off - start)) sz (Some MUNMAP_SEGMENT) (2 ^ k))"
      "ms_memory s' = mem" "ms_log s' = ms_log s @ Mapped pages n # extra"
      "\<forall>e \<in> set extra. \<exists>p m. e = Locked p m \<or> e = Advised p m"
proof -
  obtain start n where ran:
    "r_bind (get_overlapping_pages oc off sz (ml_page_size l)) (\<lambda>rng.
       r_bind (clamped_size oc l rng) (\<lambda>map_size. Ok (pr_start rng, map_size))) = Ok (start, n)"
    and start: "unat start = unat off div 2 ^ k * 2 ^ k"
    and n: "unat start + unat n = min (length file) (next_aligned (unat off + unat sz) (2 ^ k))"
    using mapped_range [OF inv range_ok] by blast
  have valid: "validate_input l off sz = Error_Ok" and ps: "ml_page_size l = 2 ^ k"
    using inv range_ok by (simp_all add: validate_input_def range_in_bounds_iff mmap_loader_inv_def)
  have le: "start \<le> off" unfolding word_le_nat_alt start by (rule div_times_less_eq_dividend)
  show ?thesis
  proof (cases "me_mmap env n start (ms_memory s)")
    case None
    then show ?thesis using load sz valid ran by (intro refused) (simp_all add: mmap_load_def)
  next
    case (Some pm)
    then obtain pages mem where m: "me_mmap env n start (ms_memory s) = Some (pages, mem)"
      by (cases pm) simp
    note step = load [unfolded mmap_load_def Let_def, simplified, unfolded ran]
    show ?thesis
    proof (cases "ml_mlock_config l = UseMlock \<and> me_mlock env pages sz < 0")
      case True
      then show ?thesis
        using step sz valid m start n
        by (intro unlocked [of pages n start mem]) (auto simp: lock_pages_def log_event_def Let_def)
    next
      case False
      then show ?thesis
        using step sz valid m start n le ps
        by (intro loaded [of n start pages mem "drop (Suc (length (ms_log s))) (ms_log s')"])
           (auto simp: lock_pages_def log_event_def Let_def usub_def not_less split: if_splits)
    qed
  qed
qed

interpretation mmap: loader_contract "\<lambda>(l, _). mmap_load oc env l" "\<lambda>(l, _). mmap_size l"
  ms_memory snd "\<lambda>l s. mmap_loader_inv k env l"
proof (unfold_locales, goal_cases)
  case (4 l s off sz fb s')
  obtain f c where l: "l = (f, c)" by (cases l)
  then have inv: "mmap_loader_inv k env (f, c)" and load: "mmap_load oc env f off sz s = (Ok fb, s')"
    using 4 by simp_all
  have range_ok: "unat off + unat sz \<le> length c"
    using inv load by (auto simp: mmap_load_def Let_def validate_input_def mmap_loader_inv_def
        range_in_bounds_iff split: if_splits)
  show ?case
  proof (cases "sz = 0")
    case True
    then show ?thesis using load
      by (auto simp: mmap_load_def Let_def fb_from_pointer_def fb_data_safe_def bytes_at_def l split: if_splits)
  next
    case False
    from mmap_load_cases [OF inv load range_ok False] show ?thesis
    proof cases
      case (3 start n pages mem extra)
      let ?i = "unat off - unat start"
      have le: "unat start \<le> unat off" unfolding 3(2) by (rule div_times_less_eq_dividend)
      have "unat off + unat sz \<le> next_aligned (unat off + unat sz) (2 ^ k)" by (rule next_aligned_ge) simp
      then have fit: "?i + unat sz \<le> unat n" using 3(3) range_ok le by simp
      have "off - start = of_nat ?i" using le by (simp add: of_nat_diff)
      then have "bytes_at mem (pages + (off - start)) (unat sz) = take (unat sz) (drop ?i (bytes_at mem pages (unat n)))"
        using take_drop_bytes_at [OF fit, of mem pages] by simp
      also have "bytes_at mem pages (unat n) = take (unat n) (drop (unat start) c)"
        using inv 3(1,3) by (auto simp: mmap_loader_inv_def maps_file_def)
      also have "take (unat sz) (drop ?i (take (unat n) (drop (unat start) c))) = take (unat sz) (drop (unat off) c)"
        using fit le by (simp add: drop_take min_def)
      finally show ?thesis using 3 by (simp add: fb_from_pointer_def fb_data_safe_def l)
    qed simp_all
  qed
qed (auto simp: mmap_loader_inv_def mmap_size_def mmap_load_def validate_input_def range_in_bounds_iff Let_def
    unat_lt_64 [simplified])

section \<open>Properties\<close>

lemma next_aligned_pages: "0 < q \<Longrightarrow> (next_aligned x q + (q - 1)) div q = (x + (q - 1)) div q"
  unfolding next_aligned_def by (subst div_mult_self3) auto

lemma pages_beyond:
  fixes q c n :: nat
  assumes "0 < q" and "c * q < n"
  shows "c < (n + (q - 1)) div q"
proof -
  have "Suc c * q \<le> n + (q - 1)" using assms by simp
  then have "Suc c * q div q \<le> (n + (q - 1)) div q" by (rule div_le_mono)
  then show ?thesis using assms(1) by simp
qed

lemma covered_pages_eq:
  fixes q P S d z n :: nat
  assumes "0 < q" and "q dvd P" and "q dvd S" and "d + z \<le> n" and "n \<le> next_aligned (S + (d + z)) q - S"
  shows "(P + n + (q - 1)) div q = (P + (d + z) + (q - 1)) div q"
proof -
  let ?c = "(d + z + (q - 1)) div q"
  obtain p0 s0 where ps: "P = q * p0" "S = q * s0" using assms(2,3) by (auto elim!: dvdE)
  have div_q: "(q * x + y) div q = x + y div q" for x y using assms(1) by simp
  have "next_aligned (S + (d + z)) q = (s0 + ?c) * q"
    unfolding next_aligned_def ps by (simp only: add.assoc div_q)
  then have "n \<le> ?c * q" using assms(5) by (simp add: ps add_mult_distrib2 mult.commute)
  then have "(n + (q - 1)) div q \<le> (?c * q + (q - 1)) div q" by (simp add: div_le_mono)
  also have "\<dots> = ?c" using assms(1) by (subst div_mult_self3) auto
  finally have le: "(n + (q - 1)) div q \<le> ?c" .
  have "?c \<le> (n + (q - 1)) div q" by (rule div_le_mono) (use assms(4) in simp)
  with le have "(n + (q - 1)) div q = ?c" by (rule antisym)
  then show ?thesis unfolding ps by (simp only: add.assoc div_q)
qed

text \<open>
  C37. Freeing a mapped buffer unmaps exactly the pages that loading it mapped: a load of a nonempty
  range maps pages once and hands out a buffer whose free function, called with the buffer's own
  context, pointer and size, unmaps a region that covers the same pages, although the mapping was
  cut off at the end of the file and the buffer starts in the middle of a page.
\<close>

theorem mmap_free_unmaps_mapping:
  assumes inv: "mmap_loader_inv k env (l, file)" and load: "mmap_load oc env l off sz s = (Ok fb, s')"
    and sz: "sz \<noteq> 0"
  shows "\<exists>p n extra data q m s''.
    ms_log s' = ms_log s @ Mapped p n # extra \<and> (\<forall>a b. Unmapped a b \<notin> set extra \<and> Mapped a b \<notin> set extra) \<and>
    fst (fb_free fb) = [FreeFn MUNMAP_SEGMENT (ml_page_size l) data sz] \<and>
    munmap_segment oc (ml_page_size l) data sz s' = Ok s'' \<and> ms_log s'' = ms_log s' @ [Unmapped q m] \<and>
    covered k q m = covered k p n"
proof -
  have range_ok: "unat off + unat sz \<le> length file"
    using mmap.loaded_in_range [of k env "(l, file)" oc off sz s fb s'] inv load by simp
  obtain start n pages mem extra where
    m: "me_mmap env n start (ms_memory s) = Some (pages, mem)"
    and start: "unat start = unat off div 2 ^ k * 2 ^ k"
    and n: "unat start + unat n = min (length file) (next_aligned (unat off + unat sz) (2 ^ k))"
    and fb: "fb = fb_from_pointer (pages + (off - start)) sz (Some MUNMAP_SEGMENT) (2 ^ k)"
    and log: "ms_log s' = ms_log s @ Mapped pages n # extra"
    and extra: "\<forall>e \<in> set extra. \<exists>p m. e = Locked p m \<or> e = Advised p m"
    by (rule mmap_load_cases [OF inv load range_ok sz]) simp_all
  have k: "k < 63" and ps: "ml_page_size l = 2 ^ k" using inv by (simp_all add: mmap_loader_inv_def)
  let ?q = "2 ^ k :: nat" and ?d = "unat off - unat start" and ?data = "pages + (off - start)"
  have "unat start + unat n \<le> length file" using n by simp
  then have pages: "pages \<noteq> 0" "?q dvd unat pages" "unat pages + unat n + 2 * ?q \<le> 2 ^ 64"
    using inv m unfolding mmap_loader_inv_def maps_file_def by blast+
  have le: "unat start \<le> unat off" unfolding start by (rule div_times_less_eq_dividend)
  have "unat off + unat sz \<le> next_aligned (unat off + unat sz) ?q" by (rule next_aligned_ge) simp
  then have fit: "?d + unat sz \<le> unat n" using n range_ok le by simp
  have d: "unat (off - start) = ?d" using le by (simp add: unat_sub word_le_nat_alt)
  have d_less: "?d < ?q" unfolding start by (simp add: minus_div_mult_eq_mod)
  have "0 < ?q" by simp
  then have "unat pages + unat (off - start) < 2 ^ 64" unfolding d using pages(3) fit by linarith
  then have data: "unat ?data = unat pages + ?d" by (simp add: unat_add_no_overflow d)
  have "unat ?data + unat sz + ?q \<le> 2 ^ 64" using data fit pages(3) by simp
  note ov = overlapping_pages_exact [OF k this]
  have P: "unat ?data div ?q * ?q = unat pages"
    using pages(2) d_less unfolding data by (auto elim!: dvdE)
  let ?u = "?data AND NOT (mask k)" and ?m = "((?data + sz + mask k) AND NOT (mask k)) - (?data AND NOT (mask k))"
  have unmap: "munmap_segment oc (2 ^ k) ?data sz s' = Ok (log_event (Unmapped ?u ?m) s')"
    by (simp add: munmap_segment_def ov(1))
  have u: "unat ?u = unat pages" using ov(2) P by simp
  have x: "unat ?data + unat sz = unat pages + (?d + unat sz)" by (simp add: data)
  have next_ge: "unat pages \<le> next_aligned (unat pages + (?d + unat sz)) ?q"
    by (rule order_trans [OF le_add1 next_aligned_ge]) simp
  have mm: "unat pages + unat ?m = next_aligned (unat pages + (?d + unat sz)) ?q"
    unfolding ov(3) P x using next_ge by simp
  have "(unat pages + unat ?m + (?q - 1)) div ?q = (unat pages + (?d + unat sz) + (?q - 1)) div ?q"
    unfolding mm by (rule next_aligned_pages) simp
  also have "\<dots> = (unat pages + unat n + (?q - 1)) div ?q"
  proof (rule covered_pages_eq [symmetric, of _ _ "unat start"])
    show "unat n \<le> next_aligned (unat start + (?d + unat sz)) ?q - unat start" using n le by simp
  qed (use pages(2) fit start in simp_all)
  finally have cov: "covered k ?u ?m = covered k pages n" unfolding covered_def u by simp
  have "?data \<noteq> 0" using data pages(1) by (metis add_is_0 unat_eq_zero unsigned_0)
  then have free: "fst (fb_free fb) = [FreeFn MUNMAP_SEGMENT (ml_page_size l) ?data sz]"
    by (simp add: fb fb_from_pointer_def fb_free_def ps)
  have "\<forall>a b. Unmapped a b \<notin> set extra \<and> Mapped a b \<notin> set extra" using extra by fastforce
  moreover have "ms_log (log_event (Unmapped ?u ?m) s') = ms_log s' @ [Unmapped ?u ?m]" by (simp add: log_event_def)
  ultimately show ?thesis using log free unmap [folded ps] cov by blast
qed

definition example_map_file :: "u8 list" where
  "example_map_file = replicate 5000 7"

definition example_map_env :: map_env where
  "example_map_env =
     \<lparr>me_mmap = (\<lambda>n off mem. Some (0x40000, write_bytes 0x40000 (take (unat n) (drop (unat off) example_map_file)) mem)),
      me_mlock = (\<lambda>p n. -1), me_page_size = 4096, me_open = (\<lambda>name. 3), me_file_stat = (\<lambda>fd. Some 5000),
      me_strdup = 0x500\<rparr>"

definition example_mmap_loader :: "MlockConfig \<Rightarrow> mmap_loader" where
  "example_mmap_loader config =
     \<lparr>ml_file_name = 0x500, ml_file_size = 5000, ml_page_size = 4096, ml_fd = 3, ml_mlock_config = config\<rparr>"

definition example_map_state :: map_state where
  "example_map_state = \<lparr>ms_memory = (\<lambda>_. 0), ms_log = [], ms_open = [3]\<rparr>"

lemma example_mmap_inv: "mmap_loader_inv 12 example_map_env (example_mmap_loader config, example_map_file)"
proof -
  have "bytes_at (write_bytes 0x40000 (take (unat n) (drop (unat off) example_map_file)) mem) 0x40000 (unat n)
      = take (unat n) (drop (unat off) example_map_file)"
    if "unat off + unat n \<le> length example_map_file" for off n :: usize and mem
    using that by (intro bytes_at_write) (simp_all add: example_map_file_def)
  then show ?thesis
    by (auto simp: mmap_loader_inv_def example_mmap_loader_def maps_file_def example_map_env_def
        example_map_file_def)
qed

theorem mmap_free_unmaps_mapping_witness:
  "\<exists>fb s' p n extra. mmap_load True example_map_env (example_mmap_loader NoMlock) 4000 200 example_map_state = (Ok fb, s') \<and>
     ms_log s' = Mapped p n # extra \<and>
     (\<exists>data q m s''. munmap_segment True 4096 data 200 s' = Ok s'' \<and> covered 12 q m = covered 12 p n)"
proof -
  have "is_Ok (fst (mmap_load True example_map_env (example_mmap_loader NoMlock) 4000 200 example_map_state))"
    by (simp add: mmap_load_def validate_input_def range_in_bounds_iff example_mmap_loader_def Let_def
        get_overlapping_pages_def usub_def clamped_size_def uadd_def example_map_env_def lock_pages_def)
  then obtain fb s' where
    load: "mmap_load True example_map_env (example_mmap_loader NoMlock) 4000 200 example_map_state = (Ok fb, s')"
    by (metis is_Ok_iff prod.collapse)
  from mmap_free_unmaps_mapping [OF example_mmap_inv this] show ?thesis
    using load by (force simp: example_map_state_def example_mmap_loader_def)
qed

text \<open>
  With \<open>UseMlock\<close> the loader locks, and after a failed lock unmaps, \<open>size\<close> bytes from the start of
  the first page instead of the pages it mapped. When the requested range starts so far into its
  page that it reaches one page further than that, its last page is never locked, and after the
  failure it stays mapped with nobody left to unmap it.
\<close>

theorem mlock_misses_last_page:
  assumes inv: "mmap_loader_inv k env (l, file)" and load: "mmap_load oc env l off sz s = (Err NotSupported, s')"
    and range_ok: "unat off + unat sz \<le> length file" and sz: "sz \<noteq> 0"
    and far: "next_aligned (unat sz) (2 ^ k) < unat off mod 2 ^ k + unat sz"
  shows "\<exists>p n. ms_log s' = ms_log s @ [Mapped p n, Locked p sz, Unmapped p sz] \<and>
    \<not> covered k p n \<subseteq> covered k p sz"
proof -
  obtain start n pages mem where
    m: "me_mmap env n start (ms_memory s) = Some (pages, mem)"
    and start: "unat start = unat off div 2 ^ k * 2 ^ k"
    and n: "unat start + unat n = min (length file) (next_aligned (unat off + unat sz) (2 ^ k))"
    and log: "ms_log s' = ms_log s @ [Mapped pages n, Locked pages sz, Unmapped pages sz]"
    by (rule mmap_load_cases [OF inv load range_ok sz]) simp_all
  let ?q = "2 ^ k :: nat" and ?d = "unat off mod 2 ^ k"
  have "unat start + unat n \<le> length file" using n by simp
  then have "?q dvd unat pages" using inv m unfolding mmap_loader_inv_def maps_file_def by blast
  then obtain p0 where p0: "unat pages = ?q * p0" by (elim dvdE)
  have div_q: "(?q * x + y) div ?q = x + y div ?q" for x y by simp
  have "unat off + unat sz \<le> next_aligned (unat off + unat sz) ?q" by (rule next_aligned_ge) simp
  then have "unat off + unat sz \<le> unat start + unat n" using n range_ok by simp
  moreover have "unat off = unat start + ?d" unfolding start by (rule div_mult_mod_eq [symmetric])
  ultimately have fit: "?d + unat sz \<le> unat n" by linarith
  let ?c = "(unat sz + (?q - 1)) div ?q"
  have "?c * ?q < unat n" using far fit unfolding next_aligned_def by linarith
  then have "?c < (unat n + (?q - 1)) div ?q"
    by (intro pages_beyond) simp_all
  then have "p0 + ?c \<in> covered k pages n" and "p0 + ?c \<notin> covered k pages sz"
    unfolding covered_def p0 by (simp_all only: add.assoc div_q) simp_all
  then show ?thesis using log by blast
qed

theorem mlock_misses_last_page_witness:
  "\<exists>s' p n. mmap_load True example_map_env (example_mmap_loader UseMlock) 4000 200 example_map_state = (Err NotSupported, s') \<and>
     ms_log s' = [Mapped p n, Locked p 200, Unmapped p 200] \<and> \<not> covered 12 p n \<subseteq> covered 12 p 200"
proof -
  have "fst (mmap_load True example_map_env (example_mmap_loader UseMlock) 4000 200 example_map_state) = Err NotSupported"
    by (simp add: mmap_load_def validate_input_def range_in_bounds_iff example_mmap_loader_def Let_def
        get_overlapping_pages_def usub_def clamped_size_def uadd_def example_map_env_def lock_pages_def)
  then obtain s' where
    load: "mmap_load True example_map_env (example_mmap_loader UseMlock) 4000 200 example_map_state = (Err NotSupported, s')"
    by (metis prod.collapse)
  from mlock_misses_last_page [OF example_mmap_inv this] show ?thesis
    using load by (auto simp: example_map_state_def example_map_file_def next_aligned_def)
qed

end
