(* ===== verification/Extended_Header.thy ===== *)
theory Extended_Header
  imports Errors
begin

text \<open>
  The header that a program file may carry behind the flatbuffer's own,
  \<^verbatim>\<open>schema/extended_header.rs\<close>: its fields, parsed from the bytes at the head of the file.
\<close>

unbundle bit_operations_syntax

section \<open>Little-endian integers\<close>

definition get_uint32_le :: "bytes \<Rightarrow> usize \<Rightarrow> u32" where
  "get_uint32_le mem data =
     ucast (mem (data + 0)) OR push_bit 8 (ucast (mem (data + 1))) OR
     push_bit 16 (ucast (mem (data + 2))) OR push_bit 24 (ucast (mem (data + 3)))"

definition get_uint64_le :: "bytes \<Rightarrow> usize \<Rightarrow> u64" where
  "get_uint64_le mem data =
     ucast (mem (data + 0)) OR push_bit 8 (ucast (mem (data + 1))) OR
     push_bit 16 (ucast (mem (data + 2))) OR push_bit 24 (ucast (mem (data + 3))) OR
     push_bit 32 (ucast (mem (data + 4))) OR push_bit 40 (ucast (mem (data + 5))) OR
     push_bit 48 (ucast (mem (data + 6))) OR push_bit 56 (ucast (mem (data + 7)))"

section \<open>The header\<close>

record extended_header =
  eh_program_size :: u64
  eh_segment_base_offset :: u64
  eh_segment_data_size :: u64

definition K_NUM_HEAD_BYTES :: usize where "K_NUM_HEAD_BYTES = 64"
definition K_HEADER_OFFSET :: usize where "K_HEADER_OFFSET = 8"
definition K_MAGIC_SIZE :: usize where "K_MAGIC_SIZE = 4"

definition K_MAGIC :: "u8 list" where
  "K_MAGIC = [0x65, 0x68, 0x30, 0x30]"

definition K_HEADER_LENGTH_OFFSET :: usize where "K_HEADER_LENGTH_OFFSET = K_MAGIC_SIZE"
definition K_HEADER_PROGRAM_SIZE_OFFSET :: usize where
  "K_HEADER_PROGRAM_SIZE_OFFSET = K_HEADER_LENGTH_OFFSET + 4"
definition K_HEADER_SEGMENT_BASE_OFFSET_OFFSET :: usize where
  "K_HEADER_SEGMENT_BASE_OFFSET_OFFSET = K_HEADER_PROGRAM_SIZE_OFFSET + 8"
definition K_MINIMUM_HEADER_LENGTH :: usize where
  "K_MINIMUM_HEADER_LENGTH = K_HEADER_SEGMENT_BASE_OFFSET_OFFSET + 8"
definition K_HEADER_SEGMENT_DATA_SIZE_OFFSET :: usize where
  "K_HEADER_SEGMENT_DATA_SIZE_OFFSET = K_HEADER_SEGMENT_BASE_OFFSET_OFFSET + 8"
definition K_HEADER_LENGTH_WITH_SEGMENT_DATA_SIZE :: usize where
  "K_HEADER_LENGTH_WITH_SEGMENT_DATA_SIZE = K_HEADER_SEGMENT_DATA_SIZE_OFFSET + 8"

lemmas header_offsets = K_NUM_HEAD_BYTES_def K_HEADER_OFFSET_def K_MAGIC_SIZE_def K_HEADER_LENGTH_OFFSET_def
  K_HEADER_PROGRAM_SIZE_OFFSET_def K_HEADER_SEGMENT_BASE_OFFSET_OFFSET_def K_MINIMUM_HEADER_LENGTH_def
  K_HEADER_SEGMENT_DATA_SIZE_OFFSET_def K_HEADER_LENGTH_WITH_SEGMENT_DATA_SIZE_def

definition extended_header_parse :: "bytes \<Rightarrow> usize \<Rightarrow> usize \<Rightarrow> extended_header result" where
  "extended_header_parse mem data sz =
     (if sz < K_NUM_HEAD_BYTES then Err InvalidArgument
      else let header = data + K_HEADER_OFFSET
      in if bytes_at mem header (unat K_MAGIC_SIZE) \<noteq> K_MAGIC then Err NotFound
      else let header_length = (ucast (get_uint32_le mem (header + K_HEADER_LENGTH_OFFSET)) :: usize)
      in if header_length < K_MINIMUM_HEADER_LENGTH then Err InvalidProgram
      else let segment_data_size =
             (if header_length \<ge> K_HEADER_LENGTH_WITH_SEGMENT_DATA_SIZE
              then get_uint64_le mem (header + K_HEADER_SEGMENT_DATA_SIZE_OFFSET) else 0)
      in Ok \<lparr>eh_program_size = get_uint64_le mem (header + K_HEADER_PROGRAM_SIZE_OFFSET),
             eh_segment_base_offset = get_uint64_le mem (header + K_HEADER_SEGMENT_BASE_OFFSET_OFFSET),
             eh_segment_data_size = segment_data_size\<rparr>)"

section \<open>The layout of the header\<close>

text \<open>
  The layout as the file format defines it: the bytes of an integer from the least significant one,
  the magic, the length of the header, and the fields one after the other. A header of the old
  format has length 24 and ends before the last field.
\<close>

definition le_bytes :: "nat \<Rightarrow> 'w::len word \<Rightarrow> u8 list" where
  "le_bytes n w = map (\<lambda>i. ucast (drop_bit (8 * i) w)) [0..<n]"

definition header_bytes :: "u32 \<Rightarrow> extended_header \<Rightarrow> u8 list" where
  "header_bytes header_length h =
     K_MAGIC @ le_bytes 4 header_length @ le_bytes 8 (eh_program_size h) @
     le_bytes 8 (eh_segment_base_offset h) @ le_bytes 8 (eh_segment_data_size h)"

lemma length_le_bytes [simp]: "length (le_bytes n w) = n"
  by (simp add: le_bytes_def)

lemma bytes_at_eq_iff: "bytes_at mem p n = bs \<longleftrightarrow> length bs = n \<and> (\<forall>i < n. mem (p + of_nat i) = bs ! i)"
  by (auto simp: list_eq_iff_nth_eq)

lemma get_uint32_le_bytes:
  assumes "bytes_at mem data 4 = le_bytes 4 w"
  shows "get_uint32_le mem data = w"
proof -
  have "mem (data + of_nat i) = ucast (drop_bit (8 * i) w)" if "i < 4" for i
    using assms that by (simp add: bytes_at_eq_iff le_bytes_def)
  from this [of 0] this [of 1] this [of 2] this [of 3]
  have "get_uint32_le mem data = ucast (ucast w :: u8) OR push_bit 8 (ucast (ucast (drop_bit 8 w) :: u8)) OR
    push_bit 16 (ucast (ucast (drop_bit 16 w) :: u8)) OR push_bit 24 (ucast (ucast (drop_bit 24 w) :: u8))"
    by (simp add: get_uint32_le_def)
  also have "\<dots> = w"
  proof (rule bit_word_eqI)
    fix n assume "n < LENGTH(32)"
    then have "n < 8 \<or> 8 \<le> n \<and> n < 16 \<or> 16 \<le> n \<and> n < 24 \<or> 24 \<le> n \<and> n < 32" by auto
    then show "bit (ucast (ucast w :: u8) OR push_bit 8 (ucast (ucast (drop_bit 8 w) :: u8)) OR
      push_bit 16 (ucast (ucast (drop_bit 16 w) :: u8)) OR push_bit 24 (ucast (ucast (drop_bit 24 w) :: u8)) :: u32) n
      = bit w n"
      by (elim disjE) (auto simp: bit_simps)
  qed
  finally show ?thesis .
qed

lemma get_uint64_le_bytes:
  assumes "bytes_at mem data 8 = le_bytes 8 w"
  shows "get_uint64_le mem data = w"
proof -
  have "mem (data + of_nat i) = ucast (drop_bit (8 * i) w)" if "i < 8" for i
    using assms that by (simp add: bytes_at_eq_iff le_bytes_def)
  from this [of 0] this [of 1] this [of 2] this [of 3] this [of 4] this [of 5] this [of 6] this [of 7]
  have "get_uint64_le mem data =
      ucast (ucast w :: u8) OR
      push_bit 8 (ucast (ucast (drop_bit 8 w) :: u8)) OR
      push_bit 16 (ucast (ucast (drop_bit 16 w) :: u8)) OR
      push_bit 24 (ucast (ucast (drop_bit 24 w) :: u8)) OR
      push_bit 32 (ucast (ucast (drop_bit 32 w) :: u8)) OR
      push_bit 40 (ucast (ucast (drop_bit 40 w) :: u8)) OR
      push_bit 48 (ucast (ucast (drop_bit 48 w) :: u8)) OR
      push_bit 56 (ucast (ucast (drop_bit 56 w) :: u8))"
    by (simp add: get_uint64_le_def)
  also have "\<dots> = w"
  proof (rule bit_word_eqI)
    fix n assume "n < LENGTH(64)"
    then have "n < 8 \<or> 8 \<le> n \<and> n < 16 \<or> 16 \<le> n \<and> n < 24 \<or> 24 \<le> n \<and> n < 32 \<or> 32 \<le> n \<and> n < 40 \<or> 40 \<le> n \<and> n < 48 \<or> 48 \<le> n \<and> n < 56 \<or> 56 \<le> n \<and> n < 64"
      by auto
    then show "bit (ucast (ucast w :: u8) OR
      push_bit 8 (ucast (ucast (drop_bit 8 w) :: u8)) OR
      push_bit 16 (ucast (ucast (drop_bit 16 w) :: u8)) OR
      push_bit 24 (ucast (ucast (drop_bit 24 w) :: u8)) OR
      push_bit 32 (ucast (ucast (drop_bit 32 w) :: u8)) OR
      push_bit 40 (ucast (ucast (drop_bit 40 w) :: u8)) OR
      push_bit 48 (ucast (ucast (drop_bit 48 w) :: u8)) OR
      push_bit 56 (ucast (ucast (drop_bit 56 w) :: u8)) :: u64) n = bit w n"
      by (elim disjE) (auto simp: bit_simps)
  qed
  finally show ?thesis .
qed

lemma length_magic: "length K_MAGIC = 4"
  by (simp add: K_MAGIC_def)

lemma header_fields:
  assumes "bytes_at mem data 32 = header_bytes header_length h"
  shows "bytes_at mem data 4 = K_MAGIC" and "get_uint32_le mem (data + 4) = header_length"
    and "get_uint64_le mem (data + 8) = eh_program_size h"
    and "get_uint64_le mem (data + 16) = eh_segment_base_offset h"
    and "get_uint64_le mem (data + 24) = eh_segment_data_size h"
proof -
  have "bytes_at mem data (4 + (4 + (8 + (8 + 8)))) = header_bytes header_length h" using assms by simp
  then have split: "bytes_at mem data 4 = K_MAGIC \<and> bytes_at mem (data + 4) 4 = le_bytes 4 header_length \<and>
      bytes_at mem (data + 8) 8 = le_bytes 8 (eh_program_size h) \<and>
      bytes_at mem (data + 16) 8 = le_bytes 8 (eh_segment_base_offset h) \<and>
      bytes_at mem (data + 24) 8 = le_bytes 8 (eh_segment_data_size h)"
    unfolding bytes_at_append header_bytes_def using length_magic
    by (simp add: append_eq_append_conv add.assoc)
  then show "bytes_at mem data 4 = K_MAGIC" and "get_uint32_le mem (data + 4) = header_length"
    and "get_uint64_le mem (data + 8) = eh_program_size h"
    and "get_uint64_le mem (data + 16) = eh_segment_base_offset h"
    and "get_uint64_le mem (data + 24) = eh_segment_data_size h"
    by (simp_all add: get_uint32_le_bytes get_uint64_le_bytes)
qed

section \<open>Properties\<close>

text \<open>
  C33. Parsing inverts the layout of the header: from a file head that carries a header, \<open>parse\<close> reads
  back the fields, the size of the segment data only when the stated length of the header covers it
  (it is 0 in files of the old format), and it refuses a header that is shorter than its fields.
\<close>

theorem extended_header_roundtrip:
  assumes "bytes_at mem (data + 8) 32 = header_bytes header_length h" and "64 \<le> sz"
  shows "extended_header_parse mem data sz =
    (if header_length < 24 then Err InvalidProgram
     else Ok (h\<lparr>eh_segment_data_size := (if header_length < 32 then 0 else eh_segment_data_size h)\<rparr>))"
proof -
  have "unat header_length < 2 ^ 32" using unsigned_less [of header_length] by simp
  then have ucast_len: "take_bit 64 (unat header_length) = unat header_length"
    by (intro take_bit_nat_eq_self) simp
  have big: "\<not> sz < 64" using assms(2) by simp
  have len: "(ucast header_length :: usize) < 24 \<longleftrightarrow> header_length < 24"
    "32 \<le> (ucast header_length :: usize) \<longleftrightarrow> \<not> header_length < 32"
    by (simp_all add: word_less_nat_alt word_le_nat_alt unsigned_ucast_eq ucast_len not_less)
  note f = header_fields [OF assms(1), unfolded add.assoc, simplified]
  show ?thesis
    by (cases h) (simp add: extended_header_parse_def header_offsets f len big Let_def add.assoc)
qed

definition example_header :: extended_header where
  "example_header = \<lparr>eh_program_size = 0x1234, eh_segment_base_offset = 0x2000, eh_segment_data_size = 0x77\<rparr>"

theorem extended_header_roundtrip_witness:
  "extended_header_parse (write_bytes 8 (header_bytes 32 example_header) (\<lambda>_. 0)) 0 64 = Ok example_header"
proof -
  have "length (header_bytes 32 example_header) = 32" by (simp add: header_bytes_def K_MAGIC_def)
  then have "bytes_at (write_bytes 8 (header_bytes 32 example_header) (\<lambda>_. 0)) (0 + 8) 32 = header_bytes 32 example_header"
    by (simp add: bytes_at_write)
  from extended_header_roundtrip [OF this, of 64] show ?thesis by simp
qed

end
