(* ===== verification/Program.thy ===== *)
theory Program
  imports Extended_Header Program_Validation Method_Meta Data_Maps
begin

text \<open>
  The program file, \<^verbatim>\<open>runtime/executor/program.rs\<close>: loading it from a data loader, looking up
  methods and their metadata, and reading its constants and segments. The flatbuffer library is a
  parameter: \<open>fe_root\<close> is the view of a program in memory, \<open>fe_verify\<close> the verifier. \<open>mem\<close> is the
  memory that the loader's buffers point into. The cargo features of the crate are the fields of
  \<open>features_enabled\<close>.
\<close>

section \<open>The serialized program\<close>

record s_subsegment_offsets =
  ss_segment_index :: u32
  ss_offsets :: "u64 list option"

record s_program =
  pr_execution_plan :: "s_plan list option"
  pr_constant_buffer :: "(usize \<times> usize) option list option"
  pr_backend_delegate_data :: "(usize \<times> usize) option list option"
  pr_segments :: "data_segment list option"
  pr_constant_segment :: "s_subsegment_offsets option"
  pr_mutable_data_segments :: "s_subsegment_offsets list option"
  pr_named_data :: "named_data list option"

record flatbuffer_env =
  fe_root :: "bytes \<Rightarrow> usize \<Rightarrow> usize \<Rightarrow> s_program"
  fe_verify :: "bytes \<Rightarrow> usize \<Rightarrow> usize \<Rightarrow> bool"

record features_enabled =
  ft_program_verification :: bool
  ft_deprecated_constant_buffer :: bool

definition PROGRAM_IDENTIFIER :: "u8 list" where
  "PROGRAM_IDENTIFIER = map of_char ''ET12''"

definition has_identifier :: "bytes \<Rightarrow> usize \<Rightarrow> bool" where
  "has_identifier mem data \<longleftrightarrow> bytes_at mem (data + 4) 4 = PROGRAM_IDENTIFIER"

section \<open>Loading\<close>

datatype Verification = Minimal | InternalConsistency

datatype HeaderStatus = CompatibleVersion | IncompatibleVersion | NotPresent | ShortData

record program =
  pg_program_data :: freeable_buffer
  pg_loader :: "data_loader option"
  pg_internal_program :: s_program
  pg_segment_base_offset :: usize
  pg_constant_segment_data :: freeable_buffer
  pg_pte_data_map :: "pte_data_map option"

definition program_new ::
    "data_loader \<Rightarrow> usize \<Rightarrow> freeable_buffer \<Rightarrow> s_program \<Rightarrow> freeable_buffer \<Rightarrow> pte_data_map option \<Rightarrow> program" where
  "program_new loader segment_base_offset program_data internal_program constant_segment_data pte_map =
     \<lparr>pg_program_data = program_data, pg_loader = (if 0 < segment_base_offset then Some loader else None),
      pg_internal_program = internal_program, pg_segment_base_offset = segment_base_offset,
      pg_constant_segment_data = constant_segment_data, pg_pte_data_map = pte_map\<rparr>"

definition K_MINIMUM_ALIGNMENT :: usize where "K_MINIMUM_ALIGNMENT = 16"

definition is_aligned :: "usize \<Rightarrow> bool" where
  "is_aligned addr \<longleftrightarrow> addr mod K_MINIMUM_ALIGNMENT = 0"

definition program_segment_info :: segment_info where
  "program_segment_info = \<lparr>si_segment_type = Program_Segment, si_segment_index = 0\<rparr>"

text \<open>The size check of a file with an extended header; the loader's size is taken with \<^verbatim>\<open>get\<close>.\<close>

definition check_file_size :: "data_loader \<Rightarrow> extended_header \<Rightarrow> unit result" where
  "check_file_size loader eh =
     (let base = eh_segment_base_offset eh; segment_data_size = eh_segment_data_size eh
      in if segment_data_size = 0 \<and> base = 0 \<or> 0 < segment_data_size then
           if \<not> base \<le> - 1 - segment_data_size then Err InvalidProgram
           else let expected = (if base = 0 then eh_program_size eh else base + segment_data_size)
           in r_bind (result_get (dl_size loader)) (\<lambda>actual.
                if \<not> expected \<le> actual then Err InvalidProgram else Ok ())
         else Ok ())"

text \<open>The sizes from the header: the size of the program and the offset of the segments.\<close>

definition read_header :: "bytes \<Rightarrow> data_loader \<Rightarrow> (usize \<times> usize) result" where
  "read_header mem loader =
     r_bind (dl_load loader 0 K_NUM_HEAD_BYTES program_segment_info) (\<lambda>header.
     r_bind (fb_data_ptr header) (\<lambda>data.
       case extended_header_parse mem data (fb_size header) of
         Ok eh \<Rightarrow>
           r_bind (check_file_size loader eh) (\<lambda>_.
             Ok (eh_program_size eh, eh_segment_base_offset eh))
       | Err e \<Rightarrow>
           if e = NotFound then r_bind (dl_size loader) (\<lambda>n. Ok (n, 0)) else Err e
       | Panic \<Rightarrow> Panic))"

definition K_MIN_BUFFER_SIZE :: usize where "K_MIN_BUFFER_SIZE = K_HEADER_OFFSET"

definition verify_data ::
    "features_enabled \<Rightarrow> flatbuffer_env \<Rightarrow> bytes \<Rightarrow> Verification \<Rightarrow> usize \<Rightarrow> usize \<Rightarrow> unit result" where
  "verify_data ft fe mem verification data sz =
     r_bind (if verification = InternalConsistency \<and> ft_program_verification ft then
               if \<not> fe_verify fe mem data sz then Err InvalidProgram
               else r_bind (validate_program (pr_execution_plan (fe_root fe mem data sz))) (\<lambda>err.
                      if err \<noteq> Error_Ok then Err InvalidProgram else Ok ())
             else Ok ()) (\<lambda>_.
       if verification = Minimal \<or> \<not> ft_program_verification ft \<and> verification = InternalConsistency then
         let root_offset = (ucast (get_uint32_le mem data) :: usize)
         in if \<not> (K_MIN_BUFFER_SIZE \<le> root_offset \<and> root_offset \<le> sz - 4) then Err InvalidProgram else Ok ()
       else Ok ())"

text \<open>The constant segment: \<open>None\<close> when the program has no offsets at all.\<close>

definition load_constants ::
    "bool \<Rightarrow> data_loader \<Rightarrow> usize \<Rightarrow> s_program \<Rightarrow> freeable_buffer option result" where
  "load_constants oc loader segment_base_offset p =
     (case pr_constant_segment p of
        None \<Rightarrow> Ok None
      | Some constant_segment \<Rightarrow>
          (case ss_offsets constant_segment of
             None \<Rightarrow> Ok None
           | Some offsets \<Rightarrow>
               if offsets = [] then Ok None
               else if length offsets = 1 then Ok (Some fb_new)
               else if \<not> (pr_constant_buffer p = None \<or> pr_constant_buffer p = Some []) then Err InvalidProgram
               else (case pr_segments p of
                 None \<Rightarrow> Err InvalidProgram
               | Some segments \<Rightarrow>
                   let index = unat (ss_segment_index constant_segment)
                   in if \<not> index < length segments then Err InvalidProgram
                   else let data_segment' = segments ! index
                   in r_bind (uadd oc segment_base_offset (ds_offset data_segment')) (\<lambda>off.
                      r_bind (dl_load loader off (ds_size data_segment')
                                \<lparr>si_segment_type = Constant_Segment, si_segment_index = index\<rparr>) (\<lambda>fb.
                      Ok (Some fb))))))"

definition program_load ::
    "bool \<Rightarrow> features_enabled \<Rightarrow> flatbuffer_env \<Rightarrow> bytes \<Rightarrow> data_loader \<Rightarrow> Verification \<Rightarrow> program result" where
  "program_load oc ft fe mem loader verification =
     r_bind (read_header mem loader) (\<lambda>(program_size, segment_base_offset).
     r_bind (dl_load loader 0 program_size program_segment_info) (\<lambda>program_data.
     r_bind (fb_data_ptr program_data) (\<lambda>data.
       if \<not> is_aligned data then Err InvalidArgument
       else if \<not> K_MIN_BUFFER_SIZE \<le> fb_size program_data then Err InvalidProgram
       else if \<not> has_identifier mem data then Err InvalidProgram
       else r_bind (verify_data ft fe mem verification data (fb_size program_data)) (\<lambda>_.
         let p = fe_root fe mem data (fb_size program_data)
         in r_bind (case pr_named_data p of
                      None \<Rightarrow> Ok None
                    | Some nd \<Rightarrow>
                        r_bind (pte_create (Some loader) segment_base_offset nd
                                  (case pr_segments p of Some segs \<Rightarrow> segs | None \<Rightarrow> [])) (\<lambda>m. Ok (Some m)))
              (\<lambda>pte_map.
                r_bind (load_constants oc loader segment_base_offset p) (\<lambda>constants.
                  case constants of
                    Some fb \<Rightarrow> Ok (program_new loader segment_base_offset program_data p fb pte_map)
                  | None \<Rightarrow>
                      if ft_deprecated_constant_buffer ft
                      then Ok (program_new loader segment_base_offset program_data p fb_new pte_map)
                      else Err InvalidProgram))))))"

definition check_header :: "bytes \<Rightarrow> usize \<Rightarrow> usize \<Rightarrow> HeaderStatus" where
  "check_header mem data sz =
     (if sz < K_NUM_HEAD_BYTES then ShortData
      else if has_identifier mem data then CompatibleVersion
      else if mem (data + 4) = of_char CHR ''E'' \<and> mem (data + 5) = of_char CHR ''T'' then IncompatibleVersion
      else NotPresent)"

section \<open>Methods\<close>

definition cstr_eq :: "string \<Rightarrow> string \<Rightarrow> bool" where
  "cstr_eq name method_name \<longleftrightarrow> name = method_name"

fun find_plan :: "s_plan list \<Rightarrow> string \<Rightarrow> s_plan result" where
  "find_plan [] method_name = Err InvalidArgument"
| "find_plan (plan # plans) method_name =
     (case sp_name plan of
        Some name \<Rightarrow> if cstr_eq name method_name then Ok plan else find_plan plans method_name
      | None \<Rightarrow> find_plan plans method_name)"

definition get_execution_plan :: "s_program \<Rightarrow> string \<Rightarrow> s_plan result" where
  "get_execution_plan p method_name =
     r_bind (unwrap (pr_execution_plan p)) (\<lambda>plans. find_plan plans method_name)"

definition num_methods :: "program \<Rightarrow> nat" where
  "num_methods pg = (case pr_execution_plan (pg_internal_program pg) of Some plans \<Rightarrow> length plans | None \<Rightarrow> 0)"

definition get_method_name :: "program \<Rightarrow> nat \<Rightarrow> string result" where
  "get_method_name pg plan_index =
     (if num_methods pg \<le> plan_index then Err InvalidArgument
      else r_bind (unwrap (pr_execution_plan (pg_internal_program pg))) (\<lambda>plans.
        case sp_name (plans ! plan_index) of None \<Rightarrow> Err InvalidProgram | Some name \<Rightarrow> Ok name))"

definition method_meta :: "program \<Rightarrow> string \<Rightarrow> s_plan result" where
  "method_meta pg method_name =
     r_bind (get_execution_plan (pg_internal_program pg) method_name) (\<lambda>plan.
       if sp_name plan = None then Err InvalidProgram
       else if sp_non_const_buffer_sizes plan = None then Err InvalidProgram
       else if sp_inputs plan = None then Err InvalidProgram
       else if sp_outputs plan = None then Err InvalidProgram
       else Ok plan)"

definition load_method :: "(s_plan \<Rightarrow> 'm result) \<Rightarrow> program \<Rightarrow> string \<Rightarrow> 'm result" where
  "load_method method_load pg method_name =
     r_bind (method_meta pg method_name) (\<lambda>_.
     r_bind (get_execution_plan (pg_internal_program pg) method_name) (\<lambda>plan. method_load plan))"

definition get_output_flattening_encoding :: "program \<Rightarrow> string \<Rightarrow> string result" where
  "get_output_flattening_encoding pg method_name =
     r_bind (get_execution_plan (pg_internal_program pg) method_name) (\<lambda>plan.
       case sp_container_meta_type plan of
         None \<Rightarrow> Err InvalidProgram
       | Some encoded_out_str \<Rightarrow>
           (case encoded_out_str of None \<Rightarrow> Err InvalidProgram | Some s \<Rightarrow> Ok s))"

definition get_named_data_map :: "program \<Rightarrow> pte_data_map result" where
  "get_named_data_map pg = (case pg_pte_data_map pg of Some m \<Rightarrow> Ok m | None \<Rightarrow> Err NotFound)"

section \<open>Data\<close>

definition get_constant_buffer_data ::
    "features_enabled \<Rightarrow> program \<Rightarrow> usize \<Rightarrow> usize \<Rightarrow> usize result" where
  "get_constant_buffer_data ft pg buffer_index nbytes =
     r_bind (fb_data_ptr (pg_constant_segment_data pg)) (\<lambda>base.
       if base \<noteq> 0 then
         let offsets = (case pr_constant_segment (pg_internal_program pg) of
                          None \<Rightarrow> [] | Some cs \<Rightarrow> (case ss_offsets cs of None \<Rightarrow> [] | Some os \<Rightarrow> os))
         in if \<not> unat buffer_index < length offsets then Err InvalidArgument
            else let off = offsets ! unat buffer_index; sz = fb_size (pg_constant_segment_data pg)
            in if \<not> (off \<le> sz \<and> nbytes \<le> sz - off) then Err InvalidArgument else Ok (base + off)
       else if ft_deprecated_constant_buffer ft then
         let buffers = (case pr_constant_buffer (pg_internal_program pg) of None \<Rightarrow> [] | Some bs \<Rightarrow> bs)
         in if \<not> unat buffer_index < length buffers then Err InvalidArgument
            else let storage = buffers ! unat buffer_index;
                     storage_size = (case storage of None \<Rightarrow> 0 | Some (_, n) \<Rightarrow> n)
            in if \<not> nbytes \<le> storage_size then Err InvalidArgument
               else r_bind (unwrap storage) (\<lambda>(p, _). Ok p)
       else Err InvalidProgram)"

definition get_backend_delegate_data :: "program \<Rightarrow> usize \<Rightarrow> (usize \<times> usize) result" where
  "get_backend_delegate_data pg index =
     r_bind (unwrap (pr_backend_delegate_data (pg_internal_program pg))) (\<lambda>data_list.
       if \<not> unat index < length data_list then Err NotFound
       else unwrap (data_list ! unat index))"

definition add_overflows :: "64 word \<Rightarrow> 64 word \<Rightarrow> bool \<times> 64 word" where
  "add_overflows a b = (case checked_add a b of Some total_sum \<Rightarrow> (False, total_sum) | None \<Rightarrow> (True, a + b))"

definition load_segment :: "program \<Rightarrow> segment_info \<Rightarrow> freeable_buffer result" where
  "load_segment pg info =
     (case pg_loader pg of
        None \<Rightarrow> Err NotFound
      | Some loader \<Rightarrow>
          if pg_segment_base_offset pg = 0 then Err NotFound
          else (case pr_segments (pg_internal_program pg) of
            None \<Rightarrow> Err InvalidProgram
          | Some segments \<Rightarrow>
              if length segments \<le> si_segment_index info then Err NotFound
              else let segment = segments ! si_segment_index info;
                       (overflows, absolute_offset) = add_overflows (pg_segment_base_offset pg) (ds_offset segment)
              in if overflows then Err InvalidProgram
                 else dl_load loader absolute_offset (ds_size segment) info))"

text \<open>The request that a mutable subsegment comes to: segment, offset in the file.\<close>

definition subsegment_request ::
    "program \<Rightarrow> data_segment list \<Rightarrow> s_subsegment_offsets \<Rightarrow> usize \<Rightarrow> usize \<Rightarrow> (usize \<times> segment_info) result" where
  "subsegment_request pg segments segment_offsets off sz =
     (let index = unat (ss_segment_index segment_offsets)
      in if length segments \<le> index then Err NotFound
      else let segment = segments ! index; (overflows, end_offset) = add_overflows off sz
      in if overflows then Err InvalidProgram
      else if ds_size segment < end_offset then Err InvalidArgument
      else let (overflows, base_plus_seg) = add_overflows (pg_segment_base_offset pg) (ds_offset segment)
      in if overflows then Err InvalidProgram
      else let (overflows, total_offset) = add_overflows base_plus_seg off
      in if overflows then Err InvalidProgram
      else Ok (total_offset, \<lparr>si_segment_type = Mutable_Segment, si_segment_index = index\<rparr>))"

definition load_mutable_subsegment_into :: "program \<Rightarrow> nat \<Rightarrow> nat \<Rightarrow> usize \<Rightarrow> usize \<Rightarrow> Error result" where
  "load_mutable_subsegment_into pg mutable_index offset_index sz buffer =
     (case pg_loader pg of
        None \<Rightarrow> Ok NotFound
      | Some loader \<Rightarrow>
          if pg_segment_base_offset pg = 0 then Ok NotFound
          else (case pr_mutable_data_segments (pg_internal_program pg) of
            None \<Rightarrow> Ok NotFound
          | Some mutable_segments \<Rightarrow>
              if length mutable_segments \<le> mutable_index then Ok NotFound
              else let segment_offsets = mutable_segments ! mutable_index
              in (case ss_offsets segment_offsets of
                None \<Rightarrow> Ok NotFound
              | Some offsets \<Rightarrow>
                  if length offsets \<le> offset_index then Ok NotFound
                  else (case pr_segments (pg_internal_program pg) of
                    None \<Rightarrow> Ok InvalidProgram
                  | Some segments \<Rightarrow>
                      (case subsegment_request pg segments segment_offsets (offsets ! offset_index) sz of
                         Err e \<Rightarrow> Ok e
                       | Panic \<Rightarrow> Panic
                       | Ok (total_offset, info) \<Rightarrow> dl_load_into loader total_offset sz info buffer)))))"

text \<open>What a program that was loaded is made of.\<close>

lemma program_load_OkD:
  assumes "program_load oc ft fe mem loader verification = Ok pg"
  obtains data sz cst where "pg_internal_program pg = fe_root fe mem data sz"
    and "verify_data ft fe mem verification data sz = Ok ()"
    and "load_constants oc loader (pg_segment_base_offset pg) (pg_internal_program pg) = Ok cst"
    and "pg_constant_segment_data pg = (case cst of Some fb \<Rightarrow> fb | None \<Rightarrow> fb_new)"
proof -
  obtain sbo program_data data pte_map cst where
    v: "verify_data ft fe mem verification data (fb_size program_data) = Ok ()"
    and c: "load_constants oc loader sbo (fe_root fe mem data (fb_size program_data)) = Ok cst"
    and n: "(case cst of
         Some fb \<Rightarrow> Ok (program_new loader sbo program_data (fe_root fe mem data (fb_size program_data)) fb pte_map)
       | None \<Rightarrow>
           if ft_deprecated_constant_buffer ft
           then Ok (program_new loader sbo program_data (fe_root fe mem data (fb_size program_data)) fb_new pte_map)
           else Err InvalidProgram) = Ok pg"
    using assms unfolding program_load_def r_bind_Ok_iff Let_def
    by (cases "ft_deprecated_constant_buffer ft"; clarsimp simp: r_bind_Ok_iff split: if_splits; blast)
  show ?thesis
    by (rule that [of data "fb_size program_data" cst])
      (use v c n in \<open>auto simp: program_new_def split: option.splits if_splits\<close>)
qed

section \<open>Looking up methods\<close>

lemma find_plan_eq:
  "find_plan plans name = (case find (\<lambda>plan. sp_name plan = Some name) plans of Some plan \<Rightarrow> Ok plan | None \<Rightarrow> Err InvalidArgument)"
  by (induction plans) (auto simp: cstr_eq_def split: option.split)

definition meta_complete :: "s_plan \<Rightarrow> bool" where
  "meta_complete plan \<longleftrightarrow>
     sp_non_const_buffer_sizes plan \<noteq> None \<and> sp_inputs plan \<noteq> None \<and> sp_outputs plan \<noteq> None"

definition example_program :: s_program where
  "example_program =
     \<lparr>pr_execution_plan = Some [empty_s_plan, example_plan\<lparr>sp_name := Some ''forward''\<rparr>],
      pr_constant_buffer = None, pr_backend_delegate_data = Some [Some (0x900, 4), None],
      pr_segments = Some [\<lparr>ds_offset = 0, ds_size = 64\<rparr>, \<lparr>ds_offset = 64, ds_size = 32\<rparr>],
      pr_constant_segment = Some \<lparr>ss_segment_index = 0, ss_offsets = Some [0, 0, 16]\<rparr>,
      pr_mutable_data_segments = Some [\<lparr>ss_segment_index = 1, ss_offsets = Some [0, 8]\<rparr>],
      pr_named_data = None\<rparr>"

definition example_program_state :: program where
  "example_program_state = program_new example_loader 1024 (fb_from_pointer 0x1000 1024 None 0) example_program
     (fb_from_pointer 0x1400 64 None 0) None"

text \<open>
  Methods are found by name: the first plan of the name is the one described and the one loaded,
  plans without a name are skipped, an unknown name is an argument error and a plan that lacks one
  of the fields that its metadata reads without checks is rejected before anything is loaded.
\<close>

theorem method_lookup_exact:
  assumes "pr_execution_plan (pg_internal_program pg) = Some plans"
  shows "method_meta pg name =
      (case find (\<lambda>plan. sp_name plan = Some name) plans of
         None \<Rightarrow> Err InvalidArgument
       | Some plan \<Rightarrow> if meta_complete plan then Ok plan else Err InvalidProgram) \<and>
    load_method method_load pg name = r_bind (method_meta pg name) method_load"
proof -
  note defs = method_meta_def load_method_def get_execution_plan_def unwrap_def assms find_plan_eq meta_complete_def
  show ?thesis
  proof (cases "find (\<lambda>plan. sp_name plan = Some name) plans")
    case None
    then show ?thesis by (simp add: defs)
  next
    case (Some plan)
    then have "sp_name plan = Some name" by (auto simp: find_Some_iff)
    then show ?thesis using Some by (simp add: defs)
  qed
qed

theorem method_lookup_exact_witness:
  "method_meta example_program_state ''forward'' = Ok (example_plan\<lparr>sp_name := Some ''forward''\<rparr>)"
proof -
  let ?plan = "example_plan\<lparr>sp_name := Some ''forward''\<rparr>"
  have "pr_execution_plan (pg_internal_program example_program_state) = Some [empty_s_plan, ?plan]"
    by (simp add: example_program_state_def program_new_def example_program_def)
  moreover have "meta_complete ?plan" by (simp add: meta_complete_def example_plan_def)
  moreover have "sp_name empty_s_plan = None" by (simp add: empty_s_plan_def)
  ultimately show ?thesis
    using method_lookup_exact [of example_program_state "[empty_s_plan, ?plan]" "''forward''" "\<lambda>_. Ok ()"] by simp
qed

text \<open>
  Only the full verification guarantees that a program has plans. A program it let through
  answers every question about its methods with a value or an error; a program without plans that
  passed the minimal verification reports that it has no methods, but aborts the process when it is
  asked for the metadata, the encoding or the loading of one.
\<close>

theorem queries_abort_iff_no_plans:
  assumes load: "program_load oc ft fe mem loader verification = Ok pg"
  shows "(verification = InternalConsistency \<and> ft_program_verification ft \<longrightarrow>
      method_meta pg name \<noteq> Panic \<and> get_output_flattening_encoding pg name \<noteq> Panic) \<and>
    (pr_execution_plan (pg_internal_program pg) = None \<longrightarrow>
      num_methods pg = 0 \<and> method_meta pg name = Panic \<and> get_output_flattening_encoding pg name = Panic \<and>
      load_method method_load pg name = Panic) \<and> get_method_name pg i \<noteq> Panic"
proof -
  obtain data sz where p: "pg_internal_program pg = fe_root fe mem data sz"
    and v: "verify_data ft fe mem verification data sz = Ok ()"
    using program_load_OkD [OF load] by metis
  have plans: "pr_execution_plan (pg_internal_program pg) \<noteq> None"
    if "verification = InternalConsistency" "ft_program_verification ft"
    using v that by (auto simp: verify_data_def r_bind_Ok_iff p validate_program_def split: if_splits option.splits)
  have total': "method_meta pg name \<noteq> Panic" "get_output_flattening_encoding pg name \<noteq> Panic"
    if "pr_execution_plan (pg_internal_program pg) = Some plans" for plans
    using that by (auto simp: method_meta_def get_output_flattening_encoding_def get_execution_plan_def unwrap_def
        find_plan_eq split: option.splits if_splits)
  then show ?thesis
    using plans
    by (auto simp: method_meta_def get_output_flattening_encoding_def get_execution_plan_def unwrap_def load_method_def
        num_methods_def get_method_name_def split: option.splits)
qed

definition example_head :: bytes where
  "example_head = write_bytes 0x1000 [16, 0, 0, 0, 0x45, 0x54, 0x31, 0x32] (\<lambda>_. 0)"

definition example_flatbuffers :: "s_program \<Rightarrow> flatbuffer_env" where
  "example_flatbuffers p = \<lparr>fe_root = (\<lambda>_ _ _. p), fe_verify = (\<lambda>_ _ _. True)\<rparr>"

definition all_features :: features_enabled where
  "all_features = \<lparr>ft_program_verification = True, ft_deprecated_constant_buffer = True\<rparr>"

lemma example_head_bytes:
  "bytes_at example_head 0x1008 4 = [0, 0, 0, 0]" "bytes_at example_head 0x1004 4 = PROGRAM_IDENTIFIER"
  "get_uint32_le example_head 0x1000 = 16"
  by (simp_all add: example_head_def write_bytes_def bytes_at_def upt_rec PROGRAM_IDENTIFIER_def get_uint32_le_def)

definition example_file_loader_on :: "bytes \<Rightarrow> data_loader" where
  "example_file_loader_on mem = buffer_dyn \<lparr>bdl_data = 0x1000, bdl_size = 4096\<rparr> mem"

lemma example_load:
  assumes "pr_named_data p = None" and "load_constants True (example_file_loader_on m) 0 p = Ok (Some fb)"
  shows "program_load True all_features (example_flatbuffers p) example_head (example_file_loader_on m) Minimal =
    Ok (program_new (example_file_loader_on m) 0 (fb_from_pointer 0x1000 4096 None 0) p fb None)"
  using assms
  by (simp add: program_load_def read_header_def example_file_loader_on_def buffer_dyn_def buffer_load_def
      range_in_bounds_iff fb_data_ptr_def fb_from_pointer_def extended_header_parse_def header_offsets
      example_head_bytes K_MAGIC_def buffer_loader_size_def is_aligned_def K_MINIMUM_ALIGNMENT_def has_identifier_def
      verify_data_def K_MIN_BUFFER_SIZE_def example_flatbuffers_def all_features_def)

lemma example_constants:
  "load_constants True (example_file_loader_on m) 0 (example_program\<lparr>pr_execution_plan := x\<rparr>) =
     Ok (Some (fb_from_pointer 0x1000 64 None 0))"
  by (simp add: load_constants_def example_program_def uadd_def example_file_loader_on_def buffer_dyn_def
      buffer_load_def range_in_bounds_iff)

theorem queries_abort_iff_no_plans_witness:
  "\<exists>pg. program_load True all_features (example_flatbuffers (example_program\<lparr>pr_execution_plan := None\<rparr>))
      example_head (example_file_loader_on example_head) Minimal = Ok pg \<and>
      num_methods pg = 0 \<and> method_meta pg ''forward'' = Panic"
proof -
  let ?p = "example_program\<lparr>pr_execution_plan := None\<rparr>"
  note load = example_load [of ?p, OF _ example_constants, of example_head]
  from load queries_abort_iff_no_plans [OF load, of "''forward''" "\<lambda>_. Ok ()" 0]
  show ?thesis by (auto simp: example_program_def program_new_def)
qed

section \<open>Reading data\<close>

lemma add_overflows_eq:
  "add_overflows a b = (2 ^ 64 \<le> unat a + unat b, a + b)"
  by (simp add: add_overflows_def checked_add_def)

lemma subsegment_request_eq:
  "subsegment_request pg segments so off sz =
     (let index = unat (ss_segment_index so); segment = segments ! index; base = pg_segment_base_offset pg
      in if length segments \<le> index then Err NotFound
         else if 2 ^ 64 \<le> unat off + unat sz then Err InvalidProgram
         else if unat (ds_size segment) < unat off + unat sz then Err InvalidArgument
         else if 2 ^ 64 \<le> unat base + unat (ds_offset segment) + unat off then Err InvalidProgram
         else Ok (of_nat (unat base + unat (ds_offset segment) + unat off),
           \<lparr>si_segment_type = Mutable_Segment, si_segment_index = index\<rparr>))"
  by (auto simp: subsegment_request_def add_overflows_eq Let_def not_le word_less_nat_alt unat_add_no_overflow not_less)

text \<open>Where the program says that an entry of its mutable data lies: a segment and an offset in it.\<close>

definition subsegment_location :: "program \<Rightarrow> nat \<Rightarrow> nat \<Rightarrow> (nat \<times> usize) option" where
  "subsegment_location pg m j =
     (if pg_segment_base_offset pg = 0 then None
      else case pr_mutable_data_segments (pg_internal_program pg) of
        None \<Rightarrow> None
      | Some ms \<Rightarrow>
          if length ms \<le> m then None
          else (case ss_offsets (ms ! m) of
            None \<Rightarrow> None
          | Some os \<Rightarrow> if length os \<le> j then None else Some (unat (ss_segment_index (ms ! m)), os ! j)))"

text \<open>
  C32. What is read of a segment lies in the segment, on every 64-bit offset: \<^verbatim>\<open>load_segment\<close> asks the
  loader for exactly the segment's range of the file, and the loading of a mutable subsegment asks it
  for the requested number of bytes at the sum of the base offset, the offset of the segment that the
  program names and the offset in it, for exactly the requests that end inside the segment. A location
  that the program does not have is not found; when the offset plus the size, or the sum of the three
  offsets, would overflow, the program is invalid; when the range leaves the segment, the argument is
  invalid; and then the loader is not called. The program has a loader and a list of segments.
\<close>

theorem segment_reads_in_bounds:
  assumes "pg_loader pg = Some loader" and "pr_segments (pg_internal_program pg) = Some segments"
  shows "load_segment pg info =
      (let i = si_segment_index info; base = pg_segment_base_offset pg; segment = segments ! i
       in if base = 0 \<or> length segments \<le> i then Err NotFound
          else if 2 ^ 64 \<le> unat base + unat (ds_offset segment) then Err InvalidProgram
          else dl_load loader (base + ds_offset segment) (ds_size segment) info) \<and>
    load_mutable_subsegment_into pg m j sz buffer =
      (case subsegment_location pg m j of
         None \<Rightarrow> Ok NotFound
       | Some (index, off) \<Rightarrow>
           let segment = segments ! index; start = unat (pg_segment_base_offset pg) + unat (ds_offset segment) + unat off
           in if length segments \<le> index then Ok NotFound
              else if 2 ^ 64 \<le> unat off + unat sz then Ok InvalidProgram
              else if unat (ds_size segment) < unat off + unat sz then Ok InvalidArgument
              else if 2 ^ 64 \<le> start then Ok InvalidProgram
              else dl_load_into loader (of_nat start) sz
                \<lparr>si_segment_type = Mutable_Segment, si_segment_index = index\<rparr> buffer)"
proof
  show "load_segment pg info =
      (let i = si_segment_index info; base = pg_segment_base_offset pg; segment = segments ! i
       in if base = 0 \<or> length segments \<le> i then Err NotFound
          else if 2 ^ 64 \<le> unat base + unat (ds_offset segment) then Err InvalidProgram
          else dl_load loader (base + ds_offset segment) (ds_size segment) info)"
    by (simp add: load_segment_def assms add_overflows_eq Let_def)
  show "load_mutable_subsegment_into pg m j sz buffer =
      (case subsegment_location pg m j of
         None \<Rightarrow> Ok NotFound
       | Some (index, off) \<Rightarrow>
           let segment = segments ! index; start = unat (pg_segment_base_offset pg) + unat (ds_offset segment) + unat off
           in if length segments \<le> index then Ok NotFound
              else if 2 ^ 64 \<le> unat off + unat sz then Ok InvalidProgram
              else if unat (ds_size segment) < unat off + unat sz then Ok InvalidArgument
              else if 2 ^ 64 \<le> start then Ok InvalidProgram
              else dl_load_into loader (of_nat start) sz
                \<lparr>si_segment_type = Mutable_Segment, si_segment_index = index\<rparr> buffer)"
    by (simp add: load_mutable_subsegment_into_def subsegment_location_def subsegment_request_eq assms Let_def
        split: option.split)
qed

theorem segment_reads_in_bounds_witness:
  "load_segment (example_program_state\<lparr>pg_segment_base_offset := - 32\<rparr>) \<lparr>si_segment_type = Backend_Segment, si_segment_index = 1\<rparr>
     = Err InvalidProgram"
  using segment_reads_in_bounds [of "example_program_state\<lparr>pg_segment_base_offset := - 32\<rparr>" example_loader
      "[\<lparr>ds_offset = 0, ds_size = 64\<rparr>, \<lparr>ds_offset = 64, ds_size = 32\<rparr>]"
      "\<lparr>si_segment_type = Backend_Segment, si_segment_index = 1\<rparr>" 0 0 0 0]
  by (simp add: example_program_state_def program_new_def example_program_def)

text \<open>
  C31. The constants of a program are bytes of its file. When a program was loaded from a file in memory
  and holds a constant segment, every constant that \<^verbatim>\<open>get_constant_buffer_data\<close> hands out shows, for the
  number of bytes asked for, the bytes of the file at the start of the segment plus the constant's
  offset, all inside the segment and the file. The start of the segment is the 64-bit sum of the
  segment base offset and the segment's offset: in a build with overflow checks it is their exact sum,
  in one without them the sum may have wrapped around.
\<close>

theorem constants_are_file_bytes:
  assumes load: "program_load oc ft fe mem (buffer_dyn l mem) verification = Ok pg"
    and get: "get_constant_buffer_data ft pg i nbytes = Ok p"
    and held: "fb_data_ptr (pg_constant_segment_data pg) = Ok base" "base \<noteq> 0"
  shows "\<exists>segments cs offsets.
    pr_segments (pg_internal_program pg) = Some segments \<and> pr_constant_segment (pg_internal_program pg) = Some cs \<and>
    ss_offsets cs = Some offsets \<and> unat i < length offsets \<and> unat (ss_segment_index cs) < length segments \<and>
    (let segment = segments ! unat (ss_segment_index cs);
         segment_start = unat (pg_segment_base_offset pg + ds_offset segment);
         start = segment_start + unat (offsets ! unat i)
     in (oc \<longrightarrow> segment_start = unat (pg_segment_base_offset pg) + unat (ds_offset segment)) \<and>
        unat (offsets ! unat i) + unat nbytes \<le> unat (ds_size segment) \<and>
        start + unat nbytes \<le> unat (bdl_size l) \<and>
        bytes_at mem p (unat nbytes) = take (unat nbytes) (drop start (bytes_at mem (bdl_data l) (unat (bdl_size l)))))"
proof -
  obtain cst where cst: "load_constants oc (buffer_dyn l mem) (pg_segment_base_offset pg) (pg_internal_program pg) = Ok cst"
    and fb_cst: "pg_constant_segment_data pg = (case cst of Some fb \<Rightarrow> fb | None \<Rightarrow> fb_new)"
    by (rule program_load_OkD [OF load])
  let ?sbo = "pg_segment_base_offset pg"
  have "pg_constant_segment_data pg \<noteq> fb_new" using held by (auto simp: fb_new_def fb_data_ptr_def)
  with cst fb_cst obtain cs offsets segments where c: "pr_constant_segment (pg_internal_program pg) = Some cs"
    "ss_offsets cs = Some offsets" "pr_segments (pg_internal_program pg) = Some segments"
    "unat (ss_segment_index cs) < length segments"
    and sum: "oc \<longrightarrow> unat ?sbo + unat (ds_offset (segments ! unat (ss_segment_index cs))) < 2 ^ 64"
    and fb: "buffer_load l (?sbo + ds_offset (segments ! unat (ss_segment_index cs)))
        (ds_size (segments ! unat (ss_segment_index cs))) = Ok (pg_constant_segment_data pg)"
    by (auto simp: load_constants_def r_bind_Ok_iff Let_def uadd_def buffer_dyn_def split: if_splits option.splits)
  let ?seg = "segments ! unat (ss_segment_index cs)" and ?off = "offsets ! unat i"
  have range_ok: "unat (?sbo + ds_offset ?seg) + unat (ds_size ?seg) \<le> unat (bdl_size l)"
    and f: "pg_constant_segment_data pg = fb_from_pointer (bdl_data l + (?sbo + ds_offset ?seg)) (ds_size ?seg) None 0"
    using fb by (auto simp: buffer_load_def range_in_bounds_iff split: if_splits)
  have b: "base = bdl_data l + (?sbo + ds_offset ?seg)" "fb_size (pg_constant_segment_data pg) = ds_size ?seg"
    using held by (simp_all add: f fb_from_pointer_def fb_data_ptr_def)
  have i: "unat i < length offsets" "?off \<le> ds_size ?seg" "nbytes \<le> ds_size ?seg - ?off" "p = base + ?off"
    using get held c b by (auto simp: get_constant_buffer_data_def Let_def split: if_splits)
  have n: "unat ?off + unat nbytes \<le> unat (ds_size ?seg)"
    using i by (simp add: word_le_nat_alt unat_sub)
  have start: "oc \<longrightarrow> unat (?sbo + ds_offset ?seg) = unat ?sbo + unat (ds_offset ?seg)"
    using sum by (simp add: unat_add_no_overflow)
  let ?start = "unat (?sbo + ds_offset ?seg) + unat ?off"
  have fit: "?start + unat nbytes \<le> unat (bdl_size l)" using range_ok n by simp
  have "of_nat ?start = ?sbo + ds_offset ?seg + ?off" by simp
  then have "p = bdl_data l + of_nat ?start" using i b by (simp add: add_ac)
  then have "bytes_at mem p (unat nbytes) = take (unat nbytes) (drop ?start (bytes_at mem (bdl_data l) (unat (bdl_size l))))"
    using take_drop_bytes_at [OF fit, of mem "bdl_data l"] by simp
  then show ?thesis using c i n fit start by (simp add: Let_def)
qed

theorem constants_are_file_bytes_witness:
  "\<exists>pg p. program_load True all_features (example_flatbuffers (example_program\<lparr>pr_execution_plan := None\<rparr>))
      example_head (example_file_loader_on example_head) Minimal = Ok pg \<and>
     get_constant_buffer_data all_features pg 2 48 = Ok p \<and>
     bytes_at example_head p 48 = take 48 (drop 16 (bytes_at example_head 0x1000 4096))"
proof -
  let ?p = "example_program\<lparr>pr_execution_plan := None\<rparr>"
  let ?pg = "program_new (example_file_loader_on example_head) 0 (fb_from_pointer 0x1000 4096 None 0) ?p
    (fb_from_pointer 0x1000 64 None 0) None"
  have load: "program_load True all_features (example_flatbuffers ?p) example_head (example_file_loader_on example_head)
      Minimal = Ok ?pg"
    by (rule example_load [OF _ example_constants]) (simp add: example_program_def)
  have get: "get_constant_buffer_data all_features ?pg 2 48 = Ok 0x1010"
    by (simp add: get_constant_buffer_data_def program_new_def fb_from_pointer_def fb_data_ptr_def example_program_def)
  have held: "fb_data_ptr (pg_constant_segment_data ?pg) = Ok 0x1000" "(0x1000 :: usize) \<noteq> 0"
    by (simp_all add: program_new_def fb_from_pointer_def fb_data_ptr_def)
  from constants_are_file_bytes [OF load [unfolded example_file_loader_on_def] get [unfolded example_file_loader_on_def]
      held [unfolded example_file_loader_on_def]]
  have "bytes_at example_head 0x1010 48 = take 48 (drop 16 (bytes_at example_head 0x1000 4096))"
    by (simp add: program_new_def example_program_def)
  then show ?thesis using load get by blast
qed

text \<open>
  The constant segment of a program is loaded with an unchecked sum: when the segment's offset in
  the file exceeds the address range, a build with overflow checks aborts while loading and a release
  build reads another part of the file, whereas \<^verbatim>\<open>load_segment\<close> reports the same segment as invalid.
\<close>

theorem constant_segment_offset_unchecked:
  assumes "pr_constant_segment p = Some cs" and "ss_offsets cs = Some offsets" and "2 \<le> length offsets"
    and "pr_constant_buffer p = None" and "pr_segments p = Some segments"
    and "unat (ss_segment_index cs) < length segments"
    and "2 ^ 64 \<le> unat base + unat (ds_offset (segments ! unat (ss_segment_index cs)))" and "base \<noteq> 0"
  shows "load_constants True loader base p = Panic \<and>
    load_constants False loader base p =
      r_bind (dl_load loader (base + ds_offset (segments ! unat (ss_segment_index cs)))
        (ds_size (segments ! unat (ss_segment_index cs)))
        \<lparr>si_segment_type = Constant_Segment, si_segment_index = unat (ss_segment_index cs)\<rparr>) (\<lambda>fb. Ok (Some fb)) \<and>
    load_segment (program_new loader base data p fb pte)
      \<lparr>si_segment_type = Constant_Segment, si_segment_index = unat (ss_segment_index cs)\<rparr> = Err InvalidProgram"
proof -
  have "offsets \<noteq> []" and "length offsets \<noteq> 1" using assms(3) by auto
  moreover have "0 < base" using assms(8) by (simp add: word_gt_0)
  ultimately show ?thesis
    using assms
    by (simp add: load_constants_def uadd_def load_segment_def program_new_def add_overflows_eq Let_def)
qed

theorem constant_segment_offset_unchecked_witness:
  "load_constants True example_loader 64
     (example_program\<lparr>pr_segments := Some [\<lparr>ds_offset = - 32, ds_size = 16\<rparr>]\<rparr>) = Panic"
  using constant_segment_offset_unchecked [of
      "example_program\<lparr>pr_segments := Some [\<lparr>ds_offset = - 32, ds_size = 16\<rparr>]\<rparr>"
      "\<lparr>ss_segment_index = 0, ss_offsets = Some [0, 0, 16]\<rparr>" "[0, 0, 16]" "[\<lparr>ds_offset = - 32, ds_size = 16\<rparr>]" 64]
  by (simp add: example_program_def)

end
