(* ===== verification/Tensor_Parser.thy ===== *)
theory Tensor_Parser
  imports Program Method_Load
begin

text \<open>
  Deserialising tensors, \<^verbatim>\<open>runtime/executor/tensor_parser.rs\<close>, \<^verbatim>\<open>tensor_parser_exec_aten.rs\<close> and
  \<^verbatim>\<open>tensor_parser_portable.rs\<close>: where a tensor's bytes live, the checks on its serialized shape,
  and the lists of tensors. The method allocator is a value of type \<open>'s\<close> with the operation
  \<open>pe_alloc\<close>; the tensors made so far are a list, a tensor's handle is its position. What a data
  map or a loader writes through the pointer it is given is not followed here. Undefined behaviour
  (a null or uninitialised reference, a \<^verbatim>\<open>transmute\<close> to a number that is no variant) is \<open>Panic\<close>.
\<close>

section \<open>Errors with a state\<close>

text \<open>A step returns an error (\<open>Inl\<close>) or a value, with the state it leaves either way.\<close>

definition s_bind ::
    "((Error + 'a) \<times> 's) result \<Rightarrow> ('a \<Rightarrow> 's \<Rightarrow> ((Error + 'b) \<times> 's) result) \<Rightarrow> ((Error + 'b) \<times> 's) result" where
  "s_bind m f = r_bind m (\<lambda>(res, s). case res of Inl e \<Rightarrow> Ok (Inl e, s) | Inr x \<Rightarrow> f x s)"

definition s_lift :: "'a result \<Rightarrow> 's \<Rightarrow> ((Error + 'a) \<times> 's) result" where
  "s_lift m s = (case m of Ok x \<Rightarrow> Ok (Inr x, s) | Err e \<Rightarrow> Ok (Inl e, s) | Panic \<Rightarrow> Panic)"

definition ensure :: "bool \<Rightarrow> Error \<Rightarrow> unit result" where
  "ensure cond e = (if cond then Ok () else Err e)"

definition present :: "'a option \<Rightarrow> Error \<Rightarrow> 'a result" where
  "present x e = (case x of Some v \<Rightarrow> Ok v | None \<Rightarrow> Err e)"

lemma s_bind_Inr [outcome_simps]:
  "s_bind m f = Ok (Inr y, s') \<longleftrightarrow> (\<exists>x s. m = Ok (Inr x, s) \<and> f x s = Ok (Inr y, s'))"
  by (cases m) (auto simp: s_bind_def split: sum.splits prod.splits)

lemma s_bind_simps [simp]:
  "s_bind (Ok (Inr x, s)) f = f x s" "s_bind (Ok (Inl e, s)) f = Ok (Inl e, s)" "s_bind Panic f = Panic"
  by (simp_all add: s_bind_def)

lemma s_lift_simps [simp]:
  "s_lift (Ok x) s = Ok (Inr x, s)" "s_lift (Err e) s = Ok (Inl e, s)" "s_lift Panic s = Panic"
  by (simp_all add: s_lift_def)

lemma s_lift_Inr [outcome_simps]: "s_lift m s = Ok (Inr x, s') \<longleftrightarrow> m = Ok x \<and> s' = s"
  by (cases m) auto

lemma ensure_Ok [simp]: "ensure c e = Ok u \<longleftrightarrow> c"
  by (simp add: ensure_def)

lemma present_Ok [simp]: "present x e = Ok v \<longleftrightarrow> x = Some v"
  by (cases x) (simp_all add: present_def)

section \<open>The parser's surroundings\<close>

record 's parser_env =
  pe_overflow_checks :: bool
  pe_features :: features_enabled
  pe_alloc :: "usize \<Rightarrow> usize \<Rightarrow> 's \<Rightarrow> (usize \<times> 's) result"
  pe_sizeof_tensor_impl :: usize
  pe_sizeof_optional_tensor :: usize
  pe_sizeof_evalue :: usize
  pe_sizeof_named_data :: usize
  pe_program :: program
  pe_planned :: "hierarchical_allocator option"

record 's parse_state =
  ps_alloc :: 's
  ps_tensors :: "tensor_impl list"

definition raw_list ::
    "'s parser_env \<Rightarrow> usize \<Rightarrow> nat \<Rightarrow> usize \<Rightarrow> 's parse_state \<Rightarrow> (usize \<times> 's parse_state) result" where
  "raw_list env size_of_t n alignment st =
     r_bind (allocate_list (pe_alloc env) size_of_t (of_nat n) alignment (ps_alloc st)) (\<lambda>(p, s).
       Ok (p, st\<lparr>ps_alloc := s\<rparr>))"

definition raw_instance ::
    "'s parser_env \<Rightarrow> usize \<Rightarrow> usize \<Rightarrow> 's parse_state \<Rightarrow> (usize \<times> 's parse_state) result" where
  "raw_instance env size_of_t alignment st =
     r_bind (allocate_instance (pe_alloc env) size_of_t alignment (ps_alloc st)) (\<lambda>(p, s).
       Ok (p, st\<lparr>ps_alloc := s\<rparr>))"

text \<open>An allocation whose null answer is the error \<open>MemoryAllocationFailed\<close>.\<close>

definition checked_alloc ::
    "(usize \<times> 's parse_state) result \<Rightarrow> ((Error + usize) \<times> 's parse_state) result" where
  "checked_alloc m =
     r_bind m (\<lambda>(p, st). if p = 0 then Ok (Inl MemoryAllocationFailed, st) else Ok (Inr p, st))"

section \<open>Where the bytes of a tensor live\<close>

definition get_mem_planned_ptr ::
    "bool \<Rightarrow> s_allocation \<Rightarrow> usize \<Rightarrow> hierarchical_allocator option \<Rightarrow> usize result" where
  "get_mem_planned_ptr oc info nbytes allocator' =
     (case allocator' of
        None \<Rightarrow> Err InvalidState
      | Some h \<Rightarrow>
          r_bind (usub oc (sa_memory_id info) 1) (\<lambda>memory_id.
            let memory_offset = Bit_Operations.or (ucast (sa_memory_offset_low info) :: usize)
                                  (push_bit 32 (ucast (sa_memory_offset_high info)))
            in get_offset_address h memory_id memory_offset nbytes))"

fun layout_loop :: "nat list \<Rightarrow> int list \<Rightarrow> u8 list \<Rightarrow> tensor_layout \<Rightarrow> Error result" where
  "layout_loop [] sizes dim_order expected = Ok Error_Ok"
| "layout_loop (i # is) sizes dim_order expected =
     (if sizes ! i \<noteq> tl_sizes expected ! i then Ok InvalidExternalData
      else if \<not> i < length (tl_dim_order expected) then Panic
      else if dim_order ! i \<noteq> tl_dim_order expected ! i then Ok InvalidExternalData
      else layout_loop is sizes dim_order expected)"

definition validate_tensor_layout :: "s_tensor \<Rightarrow> tensor_layout \<Rightarrow> Error result" where
  "validate_tensor_layout s expected =
     r_bind (static_cast_scalar_type (st_scalar_type s)) (\<lambda>scalar_type.
       if scalar_type \<noteq> tl_scalar_type expected then Ok InvalidExternalData
       else case (st_sizes s, st_dim_order s) of
         (Some sizes, Some dim_order) \<Rightarrow>
           let dim = wrap_i32 (int (length sizes))
           in if \<not> 0 \<le> dim then Ok InvalidExternalData
              else if as_usize dim \<noteq> length (tl_sizes expected) then Ok InvalidExternalData
              else if length dim_order \<noteq> as_usize dim then Ok InvalidExternalData
              else layout_loop [0..<nat dim] sizes dim_order expected
       | _ \<Rightarrow> Ok InvalidExternalData)"

text \<open>An external constant with the key it was found by. Keys are compared as C strings.\<close>

record external_constant =
  xc_key :: string
  xc_buffer :: freeable_buffer

fun get_data_by_key :: "string \<Rightarrow> external_constant list \<Rightarrow> external_constant option" where
  "get_data_by_key key [] = None"
| "get_data_by_key key (entry # entries) =
     (if c_string key = c_string (xc_key entry) then Some entry else get_data_by_key key entries)"

definition load_external_mutable ::
    "bool \<Rightarrow> s_tensor \<Rightarrow> string \<Rightarrow> s_allocation \<Rightarrow> usize \<Rightarrow> hierarchical_allocator option \<Rightarrow> named_data_map option \<Rightarrow> usize result" where
  "load_external_mutable oc s fqn info nbytes allocator' data_map' =
     r_bind (present data_map' InvalidExternalData) (\<lambda>dm.
     r_bind (nm_get_tensor_layout dm fqn) (\<lambda>layout.
     r_bind (validate_tensor_layout s layout) (\<lambda>err.
       if err \<noteq> Error_Ok then Err err
       else r_bind (get_mem_planned_ptr oc info nbytes allocator') (\<lambda>planned_ptr.
         let load_error = nm_load_data_into dm fqn planned_ptr nbytes
         in if load_error \<noteq> Error_Ok then Err load_error else Ok planned_ptr))))"

definition get_tensor_data_ptr ::
    "bool \<Rightarrow> features_enabled \<Rightarrow> s_tensor \<Rightarrow> program \<Rightarrow> usize \<Rightarrow> hierarchical_allocator option \<Rightarrow>
     named_data_map option \<Rightarrow> external_constant list \<Rightarrow> usize result" where
  "get_tensor_data_ptr oc ft s pg nbytes allocator' data_map' external_constants =
     (let data_buffer_idx = st_data_buffer_idx s
      in r_bind (ensure (st_allocation_info s = None \<or> allocator' \<noteq> None) InvalidState) (\<lambda>_.
        if st_is_external s then
          r_bind (present (st_fully_qualified_name s) InvalidExternalData) (\<lambda>fqn.
            case st_allocation_info s of
              None \<Rightarrow>
                (case get_data_by_key fqn external_constants of
                   Some data \<Rightarrow> fb_data_ptr (xc_buffer data)
                 | None \<Rightarrow> Err Internal)
            | Some info \<Rightarrow> load_external_mutable oc s fqn info nbytes allocator' data_map')
        else case st_allocation_info s of
          None \<Rightarrow>
            if 0 < data_buffer_idx then get_constant_buffer_data ft pg (ucast data_buffer_idx) nbytes
            else Ok 0
        | Some info \<Rightarrow>
            if 0 < data_buffer_idx then
              r_bind (get_mem_planned_ptr oc info nbytes allocator') (\<lambda>planned_ptr.
              r_bind (load_mutable_subsegment_into pg 0 (unat data_buffer_idx) nbytes planned_ptr) (\<lambda>err.
                if err \<noteq> Error_Ok then Err err else Ok planned_ptr))
            else get_mem_planned_ptr oc info nbytes allocator'))"

section \<open>Tensors\<close>

definition static_cast_dynamism :: "int \<Rightarrow> TensorShapeDynamism result" where
  "static_cast_dynamism d =
     (if d = 0 then Ok STATIC else if d = 1 then Ok DYNAMIC_BOUND else if d = 2 then Ok DYNAMIC_UNBOUND
      else Panic)"

text \<open>
  The serialized shape, with its checks. A flatbuffer vector has fewer than \<open>2 ^ 32\<close> elements, so its
  length is not changed by the cast to \<^verbatim>\<open>u32\<close>. The arrays of a static tensor stay in the program's
  memory, those of a dynamic one are copied; either way the tensor sees these elements.
\<close>

definition parse_shape ::
    "s_tensor \<Rightarrow> (ScalarType \<times> TensorShapeDynamism \<times> int list \<times> u8 list) result" where
  "parse_shape s =
     r_bind (ensure (st_storage_offset s = 0) NotSupported) (\<lambda>_.
     r_bind (static_cast_scalar_type (st_scalar_type s)) (\<lambda>scalar_type.
     r_bind (ensure (is_valid scalar_type) InvalidProgram) (\<lambda>_.
     r_bind (static_cast_dynamism (st_shape_dynamism s)) (\<lambda>dynamism.
     r_bind (ensure (dynamism \<noteq> DYNAMIC_UNBOUND) NotSupported) (\<lambda>_.
     r_bind (present (st_sizes s) InvalidProgram) (\<lambda>sizes.
     r_bind (ensure (length sizes \<le> K_TENSOR_DIMENSION_LIMIT) InvalidProgram) (\<lambda>_.
     r_bind (present (st_dim_order s) InvalidProgram) (\<lambda>dim_order.
     r_bind (ensure (length dim_order = length sizes) InvalidProgram) (\<lambda>_.
       Ok (scalar_type, dynamism, sizes, dim_order))))))))))"

definition parse_device :: "s_tensor \<Rightarrow> (DeviceType \<times> int) result" where
  "parse_device s =
     (case st_extra_tensor_info s of
        None \<Rightarrow> Ok (CPU, 0)
      | Some info \<Rightarrow> r_bind (static_cast_device_type (se_device_type info)) (\<lambda>dt. Ok (dt, se_device_index info)))"

text \<open>\<open>dim_order_to_stride\<close> overwrites the strides, whose memory is not initialised, when it succeeds.\<close>

definition parse_strides :: "bool \<Rightarrow> int list \<Rightarrow> u8 list \<Rightarrow> int list result" where
  "parse_strides oc sizes dim_order =
     (case dim_order_to_stride oc sizes dim_order (length sizes) (replicate (length sizes) 0) of
        Ok strides \<Rightarrow> Ok strides
      | Err e \<Rightarrow> Err Internal
      | Panic \<Rightarrow> Panic)"

definition parse_tensor ::
    "'s parser_env \<Rightarrow> s_tensor \<Rightarrow> named_data_map option \<Rightarrow> external_constant list \<Rightarrow> 's parse_state
     \<Rightarrow> ((Error + tensor_id) \<times> 's parse_state) result" where
  "parse_tensor env s data_map' external_constants st =
     s_bind (s_lift (parse_shape s) st) (\<lambda>(scalar_type, dynamism, sizes, dim_order) st.
     s_bind (if dynamism \<noteq> STATIC
             then s_bind (checked_alloc (raw_list env 4 (length sizes) 4 st)) (\<lambda>_ st.
                    checked_alloc (raw_list env 1 (length sizes) 1 st))
             else Ok (Inr 0, st)) (\<lambda>_ st.
     s_bind (s_lift (ensure (list_all (\<lambda>size_i. 0 \<le> size_i) sizes) InvalidProgram) st) (\<lambda>_ st.
     s_bind (checked_alloc (raw_list env 4 (length sizes) 4 st)) (\<lambda>_ st.
     s_bind (s_lift (parse_strides (pe_overflow_checks env) sizes dim_order) st) (\<lambda>strides st.
     s_bind (s_lift (parse_device s) st) (\<lambda>(dev_type, dev_index) st.
     s_bind (checked_alloc (raw_instance env (pe_sizeof_tensor_impl env) 8 st)) (\<lambda>_ st.
     s_bind (s_lift (tensor_new (pe_overflow_checks env) scalar_type (int (length sizes)) (Some sizes) 0
               (Some dim_order) (Some strides) dynamism dev_type dev_index) st) (\<lambda>tensor st.
     s_bind (s_lift (tensor_nbytes (pe_overflow_checks env) tensor) st) (\<lambda>nbytes st.
     s_bind (s_lift (unwrap (pe_planned env)) st) (\<lambda>planned st.
     s_bind (s_lift (get_tensor_data_ptr (pe_overflow_checks env) (pe_features env) s (pe_program env) nbytes
               (Some planned) data_map' external_constants) st) (\<lambda>data_ptr st.
       Ok (Inr (length (ps_tensors st)),
           st\<lparr>ps_tensors := ps_tensors st @ [tensor_set_data data_ptr tensor]\<rparr>))))))))))))"

section \<open>Lists of tensors\<close>

text \<open>A boxed list is made of two arrays; its constructor aborts on a null array or a negative size.\<close>

definition boxed_list_new :: "usize \<Rightarrow> usize \<Rightarrow> nat option list \<Rightarrow> nat option list result" where
  "boxed_list_new wrapped_vals unwrapped_vals pointers =
     (if wrapped_vals = 0 then Panic
      else if \<not> 0 \<le> wrap_i32 (int (length pointers)) then Panic
      else if unwrapped_vals = 0 then Panic
      else Ok (take (as_usize (wrap_i32 (int (length pointers)))) pointers))"

text \<open>The values table while it is filled: a slot that was not written yet is \<open>None\<close>.\<close>

fun tensor_list_loop :: "int list \<Rightarrow> evalue option list \<Rightarrow> nat option list result" where
  "tensor_list_loop [] values = Ok []"
| "tensor_list_loop (tensor_index # rest) values =
     r_bind (ensure (valid_value_index tensor_index (length values)) InvalidProgram) (\<lambda>_.
     r_bind (unwrap (values ! as_usize tensor_index)) (\<lambda>v.
     r_bind (try_to_tensor v) (\<lambda>_.
     r_bind (tensor_list_loop rest values) (\<lambda>ps. Ok (Some (as_usize tensor_index) # ps)))))"

definition parse_tensor_list ::
    "'s parser_env \<Rightarrow> int list \<Rightarrow> evalue option list \<Rightarrow> 's parse_state
     \<Rightarrow> ((Error + nat option list) \<times> 's parse_state) result" where
  "parse_tensor_list env tensor_indices values st =
     s_bind (checked_alloc (raw_list env 8 (length tensor_indices) 8 st)) (\<lambda>tensor_list st.
     s_bind (checked_alloc (raw_list env 8 (length tensor_indices) 8 st)) (\<lambda>evalp_list st.
     s_bind (s_lift (tensor_list_loop tensor_indices values) st) (\<lambda>pointers st.
       s_lift (boxed_list_new evalp_list tensor_list pointers) st)))"

fun list_optional_loop ::
    "(evalue \<Rightarrow> 'a result) \<Rightarrow> int list \<Rightarrow> evalue option list \<Rightarrow> nat option list result" where
  "list_optional_loop conv [] values = Ok []"
| "list_optional_loop conv (index # rest) values =
     (if index = -1 then
        r_bind (list_optional_loop conv rest values) (\<lambda>ps. Ok (None # ps))
      else
        r_bind (ensure (valid_value_index index (length values)) InvalidProgram) (\<lambda>_.
        r_bind (unwrap (values ! as_usize index)) (\<lambda>v.
        r_bind (try_to_optional conv v) (\<lambda>_.
        r_bind (list_optional_loop conv rest values) (\<lambda>ps. Ok (Some (as_usize index) # ps))))))"

definition parse_list_optional_type ::
    "'s parser_env \<Rightarrow> (evalue \<Rightarrow> 'a result) \<Rightarrow> usize \<Rightarrow> int list \<Rightarrow> evalue option list \<Rightarrow> 's parse_state
     \<Rightarrow> ((Error + nat option list) \<times> 's parse_state) result" where
  "parse_list_optional_type env conv size_of_option value_indices values st =
     s_bind (checked_alloc (raw_list env 8 (length value_indices) 8 st)) (\<lambda>evalp_list st.
     s_bind (checked_alloc (raw_list env size_of_option (length value_indices) 8 st)) (\<lambda>optional_list st.
     s_bind (s_lift (list_optional_loop conv value_indices values) st) (\<lambda>pointers st.
       s_lift (boxed_list_new evalp_list optional_list pointers) st)))"

section \<open>What a parsed tensor is\<close>

lemma unwrap_Ok [simp]: "unwrap x = Ok v \<longleftrightarrow> x = Some v"
  by (cases x) (simp_all add: unwrap_def)

lemma raw_list_tensors: "raw_list env t n a st = Ok (p, st') \<Longrightarrow> ps_tensors st' = ps_tensors st"
  by (auto simp: raw_list_def r_bind_Ok_iff)

lemma raw_instance_tensors: "raw_instance env t a st = Ok (p, st') \<Longrightarrow> ps_tensors st' = ps_tensors st"
  by (auto simp: raw_instance_def r_bind_Ok_iff)

lemma checked_alloc_Inr [outcome_simps]: "checked_alloc m = Ok (Inr p, st) \<longleftrightarrow> m = Ok (p, st) \<and> p \<noteq> 0"
  by (cases m) (auto simp: checked_alloc_def split: prod.splits if_splits)

lemmas alloc_tensors = raw_list_tensors raw_instance_tensors

lemma parse_tensorE:
  assumes "parse_tensor env s dm ext st = Ok (Inr tid, st')"
  obtains ty dyn sizes d strides dt di t nbytes h p where "parse_shape s = Ok (ty, dyn, sizes, d)"
    and "\<forall>x \<in> set sizes. 0 \<le> x" and "parse_strides (pe_overflow_checks env) sizes d = Ok strides"
    and "parse_device s = Ok (dt, di)"
    and "tensor_new (pe_overflow_checks env) ty (int (length sizes)) (Some sizes) 0 (Some d) (Some strides) dyn dt di = Ok t"
    and "tensor_nbytes (pe_overflow_checks env) t = Ok nbytes" and "pe_planned env = Some h"
    and "get_tensor_data_ptr (pe_overflow_checks env) (pe_features env) s (pe_program env) nbytes (Some h) dm ext = Ok p"
    and "tid = length (ps_tensors st)" and "ps_tensors st' = ps_tensors st @ [tensor_set_data p t]"
proof -
  obtain ty dyn sizes d where sh: "parse_shape s = Ok (ty, dyn, sizes, d)"
    using assms unfolding parse_tensor_def by (auto simp: outcome_simps)
  show ?thesis
  proof (cases "dyn = STATIC")
    case True
    show ?thesis using assms unfolding parse_tensor_def
      by (auto simp: outcome_simps sh True list_all_iff dest!: alloc_tensors intro!: that)
  next
    case False
    show ?thesis using assms unfolding parse_tensor_def
      by (auto simp: outcome_simps sh False list_all_iff dest!: alloc_tensors intro!: that)
  qed
qed

lemma all_scalar_types_discriminant: "i < length all_scalar_types \<Longrightarrow> discriminant (all_scalar_types ! i) = int i"
proof -
  have "\<forall>i \<in> set [0..<length all_scalar_types]. discriminant (all_scalar_types ! i) = int i"
    by (simp add: all_scalar_types_def upt_rec)
  then show "i < length all_scalar_types \<Longrightarrow> discriminant (all_scalar_types ! i) = int i" by simp
qed

lemma static_cast_scalar_type_Ok: "static_cast_scalar_type v = Ok ty \<Longrightarrow> discriminant ty = v \<and> 0 \<le> v \<and> ty = all_scalar_types ! nat v"
  using all_scalar_types_discriminant [of "nat v"]
  by (auto simp: static_cast_scalar_type_def all_scalar_types_def split: if_splits)

lemma parse_shapeE:
  assumes "parse_shape s = Ok (ty, dyn, sizes, d)"
  obtains "st_sizes s = Some sizes" and "st_dim_order s = Some d" and "length sizes \<le> 16"
    and "length d = length sizes" and "is_valid ty" and "static_cast_scalar_type (st_scalar_type s) = Ok ty"
    and "static_cast_dynamism (st_shape_dynamism s) = Ok dyn" and "dyn \<noteq> DYNAMIC_UNBOUND"
  using assms that by (auto simp: parse_shape_def r_bind_Ok_iff K_TENSOR_DIMENSION_LIMIT_def)

lemma tensor_new_exact:
  assumes "tensor_new oc ty (int (length xs)) (Some xs) p (Some d) (Some strides) dyn dt di = Ok t"
    and "numel_fits xs" and "length d = length xs" and "length strides = length xs"
  shows "t = \<lparr>ti_sizes = Some xs, ti_dim_order = Some d, ti_strides = Some strides, ti_data = p,
      ti_dim = int (length xs), ti_numel = prod_list xs, ti_numel_bound = word_of_int (prod_list xs),
      ti_type = ty, ti_shape_dynamism = dyn, ti_device = \<lparr>device_type = dt, device_index = di\<rparr>\<rparr>"
    and "tensor_inv t"
proof -
  have "compute_numel oc (Some xs) (int (length xs)) = Ok (prod_list xs)"
    using assms(2) compute_numel_loop_unchecked [of 1 xs oc] by (simp add: compute_numel_def numel_fits_def)
  then show t: "t = \<lparr>ti_sizes = Some xs, ti_dim_order = Some d, ti_strides = Some strides, ti_data = p,
      ti_dim = int (length xs), ti_numel = prod_list xs, ti_numel_bound = word_of_int (prod_list xs),
      ti_type = ty, ti_shape_dynamism = dyn, ti_device = \<lparr>device_type = dt, device_index = di\<rparr>\<rparr>"
    using assms(1) by (auto simp: tensor_new_def Let_def split: if_splits)
  have "is_valid ty" using assms(1) by (auto simp: tensor_new_def Let_def r_bind_Ok_iff split: if_splits)
  then show "tensor_inv t"
    using assms(2-4) numel_fits_range [OF assms(2)] by (simp add: t tensor_inv_def uint_word_of_int_63)
qed

lemma tensor_inv_set_data [simp]: "tensor_inv (tensor_set_data p t) = tensor_inv t"
  by (simp add: tensor_inv_def tensor_set_data_def)

lemma set_data_simps [simp]:
  "ti_data (tensor_set_data p t) = p" "ti_sizes (tensor_set_data p t) = ti_sizes t"
  "ti_dim_order (tensor_set_data p t) = ti_dim_order t" "ti_strides (tensor_set_data p t) = ti_strides t"
  "ti_type (tensor_set_data p t) = ti_type t" "ti_numel (tensor_set_data p t) = ti_numel t"
  "ti_dim (tensor_set_data p t) = ti_dim t" "tensor_nbytes oc (tensor_set_data p t) = tensor_nbytes oc t"
  by (simp_all add: tensor_set_data_def tensor_nbytes_def)

text \<open>The count and the byte size are exact when overflows are checked, by the build or by the validator.\<close>

lemma parsed_nbytes_exact:
  assumes "oc \<or> tensor_valid s" and "st_sizes s = Some sizes" and "static_cast_scalar_type (st_scalar_type s) = Ok ty"
    and "tensor_new oc ty (int (length sizes)) (Some sizes) p (Some d) (Some strides) dyn dt di = Ok t"
    and "length d = length sizes" and "length strides = length sizes" and "tensor_nbytes oc t = Ok nbytes"
  shows "numel_fits sizes \<and> (\<exists>es. element_size ty = Ok es \<and> uint nbytes = prod_list sizes * uint es)"
proof -
  have fits: "numel_fits sizes"
  proof (cases oc)
    case True
    then show ?thesis using assms(4) compute_numel_loop_eq [of 1 sizes]
      by (auto simp: tensor_new_def compute_numel_def numel_fits_def split: if_splits)
  next
    case False
    then show ?thesis using assms(1,2) by (simp add: tensor_valid_def)
  qed
  note t = tensor_new_exact(1) [OF assms(4) fits assms(5,6)]
  obtain es where es: "element_size ty = Ok es" and nb: "umul oc (word_of_int (prod_list sizes)) es = (Ok nbytes :: usize result)"
    using assms(7) by (auto simp: tensor_nbytes_def t r_bind_Ok_iff)
  have range: "0 \<le> prod_list sizes" "prod_list sizes < 2 ^ 63" using numel_fits_range [OF fits] by simp_all
  have n: "unat (word_of_int (prod_list sizes) :: usize) = nat (prod_list sizes)"
    using range by (intro unat_word_of_int) simp_all
  have "nat (prod_list sizes) * unat es < 2 ^ 64"
  proof (cases oc)
    case True
    then show ?thesis using nb n by (simp add: umul_def split: if_splits)
  next
    case False
    then have "prod_list sizes * uint es < 2 ^ 64"
      using assms(1-3) es static_cast_scalar_type_Ok [OF assms(3)] by (simp add: tensor_valid_def)
    moreover have "int (nat (prod_list sizes) * unat es) = prod_list sizes * uint es"
      using range(1) by (simp only: of_nat_mult uint_nat) simp
    ultimately have "int (nat (prod_list sizes) * unat es) < 2 ^ 64" by (simp only:)
    moreover have "k < 2 ^ 64 \<longleftrightarrow> int k < 2 ^ 64" for k :: nat by simp
    ultimately show ?thesis by blast
  qed
  then have "unat nbytes = nat (prod_list sizes) * unat es"
    using nb n unat_mul_no_overflow [of "word_of_int (prod_list sizes) :: usize" es] by (simp add: umul_def)
  then have "uint nbytes = prod_list sizes * uint es" using range(1) by (simp only: uint_nat of_nat_mult) simp
  then show ?thesis using fits es by blast
qed

lemma get_tensor_data_ptr_planned:
  assumes "get_tensor_data_ptr oc ft s pg nbytes (Some h) dm ext = Ok p" and "st_allocation_info s = Some info"
  shows "\<exists>off. get_offset_address h (sa_memory_id info - 1) off nbytes = Ok p"
proof -
  have "get_mem_planned_ptr oc info nbytes (Some h) = Ok p"
    using assms
    by (auto simp: get_tensor_data_ptr_def Let_def r_bind_Ok_iff load_external_mutable_def split: if_splits option.splits)
  then show ?thesis
    by (auto simp: get_mem_planned_ptr_def r_bind_Ok_iff Let_def usub_def split: if_splits)
qed

lemma parse_strides_OkD:
  assumes "parse_strides oc sizes d = Ok strides" and "length d = length sizes" and "\<forall>x \<in> set sizes. 0 \<le> x"
  shows "length strides = length sizes" and "is_permutation d"
    and "sizes_after sizes d 0 < 2 ^ 31 \<longrightarrow> (\<forall>k < length sizes. strides ! unat (d ! k) = sizes_after sizes d k)"
    and "oc \<longrightarrow> sizes_after sizes d 0 < 2 ^ 31"
proof -
  let ?n = "length sizes" and ?s = "replicate (length sizes) (0 :: int)"
  have ok: "dim_order_to_stride oc sizes d ?n ?s = Ok strides"
    using assms(1) by (auto simp: parse_strides_def split: outcome.splits)
  show "length strides = ?n" using dim_order_to_stride_length [OF ok] by simp
  have v: "?n = 0 \<or> validate_dim_order d ?n" using ok by (auto simp: dim_order_to_stride_def split: if_splits)
  then show d: "is_permutation d" using assms(2)
    by (cases "?n = 0") (auto simp: validate_iff_permutation is_permutation_def)
  have n: "?n \<le> 16" using v assms(2) by (auto simp: validate_iff_permutation)
  have nonneg: "\<forall>k < ?n. 0 \<le> sizes ! k" using assms(3) by simp
  show "sizes_after sizes d 0 < 2 ^ 31 \<longrightarrow> (\<forall>k < ?n. strides ! unat (d ! k) = sizes_after sizes d k)"
    using dim_order_to_stride_correct [OF assms(2) d n, of ?s sizes oc] nonneg ok by auto
  show "oc \<longrightarrow> sizes_after sizes d 0 < 2 ^ 31"
  proof (cases "?n = 0")
    case True
    then show ?thesis using assms(2) by (simp add: sizes_after_def)
  next
    case False
    then have "validate_dim_order d ?n" using v by simp
    from dim_order_to_stride_panics [OF assms(2) _ False nonneg this, of ?s] show ?thesis using ok
      by (cases "sizes_after sizes d 0 < 2 ^ 31") auto
  qed
qed

text \<open>The bytes that a planned tensor may use: the buffer of its memory id.\<close>

definition planned_buffer :: "hierarchical_allocator \<Rightarrow> s_allocation \<Rightarrow> nat set" where
  "planned_buffer h info = span_bytes (ha_buffers h ! unat (sa_memory_id info - 1))"

text \<open>
  C26. A tensor that is parsed is well formed, and a planned one points to memory of its own size. In a build with
  overflow checks, or for a serialized tensor that passed validation, the new tensor keeps the tensor
  invariant, has the serialized type, sizes and dim order, the order is a permutation of at most 16
  dimensions, the strides are the products of the sizes that follow in the order whenever these fit,
  its byte size is the exact product of sizes and element size, and: with an allocation its data is a
  range of that many bytes inside the planned buffer of its memory id; without one, the data of a tensor
  stored in the program is the program's constant, or null when it gets its memory at run time, and that
  of an external tensor is the buffer that was resolved under its name, whose size nothing compares with
  the tensor's. The planned buffers are those of live memory: none of them wraps around the address space.
\<close>

theorem parsed_tensor_sound:
  assumes parse: "parse_tensor env s dm ext st = Ok (Inr tid, st')"
    and checked: "pe_overflow_checks env \<or> tensor_valid s"
    and live: "\<forall>h. pe_planned env = Some h \<longrightarrow> (\<forall>sp \<in> set (ha_buffers h). span_ok sp)"
  shows "\<exists>t sizes d es nbytes h. tid = length (ps_tensors st) \<and> ps_tensors st' = ps_tensors st @ [t] \<and>
    tensor_inv t \<and> discriminant (ti_type t) = st_scalar_type s \<and>
    st_sizes s = Some sizes \<and> ti_sizes t = Some sizes \<and> st_dim_order s = Some d \<and> ti_dim_order t = Some d \<and>
    is_permutation d \<and> length d = length sizes \<and> length d \<le> 16 \<and>
    (sizes_after sizes d 0 < 2 ^ 31 \<longrightarrow> (\<forall>k < length d. the (ti_strides t) ! unat (d ! k) = sizes_after sizes d k)) \<and>
    tensor_nbytes (pe_overflow_checks env) t = Ok nbytes \<and> element_size (ti_type t) = Ok es \<and>
    uint nbytes = prod_list sizes * uint es \<and> pe_planned env = Some h \<and>
    (\<forall>info. st_allocation_info s = Some info \<longrightarrow> region (ti_data t) nbytes \<subseteq> planned_buffer h info) \<and>
    (st_allocation_info s = None \<and> \<not> st_is_external s \<longrightarrow>
      (if st_data_buffer_idx s = 0 then ti_data t = 0
       else get_constant_buffer_data (pe_features env) (pe_program env) (ucast (st_data_buffer_idx s)) nbytes = Ok (ti_data t))) \<and>
    (st_allocation_info s = None \<and> st_is_external s \<longrightarrow>
      (\<exists>fqn data. st_fully_qualified_name s = Some fqn \<and> get_data_by_key fqn ext = Some data \<and>
        fb_data_ptr (xc_buffer data) = Ok (ti_data t)))"
proof -
  obtain ty dyn sizes d strides dt di t nbytes h p where shape: "parse_shape s = Ok (ty, dyn, sizes, d)"
    and nonneg: "\<forall>x \<in> set sizes. 0 \<le> x" and strides: "parse_strides (pe_overflow_checks env) sizes d = Ok strides"
    and new: "tensor_new (pe_overflow_checks env) ty (int (length sizes)) (Some sizes) 0 (Some d) (Some strides) dyn dt di = Ok t"
    and nb: "tensor_nbytes (pe_overflow_checks env) t = Ok nbytes" and h: "pe_planned env = Some h"
    and data: "get_tensor_data_ptr (pe_overflow_checks env) (pe_features env) s (pe_program env) nbytes (Some h) dm ext = Ok p"
    and out: "tid = length (ps_tensors st)" "ps_tensors st' = ps_tensors st @ [tensor_set_data p t]"
    using parse by (rule parse_tensorE)
  obtain sz: "st_sizes s = Some sizes" and d: "st_dim_order s = Some d" and n: "length sizes \<le> 16"
    and len: "length d = length sizes" and ty: "static_cast_scalar_type (st_scalar_type s) = Ok ty"
    using shape by (rule parse_shapeE)
  note st = parse_strides_OkD [OF strides len nonneg]
  have exact: "numel_fits sizes" and "\<exists>es. element_size ty = Ok es \<and> uint nbytes = prod_list sizes * uint es"
    using parsed_nbytes_exact [OF checked sz ty new len st(1) nb] by blast+
  then obtain es where es: "element_size ty = Ok es" "uint nbytes = prod_list sizes * uint es" by blast
  note t = tensor_new_exact [OF new exact len st(1)]
  have planned: "region p nbytes \<subseteq> planned_buffer h info" if info: "st_allocation_info s = Some info" for info
  proof -
    obtain off where off: "get_offset_address h (sa_memory_id info - 1) off nbytes = Ok p"
      using get_tensor_data_ptr_planned [OF data info] by blast
    moreover have "ha_buffers h ! unat (sa_memory_id info - 1) \<in> set (ha_buffers h)"
      using off by (simp add: get_offset_address_Ok_iff)
    ultimately show ?thesis
      using get_offset_address_in_buffer(1) live h by (simp add: planned_buffer_def)
  qed
  have unplanned: "if st_data_buffer_idx s = 0 then p = 0
      else get_constant_buffer_data (pe_features env) (pe_program env) (ucast (st_data_buffer_idx s)) nbytes = Ok p"
    if "st_allocation_info s = None \<and> \<not> st_is_external s"
    using data that by (auto simp: get_tensor_data_ptr_def Let_def r_bind_Ok_iff word_neq_0_conv split: if_splits)
  have external: "\<exists>fqn data. st_fully_qualified_name s = Some fqn \<and> get_data_by_key fqn ext = Some data \<and>
      fb_data_ptr (xc_buffer data) = Ok p" if "st_allocation_info s = None \<and> st_is_external s"
    using data that by (auto simp: get_tensor_data_ptr_def Let_def outcome_simps split: option.splits)
  show ?thesis
    by (intro exI [of _ "tensor_set_data p t"] exI [of _ sizes] exI [of _ d] exI [of _ es] exI [of _ nbytes] exI [of _ h] conjI)
      (use out t es nb h sz d n len st planned unplanned external static_cast_scalar_type_Ok [OF ty] in auto)
qed

definition example_parser_env :: "bool \<Rightarrow> hierarchical_allocator option \<Rightarrow> unit parser_env" where
  "example_parser_env oc planned =
     \<lparr>pe_overflow_checks = oc,
      pe_features = \<lparr>ft_program_verification = True, ft_deprecated_constant_buffer = True\<rparr>,
      pe_alloc = (\<lambda>n a s. Ok (0x8000, s)), pe_sizeof_tensor_impl = 80, pe_sizeof_optional_tensor = 16,
      pe_sizeof_evalue = 24, pe_sizeof_named_data = 48, pe_program = example_program_state, pe_planned = planned\<rparr>"

definition example_planned :: hierarchical_allocator where
  "example_planned = \<lparr>ha_buffers = [\<lparr>span_data = 0x1000, span_size = 64\<rparr>], ha_devices = []\<rparr>"

text \<open>A float tensor of two rows and three columns, at offset 8 of the planned buffer \<open>id\<close>.\<close>

definition example_s_tensor :: "u32 \<Rightarrow> s_tensor" where
  "example_s_tensor mid = empty_s_tensor\<lparr>st_scalar_type := 6, st_sizes := Some [2, 3], st_dim_order := Some [0, 1],
     st_allocation_info := Some \<lparr>sa_memory_id = mid, sa_memory_offset_low = 8, sa_memory_offset_high = 0\<rparr>\<rparr>"

definition example_parsed :: tensor_impl where
  "example_parsed = \<lparr>ti_sizes = Some [2, 3], ti_dim_order = Some [0, 1], ti_strides = Some [3, 1], ti_data = 0x1008,
     ti_dim = 2, ti_numel = 6, ti_numel_bound = 6, ti_type = Float, ti_shape_dynamism = STATIC,
     ti_device = \<lparr>device_type = CPU, device_index = 0\<rparr>\<rparr>"

lemma example_shape: "parse_shape (example_s_tensor i) = Ok (Float, STATIC, [2, 3], [0, 1])"
  by (simp add: parse_shape_def example_s_tensor_def empty_s_tensor_def ensure_def present_def static_cast_dynamism_def
      static_cast_scalar_type_def all_scalar_types_def is_valid_def K_TENSOR_DIMENSION_LIMIT_def)

lemma example_s_tensor_fields:
  "st_allocation_info (example_s_tensor i) = Some \<lparr>sa_memory_id = i, sa_memory_offset_low = 8, sa_memory_offset_high = 0\<rparr>"
  "st_data_buffer_idx (example_s_tensor i) = 0" "st_extra_tensor_info (example_s_tensor i) = None"
  "st_is_external (example_s_tensor i) = False"
  by (simp_all add: example_s_tensor_def empty_s_tensor_def st_is_external_def)

lemma example_strides: "parse_strides True [2, 3] [0, 1] = Ok [3, 1]"
proof -
  have "validate_dim_order [0, 1] 2"
    by (simp add: validate_iff_permutation is_permutation_def upt_rec)
  then show ?thesis
    by (simp add: parse_strides_def dim_order_to_stride_def dim_order_to_stride_nocheck_def numeral_2_eq_2
        i32_mul_def fits_i32_def wrap_i32_def)
qed

lemma example_parse:
  "parse_tensor (example_parser_env True (Some example_planned)) (example_s_tensor 1) None []
     \<lparr>ps_alloc = (), ps_tensors = []\<rparr> = Ok (Inr 0, \<lparr>ps_alloc = (), ps_tensors = [example_parsed]\<rparr>)"
  by (simp add: parse_tensor_def example_shape example_strides checked_alloc_def raw_list_def raw_instance_def
      allocate_list_def allocate_instance_def example_parser_env_def ensure_def parse_device_def
      example_s_tensor_fields checked_mul_def tensor_new_def compute_numel_def i64_mul_def fits_i64_def wrap_i64_def
      tensor_nbytes_def umul_def unwrap_def get_tensor_data_ptr_def get_mem_planned_ptr_def usub_def
      get_offset_address_def checked_add_def example_planned_def tensor_set_data_def example_parsed_def is_valid_def)

theorem parsed_tensor_sound_witness:
  "\<exists>t. ps_tensors \<lparr>ps_alloc = (), ps_tensors = [example_parsed]\<rparr> = [] @ [t] \<and> tensor_inv t \<and>
     region (ti_data t) 24 \<subseteq> planned_buffer example_planned \<lparr>sa_memory_id = 1, sa_memory_offset_low = 8, sa_memory_offset_high = 0\<rparr>"
proof -
  have live: "\<forall>h. pe_planned (example_parser_env True (Some example_planned)) = Some h \<longrightarrow> (\<forall>sp \<in> set (ha_buffers h). span_ok sp)"
    by (auto simp: example_parser_env_def example_planned_def span_ok_def)
  have nb: "tensor_nbytes True example_parsed = Ok 24"
    by (simp add: tensor_nbytes_def example_parsed_def umul_def)
  have env: "pe_overflow_checks (example_parser_env True (Some example_planned))"
    "pe_planned (example_parser_env True (Some example_planned)) = Some example_planned"
    by (simp_all add: example_parser_env_def)
  note sound = parsed_tensor_sound [OF example_parse disjI1 [OF env(1)] live]
  show ?thesis
    using sound nb by (simp add: example_s_tensor_fields env) blast
qed

section \<open>What a bad program does\<close>

lemma bad_scalar_type_panics:
  "st_storage_offset s = 0 \<Longrightarrow> \<not> (0 \<le> st_scalar_type s \<and> st_scalar_type s \<le> discriminant NumOptions) \<Longrightarrow>
   parse_tensor env s dm ext st = Panic"
  unfolding parse_tensor_def parse_shape_def static_cast_scalar_type_def by (simp only: if_False) (simp add: ensure_def)

text \<open>
  C29. The scalar type of a serialized tensor is turned into the enumeration before it is checked, and
  the validator does not look at the tensors of dynamic inputs: a program whose input has a number
  that is no scalar type passes validation, and parsing that tensor is undefined instead of the
  \<open>InvalidProgram\<close> that the check after the conversion was written for.
\<close>

theorem unvalidated_input_undefined:
  assumes "st_shape_dynamism s \<noteq> 0" and "st_storage_offset s = 0"
    and "\<not> (0 \<le> st_scalar_type s \<and> st_scalar_type s \<le> discriminant NumOptions)"
  shows "validate_program (Some [empty_s_plan\<lparr>sp_values := Some [SV_Tensor (Some s)], sp_inputs := Some [0]\<rparr>]) = Ok Error_Ok \<and>
    parse_tensor env s dm ext st = Panic"
  using bad_scalar_type_panics [OF assms(2,3)] assms(1)
  by (simp add: validate_program_eq program_valid_def value_valid_def verdict_def is_dynamic_input_def wrap_i32_def)

theorem unvalidated_input_undefined_witness:
  "parse_tensor (example_parser_env True None) (empty_s_tensor\<lparr>st_scalar_type := 99, st_shape_dynamism := 1\<rparr>) None []
     \<lparr>ps_alloc = (), ps_tensors = []\<rparr> = Panic"
  by (rule conjunct2 [OF unvalidated_input_undefined]) (simp_all add: empty_s_tensor_def)

text \<open>
  Two requests for planned memory that should be errors are not. A memory id of zero is decremented
  below zero: with overflow checks the process aborts, without them the error is \<open>InvalidArgument\<close>.
  And a method may be given no planned memory when it plans none, but the parser takes a reference
  to it for every tensor, so that no tensor at all parses without it.
\<close>

theorem planned_memory_faults:
  assumes "st_allocation_info s = Some info" and "sa_memory_id info = 0" and "\<not> st_is_external s"
    and "st_data_buffer_idx s = 0" and "length (ha_buffers h) < 2 ^ 32"
  shows "get_tensor_data_ptr True ft s pg nbytes (Some h) dm ext = Panic \<and>
    get_tensor_data_ptr False ft s pg nbytes (Some h) dm ext = Err InvalidArgument \<and>
    (pe_planned env = None \<longrightarrow> parse_tensor env s' dm ext st \<noteq> Ok (Inr tid, st'))"
proof -
  have "\<not> unat (- 1 :: u32) < length (ha_buffers h)"
    using assms(5) by (simp add: unsigned_minus_1_eq_mask mask_eq_exp_minus_1)
  then have "get_offset_address h (- 1) off nbytes = Err InvalidArgument" for off
    by (simp add: get_offset_address_def split: option.split)
  then show ?thesis using assms
    by (auto simp: get_tensor_data_ptr_def ensure_def get_mem_planned_ptr_def usub_def elim: parse_tensorE)
qed

theorem planned_memory_faults_witness:
  "get_tensor_data_ptr True (pe_features (example_parser_env True None)) (example_s_tensor 0) example_program_state 24
     (Some example_planned) None [] = Panic"
proof -
  have "length (ha_buffers example_planned) < 2 ^ 32" by (simp add: example_planned_def)
  then show ?thesis
    using planned_memory_faults [of "example_s_tensor 0" _ example_planned "pe_features (example_parser_env True None)"
        example_program_state 24 None "[]" "example_parser_env True None" "example_s_tensor 0" "\<lparr>ps_alloc = (), ps_tensors = []\<rparr>" 0 "\<lparr>ps_alloc = (), ps_tensors = []\<rparr>"]
    by (simp add: example_s_tensor_fields)
qed

end
