(* ===== verification/Method_Values.thy ===== *)
theory Method_Values
  imports Tensor_Parser
begin

text \<open>
  Filling the values table of a method: \<^verbatim>\<open>Method::parse_values\<close>, \<^verbatim>\<open>get_num_external_constants\<close> and
  \<^verbatim>\<open>parse_external_constants\<close> of \<^verbatim>\<open>runtime/executor/method.rs\<close>. A slot that was not written is
  \<open>None\<close>; reading it, or writing through a null pointer that an unchecked allocation returned, is
  undefined and \<open>Panic\<close>. \<open>vs_n_value\<close> is the count that the destructor of the method relies on.
\<close>

section \<open>State\<close>

record 's values_state =
  vs_parse :: "'s parse_state"
  vs_values :: "evalue option list"
  vs_n_value :: nat
  vs_input_set :: "bool list"
  vs_external :: "external_constant list"

definition on_parse ::
    "('s parse_state \<Rightarrow> ((Error + 'a) \<times> 's parse_state) result) \<Rightarrow> 's values_state \<Rightarrow> ((Error + 'a) \<times> 's values_state) result" where
  "on_parse f vs = r_bind (f (vs_parse vs)) (\<lambda>(res, st). Ok (res, vs\<lparr>vs_parse := st\<rparr>))"

text \<open>An allocation whose answer is used without a check, as the address or null.\<close>

definition unchecked_alloc ::
    "(usize \<times> 's parse_state) result \<Rightarrow> ((Error + usize) \<times> 's parse_state) result" where
  "unchecked_alloc m = r_bind m (\<lambda>(p, st). Ok (Inr p, st))"

text \<open>Writing through a pointer.\<close>

definition store_at :: "usize \<Rightarrow> unit result" where
  "store_at p = (if p = 0 then Panic else Ok ())"

section \<open>External constants\<close>

definition sv_absent :: "s_value \<Rightarrow> bool" where
  "sv_absent v =
     (case v of
        SV_Null \<Rightarrow> False | SV_Int p \<Rightarrow> p = None | SV_Bool p \<Rightarrow> p = None | SV_Double p \<Rightarrow> p = None
      | SV_Tensor p \<Rightarrow> p = None | SV_String p \<Rightarrow> p = None | SV_IntList p \<Rightarrow> p = None
      | SV_DoubleList p \<Rightarrow> p = None | SV_BoolList p \<Rightarrow> p = None | SV_TensorList p \<Rightarrow> p = None
      | SV_OptionalTensorList p \<Rightarrow> p = None | SV_Other _ has_payload \<Rightarrow> \<not> has_payload)"

definition is_external_constant :: "s_tensor \<Rightarrow> bool" where
  "is_external_constant s \<longleftrightarrow> st_is_external s \<and> st_allocation_info s = None"

fun get_num_external_constants :: "s_value list \<Rightarrow> nat result" where
  "get_num_external_constants [] = Ok 0"
| "get_num_external_constants (v # rest) =
     (if sv_absent v then Err InvalidProgram
      else r_bind (get_num_external_constants rest) (\<lambda>n.
        case v of
          SV_Tensor (Some s) \<Rightarrow> Ok (if is_external_constant s then Suc n else n)
        | _ \<Rightarrow> Ok n))"

text \<open>The key that a data map is asked for: empty when the name is not UTF-8.\<close>

definition key_str :: "string \<Rightarrow> string" where
  "key_str key = (if valid_utf8 (c_string key) then c_string key else [])"

text \<open>
  One tensor of the loop: \<open>Inl\<close> is the error that the loop returns at once, with the constants
  resolved so far.
\<close>

definition resolve_constant ::
    "named_data_map \<Rightarrow> s_tensor \<Rightarrow> external_constant list \<Rightarrow> ((Error + unit) \<times> external_constant list) result" where
  "resolve_constant dm s external =
     s_bind (s_lift (present (st_fully_qualified_name s) InvalidExternalData) external) (\<lambda>key external.
       if get_data_by_key key external \<noteq> None then Ok (Inr (), external)
       else
         s_bind (s_lift (nm_get_tensor_layout dm (key_str key)) external) (\<lambda>layout external.
         r_bind (validate_tensor_layout s layout) (\<lambda>err.
           if err \<noteq> Error_Ok then Ok (Inl err, external)
           else case nm_get_data dm (key_str key) of
             Panic \<Rightarrow> Panic
           | Err _ \<Rightarrow> Ok (Inl InvalidExternalData, external)
           | Ok buffer \<Rightarrow>
               Ok (Inr (), external @ [\<lparr>xc_key = key, xc_buffer = fst (fb_from_move buffer)\<rparr>]))))"

fun external_loop ::
    "named_data_map \<Rightarrow> s_value list \<Rightarrow> external_constant list \<Rightarrow> ((Error + unit) \<times> external_constant list) result" where
  "external_loop dm [] external = Ok (Inr (), external)"
| "external_loop dm (v # rest) external =
     (case v of
        SV_Tensor tensor \<Rightarrow>
          r_bind (unwrap tensor) (\<lambda>s.
            if \<not> is_external_constant s then external_loop dm rest external
            else s_bind (resolve_constant dm s external) (\<lambda>_ external. external_loop dm rest external))
      | _ \<Rightarrow> external_loop dm rest external)"

definition parse_external_constants ::
    "named_data_map option \<Rightarrow> s_value list \<Rightarrow> 's values_state \<Rightarrow> (Error \<times> 's values_state) result" where
  "parse_external_constants data_map' flatbuffer_values vs =
     (case data_map' of
        None \<Rightarrow> Ok (InvalidState, vs)
      | Some dm \<Rightarrow>
          r_bind (external_loop dm flatbuffer_values []) (\<lambda>(res, external).
            Ok (case res of Inl err \<Rightarrow> err | Inr _ \<Rightarrow> Error_Ok, vs\<lparr>vs_external := external\<rparr>)))"

section \<open>Values\<close>

fun int_list_loop :: "usize \<Rightarrow> nat \<Rightarrow> int list \<Rightarrow> nat option list result" where
  "int_list_loop evalp_list n_value [] = Ok []"
| "int_list_loop evalp_list n_value (value_index # rest) =
     r_bind (ensure (valid_value_index value_index n_value) InvalidProgram) (\<lambda>_.
     r_bind (store_at evalp_list) (\<lambda>_.
     r_bind (int_list_loop evalp_list n_value rest) (\<lambda>ps. Ok (Some (as_usize value_index) # ps))))"

text \<open>A list value: an instance of the list's type is allocated, unchecked, written and wrapped.\<close>

definition wrap_list ::
    "'s parser_env \<Rightarrow> usize \<Rightarrow> ('a option \<Rightarrow> evalue result) \<Rightarrow> 'a \<Rightarrow> 's parse_state \<Rightarrow> ((Error + evalue) \<times> 's parse_state) result" where
  "wrap_list env size_of_list wrap items st =
     s_bind (unchecked_alloc (raw_instance env size_of_list 8 st)) (\<lambda>list_mem st.
     s_bind (s_lift (store_at list_mem) st) (\<lambda>_ st.
       s_lift (wrap (Some items)) st))"

definition parse_int_list ::
    "'s parser_env \<Rightarrow> nat \<Rightarrow> int list \<Rightarrow> 's parse_state \<Rightarrow> ((Error + evalue) \<times> 's parse_state) result" where
  "parse_int_list env n_value items st =
     s_bind (unchecked_alloc (raw_list env 8 (length items) 8 st)) (\<lambda>evalp_list st.
     s_bind (unchecked_alloc (raw_list env 8 (length items) 8 st)) (\<lambda>int_list st.
     s_bind (s_lift (int_list_loop evalp_list n_value items) st) (\<lambda>pointers st.
     s_bind (unchecked_alloc (raw_instance env 24 8 st)) (\<lambda>boxed_list_mem st.
     s_bind (s_lift (boxed_list_new evalp_list int_list pointers) st) (\<lambda>boxed st.
     s_bind (s_lift (store_at boxed_list_mem) st) (\<lambda>_ st.
       s_lift (from_int_list (Some boxed)) st))))))"

definition parse_value ::
    "'s parser_env \<Rightarrow> named_data_map option \<Rightarrow> external_constant list \<Rightarrow> evalue option list \<Rightarrow> s_value \<Rightarrow>
     's parse_state \<Rightarrow> ((Error + evalue) \<times> 's parse_state) result" where
  "parse_value env data_map' external values v st =
     (case v of
        SV_Null \<Rightarrow> Ok (Inr E_None, st)
      | SV_Int val \<Rightarrow> s_bind (s_lift (unwrap val) st) (\<lambda>i st. Ok (Inr (E_Int i), st))
      | SV_Double val \<Rightarrow> s_bind (s_lift (unwrap val) st) (\<lambda>d st. Ok (Inr (E_Double d), st))
      | SV_Bool val \<Rightarrow> s_bind (s_lift (unwrap val) st) (\<lambda>b st. Ok (Inr (E_Bool b), st))
      | SV_IntList val \<Rightarrow>
          s_bind (s_lift (unwrap val) st) (\<lambda>items st.
          s_bind (s_lift (present items InvalidProgram) st) (\<lambda>items st.
            parse_int_list env (length values) items st))
      | SV_BoolList val \<Rightarrow>
          s_bind (s_lift (unwrap val) st) (\<lambda>items st.
          s_bind (s_lift (present items InvalidProgram) st) (\<lambda>items st.
            wrap_list env 16 from_bool_list items st))
      | SV_DoubleList val \<Rightarrow>
          s_bind (s_lift (unwrap val) st) (\<lambda>items st.
          s_bind (s_lift (present items InvalidProgram) st) (\<lambda>items st.
            wrap_list env 16 from_double_list items st))
      | SV_String val \<Rightarrow>
          s_bind (s_lift (unwrap val) st) (\<lambda>fb_str st.
          s_bind (s_lift (present fb_str InvalidProgram) st) (\<lambda>fb_str st.
            wrap_list env 16 from_string fb_str st))
      | SV_Tensor val \<Rightarrow>
          s_bind (s_lift (unwrap val) st) (\<lambda>s_tensor st.
          s_bind (parse_tensor env s_tensor data_map' external st) (\<lambda>t st. Ok (Inr (E_Tensor t), st)))
      | SV_TensorList val \<Rightarrow>
          s_bind (s_lift (unwrap val) st) (\<lambda>items st.
          s_bind (s_lift (present items InvalidProgram) st) (\<lambda>items st.
          s_bind (parse_tensor_list env items values st) (\<lambda>tensors st.
            wrap_list env 24 from_tensor_list tensors st)))
      | SV_OptionalTensorList val \<Rightarrow>
          s_bind (s_lift (unwrap val) st) (\<lambda>items st.
          s_bind (s_lift (present items InvalidProgram) st) (\<lambda>items st.
          s_bind (parse_list_optional_type env try_to_tensor (pe_sizeof_optional_tensor env) items values st) (\<lambda>tensors st.
            wrap_list env 24 from_list_optional_tensor tensors st)))
      | SV_Other _ _ \<Rightarrow> Ok (Inl InvalidProgram, st))"

fun values_loop ::
    "'s parser_env \<Rightarrow> named_data_map option \<Rightarrow> nat \<Rightarrow> s_value list \<Rightarrow> 's values_state \<Rightarrow> ((Error + unit) \<times> 's values_state) result" where
  "values_loop env data_map' i [] vs = Ok (Inr (), vs)"
| "values_loop env data_map' i (v # rest) vs =
     s_bind (on_parse (parse_value env data_map' (vs_external vs) (vs_values vs) v) vs) (\<lambda>e vs.
       values_loop env data_map' (Suc i) rest
         (vs\<lparr>vs_values := (vs_values vs)[i := Some e], vs_n_value := i + 1\<rparr>))"

text \<open>The table and the flags, before the values are parsed.\<close>

definition allocate_tables ::
    "'s parser_env \<Rightarrow> nat \<Rightarrow> nat \<Rightarrow> 's values_state \<Rightarrow> ((Error + unit) \<times> 's values_state) result" where
  "allocate_tables env n_value n_input vs =
     s_bind (on_parse (\<lambda>st. checked_alloc (raw_list env (pe_sizeof_evalue env) n_value 8 st)) vs) (\<lambda>_ vs.
       let vs = vs\<lparr>vs_values := replicate n_value None\<rparr>
       in if 0 < n_input then
            s_bind (on_parse (\<lambda>st. checked_alloc (raw_list env 1 n_input 1 st)) vs) (\<lambda>_ vs.
              Ok (Inr (), vs\<lparr>vs_input_set := replicate n_input False\<rparr>))
          else Ok (Inr (), vs))"

definition parse_constants ::
    "'s parser_env \<Rightarrow> named_data_map option \<Rightarrow> s_value list \<Rightarrow> 's values_state \<Rightarrow> ((Error + unit) \<times> 's values_state) result" where
  "parse_constants env data_map' flatbuffer_values vs =
     s_bind (s_lift (get_num_external_constants flatbuffer_values) vs) (\<lambda>max_external_constants vs.
       if 0 < max_external_constants then
         s_bind (on_parse (\<lambda>st. checked_alloc (raw_list env (pe_sizeof_named_data env) max_external_constants 8 st)) vs) (\<lambda>_ vs.
         r_bind (parse_external_constants data_map' flatbuffer_values vs) (\<lambda>(err, vs).
           Ok (if err \<noteq> Error_Ok then Inl err else Inr (), vs)))
       else Ok (Inr (), vs))"

definition parse_values ::
    "'s parser_env \<Rightarrow> named_data_map option \<Rightarrow> s_plan \<Rightarrow> 's values_state \<Rightarrow> ((Error + unit) \<times> 's values_state) result" where
  "parse_values env data_map' plan vs =
     s_bind (s_lift (present (sp_values plan) InvalidProgram) vs) (\<lambda>flatbuffer_values vs.
     s_bind (allocate_tables env (length flatbuffer_values)
               (case sp_inputs plan of None \<Rightarrow> 0 | Some inputs \<Rightarrow> length inputs) vs) (\<lambda>_ vs.
     s_bind (parse_constants env data_map' flatbuffer_values vs) (\<lambda>_ vs.
       values_loop env data_map' 0 flatbuffer_values (vs\<lparr>vs_n_value := 0\<rparr>))))"

text \<open>What the destructor of the method cleans up: it destroys the counted slots and frees the constants.\<close>

definition drop_values :: "'s values_state \<Rightarrow> free_call list result" where
  "drop_values vs =
     (if list_all (\<lambda>slot. slot \<noteq> None) (take (vs_n_value vs) (vs_values vs))
      then Ok (concat (map (\<lambda>c. fst (fb_free (xc_buffer c))) (vs_external vs)))
      else Panic)"

section \<open>Postconditions\<close>

definition s_post ::
    "('a \<Rightarrow> 's \<Rightarrow> bool) \<Rightarrow> ('s \<Rightarrow> bool) \<Rightarrow> ((Error + 'a) \<times> 's) result \<Rightarrow> bool" where
  "s_post Q E m \<longleftrightarrow> ok_post (\<lambda>(res, s). case res of Inl _ \<Rightarrow> E s | Inr x \<Rightarrow> Q x s) m"

lemma s_post_simps [simp]:
  "s_post Q E (Ok (Inr x, s)) = Q x s" "s_post Q E (Ok (Inl e, s)) = E s" "s_post Q E Panic" "s_post Q E (Err e)"
  by (simp_all add: s_post_def)

lemma s_post_bind [simp]: "s_post Q E (s_bind m f) = s_post (\<lambda>x s. s_post Q E (f x s)) E m"
  by (cases m) (auto simp: s_post_def s_bind_def split: sum.splits prod.splits)

lemma s_post_lift [simp]: "s_post Q E (s_lift m s) \<longleftrightarrow> (\<forall>x. m = Ok x \<longrightarrow> Q x s) \<and> ((\<exists>e. m = Err e) \<longrightarrow> E s)"
  by (cases m) auto

lemma s_post_mono:
  "s_post Q E m \<Longrightarrow> (\<And>x s. Q x s \<Longrightarrow> Q' x s) \<Longrightarrow> (\<And>s. E s \<Longrightarrow> E' s) \<Longrightarrow> s_post Q' E' m"
  by (cases m) (auto simp: s_post_def split: sum.splits prod.splits)

lemma s_postD: "s_post Q E m \<Longrightarrow> m = Ok (Inr x, s) \<Longrightarrow> Q x s"
  by simp

lemma s_post_on_parse: "s_post (\<lambda>x st. Q x (vs\<lparr>vs_parse := st\<rparr>)) (\<lambda>st. E (vs\<lparr>vs_parse := st\<rparr>)) (f (vs_parse vs)) \<Longrightarrow>
  s_post Q E (on_parse f vs)"
  by (cases "f (vs_parse vs)") (auto simp: on_parse_def s_post_def)

lemma s_post_alloc [simp]:
  "s_post (\<lambda>p st'. Q p st') E (checked_alloc m) \<longleftrightarrow> (\<forall>p st. m = Ok (p, st) \<longrightarrow> (if p = 0 then E st else Q p st))"
  "s_post (\<lambda>p st'. Q p st') E (unchecked_alloc m) \<longleftrightarrow> (\<forall>p st. m = Ok (p, st) \<longrightarrow> Q p st)"
  by (cases m; auto simp: checked_alloc_def unchecked_alloc_def)+

lemma s_post_r_bind: "s_post Q E (r_bind m f) \<longleftrightarrow> (\<forall>x. m = Ok x \<longrightarrow> s_post Q E (f x))"
  by (cases m) simp_all

lemma store_at_Ok [simp]: "store_at p = Ok u \<longleftrightarrow> p \<noteq> 0"
  by (simp add: store_at_def)

section \<open>What the values are\<close>

text \<open>
  A list of indices as a boxed list: pointers into the table, all of them for a list of fewer than
  \<open>2 ^ 31\<close> elements (the constructor takes the length as an \<^verbatim>\<open>i32\<close>).
\<close>

definition points_to :: "nat \<Rightarrow> int list \<Rightarrow> nat option list \<Rightarrow> bool" where
  "points_to n items ps \<longleftrightarrow> (\<forall>x \<in> set ps. \<exists>j < n. x = Some j) \<and> (length items < 2 ^ 31 \<longrightarrow> ps = map (Some \<circ> as_usize) items)"

definition points_to_optional :: "nat \<Rightarrow> int list \<Rightarrow> nat option list \<Rightarrow> bool" where
  "points_to_optional n items ps \<longleftrightarrow>
     (\<forall>x \<in> set ps. x = None \<or> (\<exists>j < n. x = Some j)) \<and>
     (length items < 2 ^ 31 \<longrightarrow> ps = map (\<lambda>i. if i = -1 then None else Some (as_usize i)) items)"

text \<open>The value of a serialized value, in a table of \<open>n\<close> values with \<open>k\<close> tensors.\<close>

fun value_of :: "nat \<Rightarrow> nat \<Rightarrow> s_value \<Rightarrow> evalue \<Rightarrow> bool" where
  "value_of n k SV_Null e = (e = E_None)"
| "value_of n k (SV_Int p) e = (\<exists>i. p = Some i \<and> e = E_Int i)"
| "value_of n k (SV_Double p) e = (\<exists>d. p = Some d \<and> e = E_Double d)"
| "value_of n k (SV_Bool p) e = (\<exists>b. p = Some b \<and> e = E_Bool b)"
| "value_of n k (SV_String p) e = (\<exists>str. p = Some (Some str) \<and> e = E_String (Some str))"
| "value_of n k (SV_BoolList p) e = (\<exists>xs. p = Some (Some xs) \<and> e = E_ListBool (Some xs))"
| "value_of n k (SV_DoubleList p) e = (\<exists>xs. p = Some (Some xs) \<and> e = E_ListDouble (Some xs))"
| "value_of n k (SV_IntList p) e = (\<exists>items ps. p = Some (Some items) \<and> e = E_ListInt (Some ps) \<and> points_to n items ps)"
| "value_of n k (SV_Tensor p) e = (\<exists>s t. p = Some s \<and> e = E_Tensor t \<and> t < k)"
| "value_of n k (SV_TensorList p) e = (\<exists>items ps. p = Some (Some items) \<and> e = E_ListTensor (Some ps) \<and> points_to n items ps)"
| "value_of n k (SV_OptionalTensorList p) e =
     (\<exists>items ps. p = Some (Some items) \<and> e = E_ListOptionalTensor (Some ps) \<and> points_to_optional n items ps)"
| "value_of n k (SV_Other _ _) e = False"

lemma value_of_mono: "value_of n k v e \<Longrightarrow> k \<le> k' \<Longrightarrow> value_of n k' v e"
  by (cases v) auto

lemma valid_value_indexD: "valid_value_index i n \<Longrightarrow> as_usize i < n"
  by (simp add: valid_value_index_def)

lemma int_list_loop_Ok: "int_list_loop p n items = Ok ps \<Longrightarrow> ps = map (Some \<circ> as_usize) items \<and> (\<forall>i \<in> set items. as_usize i < n)"
  by (induction items arbitrary: ps) (auto simp: r_bind_Ok_iff dest: valid_value_indexD)

lemma tensor_list_loop_Ok:
  "tensor_list_loop items values = Ok ps \<Longrightarrow> ps = map (Some \<circ> as_usize) items \<and> (\<forall>i \<in> set items. as_usize i < length values)"
  by (induction items arbitrary: ps) (auto simp: r_bind_Ok_iff dest: valid_value_indexD)

lemma list_optional_loop_Ok:
  "list_optional_loop conv items values = Ok ps \<Longrightarrow>
   ps = map (\<lambda>i. if i = -1 then None else Some (as_usize i)) items \<and>
   (\<forall>i \<in> set items. i = -1 \<or> as_usize i < length values)"
  by (induction items arbitrary: ps) (auto simp: r_bind_Ok_iff dest: valid_value_indexD split: if_splits)

lemma boxed_list_new_Ok:
  assumes "boxed_list_new p q ps = Ok boxed"
  shows "set boxed \<subseteq> set ps" and "length ps < 2 ^ 31 \<Longrightarrow> boxed = ps"
proof -
  have b: "boxed = take (as_usize (wrap_i32 (int (length ps)))) ps"
    using assms by (auto simp: boxed_list_new_def split: if_splits)
  show "set boxed \<subseteq> set ps" unfolding b by (rule set_take_subset)
  show "boxed = ps" if "length ps < 2 ^ 31"
  proof -
    have "int (length ps) < 2 ^ 31" using that by simp
    then show ?thesis unfolding b by (simp add: wrap_i32_def as_usize_def)
  qed
qed

lemma boxed_points_to:
  "boxed_list_new p q ps = Ok boxed \<Longrightarrow> ps = map (Some \<circ> as_usize) items \<and> (\<forall>i \<in> set items. as_usize i < n) \<Longrightarrow> points_to n items boxed"
  using boxed_list_new_Ok [of p q ps boxed] by (fastforce simp: points_to_def)

lemma boxed_points_to_optional:
  "boxed_list_new p q ps = Ok boxed \<Longrightarrow>
   ps = map (\<lambda>i. if i = -1 then None else Some (as_usize i)) items \<and>
   (\<forall>i \<in> set items. i = -1 \<or> as_usize i < n) \<Longrightarrow> points_to_optional n items boxed"
  using boxed_list_new_Ok [of p q ps boxed] by (fastforce simp: points_to_optional_def)

lemma wrap_list_post:
  assumes "\<And>x. wrap (Some items) = Ok x \<Longrightarrow> Q x"
  shows "s_post (\<lambda>e st'. Q e \<and> ps_tensors st' = ps_tensors st) (\<lambda>st'. ps_tensors st' = ps_tensors st) (wrap_list env n wrap items st)"
  using assms by (auto simp: wrap_list_def dest: alloc_tensors)

lemma parse_tensor_appends:
  "s_post (\<lambda>t st'. t < length (ps_tensors st') \<and> (\<exists>new. ps_tensors st' = ps_tensors st @ new))
     (\<lambda>st'. ps_tensors st' = ps_tensors st) (parse_tensor env s dm ext st)"
  by (auto simp: parse_tensor_def dest!: alloc_tensors)

lemma parse_value_post:
  "s_post (\<lambda>e st'. value_of (length values) (length (ps_tensors st')) v e \<and> length (ps_tensors st) \<le> length (ps_tensors st'))
     (\<lambda>st'. length (ps_tensors st) \<le> length (ps_tensors st')) (parse_value env dm ext values v st)"
proof (cases v)
  case (SV_Tensor p)
  show ?thesis unfolding SV_Tensor parse_value_def
    using parse_tensor_appends [of st env _ dm ext]
    by (auto simp: unwrap_def split: option.splits intro!: s_post_mono [OF parse_tensor_appends])
next
  case (SV_IntList p)
  show ?thesis unfolding SV_IntList parse_value_def
    by (auto simp: parse_int_list_def from_int_list_def dest!: alloc_tensors dest: boxed_points_to int_list_loop_Ok)
next
  case (SV_TensorList p)
  show ?thesis unfolding SV_TensorList parse_value_def
    by (auto simp: parse_tensor_list_def from_tensor_list_def wrap_list_def dest!: alloc_tensors
        dest: boxed_points_to tensor_list_loop_Ok)
next
  case (SV_OptionalTensorList p)
  show ?thesis unfolding SV_OptionalTensorList parse_value_def
    by (auto simp: parse_list_optional_type_def from_list_optional_tensor_def wrap_list_def dest!: alloc_tensors
        dest: boxed_points_to_optional list_optional_loop_Ok)
qed (auto simp: parse_value_def wrap_list_def from_bool_list_def from_double_list_def from_string_def dest!: alloc_tensors)

section \<open>The table\<close>

text \<open>The first \<open>i\<close> slots hold the values of the serialized table, the others were not written.\<close>

definition table_filled :: "s_value list \<Rightarrow> nat \<Rightarrow> 's values_state \<Rightarrow> bool" where
  "table_filled fv i vs \<longleftrightarrow>
     i \<le> length fv \<and> vs_n_value vs = i \<and> length (vs_values vs) = length fv \<and>
     (\<forall>j < i. \<exists>e. vs_values vs ! j = Some e \<and> value_of (length fv) (length (ps_tensors (vs_parse vs))) (fv ! j) e) \<and>
     (\<forall>j < length fv. i \<le> j \<longrightarrow> vs_values vs ! j = None)"

lemma table_filled_grow:
  "table_filled fv i vs \<Longrightarrow> length (ps_tensors (vs_parse vs)) \<le> length (ps_tensors st) \<Longrightarrow> table_filled fv i (vs\<lparr>vs_parse := st\<rparr>)"
  unfolding table_filled_def by simp (blast intro: value_of_mono)

lemma table_filled_step:
  assumes "table_filled fv i vs" and "i < length fv"
    and "value_of (length fv) (length (ps_tensors st)) (fv ! i) e"
    and "length (ps_tensors (vs_parse vs)) \<le> length (ps_tensors st)"
  shows "table_filled fv (Suc i) (vs\<lparr>vs_parse := st, vs_values := (vs_values vs)[i := Some e], vs_n_value := i + 1\<rparr>)"
  using table_filled_grow [OF assms(1,4)] assms(2,3) by (auto simp: table_filled_def nth_list_update less_Suc_eq)

definition same_surroundings :: "'s values_state \<Rightarrow> 's values_state \<Rightarrow> bool" where
  "same_surroundings vs vs' \<longleftrightarrow> vs_input_set vs' = vs_input_set vs \<and> vs_external vs' = vs_external vs"

lemma values_loop_post:
  assumes "table_filled fv i vs" and "rest = drop i fv"
  shows "s_post (\<lambda>_ vs'. table_filled fv (length fv) vs' \<and> same_surroundings vs vs')
    (\<lambda>vs'. (\<exists>k. table_filled fv k vs') \<and> same_surroundings vs vs') (values_loop env dm i rest vs)"
  using assms
proof (induction rest arbitrary: i vs)
  case Nil
  then have "i = length fv" by (simp add: table_filled_def)
  then show ?case using Nil by (simp add: same_surroundings_def)
next
  case (Cons v rest)
  have i: "i < length fv" "v = fv ! i" "rest = drop (Suc i) fv"
    using Cons.prems(2) by (metis drop_all leI list.distinct(1), metis Cons_nth_drop_Suc drop_all leI list.distinct(1) list.inject,
        metis Cons_nth_drop_Suc drop_all leI list.distinct(1) list.inject)
  have len: "length (vs_values vs) = length fv" using Cons.prems(1) by (simp add: table_filled_def)
  let ?put = "\<lambda>e st. vs\<lparr>vs_parse := st, vs_values := (vs_values vs)[i := Some e], vs_n_value := i + 1\<rparr>"
  have next': "s_post (\<lambda>_ vs'. table_filled fv (length fv) vs' \<and> same_surroundings vs vs')
      (\<lambda>vs'. (\<exists>k. table_filled fv k vs') \<and> same_surroundings vs vs') (values_loop env dm (Suc i) rest (?put e st))"
    if "value_of (length (vs_values vs)) (length (ps_tensors st)) v e \<and> length (ps_tensors (vs_parse vs)) \<le> length (ps_tensors st)" for e st
    using Cons.IH [OF table_filled_step [OF Cons.prems(1) i(1)], of st e] that i len
    by (auto simp: same_surroundings_def)
  show ?case
    unfolding values_loop.simps s_post_bind
    by (rule s_post_on_parse, rule s_post_mono [OF parse_value_post])
      (use next' table_filled_grow [OF Cons.prems(1)] in \<open>auto simp: same_surroundings_def\<close>)
qed

subsection \<open>The tensors of the table\<close>

definition tensors_ok :: "'s parse_state \<Rightarrow> bool" where
  "tensors_ok st \<longleftrightarrow> (\<forall>t \<in> set (ps_tensors st). tensor_inv t)"

lemma parse_tensor_keeps_inv:
  assumes "pe_overflow_checks env \<or> tensor_valid s" and "tensors_ok st"
  shows "s_post (\<lambda>_ st'. tensors_ok st') tensors_ok (parse_tensor env s dm ext st)"
proof (cases "\<exists>t st'. parse_tensor env s dm ext st = Ok (Inr t, st')")
  case False
  have "s_post (\<lambda>_ _. True) (\<lambda>st'. ps_tensors st' = ps_tensors st) (parse_tensor env s dm ext st)"
    by (rule s_post_mono [OF parse_tensor_appends]) simp_all
  then show ?thesis using assms(2) False
    by (cases "parse_tensor env s dm ext st") (auto simp: s_post_def tensors_ok_def split: sum.splits prod.splits)
next
  case True
  then obtain tid st' where p: "parse_tensor env s dm ext st = Ok (Inr tid, st')" by blast
  then obtain ty dyn sizes d strides dt di t nbytes p where shape: "parse_shape s = Ok (ty, dyn, sizes, d)"
    and nonneg: "\<forall>x \<in> set sizes. 0 \<le> x" and strides: "parse_strides (pe_overflow_checks env) sizes d = Ok strides"
    and new: "tensor_new (pe_overflow_checks env) ty (int (length sizes)) (Some sizes) 0 (Some d) (Some strides) dyn dt di = Ok t"
    and nb: "tensor_nbytes (pe_overflow_checks env) t = Ok nbytes" and out: "ps_tensors st' = ps_tensors st @ [tensor_set_data p t]"
    by (rule parse_tensorE)
  obtain sz: "st_sizes s = Some sizes" and len: "length d = length sizes" and ty: "static_cast_scalar_type (st_scalar_type s) = Ok ty"
    using shape by (rule parse_shapeE)
  note strides_len = parse_strides_OkD(1) [OF strides len nonneg]
  have "numel_fits sizes" using parsed_nbytes_exact [OF assms(1) sz ty new len strides_len nb] by blast
  then show ?thesis using p out assms(2) tensor_new_exact(2) [OF new _ len strides_len]
    by (auto simp: tensors_ok_def)
qed

lemma same_tensors_ok: "ps_tensors st' = ps_tensors st \<Longrightarrow> tensors_ok st' = tensors_ok st"
  by (simp add: tensors_ok_def)

lemma alloc_tensors_ok:
  "raw_list env t n a st = Ok (p, st') \<Longrightarrow> tensors_ok st' = tensors_ok st"
  "raw_instance env t a st = Ok (p, st') \<Longrightarrow> tensors_ok st' = tensors_ok st"
  by (erule same_tensors_ok [OF raw_list_tensors], erule same_tensors_ok [OF raw_instance_tensors])

definition values_valid :: "'s parser_env \<Rightarrow> s_value list \<Rightarrow> bool" where
  "values_valid env fv \<longleftrightarrow> pe_overflow_checks env \<or> (\<forall>s. SV_Tensor (Some s) \<in> set fv \<longrightarrow> tensor_valid s)"

lemma parse_value_keeps_inv:
  assumes "values_valid env (v # rest)" and "tensors_ok st"
  shows "s_post (\<lambda>_ st'. tensors_ok st') tensors_ok (parse_value env dm ext values v st)"
proof (cases v)
  case (SV_Tensor p)
  show ?thesis unfolding SV_Tensor parse_value_def
    using assms by (auto simp: unwrap_def values_valid_def SV_Tensor split: option.splits
        intro!: s_post_mono [OF parse_tensor_keeps_inv])
qed (use assms(2) in \<open>auto simp: parse_value_def wrap_list_def parse_int_list_def parse_tensor_list_def
      parse_list_optional_type_def dest!: alloc_tensors_ok\<close>)

lemma values_loop_keeps_inv:
  assumes "values_valid env rest" and "tensors_ok (vs_parse vs)"
  shows "s_post (\<lambda>_ vs'. tensors_ok (vs_parse vs')) (\<lambda>vs'. tensors_ok (vs_parse vs')) (values_loop env dm i rest vs)"
  using assms
proof (induction rest arbitrary: i vs)
  case Nil
  then show ?case by simp
next
  case (Cons v rest)
  have rest: "values_valid env rest" using Cons.prems(1) by (auto simp: values_valid_def)
  show ?case
    unfolding values_loop.simps s_post_bind
    by (rule s_post_on_parse, rule s_post_mono [OF parse_value_keeps_inv [OF Cons.prems]])
      (simp_all add: Cons.IH [OF rest])
qed

subsection \<open>The whole of parse_values\<close>

lemma allocate_tables_post:
  assumes "vs_n_value vs = 0" and "tensors_ok (vs_parse vs)"
  shows "s_post (\<lambda>_ vs'. vs_n_value vs' = 0 \<and> tensors_ok (vs_parse vs') \<and> vs_values vs' = replicate n None \<and>
      vs_input_set vs' = (if 0 < n_input then replicate n_input False else vs_input_set vs) \<and> vs_external vs' = vs_external vs)
    (\<lambda>vs'. vs_n_value vs' = 0) (allocate_tables env n n_input vs)"
  unfolding allocate_tables_def s_post_bind Let_def
  by (rule s_post_on_parse)
    (use assms in \<open>auto simp: Let_def dest!: alloc_tensors_ok intro!: s_post_on_parse\<close>)

lemma parse_constants_post:
  assumes "tensors_ok (vs_parse vs)"
  shows "s_post (\<lambda>_ vs'. vs_n_value vs' = vs_n_value vs \<and> tensors_ok (vs_parse vs') \<and> vs_values vs' = vs_values vs \<and>
      vs_input_set vs' = vs_input_set vs)
    (\<lambda>vs'. vs_n_value vs' = vs_n_value vs) (parse_constants env dm fv vs)"
  unfolding parse_constants_def s_post_bind
  by (auto simp: assms intro!: s_post_on_parse dest!: alloc_tensors_ok)
    (auto simp: s_post_def parse_external_constants_def r_bind_Ok_iff assms split: option.splits prod.splits sum.splits if_splits intro!: ok_postI)

definition inputs_of :: "s_plan \<Rightarrow> nat" where
  "inputs_of plan = (case sp_inputs plan of None \<Rightarrow> 0 | Some inputs \<Rightarrow> length inputs)"

lemma table_filled_droppable: "table_filled fv k vs \<Longrightarrow> drop_values vs \<noteq> Panic"
  by (auto simp: table_filled_def drop_values_def list_all_length)

lemma parse_values_post:
  assumes tbl: "sp_values plan = Some fv" and fresh: "vs_n_value vs = 0" "ps_tensors (vs_parse vs) = []"
  shows "s_post (\<lambda>_ vs'. table_filled fv (length fv) vs' \<and> (values_valid env fv \<longrightarrow> tensors_ok (vs_parse vs')) \<and>
      vs_input_set vs' = (if 0 < inputs_of plan then replicate (inputs_of plan) False else vs_input_set vs))
    (\<lambda>vs'. drop_values vs' \<noteq> Panic) (parse_values env dm plan vs)"
proof -
  let ?flags = "\<lambda>vs'. vs_input_set vs' = (if 0 < inputs_of plan then replicate (inputs_of plan) False else vs_input_set vs)"
  let ?done = "\<lambda>vs'. table_filled fv (length fv) vs' \<and> (values_valid env fv \<longrightarrow> tensors_ok (vs_parse vs')) \<and> ?flags vs'"
  let ?safe = "\<lambda>vs'. drop_values vs' \<noteq> Panic"
  have ok0: "tensors_ok (vs_parse vs)" using fresh(2) by (simp add: tensors_ok_def)
  have loop: "s_post (\<lambda>_. ?done) ?safe (values_loop env dm 0 fv ws)"
    if "vs_n_value ws = 0" "tensors_ok (vs_parse ws)" "vs_values ws = replicate (length fv) None" "?flags ws" for ws
  proof -
    have "table_filled fv 0 ws" using that by (simp add: table_filled_def)
    from values_loop_post [OF this, of fv env dm] values_loop_keeps_inv [OF _ that(2), of env fv dm 0]
    show ?thesis using that(4) table_filled_droppable
      by (cases "values_loop env dm 0 fv ws"; cases "values_valid env fv")
        (auto simp: s_post_def same_surroundings_def split: sum.splits prod.splits)
  qed
  have constants: "s_post (\<lambda>_. ?done) ?safe (s_bind (parse_constants env dm fv ws) (\<lambda>_ vs.
      values_loop env dm 0 fv (vs\<lparr>vs_n_value := 0\<rparr>)))"
    if "vs_n_value ws = 0" "tensors_ok (vs_parse ws)" "vs_values ws = replicate (length fv) None" "?flags ws" for ws
    unfolding s_post_bind
    by (rule s_post_mono [OF parse_constants_post [OF that(2)]], rule loop) (use that in \<open>auto simp: drop_values_def\<close>)
  show ?thesis
    unfolding parse_values_def tbl present_def option.case s_lift_simps s_bind_simps inputs_of_def [symmetric]
    by (subst s_post_bind, rule s_post_mono [OF allocate_tables_post [OF fresh(1) ok0]], rule constants)
      (auto simp: drop_values_def)
qed

text \<open>
  C27. After \<^verbatim>\<open>parse_values\<close> succeeds the values table is complete: every slot holds the value that the
  serialized value describes, lists point into the table and tensors are handles of tensors that keep
  their invariant (with overflow checks or validated tensors), and every input is marked as not set.
  Whatever it returns, the destructor of the method only visits slots that were written.
\<close>

theorem values_table_complete:
  assumes tbl: "sp_values plan = Some fv"
    and parse: "parse_values env dm plan vs = Ok (res, vs')"
    and fresh: "vs_n_value vs = 0" "ps_tensors (vs_parse vs) = []" and valid: "values_valid env fv"
  shows "drop_values vs' \<noteq> Panic \<and>
    (res = Inr () \<longrightarrow>
      length (vs_values vs') = length fv \<and> vs_n_value vs' = length fv \<and>
      (\<forall>i < length fv. \<exists>e. vs_values vs' ! i = Some e \<and>
        value_of (length fv) (length (ps_tensors (vs_parse vs'))) (fv ! i) e) \<and>
      (\<forall>t \<in> set (ps_tensors (vs_parse vs')). tensor_inv t) \<and>
      (\<forall>inputs. sp_inputs plan = Some inputs \<and> inputs \<noteq> [] \<longrightarrow> vs_input_set vs' = replicate (length inputs) False))"
  using s_postD [OF parse_values_post [OF tbl fresh], of env dm "()" vs'] parse_values_post [OF tbl fresh, of env dm] parse valid
    table_filled_droppable [of fv "length fv" vs']
  by (cases res) (simp_all add: table_filled_def tensors_ok_def inputs_of_def)

section \<open>External constants are resolved\<close>

abbreviation xc_names :: "external_constant list \<Rightarrow> string list" where
  "xc_names ext \<equiv> map (c_string \<circ> xc_key) ext"

lemma get_data_by_key_None: "get_data_by_key key ext = None \<longleftrightarrow> c_string key \<notin> set (xc_names ext)"
  by (induction ext) auto

lemma get_data_by_key_Some: "get_data_by_key key ext = Some c \<Longrightarrow> c \<in> set ext \<and> c_string (xc_key c) = c_string key"
  by (induction ext) (auto split: if_splits)

text \<open>A constant as it was taken from the data map.\<close>

definition from_map :: "named_data_map \<Rightarrow> external_constant \<Rightarrow> bool" where
  "from_map dm c \<longleftrightarrow> (\<exists>b. nm_get_data dm (key_str (xc_key c)) = Ok b \<and> xc_buffer c = fst (fb_from_move b))"

lemma resolve_constant_post:
  "s_post (\<lambda>_ ext'. \<exists>key. st_fully_qualified_name s = Some key \<and>
      (if c_string key \<in> set (xc_names ext) then ext' = ext
       else \<exists>c. ext' = ext @ [c] \<and> xc_key c = key \<and> from_map dm c))
    (\<lambda>ext'. ext' = ext) (resolve_constant dm s ext)"
  unfolding resolve_constant_def
  by (auto simp: get_data_by_key_None from_map_def s_post_r_bind split: outcome.splits)

lemma external_loop_post:
  assumes "get_num_external_constants fv = Ok n"
  shows "s_post (\<lambda>_ ext'. \<exists>new. ext' = ext @ new \<and> length new \<le> n \<and> (distinct (xc_names ext) \<longrightarrow> distinct (xc_names ext')) \<and>
        (\<forall>c \<in> set new. from_map dm c) \<and>
        (\<forall>s. SV_Tensor (Some s) \<in> set fv \<and> is_external_constant s \<longrightarrow>
          (\<exists>key. st_fully_qualified_name s = Some key \<and> c_string key \<in> set (xc_names ext'))))
      (\<lambda>ext'. \<exists>new. ext' = ext @ new \<and> length new \<le> n \<and> (distinct (xc_names ext) \<longrightarrow> distinct (xc_names ext')) \<and>
        (\<forall>c \<in> set new. from_map dm c))
    (external_loop dm fv ext)"
  using assms
proof (induction fv arbitrary: n ext)
  case Nil
  then show ?case by simp
next
  case (Cons v rest)
  show ?case
  proof (cases "\<exists>s. v = SV_Tensor (Some s) \<and> is_external_constant s")
    case False
    then have n: "get_num_external_constants rest = Ok n" and ext: "external_loop dm (v # rest) ext = external_loop dm rest ext"
      using Cons.prems by (cases v; auto simp: r_bind_Ok_iff sv_absent_def unwrap_def split: option.splits if_splits)+
    show ?thesis unfolding ext by (rule s_post_mono [OF Cons.IH [OF n]]) (use False in auto)
  next
    case True
    then obtain s m where v: "v = SV_Tensor (Some s)" "is_external_constant s"
      and m: "get_num_external_constants rest = Ok m" "n = Suc m"
      using Cons.prems by (auto simp: r_bind_Ok_iff split: if_splits)
    let ?E = "\<lambda>ext'. \<exists>new. ext' = ext @ new \<and> length new \<le> n \<and> (distinct (xc_names ext) \<longrightarrow> distinct (xc_names ext')) \<and>
        (\<forall>c \<in> set new. from_map dm c)"
    let ?Q = "\<lambda>ext'. ?E ext' \<and> (\<forall>s. SV_Tensor (Some s) \<in> set (v # rest) \<and> is_external_constant s \<longrightarrow>
          (\<exists>key. st_fully_qualified_name s = Some key \<and> c_string key \<in> set (xc_names ext')))"
    have step: "s_post (\<lambda>_. ?Q) ?E (external_loop dm rest ext1)"
      if key: "st_fully_qualified_name s = Some key" and
        ext1: "if c_string key \<in> set (xc_names ext) then ext1 = ext else \<exists>c. ext1 = ext @ [c] \<and> xc_key c = key \<and> from_map dm c"
      for key ext1
    proof -
      obtain fresh where f: "ext1 = ext @ fresh" "length fresh \<le> 1" "\<forall>c \<in> set fresh. from_map dm c"
        "distinct (xc_names ext) \<longrightarrow> distinct (xc_names ext1)" "c_string key \<in> set (xc_names ext1)"
      proof (cases "c_string key \<in> set (xc_names ext)")
        case True
        then show ?thesis using ext1 by (intro that [of "[]"]) simp_all
      next
        case False
        then obtain c where "ext1 = ext @ [c]" "xc_key c = key" "from_map dm c" using ext1 by (simp only: if_False) blast
        then show ?thesis using False by (intro that [of "[c]"]) auto
      qed
      have E: "?E ext'" if new: "\<exists>new. ext' = ext1 @ new \<and> length new \<le> m \<and> (distinct (xc_names ext1) \<longrightarrow> distinct (xc_names ext')) \<and>
          (\<forall>c \<in> set new. from_map dm c)" for ext'
      proof -
        obtain new where "ext' = ext1 @ new" "length new \<le> m" "distinct (xc_names ext1) \<longrightarrow> distinct (xc_names ext')"
          "\<forall>c \<in> set new. from_map dm c" using new by blast
        then show ?thesis using f m(2) by (intro exI [of _ "fresh @ new"]) auto
      qed
      have mono: "c_string key \<in> set (xc_names ext')" if "\<exists>new. ext' = ext1 @ new \<and> R new" for ext' R
        using that f(5) by auto
      have Q: "?Q ext'"
        if new: "\<exists>new. ext' = ext1 @ new \<and> length new \<le> m \<and> (distinct (xc_names ext1) \<longrightarrow> distinct (xc_names ext')) \<and>
            (\<forall>c \<in> set new. from_map dm c) \<and>
            (\<forall>s. SV_Tensor (Some s) \<in> set rest \<and> is_external_constant s \<longrightarrow>
              (\<exists>key. st_fully_qualified_name s = Some key \<and> c_string key \<in> set (xc_names ext')))" for ext'
        using new E [of ext'] mono [OF new] key v(1) by (simp only: set_simps insert_iff s_value.inject option.inject) blast
      show ?thesis by (rule s_post_mono [OF Cons.IH [OF m(1), of ext1]]) (fact Q, fact E)
    qed
    have "s_post (\<lambda>_. ?Q) ?E (s_bind (resolve_constant dm s ext) (\<lambda>_ ext. external_loop dm rest ext))"
      unfolding s_post_bind
      by (rule s_post_mono [OF resolve_constant_post], elim exE conjE, rule step, assumption+, simp)
    then have all: "s_post (\<lambda>_. ?Q) ?E (s_bind (resolve_constant dm s ext) (\<lambda>_. external_loop dm rest))" .
    have loop: "external_loop dm (v # rest) ext = s_bind (resolve_constant dm s ext) (\<lambda>_ ext. external_loop dm rest ext)"
      by (simp add: v unwrap_def)
    show ?thesis unfolding loop by (rule s_post_mono [OF all]) blast+
  qed
qed

lemma s_bind_Inl:
  "s_bind m f = Ok (Inl e, s') \<longleftrightarrow> m = Ok (Inl e, s') \<or> (\<exists>x s. m = Ok (Inr x, s) \<and> f x s = Ok (Inl e, s'))"
  by (cases m) (auto simp: s_bind_def split: sum.splits prod.splits)

lemma s_lift_Inl: "s_lift m s = Ok (Inl e, s') \<longleftrightarrow> m = Err e \<and> s' = s"
  by (cases m) auto

lemma external_loop_error:
  assumes "\<forall>k. nm_get_tensor_layout dm k \<noteq> Err Error_Ok"
  shows "external_loop dm fv ext \<noteq> Ok (Inl Error_Ok, ext')"
proof -
  have one: "resolve_constant dm s ext \<noteq> Ok (Inl Error_Ok, ext')" for s ext ext'
    using assms
    by (auto simp: resolve_constant_def s_bind_Inl s_lift_Inl s_lift_Inr present_def r_bind_Ok_iff split: outcome.splits option.splits if_splits)
  show ?thesis
    using one by (induction dm fv ext rule: external_loop.induct)
      (auto simp: r_bind_Ok_iff s_bind_Inl split: s_value.splits if_splits)
qed

text \<open>
  C28. External constants are found once and fit their array. The array is allocated for the number of
  external constant tensors, the loop never stores more than that, each key once and each with the
  buffer that the data map returned for it; and when it succeeds every external constant tensor of
  the table finds its data, so that the \<^verbatim>\<open>Internal\<close> error of \<^verbatim>\<open>get_tensor_data_ptr\<close>, marked as never
  reached, is never reached.
\<close>

theorem external_constants_resolved:
  assumes count: "get_num_external_constants fv = Ok n"
    and parse: "parse_external_constants (Some dm) fv vs = Ok (err, vs')"
    and no_ok: "\<forall>k. nm_get_tensor_layout dm k \<noteq> Err Error_Ok"
  shows "length (vs_external vs') \<le> n \<and> distinct (xc_names (vs_external vs')) \<and>
    (\<forall>c \<in> set (vs_external vs'). from_map dm c) \<and>
    (err = Error_Ok \<longrightarrow> (\<forall>s. SV_Tensor (Some s) \<in> set fv \<and> is_external_constant s \<longrightarrow>
      (\<exists>c key. c \<in> set (vs_external vs') \<and> st_fully_qualified_name s = Some key \<and> c_string (xc_key c) = c_string key \<and>
        get_tensor_data_ptr oc ft s pg nbytes (Some h) (Some dm) (vs_external vs') = fb_data_ptr (xc_buffer c))))"
proof -
  obtain res ext where loop: "external_loop dm fv [] = Ok (res, ext)" and ext: "vs_external vs' = ext"
    and err: "err = (case res of Inl e \<Rightarrow> e | Inr _ \<Rightarrow> Error_Ok)"
    using parse by (auto simp: parse_external_constants_def r_bind_Ok_iff)
  note post = external_loop_post [OF count, of "[]" dm, unfolded loop]
  have base: "length ext \<le> n \<and> distinct (xc_names ext) \<and> (\<forall>c \<in> set ext. from_map dm c)"
    using post by (cases res) auto
  have "get_tensor_data_ptr oc ft s pg nbytes (Some h) (Some dm) ext = fb_data_ptr (xc_buffer c)"
    if "is_external_constant s" "st_fully_qualified_name s = Some key" "get_data_by_key key ext = Some c" for s key c
    using that by (simp add: get_tensor_data_ptr_def is_external_constant_def ensure_def present_def)
  moreover have "\<exists>key c. st_fully_qualified_name s = Some key \<and> get_data_by_key key ext = Some c"
    if "res = Inr ()" "SV_Tensor (Some s) \<in> set fv" "is_external_constant s" for s
    using post that get_data_by_key_None [of _ ext] by simp (metis option.exhaust)
  moreover have "err = Error_Ok \<Longrightarrow> res = Inr ()"
    using err loop external_loop_error [OF no_ok] by (cases res) auto
  ultimately show ?thesis unfolding ext using base get_data_by_key_Some [of _ ext] by blast
qed

section \<open>What a bad program or a full allocator does\<close>

text \<open>
  C30. The validator accepts a tensor list that comes before its tensors, and the parser only checks that
  the index is inside the table: it then reads a slot that was not written yet.
\<close>

theorem forward_list_reference_undefined:
  assumes alloc: "\<forall>n a x. \<exists>p x'. pe_alloc env n a x = Ok (p, x') \<and> p \<noteq> 0" and "unat (pe_sizeof_evalue env) < 2 ^ 32"
    and plan: "sp_values plan = Some [SV_TensorList (Some (Some [1])), SV_Tensor (Some s)]" "sp_inputs plan = None"
    and s: "tensor_valid s" "\<not> is_external_constant s"
  shows "validate_program (Some [plan]) = Ok Error_Ok \<and> parse_values env dm plan vs = Panic"
proof
  show "validate_program (Some [plan]) = Ok Error_Ok"
    using plan s(1) by (simp add: validate_program_eq verdict_def program_valid_def value_valid_def is_tensor_value_def nth_Cons' less_Suc_eq)
  have list: "\<exists>p st'. checked_alloc (raw_list env t n a st) = Ok (Inr p, st')" if "n * unat t < 2 ^ 64" "n < 2 ^ 64" for t n a st
  proof -
    have mul: "checked_mul (of_nat n) t = Some (of_nat n * t)" using that by (simp add: unat_of_nat_64 mult.commute)
    obtain p x where "pe_alloc env (of_nat n * t) a (ps_alloc st) = Ok (p, x)" "p \<noteq> 0"
      using alloc by blast
    then show ?thesis unfolding checked_alloc_def raw_list_def allocate_list_def mul by simp
  qed
  obtain p1 st1 where a1: "checked_alloc (raw_list env (pe_sizeof_evalue env) 2 8 (vs_parse vs)) = Ok (Inr p1, st1)"
    using list [of 2 "pe_sizeof_evalue env"] assms(2) by force
  obtain p2 st2 where a2: "checked_alloc (raw_list env 8 1 8 st1) = Ok (Inr p2, st2)" using list [of 1 8] by force
  obtain p3 st3 where a3: "checked_alloc (raw_list env 8 1 8 st2) = Ok (Inr p3, st3)" using list [of 1 8] by force
  show "parse_values env dm plan vs = Panic"
    using a1 a2 a3
    by (simp add: parse_values_def plan present_def allocate_tables_def on_parse_def parse_constants_def sv_absent_def s(2) parse_value_def
        parse_tensor_list_def unwrap_def valid_value_index_def ensure_def as_usize_def numeral_2_eq_2)
qed

text \<open>
  A method allocator that is out of memory is reported as \<^verbatim>\<open>MemoryAllocationFailed\<close> for tensors
  and lists of tensors, but lists of integers, booleans and doubles and strings are written through
  the null pointer.
\<close>

theorem list_allocations_unchecked:
  assumes full: "\<forall>n a x. pe_alloc env n a x = Ok (0, x)" and "list_all (\<lambda>i. valid_value_index i (length tbl)) items"
  shows "parse_value env dm ext tbl (SV_IntList (Some (Some items))) st = Panic \<and>
    parse_value env dm ext tbl (SV_BoolList (Some (Some bools))) st = Panic \<and>
    parse_value env dm ext tbl (SV_DoubleList (Some (Some doubles))) st = Panic \<and>
    parse_value env dm ext tbl (SV_String (Some (Some str))) st = Panic \<and>
    parse_value env dm ext tbl (SV_TensorList (Some (Some items))) st = Ok (Inl MemoryAllocationFailed, st) \<and>
    parse_value env dm ext tbl (SV_OptionalTensorList (Some (Some items))) st = Ok (Inl MemoryAllocationFailed, st)"
proof -
  have null: "raw_list env t n a st = Ok (0, st)" "raw_instance env t a st = Ok (0, st)" for t n a st
    using full by (simp_all add: raw_list_def raw_instance_def allocate_list_def allocate_instance_def split: option.split)
  have ints: "int_list_loop 0 (length tbl) items = Panic \<or> items = []"
    using assms(2) by (cases items) (auto simp: ensure_def store_at_def)
  show ?thesis using ints
    by (auto simp: parse_value_def unwrap_def present_def parse_int_list_def null wrap_list_def unchecked_alloc_def checked_alloc_def
        boxed_list_new_def store_at_def parse_tensor_list_def parse_list_optional_type_def)
qed

section \<open>Examples\<close>

definition example_fresh :: "unit values_state" where
  "example_fresh = \<lparr>vs_parse = \<lparr>ps_alloc = (), ps_tensors = []\<rparr>, vs_values = [], vs_n_value = 0, vs_input_set = [],
     vs_external = []\<rparr>"

text \<open>A method with a float tensor as its input, a number, and the list of that tensor.\<close>

definition example_values_plan :: s_plan where
  "example_values_plan = empty_s_plan\<lparr>sp_values := Some [SV_Tensor (Some (example_s_tensor 1)), SV_Int (Some 7),
     SV_TensorList (Some (Some [0]))], sp_inputs := Some [0]\<rparr>"

lemma example_values_plan_fields:
  "sp_values example_values_plan = Some [SV_Tensor (Some (example_s_tensor 1)), SV_Int (Some 7), SV_TensorList (Some (Some [0]))]"
  "sp_inputs example_values_plan = Some [0]"
  by (simp_all add: example_values_plan_def)

definition example_table :: "unit values_state" where
  "example_table = \<lparr>vs_parse = \<lparr>ps_alloc = (), ps_tensors = [example_parsed]\<rparr>,
     vs_values = [Some (E_Tensor 0), Some (E_Int 7), Some (E_ListTensor (Some [Some 0]))], vs_n_value = 3,
     vs_input_set = [False], vs_external = []\<rparr>"

lemma example_raw:
  "unat n * unat t < 2 ^ 64 \<Longrightarrow> allocate_list (pe_alloc (example_parser_env oc h)) t n a () = Ok (0x8000, ())"
  by (simp add: allocate_list_def example_parser_env_def checked_mul_def)

lemma example_sizes:
  "pe_sizeof_evalue (example_parser_env oc h) = 24" "pe_alloc (example_parser_env oc h) n a () = Ok (0x8000, ())"
  by (simp_all add: example_parser_env_def)

lemma example_values:
  "parse_values (example_parser_env True (Some example_planned)) None example_values_plan example_fresh = Ok (Inr (), example_table)"
  by (simp add: parse_values_def example_values_plan_fields present_def allocate_tables_def on_parse_def checked_alloc_def
      raw_list_def example_raw example_sizes example_fresh_def parse_constants_def sv_absent_def is_external_constant_def
      example_s_tensor_fields parse_value_def unwrap_def example_parse parse_tensor_list_def valid_value_index_def ensure_def
      as_usize_def boxed_list_new_def wrap_i32_def wrap_list_def unchecked_alloc_def raw_instance_def allocate_instance_def
      store_at_def from_tensor_list_def example_table_def)

theorem values_table_complete_witness:
  "drop_values example_table \<noteq> Panic \<and> vs_n_value example_table = 3"
proof -
  have "values_valid (example_parser_env True (Some example_planned)) (the (sp_values example_values_plan))"
    by (simp add: values_valid_def example_parser_env_def)
  then show ?thesis
    using values_table_complete [OF example_values_plan_fields(1) example_values]
    by (simp add: example_fresh_def example_values_plan_fields)
qed

theorem forward_list_reference_undefined_witness:
  "parse_values (example_parser_env True (Some example_planned)) None
     (empty_s_plan\<lparr>sp_values := Some [SV_TensorList (Some (Some [1])), SV_Tensor (Some (example_s_tensor 1))]\<rparr>) example_fresh = Panic"
proof -
  have "tensor_valid (example_s_tensor 1)"
    by (simp add: tensor_valid_def example_s_tensor_def empty_s_tensor_def numel_fits_def numel_fits_from_def all_scalar_types_def
        take_Cons' le_Suc_eq)
  moreover have "\<not> is_external_constant (example_s_tensor 1)"
    by (simp add: is_external_constant_def example_s_tensor_fields)
  ultimately show ?thesis
    by (intro conjunct2 [OF forward_list_reference_undefined [where s = "example_s_tensor 1"]])
      (simp_all add: example_parser_env_def empty_s_plan_def)
qed

definition full_env :: "unit parser_env" where
  "full_env = (example_parser_env True None)\<lparr>pe_alloc := \<lambda>n a x. Ok (0, x)\<rparr>"

theorem list_allocations_unchecked_witness:
  "parse_value full_env None [] [None] (SV_IntList (Some (Some [0]))) \<lparr>ps_alloc = (), ps_tensors = []\<rparr> = Panic \<and>
   parse_value full_env None [] [None] (SV_TensorList (Some (Some [0]))) \<lparr>ps_alloc = (), ps_tensors = []\<rparr> =
     Ok (Inl MemoryAllocationFailed, \<lparr>ps_alloc = (), ps_tensors = []\<rparr>)"
  using list_allocations_unchecked [of full_env "[None]" "[0]" None "[]" "\<lparr>ps_alloc = (), ps_tensors = []\<rparr>" "[]" "[]" "[]"]
  by (simp add: full_env_def valid_value_index_def as_usize_def)

text \<open>A map with one named tensor, and two tensors of the table that share it.\<close>

definition example_named_map :: named_data_map where
  "example_named_map =
     \<lparr>nm_get_tensor_layout = (\<lambda>k. if k = ''w'' then Ok \<lparr>tl_sizes = [2, 3], tl_dim_order = [0, 1], tl_scalar_type = Float, tl_nbytes = 24\<rparr>
        else Err NotFound),
      nm_get_data = (\<lambda>k. if k = ''w'' then Ok (fb_from_pointer 0x2000 24 None 0) else Err NotFound),
      nm_load_data_into = (\<lambda>k p n. NotImplemented), nm_get_num_keys = Ok 1, nm_get_key = (\<lambda>i. if i = 0 then Ok ''w'' else Err InvalidArgument)\<rparr>"

definition example_external :: s_tensor where
  "example_external = (example_s_tensor 1)\<lparr>st_allocation_info := None, st_extra_tensor_info :=
     Some \<lparr>se_fully_qualified_name = Some ''w'', se_location = 1, se_device_type = 0, se_device_index = 0\<rparr>\<rparr>"

lemma example_external_fields:
  "is_external_constant example_external" "st_fully_qualified_name example_external = Some ''w''"
  "validate_tensor_layout example_external \<lparr>tl_sizes = [2, 3], tl_dim_order = [0, 1], tl_scalar_type = Float, tl_nbytes = 24\<rparr> = Ok Error_Ok"
  by (simp_all add: example_external_def is_external_constant_def st_is_external_def st_fully_qualified_name_def
      validate_tensor_layout_def example_s_tensor_def empty_s_tensor_def static_cast_scalar_type_def all_scalar_types_def
      wrap_i32_def as_usize_def upt_rec)

lemma example_key_str: "key_str ''w'' = ''w''"
  by (simp add: key_str_def c_string_def valid_utf8_def)

definition example_constant :: external_constant where
  "example_constant = \<lparr>xc_key = ''w'', xc_buffer = fst (fb_from_move (fb_from_pointer 0x2000 24 None 0))\<rparr>"

lemma example_external_parse:
  "parse_external_constants (Some example_named_map) [SV_Tensor (Some example_external), SV_Null, SV_Tensor (Some example_external)] example_fresh =
     Ok (Error_Ok, example_fresh\<lparr>vs_external := [example_constant]\<rparr>)"
  by (simp add: parse_external_constants_def unwrap_def example_external_fields resolve_constant_def present_def example_key_str
      example_named_map_def example_constant_def)

theorem external_constants_resolved_witness:
  "length (vs_external (example_fresh\<lparr>vs_external := [example_constant]\<rparr>)) \<le> 2 \<and>
   get_tensor_data_ptr True (pe_features full_env) example_external example_program_state 24 (Some example_planned)
      (Some example_named_map) [example_constant] = fb_data_ptr (xc_buffer example_constant)"
proof -
  have n: "get_num_external_constants [SV_Tensor (Some example_external), SV_Null, SV_Tensor (Some example_external)] = Ok 2"
    by (simp add: sv_absent_def example_external_fields)
  have no_ok: "\<forall>k. nm_get_tensor_layout example_named_map k \<noteq> Err Error_Ok" by (simp add: example_named_map_def)
  note resolved = external_constants_resolved [OF n example_external_parse no_ok, of True "pe_features full_env" example_program_state 24 example_planned]
  have "SV_Tensor (Some example_external) \<in> set [SV_Tensor (Some example_external), SV_Null, SV_Tensor (Some example_external)] \<and>
      is_external_constant example_external"
    using example_external_fields(1) by simp
  note found = resolved [THEN conjunct2, THEN conjunct2, THEN conjunct2, THEN mp, OF refl, THEN spec, THEN mp, OF this]
  then show ?thesis using conjunct1 [OF resolved] by auto
qed

end
