(* ===== verification/Backend_Options.thy ===== *)
theory Backend_Options
  imports Errors
begin

text \<open>
  The options that a client gives to backends: \<^verbatim>\<open>runtime/backend/options.rs\<close> (a bounded table of
  typed options), \<^verbatim>\<open>runtime/backend/backend_options_map.rs\<close> (a bounded table of option lists per
  backend) and the lookups of \<^verbatim>\<open>runtime/backend/backend_init_context.rs\<close>. A C string is its bytes
  before the zero; a character array keeps all of its bytes. A view of options (\<^verbatim>\<open>Span\<close>) is taken as
  the options it shows.
\<close>

section \<open>Options\<close>

definition K_MAX_OPTION_KEY_LENGTH :: nat where "K_MAX_OPTION_KEY_LENGTH = 64"

definition K_MAX_OPTION_VALUE_LENGTH :: nat where "K_MAX_OPTION_VALUE_LENGTH = 256"

datatype option_value = OV_Bool bool | OV_Int int | OV_CharArray string

record backend_option =
  bo_key :: string
  bo_value :: option_value

definition backend_option_new :: backend_option where
  "backend_option_new = \<lparr>bo_key = [], bo_value = OV_Bool False\<rparr>"

text \<open>The first \<open>size_\<close> entries of the array; the capacity is the parameter of the type.\<close>

record backend_options =
  bos_capacity :: nat
  bos_options :: "backend_option list"

definition backend_options_new :: "nat \<Rightarrow> backend_options" where
  "backend_options_new max_capacity = \<lparr>bos_capacity = max_capacity, bos_options = []\<rparr>"

definition backend_options_clone :: "backend_options \<Rightarrow> backend_options" where
  "backend_options_clone other = \<lparr>bos_capacity = bos_capacity other, bos_options = bos_options other\<rparr>"

definition view :: "backend_options \<Rightarrow> backend_option list" where
  "view opts = bos_options opts"

text \<open>The loop of an update: \<open>None\<close> when no entry has the key.\<close>

fun update_option :: "string \<Rightarrow> option_value \<Rightarrow> backend_option list \<Rightarrow> backend_option list option" where
  "update_option key v [] = None"
| "update_option key v (opt # opts) =
     (if bo_key opt = c_string key then Some (opt\<lparr>bo_value := v\<rparr> # opts)
      else map_option (\<lambda>rest. opt # rest) (update_option key v opts))"

definition set_option_impl :: "string \<Rightarrow> option_value \<Rightarrow> backend_options \<Rightarrow> Error \<times> backend_options" where
  "set_option_impl key v opts =
     (case update_option key v (bos_options opts) of
        Some updated \<Rightarrow> (Error_Ok, opts\<lparr>bos_options := updated\<rparr>)
      | None \<Rightarrow>
          if length (bos_options opts) < bos_capacity opts then
            let copy_len = min (length (c_string key)) (K_MAX_OPTION_KEY_LENGTH - 1);
                new_option = backend_option_new\<lparr>bo_key := take copy_len (c_string key), bo_value := v\<rparr>
            in (Error_Ok, opts\<lparr>bos_options := bos_options opts @ [new_option]\<rparr>)
          else (InvalidArgument, opts))"

definition set_option_bool :: "string \<Rightarrow> bool \<Rightarrow> backend_options \<Rightarrow> Error \<times> backend_options" where
  "set_option_bool key v = set_option_impl key (OV_Bool v)"

definition set_option_int :: "string \<Rightarrow> int \<Rightarrow> backend_options \<Rightarrow> Error \<times> backend_options" where
  "set_option_int key v = set_option_impl key (OV_Int v)"

text \<open>\<^verbatim>\<open>strncpy\<close> of at most \<open>n\<close> bytes into an array: the rest of the \<open>n\<close> bytes is filled with zeros.\<close>

definition strncpy :: "string \<Rightarrow> string \<Rightarrow> nat \<Rightarrow> string" where
  "strncpy arr src n =
     (let s = take n (c_string src) in s @ replicate (n - length s) (CHR 0x00) @ drop n arr)"

definition set_option_str :: "string \<Rightarrow> string \<Rightarrow> backend_options \<Rightarrow> Error \<times> backend_options" where
  "set_option_str key v =
     (let arr = strncpy (replicate K_MAX_OPTION_VALUE_LENGTH (CHR 0x00)) v (K_MAX_OPTION_VALUE_LENGTH - 1)
      in set_option_impl key (OV_CharArray (arr[K_MAX_OPTION_VALUE_LENGTH - 1 := CHR 0x00])))"

fun find_option :: "string \<Rightarrow> backend_option list \<Rightarrow> option_value option" where
  "find_option key [] = None"
| "find_option key (opt # opts) = (if bo_key opt = c_string key then Some (bo_value opt) else find_option key opts)"

text \<open>The getters return their error code and the output, which an error leaves as it was.\<close>

definition get_option_bool :: "string \<Rightarrow> backend_options \<Rightarrow> bool \<Rightarrow> Error \<times> bool" where
  "get_option_bool key opts out =
     (case find_option key (bos_options opts) of
        None \<Rightarrow> (NotFound, out) | Some (OV_Bool val) \<Rightarrow> (Error_Ok, val) | Some _ \<Rightarrow> (InvalidArgument, out))"

definition get_option_int :: "string \<Rightarrow> backend_options \<Rightarrow> int \<Rightarrow> Error \<times> int" where
  "get_option_int key opts out =
     (case find_option key (bos_options opts) of
        None \<Rightarrow> (NotFound, out) | Some (OV_Int val) \<Rightarrow> (Error_Ok, val) | Some _ \<Rightarrow> (InvalidArgument, out))"

definition get_option_str :: "string \<Rightarrow> backend_options \<Rightarrow> string \<Rightarrow> Error \<times> string" where
  "get_option_str key opts out =
     (case find_option key (bos_options opts) of
        None \<Rightarrow> (NotFound, out) | Some (OV_CharArray arr) \<Rightarrow> (Error_Ok, c_string arr) | Some _ \<Rightarrow> (InvalidArgument, out))"

section \<open>Lookups of a backend that is initialised\<close>

definition get_runtime_spec_bool :: "backend_option list \<Rightarrow> string \<Rightarrow> bool result" where
  "get_runtime_spec_bool specs key =
     (case find_option key specs of None \<Rightarrow> Err NotFound | Some (OV_Bool val) \<Rightarrow> Ok val | Some _ \<Rightarrow> Err InvalidArgument)"

definition get_runtime_spec_int :: "backend_option list \<Rightarrow> string \<Rightarrow> int result" where
  "get_runtime_spec_int specs key =
     (case find_option key specs of None \<Rightarrow> Err NotFound | Some (OV_Int val) \<Rightarrow> Ok val | Some _ \<Rightarrow> Err InvalidArgument)"

definition get_runtime_spec_str :: "backend_option list \<Rightarrow> string \<Rightarrow> string result" where
  "get_runtime_spec_str specs key =
     (case find_option key specs of None \<Rightarrow> Err NotFound | Some (OV_CharArray arr) \<Rightarrow> Ok (c_string arr) | Some _ \<Rightarrow> Err InvalidArgument)"

section \<open>Options per backend\<close>

definition K_MAX_BACKENDS :: nat where "K_MAX_BACKENDS = 8"

definition K_MAX_BACKEND_ID_LENGTH :: nat where "K_MAX_BACKEND_ID_LENGTH = 64"

record options_entry =
  oe_backend_id :: string
  oe_options :: "backend_option list"

type_synonym options_map = "options_entry list"

definition options_map_new :: options_map where
  "options_map_new = []"

fun update_entry :: "string \<Rightarrow> backend_option list \<Rightarrow> options_map \<Rightarrow> options_map option" where
  "update_entry backend_id options [] = None"
| "update_entry backend_id options (entry # entries) =
     (if oe_backend_id entry = c_string backend_id then Some (entry\<lparr>oe_options := options\<rparr> # entries)
      else map_option (\<lambda>rest. entry # rest) (update_entry backend_id options entries))"

definition set_options_impl :: "string \<Rightarrow> backend_option list \<Rightarrow> options_map \<Rightarrow> Error \<times> options_map" where
  "set_options_impl backend_id options m =
     (case update_entry backend_id options m of
        Some updated \<Rightarrow> (Error_Ok, updated)
      | None \<Rightarrow>
          if K_MAX_BACKENDS \<le> length m then (InvalidArgument, m)
          else if K_MAX_BACKEND_ID_LENGTH \<le> length (c_string backend_id) then (InvalidArgument, m)
          else (Error_Ok, m @ [\<lparr>oe_backend_id = c_string backend_id, oe_options = options\<rparr>]))"

text \<open>A null backend id is \<open>None\<close>.\<close>

definition set_options :: "string option \<Rightarrow> backend_option list \<Rightarrow> options_map \<Rightarrow> Error \<times> options_map" where
  "set_options backend_id options m =
     (case backend_id of
        None \<Rightarrow> (InvalidArgument, m)
      | Some s \<Rightarrow> if c_string s = [] then (InvalidArgument, m) else set_options_impl s options m)"

fun find_entry :: "string \<Rightarrow> options_map \<Rightarrow> options_entry option" where
  "find_entry backend_id [] = None"
| "find_entry backend_id (entry # entries) =
     (if oe_backend_id entry = c_string backend_id then Some entry else find_entry backend_id entries)"

definition get_options :: "string option \<Rightarrow> options_map \<Rightarrow> backend_option list" where
  "get_options backend_id m =
     (case backend_id of
        None \<Rightarrow> []
      | Some s \<Rightarrow> (case find_entry s m of Some entry \<Rightarrow> oe_options entry | None \<Rightarrow> []))"

definition has_options :: "string option \<Rightarrow> options_map \<Rightarrow> bool" where
  "has_options backend_id m =
     (case backend_id of None \<Rightarrow> False | Some s \<Rightarrow> find_entry s m \<noteq> None)"

definition options_map_size :: "options_map \<Rightarrow> nat" where
  "options_map_size m = length m"

text \<open>An index out of range is refused by the assertion or, without it, by the array; entries of the
  array beyond the size have an empty id and no options.\<close>

definition entry_at :: "bool \<Rightarrow> options_map \<Rightarrow> nat \<Rightarrow> options_entry result" where
  "entry_at oc m index =
     (if oc \<and> \<not> index < length m then Panic
      else if \<not> index < K_MAX_BACKENDS then Panic
      else Ok (if index < length m then m ! index else \<lparr>oe_backend_id = [], oe_options = []\<rparr>))"

section \<open>Bounded tables\<close>

lemma c_string_idem [simp]: "c_string (c_string k) = c_string k"
  by (auto simp: c_string_def takeWhile_eq_all_conv dest: set_takeWhileD)

text \<open>A run of updates, and what it comes to: a finite map to which an entry is added when its key is
  known or there is room.\<close>

fun put_all :: "(string \<Rightarrow> 'v \<Rightarrow> 'm \<Rightarrow> Error \<times> 'm) \<Rightarrow> (string \<times> 'v) list \<Rightarrow> 'm \<Rightarrow> 'm" where
  "put_all put [] m = m"
| "put_all put ((k, v) # kvs) m = put_all put kvs (snd (put k v m))"

fun map_all :: "nat \<Rightarrow> (string \<times> 'v) list \<Rightarrow> (string \<rightharpoonup> 'v) \<Rightarrow> nat \<Rightarrow> string \<rightharpoonup> 'v" where
  "map_all room [] f = (\<lambda>n. f)"
| "map_all room ((k, v) # kvs) f =
     (\<lambda>n. if f (c_string k) \<noteq> None then map_all room kvs (f(c_string k \<mapsto> v)) n
      else if n < room then map_all room kvs (f(c_string k \<mapsto> v)) (Suc n)
      else map_all room kvs f n)"

text \<open>
  What both tables promise: a table that accepts a value for a key returns it for that key from then on
  and leaves the other keys alone; one that refuses a value does not change; it refuses only new
  keys, when it is full.
\<close>

locale bounded_table =
  fixes put :: "string \<Rightarrow> 'v \<Rightarrow> 'm \<Rightarrow> Error \<times> 'm"
    and get :: "string \<Rightarrow> 'm \<Rightarrow> 'v option"
    and count :: "'m \<Rightarrow> nat"
    and capacity :: "'m \<Rightarrow> nat"
    and key_ok :: "string \<Rightarrow> bool"
  assumes put_known: "key_ok k \<Longrightarrow> get k m \<noteq> None \<Longrightarrow>
      fst (put k v m) = Error_Ok \<and> count (snd (put k v m)) = count m"
    and put_room: "key_ok k \<Longrightarrow> get k m = None \<Longrightarrow> count m < capacity m \<Longrightarrow>
      fst (put k v m) = Error_Ok \<and> count (snd (put k v m)) = Suc (count m)"
    and put_full: "key_ok k \<Longrightarrow> get k m = None \<Longrightarrow> \<not> count m < capacity m \<Longrightarrow> put k v m = (InvalidArgument, m)"
    and put_get: "key_ok k \<Longrightarrow> fst (put k v m) = Error_Ok \<Longrightarrow>
      get k' (snd (put k v m)) = (if c_string k' = c_string k then Some v else get k' m)"
    and put_capacity: "capacity (snd (put k v m)) = capacity m"
begin

lemma put_all_refines:
  assumes "\<forall>kv \<in> set kvs. key_ok (fst kv)" and "\<forall>k. get k m = f (c_string k)"
  shows "get k (put_all put kvs m) = map_all (capacity m) kvs f (count m) (c_string k)"
  using assms
proof (induction kvs arbitrary: m f)
  case Nil
  then show ?case by simp
next
  case (Cons kv kvs)
  obtain k' v where kv: "kv = (k', v)" by (cases kv)
  have ok: "key_ok k'" and rest: "\<forall>kv \<in> set kvs. key_ok (fst kv)" using Cons.prems(1) kv by auto
  let ?m = "snd (put k' v m)"
  show ?case
  proof (cases "fst (put k' v m) = Error_Ok")
    case True
    have "\<forall>k. get k ?m = (f(c_string k' \<mapsto> v)) (c_string k)"
      using put_get [OF ok True] Cons.prems(2) by simp
    then have "get k (put_all put kvs ?m) = map_all (capacity ?m) kvs (f(c_string k' \<mapsto> v)) (count ?m) (c_string k)"
      by (rule Cons.IH [OF rest])
    then show ?thesis
      using kv True put_known [OF ok, of m v] put_room [OF ok, of m v] put_full [OF ok, of m v] Cons.prems(2)
      by (cases "f (c_string k')"; cases "count m < capacity m") (auto simp: put_capacity)
  next
    case False
    then have "get k' m = None" "\<not> count m < capacity m"
      using put_known [OF ok, of m v] put_room [OF ok, of m v] by (cases "get k' m"; auto)+
    then show ?thesis using kv put_full [OF ok] Cons.IH [OF rest Cons.prems(2)] Cons.prems(2) by simp
  qed
qed

end

section \<open>The tables keep the contract\<close>

text \<open>The keys of the typed setters are arrays of at most 64 bytes that end in a zero.\<close>

definition option_key_ok :: "string \<Rightarrow> bool" where
  "option_key_ok k \<longleftrightarrow> length (c_string k) < K_MAX_OPTION_KEY_LENGTH"

lemma find_option_cong: "c_string k = c_string k' \<Longrightarrow> find_option k opts = find_option k' opts"
  by (induction opts) auto

lemma update_option_unknown: "find_option k opts = None \<Longrightarrow> update_option k v opts = None"
  by (induction opts) (auto split: if_splits)

lemma update_option_known:
  "find_option k opts \<noteq> None \<Longrightarrow> \<exists>opts'. update_option k v opts = Some opts' \<and> length opts' = length opts \<and>
     (\<forall>k'. find_option k' opts' = (if c_string k' = c_string k then Some v else find_option k' opts))"
  by (induction opts) (auto split: if_splits)

lemma find_option_append:
  "find_option k (opts @ [opt]) = (case find_option k opts of Some v \<Rightarrow> Some v
     | None \<Rightarrow> if bo_key opt = c_string k then Some (bo_value opt) else None)"
  by (induction opts) auto

lemma set_option_known:
  assumes "find_option k (bos_options o') \<noteq> None"
  obtains new where "set_option_impl k v o' = (Error_Ok, o'\<lparr>bos_options := new\<rparr>)" and "length new = length (bos_options o')"
    and "\<And>k'. find_option k' new = (if c_string k' = c_string k then Some v else find_option k' (bos_options o'))"
  using update_option_known [OF assms, of v] by (auto simp: set_option_impl_def)

lemma set_option_unknown:
  assumes "find_option k (bos_options o') = None"
  shows "set_option_impl k v o' =
    (if length (bos_options o') < bos_capacity o'
     then (Error_Ok, o'\<lparr>bos_options := bos_options o' @ [\<lparr>bo_key = take 63 (c_string k), bo_value = v\<rparr>]\<rparr>)
     else (InvalidArgument, o'))"
  by (simp add: set_option_impl_def update_option_unknown [OF assms] backend_option_new_def K_MAX_OPTION_KEY_LENGTH_def min_def)

interpretation opts: bounded_table set_option_impl "\<lambda>k opts. find_option k (bos_options opts)"
  "\<lambda>opts. length (bos_options opts)" bos_capacity option_key_ok
proof
  fix k k' m and v :: option_value
  show "bos_capacity (snd (set_option_impl k v m)) = bos_capacity m"
    by (simp add: set_option_impl_def split: option.split)
  assume ok: "option_key_ok k"
  show "fst (set_option_impl k v m) = Error_Ok \<and> length (bos_options (snd (set_option_impl k v m))) = length (bos_options m)"
    if "find_option k (bos_options m) \<noteq> None"
    using that by (rule set_option_known [of k m v]) simp
  show "find_option k' (bos_options (snd (set_option_impl k v m))) =
      (if c_string k' = c_string k then Some v else find_option k' (bos_options m))"
    if set_ok: "fst (set_option_impl k v m) = Error_Ok"
  proof (cases "find_option k (bos_options m) = None")
    case True
    then have none: "find_option k' (bos_options m) = None" if "c_string k' = c_string k"
      using find_option_cong [OF that] by simp
    have "take 63 (c_string k) = c_string k" using ok by (simp add: option_key_ok_def K_MAX_OPTION_KEY_LENGTH_def)
    then show ?thesis using set_ok none
      by (cases "c_string k' = c_string k")
        (auto simp: set_option_unknown [OF True] find_option_append split: if_splits option.split)
  next
    case False
    then show ?thesis by (rule set_option_known [of k m v]) simp
  qed
qed (simp_all add: set_option_unknown)

definition backend_id_ok :: "string \<Rightarrow> bool" where
  "backend_id_ok k \<longleftrightarrow> c_string k \<noteq> [] \<and> length (c_string k) < K_MAX_BACKEND_ID_LENGTH"

lemma find_entry_cong: "c_string k = c_string k' \<Longrightarrow> find_entry k m = find_entry k' m"
  by (induction m) auto

lemma update_entry_unknown: "find_entry k m = None \<Longrightarrow> update_entry k v m = None"
  by (induction m) (auto split: if_splits)

lemma update_entry_known:
  "find_entry k m \<noteq> None \<Longrightarrow> \<exists>m'. update_entry k v m = Some m' \<and> length m' = length m \<and>
     (\<forall>k'. map_option oe_options (find_entry k' m') =
       (if c_string k' = c_string k then Some v else map_option oe_options (find_entry k' m)))"
  by (induction m) (auto split: if_splits)

lemma find_entry_append:
  "find_entry k (m @ [entry]) = (case find_entry k m of Some e \<Rightarrow> Some e
     | None \<Rightarrow> if oe_backend_id entry = c_string k then Some entry else None)"
  by (induction m) auto

lemma set_options_known:
  assumes "find_entry k m \<noteq> None" and "backend_id_ok k"
  obtains m' where "set_options (Some k) v m = (Error_Ok, m')" and "length m' = length m"
    and "\<And>k'. map_option oe_options (find_entry k' m') =
      (if c_string k' = c_string k then Some v else map_option oe_options (find_entry k' m))"
  using update_entry_known [OF assms(1), of v] assms(2) by (auto simp: set_options_def set_options_impl_def backend_id_ok_def)

lemma set_options_unknown:
  "find_entry k m = None \<Longrightarrow> backend_id_ok k \<Longrightarrow> set_options (Some k) v m =
    (if length m < K_MAX_BACKENDS then (Error_Ok, m @ [\<lparr>oe_backend_id = c_string k, oe_options = v\<rparr>]) else (InvalidArgument, m))"
  by (simp add: set_options_def set_options_impl_def update_entry_unknown backend_id_ok_def)

interpretation optmap: bounded_table "\<lambda>k. set_options (Some k)" "\<lambda>k m. map_option oe_options (find_entry k m)"
  length "\<lambda>_. K_MAX_BACKENDS" backend_id_ok
proof
  fix k k' m and v :: "backend_option list"
  assume ok: "backend_id_ok k"
  show "fst (set_options (Some k) v m) = Error_Ok \<and> length (snd (set_options (Some k) v m)) = length m"
    if "map_option oe_options (find_entry k m) \<noteq> None"
  proof -
    have "find_entry k m \<noteq> None" using that by simp
    then obtain m' where "set_options (Some k) v m = (Error_Ok, m')" and "length m' = length m"
      by (rule set_options_known [OF _ ok])
    then show ?thesis by simp
  qed
  show "map_option oe_options (find_entry k' (snd (set_options (Some k) v m))) =
      (if c_string k' = c_string k then Some v else map_option oe_options (find_entry k' m))"
    if set_ok: "fst (set_options (Some k) v m) = Error_Ok"
  proof (cases "find_entry k m = None")
    case True
    then have none: "find_entry k' m = None" if "c_string k' = c_string k"
      using find_entry_cong [OF that] by simp
    then show ?thesis using set_ok
      by (cases "c_string k' = c_string k")
        (auto simp: set_options_unknown [OF True ok] find_entry_append split: if_splits option.split)
  next
    case False
    then obtain m' where "set_options (Some k) v m = (Error_Ok, m')"
      and "map_option oe_options (find_entry k' m') = (if c_string k' = c_string k then Some v else map_option oe_options (find_entry k' m))"
      using set_options_known [OF False ok, of v] by metis
    then show ?thesis by simp
  qed
qed (simp_all add: set_options_unknown)


section \<open>Properties\<close>

text \<open>
  C8. A run of settings of options (keys of fewer than 64 bytes) into an empty table of any capacity
  behaves as a finite map that takes a new key as long as it has fewer entries than the capacity: a
  lookup of any key gives the map's answer. In particular a key that is set again keeps its place and
  is never refused.
\<close>

theorem options_implement_bounded_map:
  assumes "\<forall>kv \<in> set kvs. option_key_ok (fst kv)"
  shows "find_option k (bos_options (put_all set_option_impl kvs (backend_options_new room))) =
      map_all room kvs Map.empty 0 (c_string k)"
  using opts.put_all_refines [OF assms, where m = "backend_options_new room" and f = Map.empty]
  by (simp add: backend_options_new_def)

theorem options_implement_bounded_map_witness:
  "find_option ''b'' (bos_options (put_all set_option_impl
     [(''a'', OV_Int 1), (''b'', OV_Bool True), (''b'', OV_Int 2), (''c'', OV_Int 3)] (backend_options_new 2))) = Some (OV_Int 2)"
  using options_implement_bounded_map [where room = 2 and k = "''b''"
      and kvs = "[(''a'', OV_Int 1), (''b'', OV_Bool True), (''b'', OV_Int 2), (''c'', OV_Int 3)]"]
  by (simp add: option_key_ok_def K_MAX_OPTION_KEY_LENGTH_def c_string_def)

text \<open>
  The table of options per backend, filled by any run of settings with ids that are not empty and
  have fewer than 64 bytes, is a finite map from ids to option lists with room for eight ids; a backend
  without an entry gets no options, and \<open>has_options\<close> tells whether there is an entry.
\<close>

theorem backend_map_implements_bounded_map:
  assumes "\<forall>kv \<in> set kvs. backend_id_ok (fst kv)"
  defines "m \<equiv> put_all (\<lambda>k. set_options (Some k)) kvs options_map_new"
    and "f \<equiv> map_all K_MAX_BACKENDS kvs Map.empty 0"
  shows "get_options (Some k) m = (case f (c_string k) of None \<Rightarrow> [] | Some os \<Rightarrow> os) \<and>
    has_options (Some k) m = (f (c_string k) \<noteq> None)"
proof -
  have "map_option oe_options (find_entry k m) = f (c_string k)"
    using optmap.put_all_refines [OF assms(1), where m = options_map_new and f = Map.empty]
    by (simp add: options_map_new_def m_def f_def)
  then show ?thesis
    by (cases "find_entry k m"; cases "f (c_string k)") (simp_all add: get_options_def has_options_def)
qed

theorem backend_map_implements_bounded_map_witness:
  "get_options (Some ''xnn'') (put_all (\<lambda>k. set_options (Some k))
     [(''xnn'', [backend_option_new]), (''qnn'', []), (''xnn'', [])] options_map_new) = []"
  using backend_map_implements_bounded_map [where k = "''xnn''"
      and kvs = "[(''xnn'', [backend_option_new]), (''qnn'', []), (''xnn'', [])]"]
  by (simp add: backend_id_ok_def K_MAX_BACKEND_ID_LENGTH_def K_MAX_BACKENDS_def c_string_def)

lemma c_string_append_zero: "c_string (c_string s @ CHR 0x00 # t) = c_string s"
  by (induction s) (auto simp: c_string_def)

lemma c_string_take: "c_string (take n (c_string s)) = take n (c_string s)"
  unfolding c_string_def
  by (rule takeWhile_eq_all_conv [THEN iffD2]) (auto dest!: in_set_takeD dest: set_takeWhileD)

lemma stored_string:
  "c_string ((strncpy (replicate 256 (CHR 0x00)) v 255)[255 := CHR 0x00]) = take 255 (c_string v)"
proof -
  let ?s = "take 255 (c_string v)"
  define n where "n = 255 - length ?s"
  have len: "length ?s + n = 255" by (simp add: n_def)
  have "strncpy (replicate 256 (CHR 0x00)) v 255 = (?s @ replicate n (CHR 0x00)) @ [CHR 0x00]"
    by (simp add: strncpy_def Let_def n_def)
  then have "(strncpy (replicate 256 (CHR 0x00)) v 255)[255 := CHR 0x00] = (?s @ replicate n (CHR 0x00)) @ [CHR 0x00]"
    using list_update_length [of "?s @ replicate n (CHR 0x00)" "CHR 0x00" "[]" "CHR 0x00"] len
    by (simp only: length_append length_replicate)
  then have "(strncpy (replicate 256 (CHR 0x00)) v 255)[255 := CHR 0x00] = ?s @ CHR 0x00 # replicate n (CHR 0x00)"
    by (simp add: replicate_append_same)
  then show ?thesis using c_string_append_zero [of ?s] by (simp only: c_string_take)
qed

text \<open>
  A string option that was accepted is read back with at most 255 of its bytes, its length is
  never more than the array holds, and reading it with another type is refused with
  \<open>InvalidArgument\<close>; the output argument of a getter that fails keeps its value.
\<close>

theorem string_option_roundtrip:
  assumes "option_key_ok k" and "set_option_str k v opts = (Error_Ok, opts')"
  shows "get_option_str k opts' out = (Error_Ok, take 255 (c_string v)) \<and>
    get_runtime_spec_str (view opts') k = Ok (take 255 (c_string v)) \<and>
    get_option_bool k opts' b = (InvalidArgument, b) \<and> get_option_int k opts' i = (InvalidArgument, i)"
proof -
  let ?arr = "(strncpy (replicate 256 (CHR 0x00)) v 255)[255 := CHR 0x00]"
  have set_ok: "set_option_impl k (OV_CharArray ?arr) opts = (Error_Ok, opts')"
    using assms(2) by (simp add: set_option_str_def Let_def K_MAX_OPTION_VALUE_LENGTH_def)
  have found: "find_option k (bos_options opts') = Some (OV_CharArray ?arr)"
    using opts.put_get [OF assms(1), of "OV_CharArray ?arr" opts k] by (simp add: set_ok)
  then show ?thesis
    by (simp_all add: get_option_str_def get_runtime_spec_str_def view_def get_option_bool_def get_option_int_def stored_string)
qed

theorem string_option_roundtrip_witness:
  "get_option_str ''k'' (snd (set_option_str ''k'' ''gpu'' (backend_options_new 1))) [] = (Error_Ok, ''gpu'')"
proof -
  have "set_option_str ''k'' ''gpu'' (backend_options_new 1) =
      (Error_Ok, snd (set_option_str ''k'' ''gpu'' (backend_options_new 1)))"
    by (simp add: set_option_str_def set_option_impl_def backend_options_new_def Let_def)
  from string_option_roundtrip [OF _ this, of "[]" False 0] show ?thesis
    by (simp add: option_key_ok_def K_MAX_OPTION_KEY_LENGTH_def c_string_def)
qed

end
