(* ===== verification/Backend_Interface.thy ===== *)
theory Backend_Interface
  imports Backend_Options Data_Maps Freeable_Buffer
begin

text \<open>
  Backends and their registry: \<^verbatim>\<open>runtime/backend/interface.rs\<close> and the context of
  \<^verbatim>\<open>runtime/backend/backend_init_context.rs\<close>. A backend is code registered by others, a record of
  arbitrary functions; what it keeps inside is part of a world of type \<open>'w\<close> that all of them share.
  The registry, a global table of the program, is the list of its occupied slots.
\<close>

section \<open>The interface of a backend\<close>

record compile_spec =
  cs_key :: string
  cs_value :: "usize \<times> usize"

record backend_init_context =
  bic_method_name :: string
  bic_named_data_map :: "named_data_map option"
  bic_runtime_specs :: "backend_option list"

text \<open>
  The answer of \<^verbatim>\<open>init\<close>: a handle or an error (\<open>Panic\<close> when it does not return), whether it
  freed the processed data it was shown, the allocator of the context, from which it may take memory,
  and the world.
\<close>

record ('w, 's) init_answer =
  ia_handle :: "usize result"
  ia_frees :: bool
  ia_allocator :: 's
  ia_world :: 'w

record ('w, 's) backend_interface =
  bi_is_available :: "'w \<Rightarrow> bool \<times> 'w"
  bi_init :: "backend_init_context \<Rightarrow> freeable_buffer \<Rightarrow> compile_spec list \<Rightarrow> 's \<Rightarrow> 'w \<Rightarrow> ('w, 's) init_answer"
  bi_set_option :: "backend_option list \<Rightarrow> 'w \<Rightarrow> Error \<times> 'w"
  bi_get_option :: "backend_option list \<Rightarrow> 'w \<Rightarrow> Error \<times> backend_option list \<times> 'w"
  bi_destroy :: "usize \<Rightarrow> 'w \<Rightarrow> 'w"

text \<open>The trait's bodies for a backend that does not give its own.\<close>

definition default_set_option :: "backend_option list \<Rightarrow> 'w \<Rightarrow> Error \<times> 'w" where
  "default_set_option backend_options w = (Error_Ok, w)"

definition default_get_option :: "backend_option list \<Rightarrow> 'w \<Rightarrow> Error \<times> backend_option list \<times> 'w" where
  "default_get_option backend_options w = (Error_Ok, backend_options, w)"

definition default_destroy :: "usize \<Rightarrow> 'w \<Rightarrow> 'w" where
  "default_destroy handle w = w"

section \<open>The registry\<close>

text \<open>A null backend is \<open>None\<close>.\<close>

record ('w, 's) backend =
  be_name :: string
  be_backend :: "('w, 's) backend_interface option"

type_synonym ('w, 's) backend_registry = "('w, 's) backend list"

definition K_MAX_REGISTERED_BACKENDS :: nat where "K_MAX_REGISTERED_BACKENDS = 16"

fun get_backend_class :: "string \<Rightarrow> ('w, 's) backend_registry \<Rightarrow> ('w, 's) backend_interface option" where
  "get_backend_class name [] = None"
| "get_backend_class name (b # rest) =
     (if c_string (be_name b) = c_string name then be_backend b else get_backend_class name rest)"

definition register_backend ::
    "('w, 's) backend \<Rightarrow> ('w, 's) backend_registry \<Rightarrow> Error \<times> ('w, 's) backend_registry" where
  "register_backend b registry =
     (if K_MAX_REGISTERED_BACKENDS \<le> length registry then (Internal, registry)
      else if get_backend_class (be_name b) registry \<noteq> None then (InvalidArgument, registry)
      else (Error_Ok, registry @ [b]))"

definition get_num_registered_backends :: "('w, 's) backend_registry \<Rightarrow> nat" where
  "get_num_registered_backends registry = length registry"

definition registered_backend_name :: "nat \<Rightarrow> ('w, 's) backend_registry \<Rightarrow> string result" where
  "registered_backend_name index registry =
     (if \<not> index < length registry then Err InvalidArgument else Ok (be_name (registry ! index)))"

definition backend_set_option ::
    "('w, 's) backend_registry \<Rightarrow> string \<Rightarrow> backend_option list \<Rightarrow> 'w \<Rightarrow> Error \<times> 'w" where
  "backend_set_option registry backend_name backend_options w =
     (case get_backend_class backend_name registry of
        None \<Rightarrow> (NotFound, w)
      | Some b \<Rightarrow> bi_set_option b backend_options w)"

definition backend_get_option ::
    "('w, 's) backend_registry \<Rightarrow> string \<Rightarrow> backend_option list \<Rightarrow> 'w \<Rightarrow> Error \<times> backend_option list \<times> 'w" where
  "backend_get_option registry backend_name backend_options w =
     (case get_backend_class backend_name registry of
        None \<Rightarrow> (NotFound, backend_options, w)
      | Some b \<Rightarrow> bi_get_option b backend_options w)"

section \<open>What a run of registrations leaves\<close>

definition register_all :: "('w, 's) backend list \<Rightarrow> ('w, 's) backend_registry \<Rightarrow> ('w, 's) backend_registry" where
  "register_all bs registry = fold (\<lambda>b r. snd (register_backend b r)) bs registry"

text \<open>The first backend of each name, in the order of registration.\<close>

fun first_of_each_name :: "('w, 's) backend list \<Rightarrow> ('w, 's) backend list" where
  "first_of_each_name [] = []"
| "first_of_each_name (b # bs) =
     b # filter (\<lambda>b'. c_string (be_name b') \<noteq> c_string (be_name b)) (first_of_each_name bs)"

lemma get_backend_class_None:
  "\<forall>b \<in> set registry. be_backend b \<noteq> None \<Longrightarrow>
   get_backend_class name registry = None \<longleftrightarrow> (\<forall>b \<in> set registry. c_string (be_name b) \<noteq> c_string name)"
  by (induction registry) auto

lemma register_all_eq:
  assumes "\<forall>b \<in> set bs. be_backend b \<noteq> None" and "\<forall>b \<in> set registry. be_backend b \<noteq> None"
    and "length registry \<le> K_MAX_REGISTERED_BACKENDS"
  shows "register_all bs registry =
    take K_MAX_REGISTERED_BACKENDS (registry @
      filter (\<lambda>b. \<forall>r \<in> set registry. c_string (be_name b) \<noteq> c_string (be_name r)) (first_of_each_name bs))"
  using assms
proof (induction bs arbitrary: registry)
  case Nil
  then show ?case by (simp add: register_all_def)
next
  case (Cons b bs)
  let ?new = "\<lambda>registry. filter (\<lambda>b. \<forall>r \<in> set registry. c_string (be_name b) \<noteq> c_string (be_name r))"
  have step: "register_all (b # bs) registry = register_all bs (snd (register_backend b registry))"
    by (simp add: register_all_def)
  have bs: "\<forall>b \<in> set bs. be_backend b \<noteq> None" using Cons.prems(1) by simp
  note IH = Cons.IH [OF bs]
  consider (full) "K_MAX_REGISTERED_BACKENDS \<le> length registry"
    | (known) r where "length registry < K_MAX_REGISTERED_BACKENDS" "r \<in> set registry" "c_string (be_name b) = c_string (be_name r)"
    | (fresh) "length registry < K_MAX_REGISTERED_BACKENDS" "\<forall>r \<in> set registry. c_string (be_name b) \<noteq> c_string (be_name r)"
    by (metis not_le)
  then show ?case
  proof cases
    case full
    then show ?thesis using IH [OF Cons.prems(2,3)] Cons.prems(3) by (simp add: step register_backend_def)
  next
    case known
    then have "get_backend_class (be_name b) registry \<noteq> None"
      using get_backend_class_None [OF Cons.prems(2), of "be_name b"] by metis
    moreover have "?new registry (first_of_each_name (b # bs)) = ?new registry (first_of_each_name bs)"
      using known(2,3) by (auto intro!: filter_cong)
    ultimately show ?thesis using known(1) IH [OF Cons.prems(2,3)] by (simp add: step register_backend_def)
  next
    case fresh
    then have none: "get_backend_class (be_name b) registry = None"
      using get_backend_class_None [OF Cons.prems(2)] by metis
    have "?new (registry @ [b]) (first_of_each_name bs) =
        filter (\<lambda>b'. \<forall>r \<in> set registry. c_string (be_name b') \<noteq> c_string (be_name r))
          (filter (\<lambda>b'. c_string (be_name b') \<noteq> c_string (be_name b)) (first_of_each_name bs))"
      by (auto intro!: filter_cong)
    then show ?thesis
      using fresh none IH [of "registry @ [b]"] Cons.prems(1,2) by (simp add: step register_backend_def)
  qed
qed

text \<open>
  After any run of registrations of backends into the empty table, the table holds the first
  backend of each name in the order of registration, at most sixteen of them: a later backend of the
  same name is refused, and so is every one after the sixteenth name. A name is found if and only if it
  is one of them.
\<close>

theorem first_registration_wins:
  assumes "\<forall>b \<in> set bs. be_backend b \<noteq> None"
  shows "register_all bs [] = take K_MAX_REGISTERED_BACKENDS (first_of_each_name bs) \<and>
    (get_backend_class name (register_all bs []) = None \<longleftrightarrow>
      (\<forall>b \<in> set (take K_MAX_REGISTERED_BACKENDS (first_of_each_name bs)). c_string (be_name b) \<noteq> c_string name))"
proof -
  have eq: "register_all bs [] = take K_MAX_REGISTERED_BACKENDS (first_of_each_name bs)"
    using register_all_eq [OF assms, of "[]"] by simp
  have "set (first_of_each_name bs) \<subseteq> set bs" by (induction bs) auto
  then have "\<forall>b \<in> set (register_all bs []). be_backend b \<noteq> None"
    using assms unfolding eq by (meson in_set_takeD subsetD)
  then show ?thesis using get_backend_class_None [of "register_all bs []" name] eq by simp
qed

definition example_backend :: "usize \<Rightarrow> (nat, unit) backend_interface" where
  "example_backend handle =
     \<lparr>bi_is_available = \<lambda>w. (True, w),
      bi_init = \<lambda>ctx processed specs s w. \<lparr>ia_handle = Ok handle, ia_frees = True, ia_allocator = s, ia_world = Suc w\<rparr>,
      bi_set_option = default_set_option, bi_get_option = default_get_option, bi_destroy = \<lambda>h w. w - 1\<rparr>"

theorem first_registration_wins_witness:
  "register_all [\<lparr>be_name = ''a'', be_backend = Some (example_backend 1)\<rparr>, \<lparr>be_name = ''b'', be_backend = Some (example_backend 2)\<rparr>,
     \<lparr>be_name = ''a'', be_backend = Some (example_backend 3)\<rparr>] [] =
   [\<lparr>be_name = ''a'', be_backend = Some (example_backend 1)\<rparr>, \<lparr>be_name = ''b'', be_backend = Some (example_backend 2)\<rparr>]"
  using first_registration_wins [of "[\<lparr>be_name = ''a'', be_backend = Some (example_backend 1)\<rparr>,
     \<lparr>be_name = ''b'', be_backend = Some (example_backend 2)\<rparr>, \<lparr>be_name = ''a'', be_backend = Some (example_backend 3)\<rparr>]" "''a''"]
  by (simp add: K_MAX_REGISTERED_BACKENDS_def c_string_def)

end
