(* ===== verification/Method_Init.thy ===== *)
theory Method_Init
  imports Backend_Interface Method_Values
begin

text \<open>
  Initialising a method from its plan and destroying it: \<^verbatim>\<open>BackendDelegate\<close>, \<^verbatim>\<open>Method::load\<close>,
  \<^verbatim>\<open>Method::init\<close> and \<^verbatim>\<open>Drop\<close> of \<^verbatim>\<open>runtime/executor/method.rs\<close>. The pieces are those of
  \<open>Method_Values\<close> (the values table), \<open>Method_Load\<close> (the chains) and the delegates here. The log
  records, in order, the data segments that were loaded for delegates, the handles that backends gave
  out, the handles that were destroyed and the calls of free functions.
\<close>

section \<open>State\<close>

datatype ('w, 's) delegate_event =
    Loaded freeable_buffer
  | HandleMade "('w, 's) backend_interface" usize
  | HandleDestroyed "('w, 's) backend_interface" usize
  | Freed free_call

record ('w, 's) delegate =
  dg_segment :: freeable_buffer
  dg_backend :: "('w, 's) backend_interface"
  dg_handle :: usize

text \<open>
  A method that is being loaded: its fields, the temporary allocator of the memory manager, the world
  of the backends. The initialised delegates, which the method counts, are a list.
\<close>

record ('w, 'f, 's) loading =
  ld_values :: "'s values_state"
  ld_temp :: "'s option"
  ld_delegates :: "('w, 's) delegate list"
  ld_merged :: "merged_data_map option"
  ld_chains :: "'f chain list"
  ld_chain_idx :: nat
  ld_instr_idx :: nat
  ld_state :: InitializationState
  ld_world :: 'w
  ld_log :: "('w, 's) delegate_event list"

record ('w, 'f, 's) init_env =
  ie_parser :: "'s parser_env"
  ie_registry :: "('w, 's) backend_registry"
  ie_backend_options :: "options_map option"
  ie_reset :: "'s \<Rightarrow> 's"
  ie_size :: "'s \<Rightarrow> u32"
  ie_kernel_registry :: "'f kernel list"
  ie_registered_kernels :: "'f kernel list"
  ie_uninit :: "'f option"
  ie_sizeof_delegate :: usize
  ie_sizeof_chain :: usize
  ie_sizeof_platform_allocator :: usize
  ie_platform_allocator :: 's

definition method_new :: "'s \<Rightarrow> 's option \<Rightarrow> 'w \<Rightarrow> ('w, 'f, 's) loading" where
  "method_new method_allocator temp w =
     \<lparr>ld_values = \<lparr>vs_parse = \<lparr>ps_alloc = method_allocator, ps_tensors = []\<rparr>, vs_values = [], vs_n_value = 0,
        vs_input_set = [], vs_external = []\<rparr>,
      ld_temp = temp, ld_delegates = [], ld_merged = None, ld_chains = [], ld_chain_idx = 0, ld_instr_idx = 0,
      ld_state = Uninitialized, ld_world = w, ld_log = []\<rparr>"

definition on_values ::
    "('s values_state \<Rightarrow> ((Error + 'a) \<times> 's values_state) result) \<Rightarrow> ('w, 'f, 's) loading \<Rightarrow>
     ((Error + 'a) \<times> ('w, 'f, 's) loading) result" where
  "on_values f m = r_bind (f (ld_values m)) (\<lambda>(res, vs). Ok (res, m\<lparr>ld_values := vs\<rparr>))"

definition method_allocator :: "('w, 'f, 's) loading \<Rightarrow> 's" where
  "method_allocator m = ps_alloc (vs_parse (ld_values m))"

definition put_method_allocator :: "'s \<Rightarrow> ('w, 'f, 's) loading \<Rightarrow> ('w, 'f, 's) loading" where
  "put_method_allocator s m =
     m\<lparr>ld_values := (ld_values m)\<lparr>vs_parse := (vs_parse (ld_values m))\<lparr>ps_alloc := s\<rparr>\<rparr>\<rparr>"

definition record_events :: "('w, 's) delegate_event list \<Rightarrow> ('w, 'f, 's) loading \<Rightarrow> ('w, 'f, 's) loading" where
  "record_events es m = m\<lparr>ld_log := ld_log m @ es\<rparr>"

definition record_frees :: "free_call list \<Rightarrow> ('w, 'f, 's) loading \<Rightarrow> ('w, 'f, 's) loading" where
  "record_frees calls m = record_events (map Freed calls) m"

section \<open>Delegates\<close>

definition get_processed_data :: "program \<Rightarrow> s_delegate \<Rightarrow> freeable_buffer result" where
  "get_processed_data pg d =
     r_bind (unwrap (sdl_processed d)) (\<lambda>processed.
       if spd_location processed = 0 then
         r_bind (get_backend_delegate_data pg (ucast (spd_index processed))) (\<lambda>(data, sz).
           Ok (fb_from_pointer data sz None 0))
       else if spd_location processed = 1 then
         r_bind (unwrap (sdl_id d)) (\<lambda>_.
           load_segment pg \<lparr>si_segment_type = Backend_Segment, si_segment_index = unat (spd_index processed)\<rparr>)
       else Err Internal)"

fun compile_specs_loop :: "s_compile_spec list \<Rightarrow> compile_spec list result" where
  "compile_specs_loop [] = Ok []"
| "compile_specs_loop (c # rest) =
     r_bind (unwrap (scs_key c)) (\<lambda>key.
     r_bind (unwrap (scs_value c)) (\<lambda>v.
     r_bind (compile_specs_loop rest) (\<lambda>specs. Ok (\<lparr>cs_key = key, cs_value = v\<rparr> # specs))))"

definition populate_compile_specs ::
    "'s parser_env \<Rightarrow> s_compile_spec list \<Rightarrow> 's parse_state \<Rightarrow> ((Error + compile_spec list) \<times> 's parse_state) result" where
  "populate_compile_specs env specs st =
     s_bind (checked_alloc (raw_list env 24 (length specs) 8 st)) (\<lambda>_ st. s_lift (compile_specs_loop specs) st)"

text \<open>
  The end of \<^verbatim>\<open>BackendDelegate::init\<close>: the processed data move into the delegate, the backend is
  asked for a handle. When it has none the data are freed; the local variable that held them is
  dropped in any case.
\<close>

definition delegate_call_init ::
    "('w, 's) backend_interface \<Rightarrow> backend_init_context \<Rightarrow> compile_spec list \<Rightarrow> freeable_buffer \<Rightarrow>
     ('w, 'f, 's) loading \<Rightarrow> ((Error + ('w, 's) delegate) \<times> ('w, 'f, 's) loading) result" where
  "delegate_call_init backend ctx specs processed m =
     (let (segment, source) = fb_from_move processed;
          ans = bi_init backend ctx segment specs (method_allocator m) (ld_world m);
          (calls, segment') = (if ia_frees ans then fb_free segment else ([], segment));
          m' = record_frees calls (put_method_allocator (ia_allocator ans) (m\<lparr>ld_world := ia_world ans\<rparr>))
      in case ia_handle ans of
           Panic \<Rightarrow> Panic
         | Err e \<Rightarrow> Ok (Inl e, record_frees (fst (fb_free segment') @ fst (fb_free source)) m')
         | Ok handle \<Rightarrow>
             Ok (Inr \<lparr>dg_segment = segment', dg_backend = backend, dg_handle = handle\<rparr>,
               record_frees (fst (fb_free source)) (record_events [HandleMade backend handle] m')))"

definition delegate_init ::
    "('w, 'f, 's) init_env \<Rightarrow> s_delegate \<Rightarrow> backend_init_context \<Rightarrow> ('w, 'f, 's) loading \<Rightarrow>
     ((Error + ('w, 's) delegate) \<times> ('w, 'f, 's) loading) result" where
  "delegate_init env d ctx m =
     s_bind (s_lift (present (sdl_id d) InvalidProgram) m) (\<lambda>backend_id m.
     s_bind (s_lift (present (get_backend_class backend_id (ie_registry env)) NotFound) m) (\<lambda>backend m.
     let (available, w) = bi_is_available backend (ld_world m) in
     s_bind (s_lift (ensure available NotFound) (m\<lparr>ld_world := w\<rparr>)) (\<lambda>_ m.
     s_bind (s_lift (get_processed_data (pe_program (ie_parser env)) d) m) (\<lambda>processed m.
     r_bind
       (case sdl_compile_specs d of
          None \<Rightarrow> Ok (Inr [], record_events [Loaded processed] m)
        | Some specs \<Rightarrow>
            on_values (on_parse (populate_compile_specs (ie_parser env) specs)) (record_events [Loaded processed] m))
       (\<lambda>(res, m). case res of
            Inl err \<Rightarrow> Ok (Inl err, record_frees (fst (fb_free processed)) m)
          | Inr specs \<Rightarrow> delegate_call_init backend ctx specs processed m)))))"

definition delegate_drop :: "('w, 's) delegate \<Rightarrow> ('w, 'f, 's) loading \<Rightarrow> ('w, 'f, 's) loading" where
  "delegate_drop dg m =
     record_frees (fst (fb_free (dg_segment dg)))
       (record_events [HandleDestroyed (dg_backend dg) (dg_handle dg)]
         (m\<lparr>ld_world := bi_destroy (dg_backend dg) (dg_handle dg) (ld_world m)\<rparr>))"

section \<open>Initialisation\<close>

text \<open>The data map that delegates are given.\<close>

definition choose_data_map ::
    "('w, 'f, 's) init_env \<Rightarrow> named_data_map option \<Rightarrow> ('w, 'f, 's) loading \<Rightarrow>
     ((Error + named_data_map option) \<times> ('w, 'f, 's) loading) result" where
  "choose_data_map env external_data_map m =
     (let oc = pe_overflow_checks (ie_parser env); pte = get_named_data_map (pe_program (ie_parser env))
      in s_bind (s_lift (ensure (is_Ok pte \<or> result_error pte = Some NotFound) InvalidProgram) m) (\<lambda>_ m.
         case (external_data_map, pte) of
           (Some ext, Ok p) \<Rightarrow>
             s_bind (s_lift (merged_load (Some ext) (Some (pte_dyn oc p))) m) (\<lambda>merged m.
             s_bind (on_values (on_parse (\<lambda>st. checked_alloc (raw_instance (ie_parser env) 32 8 st))) m) (\<lambda>_ m.
               Ok (Inr (Some (merged_dyn oc merged)), m\<lparr>ld_merged := Some merged\<rparr>)))
         | (Some ext, _) \<Rightarrow> Ok (Inr (Some ext), m)
         | (None, Ok p) \<Rightarrow> Ok (Inr (Some (pte_dyn oc p)), m)
         | (None, _) \<Rightarrow> Ok (Inr None, m)))"

fun delegates_loop ::
    "('w, 'f, 's) init_env \<Rightarrow> s_plan \<Rightarrow> named_data_map option \<Rightarrow> s_delegate list \<Rightarrow> ('w, 'f, 's) loading \<Rightarrow>
     ((Error + unit) \<times> ('w, 'f, 's) loading) result" where
  "delegates_loop env plan dm [] m = Ok (Inr (), m)"
| "delegates_loop env plan dm (d # rest) m =
     r_bind (unwrap (sp_name plan)) (\<lambda>name.
       let specs = (case (ie_backend_options env, sdl_id d) of
                      (Some options, Some backend_id) \<Rightarrow> get_options (Some backend_id) options
                    | _ \<Rightarrow> []);
           ctx = \<lparr>bic_method_name = name, bic_named_data_map = dm, bic_runtime_specs = specs\<rparr>
       in s_bind (delegate_init env d ctx m) (\<lambda>dg m.
            delegates_loop env plan dm rest (m\<lparr>ld_delegates := ld_delegates m @ [dg]\<rparr>)))"

definition resolve_delegates ::
    "('w, 'f, 's) init_env \<Rightarrow> named_data_map option \<Rightarrow> s_plan \<Rightarrow> ('w, 'f, 's) loading \<Rightarrow>
     ((Error + unit) \<times> ('w, 'f, 's) loading) result" where
  "resolve_delegates env external_data_map plan m =
     s_bind (s_lift (present (sp_delegates plan) InvalidProgram) m) (\<lambda>delegates m.
     s_bind (on_values (on_parse (\<lambda>st.
         checked_alloc (raw_list (ie_parser env) (ie_sizeof_delegate env) (length delegates) 8 st))) m) (\<lambda>_ m.
     s_bind (choose_data_map env external_data_map m) (\<lambda>dm m.
       delegates_loop env plan dm delegates (m\<lparr>ld_delegates := []\<rparr>))))"

text \<open>What the chains are loaded with: the values table that was just parsed.\<close>

definition chain_env :: "('w, 'f, 's) init_env \<Rightarrow> s_plan \<Rightarrow> 's values_state \<Rightarrow> ('f, 's) load_env" where
  "chain_env env plan vs =
     \<lparr>le_alloc = pe_alloc (ie_parser env), le_reset = ie_reset env, le_size = ie_size env,
      le_operators = sp_operators plan, le_kernel_registry = ie_kernel_registry env,
      le_registered_kernels = ie_registered_kernels env, le_n_value = vs_n_value vs,
      le_values = \<lambda>i. the (vs_values vs ! i), le_tensors = \<lambda>t. ps_tensors (vs_parse vs) ! t,
      le_uninit = ie_uninit env, le_sizeof_chain = ie_sizeof_chain env\<rparr>"

definition resolve_chains ::
    "('w, 'f, 's) init_env \<Rightarrow> s_plan \<Rightarrow> ('w, 'f, 's) loading \<Rightarrow> ((Error + unit) \<times> ('w, 'f, 's) loading) result" where
  "resolve_chains env plan m =
     r_bind (load_chains (chain_env env plan (ld_values m)) (sp_chains plan)
              \<lparr>al_method = method_allocator m, al_temp = ld_temp m\<rparr>) (\<lambda>(res, al).
       let m' = put_method_allocator (al_method al) (m\<lparr>ld_temp := al_temp al\<rparr>)
       in case res of
            Inl e \<Rightarrow> Ok (Inl e, m')
          | Inr loaded \<Rightarrow> Ok (Inr (), m'\<lparr>ld_chains := loaded\<rparr>))"

definition method_init ::
    "('w, 'f, 's) init_env \<Rightarrow> named_data_map option \<Rightarrow> s_plan \<Rightarrow> ('w, 'f, 's) loading \<Rightarrow>
     ((Error + unit) \<times> ('w, 'f, 's) loading) result" where
  "method_init env external_data_map plan m =
     s_bind (s_lift (ensure (ld_state m = Uninitialized) InvalidState) m) (\<lambda>_ m.
     s_bind (on_values (parse_values (ie_parser env) external_data_map plan) (m\<lparr>ld_state := InitializationFailed\<rparr>)) (\<lambda>_ m.
     s_bind (resolve_delegates env external_data_map plan m) (\<lambda>_ m.
     s_bind (resolve_chains env plan m) (\<lambda>_ m.
       Ok (Inr (), m\<lparr>ld_chain_idx := 0, ld_instr_idx := 0, ld_state := Initialized\<rparr>)))))"

text \<open>The destructor: values, delegates in order, the buffers of external constants.\<close>

definition method_drop :: "('w, 'f, 's) loading \<Rightarrow> ('w, 'f, 's) loading result" where
  "method_drop m =
     r_bind (drop_values (ld_values m)) (\<lambda>calls. Ok (record_frees calls (fold delegate_drop (ld_delegates m) m)))"

text \<open>
  Loading: without a temporary allocator in the manager one is made in memory of the method
  allocator. The result is the method's temporary allocator, in the manager's state if it has one. A method that fails to initialise is dropped.
\<close>

definition method_load ::
    "('w, 'f, 's) init_env \<Rightarrow> named_data_map option \<Rightarrow> s_plan \<Rightarrow> 's \<Rightarrow> 's option \<Rightarrow> 'w \<Rightarrow>
     ((Error + 's) \<times> ('w, 'f, 's) loading) result" where
  "method_load env external_data_map plan allocator' temp w =
     s_bind
       (case temp of
          Some t \<Rightarrow> Ok (Inr t, method_new allocator' temp w)
        | None \<Rightarrow>
            s_bind (on_values (on_parse (\<lambda>st.
                checked_alloc (raw_instance (ie_parser env) (ie_sizeof_platform_allocator env) 8 st)))
              (method_new allocator' None w)) (\<lambda>_ m. Ok (Inr (ie_platform_allocator env), m)))
       (\<lambda>temp_allocator m.
          r_bind (method_init env external_data_map plan m) (\<lambda>(res, m).
            case res of
              Inl err \<Rightarrow> r_bind (method_drop m) (\<lambda>m. Ok (Inl err, m))
            | Inr _ \<Rightarrow>
                if ld_state m = Initialized
                then Ok (Inr (case ld_temp m of Some t \<Rightarrow> t | None \<Rightarrow> temp_allocator), m) else Panic))"

text \<open>The loaded method as the machine executes it, on memory with the given bytes.\<close>

definition method_of :: "s_plan \<Rightarrow> 's \<Rightarrow> ('w, 'f, 's) loading \<Rightarrow> ('f, 's) method_state" where
  "method_of plan temp_allocator m =
     \<lparr>m_chain_idx = ld_chain_idx m, m_instr_idx = ld_instr_idx m, m_temp_allocator = Some temp_allocator,
      m_inputs = sp_inputs plan, m_outputs = sp_outputs plan, m_n_value = vs_n_value (ld_values m),
      m_input_set = vs_input_set (ld_values m), m_n_delegate = length (ld_delegates m),
      m_chains = ld_chains m, m_operators = sp_operators plan, m_init_state = ld_state m\<rparr>"

definition machine_of :: "('w, 'f, 's) loading \<Rightarrow> bytes \<Rightarrow> machine" where
  "machine_of m mem =
     \<lparr>mc_values = \<lambda>i. the (vs_values (ld_values m) ! i),
      mc_tensors = \<lambda>t. ps_tensors (vs_parse (ld_values m)) ! t, mc_bytes = mem\<rparr>"

text \<open>The method's metadata, looked up again by the name of its plan.\<close>

definition method_meta_of :: "program \<Rightarrow> s_plan \<Rightarrow> s_plan result" where
  "method_meta_of pg plan =
     r_bind (unwrap (sp_name plan)) (\<lambda>name. case method_meta pg (c_string name) of Ok meta \<Rightarrow> Ok meta | _ \<Rightarrow> Panic)"

section \<open>Accounting\<close>

fun handle_made :: "('w, 's) delegate_event \<Rightarrow> (('w, 's) backend_interface \<times> usize) list" where
  "handle_made (HandleMade b h) = [(b, h)]"
| "handle_made _ = []"

fun handle_destroyed :: "('w, 's) delegate_event \<Rightarrow> (('w, 's) backend_interface \<times> usize) list" where
  "handle_destroyed (HandleDestroyed b h) = [(b, h)]"
| "handle_destroyed _ = []"

fun owed_by :: "('w, 's) delegate_event \<Rightarrow> free_call multiset" where
  "owed_by (Loaded b) = owed b"
| "owed_by _ = {#}"

fun freed_by :: "('w, 's) delegate_event \<Rightarrow> free_call multiset" where
  "freed_by (Freed c) = {#c#}"
| "freed_by _ = {#}"

definition handles_made :: "('w, 's) delegate_event list \<Rightarrow> (('w, 's) backend_interface \<times> usize) list" where
  "handles_made es = concat (map handle_made es)"

definition handles_destroyed :: "('w, 's) delegate_event list \<Rightarrow> (('w, 's) backend_interface \<times> usize) list" where
  "handles_destroyed es = concat (map handle_destroyed es)"

definition loaded_owed :: "('w, 's) delegate_event list \<Rightarrow> free_call multiset" where
  "loaded_owed es = sum_list (map owed_by es)"

definition all_freed :: "('w, 's) delegate_event list \<Rightarrow> free_call multiset" where
  "all_freed es = sum_list (map freed_by es)"

lemma freed_log [simp]:
  "concat (map handle_made (map Freed calls)) = []" "concat (map handle_destroyed (map Freed calls)) = []"
  "sum_list (map owed_by (map Freed calls)) = {#}" "sum_list (map freed_by (map Freed calls)) = mset calls"
  by (induction calls) auto

lemma log_simps [simp]:
  "handles_made (es @ fs) = handles_made es @ handles_made fs"
  "handles_destroyed (es @ fs) = handles_destroyed es @ handles_destroyed fs"
  "loaded_owed (es @ fs) = loaded_owed es + loaded_owed fs"
  "all_freed (es @ fs) = all_freed es + all_freed fs"
  "handles_made (e # es) = handle_made e @ handles_made es"
  "handles_destroyed (e # es) = handle_destroyed e @ handles_destroyed es"
  "loaded_owed (e # es) = owed_by e + loaded_owed es"
  "all_freed (e # es) = freed_by e + all_freed es"
  "handles_made [] = []" "handles_destroyed [] = []" "loaded_owed [] = {#}" "all_freed [] = {#}"
  "handles_made (map Freed calls) = []" "handles_destroyed (map Freed calls) = []"
  "loaded_owed (map Freed calls) = {#}" "all_freed (map Freed calls) = mset calls"
  by (simp_all add: handles_made_def handles_destroyed_def loaded_owed_def all_freed_def del: map_map)

lemma record_simps [simp]:
  "ld_log (record_events es m) = ld_log m @ es" "ld_log (record_frees calls m) = ld_log m @ map Freed calls"
  "ld_delegates (record_events es m) = ld_delegates m" "ld_delegates (record_frees calls m) = ld_delegates m"
  "ld_values (record_events es m) = ld_values m" "ld_values (record_frees calls m) = ld_values m"
  "ld_state (record_events es m) = ld_state m" "ld_state (record_frees calls m) = ld_state m"
  "ld_log (put_method_allocator s m) = ld_log m" "ld_delegates (put_method_allocator s m) = ld_delegates m"
  "ld_state (put_method_allocator s m) = ld_state m"
  by (simp_all add: record_events_def record_frees_def put_method_allocator_def)

lemma record_frees_none [simp]: "record_frees [] m = m"
  by (simp add: record_frees_def record_events_def)

text \<open>
  The books of a method that is alive: every handle that was made is that of one of its delegates, in
  their order, none was destroyed, and what has to be freed was freed or belongs to a delegate, but for
  the calls in \<open>extra\<close> that are still to be made.
\<close>

definition accounted :: "free_call multiset \<Rightarrow> ('w, 'f, 's) loading \<Rightarrow> bool" where
  "accounted extra m \<longleftrightarrow>
     handles_made (ld_log m) = map (\<lambda>d. (dg_backend d, dg_handle d)) (ld_delegates m) \<and>
     handles_destroyed (ld_log m) = [] \<and>
     all_freed (ld_log m) + sum_list (map (owed \<circ> dg_segment) (ld_delegates m)) + extra = loaded_owed (ld_log m)"

text \<open>The values table of a method is the same but for the memory that was taken.\<close>

definition same_table :: "('w, 'f, 's) loading \<Rightarrow> ('w, 'f, 's) loading \<Rightarrow> bool" where
  "same_table m m' \<longleftrightarrow>
     (\<exists>s. ld_values m' = (ld_values m)\<lparr>vs_parse := (vs_parse (ld_values m))\<lparr>ps_alloc := s\<rparr>\<rparr>) \<and> ld_state m' = ld_state m"

lemma same_table_refl [simp]: "same_table m m"
  by (auto simp: same_table_def intro!: exI [of _ "ps_alloc (vs_parse (ld_values m))"])

lemma same_table_trans: "same_table m m' \<Longrightarrow> same_table m' m'' \<Longrightarrow> same_table m m''"
  by (auto simp: same_table_def)

lemma same_table_steps [simp]:
  "same_table m0 (record_events es m) = same_table m0 m" "same_table m0 (record_frees calls m) = same_table m0 m"
  "same_table m0 (m\<lparr>ld_world := w\<rparr>) = same_table m0 m" "same_table m0 (m\<lparr>ld_delegates := ds\<rparr>) = same_table m0 m"
  "same_table m0 (m\<lparr>ld_merged := mm\<rparr>) = same_table m0 m" "same_table m0 (m\<lparr>ld_temp := t\<rparr>) = same_table m0 m"
  "same_table m0 (m\<lparr>ld_chains := cs\<rparr>) = same_table m0 m"
  "same_table (record_events es m) m' = same_table m m'" "same_table (m\<lparr>ld_delegates := ds\<rparr>) m' = same_table m m'"
  by (simp_all add: same_table_def)

lemma same_table_put: "same_table m0 m \<Longrightarrow> same_table m0 (put_method_allocator s m)"
  by (auto simp: same_table_def put_method_allocator_def)

lemma s_post_on_values:
  "s_post (\<lambda>x vs. Q x (m\<lparr>ld_values := vs\<rparr>)) (\<lambda>vs. E (m\<lparr>ld_values := vs\<rparr>)) (f (ld_values m)) \<Longrightarrow> s_post Q E (on_values f m)"
  by (cases "f (ld_values m)") (auto simp: on_values_def s_post_def)

text \<open>A step of the parser that only takes memory.\<close>

definition only_allocates :: "('s parse_state \<Rightarrow> ((Error + 'a) \<times> 's parse_state) result) \<Rightarrow> bool" where
  "only_allocates f \<longleftrightarrow> (\<forall>st. s_post (\<lambda>_ st'. \<exists>s. st' = st\<lparr>ps_alloc := s\<rparr>) (\<lambda>st'. \<exists>s. st' = st\<lparr>ps_alloc := s\<rparr>) (f st))"

lemma only_allocates_intros:
  "only_allocates (\<lambda>st. checked_alloc (raw_list env t n a st))"
  "only_allocates (\<lambda>st. checked_alloc (raw_instance env t a st))"
  "only_allocates (populate_compile_specs env specs)"
  by (auto simp: only_allocates_def populate_compile_specs_def raw_list_def raw_instance_def r_bind_Ok_iff)

lemma on_values_allocates:
  assumes "only_allocates f"
  shows "s_post (\<lambda>_ m'. same_table m m' \<and> ld_log m' = ld_log m \<and> ld_delegates m' = ld_delegates m)
    (\<lambda>m'. same_table m m' \<and> ld_log m' = ld_log m \<and> ld_delegates m' = ld_delegates m) (on_values (on_parse f) m)"
proof -
  have "s_post (\<lambda>_ st'. \<exists>s. st' = (vs_parse (ld_values m))\<lparr>ps_alloc := s\<rparr>) (\<lambda>st'. \<exists>s. st' = (vs_parse (ld_values m))\<lparr>ps_alloc := s\<rparr>)
      (f (vs_parse (ld_values m)))"
    using assms by (simp add: only_allocates_def)
  then show ?thesis
    by (intro s_post_on_values s_post_on_parse) (erule s_post_mono, auto simp: same_table_def)
qed

lemma accounted_cong:
  "ld_log m' = ld_log m \<Longrightarrow> ld_delegates m' = ld_delegates m \<Longrightarrow> accounted extra m' = accounted extra m"
  by (simp add: accounted_def)

lemma accounted_steps [simp]:
  "accounted extra (m\<lparr>ld_world := w\<rparr>) = accounted extra m" "accounted extra (m\<lparr>ld_merged := mm\<rparr>) = accounted extra m"
  "accounted extra (m\<lparr>ld_temp := t\<rparr>) = accounted extra m" "accounted extra (m\<lparr>ld_chains := cs\<rparr>) = accounted extra m"
  "accounted extra (m\<lparr>ld_values := vs\<rparr>) = accounted extra m" "accounted extra (m\<lparr>ld_state := st\<rparr>) = accounted extra m"
  "accounted extra (put_method_allocator s m) = accounted extra m"
  by (simp_all add: accounted_def put_method_allocator_def)

lemma accounted_load: "accounted {#} m \<Longrightarrow> accounted (owed b) (record_events [Loaded b] m)"
  by (simp add: accounted_def)

lemma accounted_free: "accounted (mset calls + extra) m \<Longrightarrow> accounted extra (record_frees calls m)"
  by (simp add: accounted_def add_ac)

lemma accounted_handle:
  assumes "accounted (owed segment) m"
  shows "accounted {#} ((record_events [HandleMade b h] m)\<lparr>ld_delegates := ld_delegates m @
    [\<lparr>dg_segment = segment, dg_backend = b, dg_handle = h\<rparr>]\<rparr>)"
  using assms by (simp add: accounted_def add_ac)

lemma fb_free_split: "owed b = mset (fst (fb_free b)) + owed (snd (fb_free b))"
  unfolding owed_free by (simp add: owed_def)

lemma delegate_call_init_post:
  assumes "accounted (owed processed) m" and "same_table m0 m"
  shows "s_post (\<lambda>dg m'. accounted {#} (m'\<lparr>ld_delegates := ld_delegates m' @ [dg]\<rparr>) \<and> same_table m0 m')
    (\<lambda>m'. accounted {#} m' \<and> same_table m0 m') (delegate_call_init backend ctx specs processed m)"
proof -
  obtain segment source where move: "fb_from_move processed = (segment, source)" by (cases "fb_from_move processed")
  define ans where "ans = bi_init backend ctx segment specs (method_allocator m) (ld_world m)"
  obtain calls segment' where freed: "(if ia_frees ans then fb_free segment else ([], segment)) = (calls, segment')"
    by (cases "if ia_frees ans then fb_free segment else ([], segment)")
  have owed: "owed segment = owed processed" "owed source = {#}" using owed_move [of processed] move by simp_all
  have "fst (fb_free source) = []" using owed(2) by (simp add: owed_def)
  have split: "owed segment = mset calls + owed segment'"
  proof (cases "ia_frees ans")
    case True
    then have eq: "fb_free segment = (calls, segment')" using freed by simp
    show ?thesis using fb_free_split [of segment] unfolding eq by simp
  qed (use freed in simp)
  let ?m = "record_frees calls (put_method_allocator (ia_allocator ans) (m\<lparr>ld_world := ia_world ans\<rparr>))"
  have acc: "accounted (owed segment') ?m"
    using assms(1) split owed(1) by (intro accounted_free) simp
  have tbl: "same_table m0 ?m" using assms(2) by (simp add: same_table_put)
  have call: "delegate_call_init backend ctx specs processed m = (case ia_handle ans of
      Panic \<Rightarrow> Panic
    | Err e \<Rightarrow> Ok (Inl e, record_frees (fst (fb_free segment')) ?m)
    | Ok handle \<Rightarrow> Ok (Inr \<lparr>dg_segment = segment', dg_backend = backend, dg_handle = handle\<rparr>,
        record_events [HandleMade backend handle] ?m))"
    by (simp only: delegate_call_init_def move Let_def prod.case ans_def [symmetric] freed
        \<open>fst (fb_free source) = []\<close> append_Nil2 record_frees_none)
  have "accounted {#} (record_frees (fst (fb_free segment')) ?m)"
    by (rule accounted_free) (use acc in \<open>simp add: owed_def\<close>)
  then show ?thesis
    unfolding call using accounted_handle [OF acc] tbl by (cases "ia_handle ans") simp_all
qed

lemma delegate_init_post:
  assumes "accounted {#} m" and "same_table m0 m"
  shows "s_post (\<lambda>dg m'. accounted {#} (m'\<lparr>ld_delegates := ld_delegates m' @ [dg]\<rparr>) \<and> same_table m0 m')
    (\<lambda>m'. accounted {#} m' \<and> same_table m0 m') (delegate_init env d ctx m)"
proof -
  let ?Q = "\<lambda>dg m'. accounted {#} (m'\<lparr>ld_delegates := ld_delegates m' @ [dg]\<rparr>) \<and> same_table m0 m'"
  let ?E = "\<lambda>m'. accounted {#} m' \<and> same_table m0 m'"
  let ?specs = "\<lambda>processed m. case sdl_compile_specs d of
      None \<Rightarrow> Ok (Inr [], record_events [Loaded processed] m)
    | Some specs \<Rightarrow> on_values (on_parse (populate_compile_specs (ie_parser env) specs)) (record_events [Loaded processed] m)"
  have specs: "s_post (\<lambda>_ m'. accounted (owed processed) m' \<and> same_table m0 m')
      (\<lambda>m'. accounted (owed processed) m' \<and> same_table m0 m') (?specs processed m)"
    if "accounted {#} m" "same_table m0 m" for processed m
  proof (cases "sdl_compile_specs d")
    case None
    then show ?thesis using that by (simp add: accounted_load)
  next
    case (Some specs)
    show ?thesis unfolding Some option.case
      by (rule s_post_mono [OF on_values_allocates [OF only_allocates_intros(3)]])
        (use accounted_load [OF that(1), of processed] that(2) in \<open>auto intro: same_table_trans simp: accounted_def\<close>)
  qed
  have start: "s_post ?Q ?E (r_bind (?specs processed m) (\<lambda>(res, m).
      case res of
        Inl err \<Rightarrow> Ok (Inl err, record_frees (fst (fb_free processed)) m)
      | Inr specs \<Rightarrow> delegate_call_init backend ctx specs processed m))"
    if "accounted {#} m" "same_table m0 m" for processed m backend
    unfolding s_post_r_bind
    using specs [OF that, of processed] delegate_call_init_post [of processed _ m0]
    by (auto split: sum.split simp: owed_def intro!: accounted_free)
  show ?thesis
    unfolding delegate_init_def
    by (auto simp: Let_def assms start split: prod.split)
qed

lemma choose_data_map_post:
  assumes "accounted {#} m" and "same_table m0 m"
  shows "s_post (\<lambda>_ m'. accounted {#} m' \<and> same_table m0 m' \<and> ld_delegates m' = ld_delegates m)
    (\<lambda>m'. accounted {#} m' \<and> same_table m0 m') (choose_data_map env ext m)"
proof -
  have alloc: "s_post (\<lambda>_ m'. accounted {#} m' \<and> same_table m0 m' \<and> ld_delegates m' = ld_delegates m)
      (\<lambda>m'. accounted {#} m' \<and> same_table m0 m')
      (on_values (on_parse (\<lambda>st. checked_alloc (raw_instance (ie_parser env) 32 8 st))) m)"
    by (rule s_post_mono [OF on_values_allocates [OF only_allocates_intros(2)]])
      (use assms in \<open>auto intro: same_table_trans simp: accounted_def\<close>)
  show ?thesis unfolding choose_data_map_def
    by (auto simp: Let_def assms split: option.split outcome.split intro!: s_post_mono [OF alloc])
qed

lemma delegates_loop_post:
  assumes "accounted {#} m" and "same_table m0 m"
  shows "s_post (\<lambda>_ m'. accounted {#} m' \<and> same_table m0 m') (\<lambda>m'. accounted {#} m' \<and> same_table m0 m')
    (delegates_loop env plan dm ds m)"
  using assms
proof (induction ds arbitrary: m)
  case (Cons d rest)
  show ?case
    unfolding delegates_loop.simps s_post_r_bind Let_def s_post_bind
    by (intro allI impI, rule s_post_mono [OF delegate_init_post [OF Cons.prems]])
      (simp_all add: Cons.IH)
qed simp

lemma resolve_delegates_post:
  assumes "accounted {#} m" and "same_table m0 m" and "ld_delegates m = []"
  shows "s_post (\<lambda>_ m'. accounted {#} m' \<and> same_table m0 m') (\<lambda>m'. accounted {#} m' \<and> same_table m0 m')
    (resolve_delegates env ext plan m)"
proof -
  have alloc: "s_post (\<lambda>_ m'. accounted {#} m' \<and> same_table m0 m' \<and> ld_delegates m' = [])
      (\<lambda>m'. accounted {#} m' \<and> same_table m0 m')
      (on_values (on_parse (\<lambda>st. checked_alloc (raw_list (ie_parser env) (ie_sizeof_delegate env) n 8 st))) m)" for n
    by (rule s_post_mono [OF on_values_allocates [OF only_allocates_intros(1)]])
      (use assms in \<open>auto intro: same_table_trans simp: accounted_def\<close>)
  have rest: "s_post (\<lambda>_ m'. accounted {#} m' \<and> same_table m0 m') (\<lambda>m'. accounted {#} m' \<and> same_table m0 m')
      (s_bind (choose_data_map env ext m) (\<lambda>dm m. delegates_loop env plan dm ds (m\<lparr>ld_delegates := []\<rparr>)))"
    if "accounted {#} m" "same_table m0 m" "ld_delegates m = []" for m ds
    unfolding s_post_bind
    by (rule s_post_mono [OF choose_data_map_post [OF that(1,2)]], rule delegates_loop_post)
      (use that(3) in \<open>auto simp: accounted_def\<close>)
  show ?thesis
  proof (cases "sp_delegates plan")
    case None
    then show ?thesis using assms by (simp add: resolve_delegates_def present_def)
  next
    case (Some ds)
    show ?thesis unfolding resolve_delegates_def Some present_def option.case s_lift_simps s_bind_simps
      by (subst s_post_bind, rule s_post_mono [OF alloc], rule rest) auto
  qed
qed

section \<open>The whole of the initialisation\<close>

text \<open>What is known of a method when \<^verbatim>\<open>init\<close> succeeds.\<close>

definition table_ready :: "('w, 'f, 's) init_env \<Rightarrow> s_plan \<Rightarrow> ('w, 'f, 's) loading \<Rightarrow> bool" where
  "table_ready env plan m \<longleftrightarrow>
     (\<exists>fv. sp_values plan = Some fv \<and> table_filled fv (length fv) (ld_values m) \<and>
       (values_valid (ie_parser env) fv \<longrightarrow> tensors_ok (vs_parse (ld_values m)))) \<and>
     vs_input_set (ld_values m) = replicate (inputs_of plan) False"

definition method_ready :: "('w, 'f, 's) init_env \<Rightarrow> s_plan \<Rightarrow> ('w, 'f, 's) loading \<Rightarrow> bool" where
  "method_ready env plan m \<longleftrightarrow> table_ready env plan m \<and>
     list_all (chain_valid (vs_n_value (ld_values m))) (ld_chains m) \<and>
     (\<exists>cs. sp_chains plan = Some cs \<and> map ch_instructions (ld_chains m) = map (map_option (map the)) cs) \<and>
     ld_chain_idx m = 0 \<and> ld_instr_idx m = 0 \<and> ld_state m = Initialized"

lemma same_table_filled:
  assumes "same_table m m'"
  shows "table_filled fv k (ld_values m') = table_filled fv k (ld_values m)"
    and "tensors_ok (vs_parse (ld_values m')) = tensors_ok (vs_parse (ld_values m))"
    and "vs_input_set (ld_values m') = vs_input_set (ld_values m)"
    and "vs_n_value (ld_values m') = vs_n_value (ld_values m)"
    and "drop_values (ld_values m') = drop_values (ld_values m)"
  using assms by (auto simp: same_table_def table_filled_def tensors_ok_def drop_values_def)

lemma table_ready_same: "same_table m m' \<Longrightarrow> table_ready env plan m' = table_ready env plan m"
  using same_table_filled [of m m'] by (simp add: table_ready_def)

lemma table_ready_droppable: "table_ready env plan m \<Longrightarrow> drop_values (ld_values m) \<noteq> Panic"
  by (auto simp: table_ready_def table_filled_droppable)

lemma resolve_chains_post:
  assumes "accounted {#} m" and "same_table m0 m"
  shows "s_post (\<lambda>_ m'. accounted {#} m' \<and> same_table m0 m' \<and>
      list_all (chain_valid (vs_n_value (ld_values m))) (ld_chains m') \<and>
      (\<exists>cs. sp_chains plan = Some cs \<and> map ch_instructions (ld_chains m') = map (map_option (map the)) cs))
    (\<lambda>m'. accounted {#} m' \<and> same_table m0 m') (resolve_chains env plan m)"
proof -
  let ?lenv = "chain_env env plan (ld_values m)"
  have n: "le_n_value ?lenv = vs_n_value (ld_values m)" by (simp add: chain_env_def)
  have tbl: "same_table m0 (put_method_allocator s (m\<lparr>ld_temp := t\<rparr>))" for s t
    using assms(2) by (simp add: same_table_put)
  show ?thesis
    unfolding resolve_chains_def s_post_r_bind
    using ok_postD [OF load_chains_post, of ?lenv "sp_chains plan"] assms(1) tbl
    by (auto simp: Let_def n split: sum.split)
qed

lemma method_init_post:
  assumes "ld_delegates m = []" and "ld_log m = []" and "vs_n_value (ld_values m) = 0" and "vs_input_set (ld_values m) = []"
    and "ps_tensors (vs_parse (ld_values m)) = []" and "vs_values (ld_values m) = []" and "ld_state m = Uninitialized"
  shows "s_post (\<lambda>_ m'. accounted {#} m' \<and> method_ready env plan m')
    (\<lambda>m'. accounted {#} m' \<and> drop_values (ld_values m') \<noteq> Panic) (method_init env ext plan m)"
proof -
  have acc: "accounted {#} m" using assms(1,2) by (simp add: accounted_def)
  have drop0: "drop_values (ld_values m) \<noteq> Panic" using assms(3) by (simp add: drop_values_def)
  show ?thesis
  proof (cases "sp_values plan")
    case None
    then show ?thesis using acc drop0 assms(7)
      by (simp add: method_init_def on_values_def parse_values_def present_def ensure_def)
  next
    case (Some fv)
    let ?env = "ie_parser env"
    let ?ready = "\<lambda>m'. accounted {#} m' \<and> method_ready env plan m'"
    let ?failed = "\<lambda>m'. accounted {#} m' \<and> drop_values (ld_values m') \<noteq> Panic"
    let ?done = "\<lambda>m. m\<lparr>ld_chain_idx := 0, ld_instr_idx := 0, ld_state := Initialized\<rparr>"
    have vals: "s_post (\<lambda>_ m'. accounted {#} m' \<and> ld_delegates m' = [] \<and> table_ready env plan m') ?failed
        (on_values (parse_values ?env ext plan) (m\<lparr>ld_state := InitializationFailed\<rparr>))"
      by (rule s_post_on_values, rule s_post_mono [OF parse_values_post [OF Some]])
        (use assms acc Some in \<open>auto simp: table_ready_def\<close>)
    have chains: "s_post (\<lambda>_. ?ready) ?failed (s_bind (resolve_chains env plan m2) (\<lambda>_ m. Ok (Inr (), ?done m)))"
      if m2: "accounted {#} m2" "table_ready env plan m2" for m2
    proof -
      have ready: "?ready (?done m')" if "accounted {#} m' \<and> same_table m2 m' \<and>
          list_all (chain_valid (vs_n_value (ld_values m2))) (ld_chains m') \<and>
          (\<exists>cs. sp_chains plan = Some cs \<and> map ch_instructions (ld_chains m') = map (map_option (map the)) cs)" for m'
        using that m2(2) table_ready_same [of m2 m' env plan] same_table_filled(4) [of m2 m']
        by (auto simp: method_ready_def accounted_def table_ready_def)
      show ?thesis unfolding s_post_bind s_post_simps
        by (rule s_post_mono [OF resolve_chains_post [OF m2(1) same_table_refl]], erule ready)
          (use m2(2) same_table_filled(5) table_ready_droppable in \<open>metis\<close>)
    qed
    have delegates: "s_post (\<lambda>_. ?ready) ?failed
        (s_bind (resolve_delegates env ext plan m1) (\<lambda>_ m. s_bind (resolve_chains env plan m) (\<lambda>_ m. Ok (Inr (), ?done m))))"
      if m1: "accounted {#} m1" "ld_delegates m1 = []" "table_ready env plan m1" for m1
    proof -
      have c: "s_post (\<lambda>_. ?ready) ?failed (s_bind (resolve_chains env plan m') (\<lambda>_ m. Ok (Inr (), ?done m)))"
        if "accounted {#} m' \<and> same_table m1 m'" for m'
        using chains [of m'] that m1(3) table_ready_same [of m1 m'] by blast
      have e: "?failed m'" if "accounted {#} m' \<and> same_table m1 m'" for m'
        using that m1(3) table_ready_same [of m1 m' env plan] table_ready_droppable [of env plan m'] by blast
      show ?thesis
        by (subst s_post_bind) (rule s_post_mono [OF resolve_delegates_post [OF m1(1) same_table_refl m1(2)] c e])
    qed
    then show ?thesis
      unfolding method_init_def assms(7) ensure_def if_True s_lift_simps s_bind_simps simp_thms
      by (subst s_post_bind, rule s_post_mono [OF vals]) (simp_all del: s_post_bind)
  qed
qed


section \<open>Loading and dropping\<close>

lemma fold_drop_log:
  "\<exists>es. ld_log (fold delegate_drop ds m) = ld_log m @ es \<and> handles_made es = [] \<and>
     handles_destroyed es = map (\<lambda>d. (dg_backend d, dg_handle d)) ds \<and> loaded_owed es = {#} \<and>
     all_freed es = sum_list (map (owed \<circ> dg_segment) ds)"
proof (induction ds arbitrary: m)
  case Nil
  then show ?case by simp
next
  case (Cons d ds)
  let ?es = "HandleDestroyed (dg_backend d) (dg_handle d) # map Freed (fst (fb_free (dg_segment d)))"
  have log: "ld_log (delegate_drop d m) = ld_log m @ ?es" by (simp add: delegate_drop_def)
  obtain es where es: "ld_log (fold delegate_drop ds (delegate_drop d m)) = ld_log (delegate_drop d m) @ es"
    "handles_made es = []" "handles_destroyed es = map (\<lambda>d. (dg_backend d, dg_handle d)) ds" "loaded_owed es = {#}"
    "all_freed es = sum_list (map (owed \<circ> dg_segment) ds)"
    using Cons.IH [of "delegate_drop d m"] by blast
  show ?case
    by (rule exI [of _ "?es @ es"]) (simp add: log es owed_def [of "dg_segment d"] comp_def)
qed

text \<open>The books of a method that is gone.\<close>

definition settled :: "('w, 'f, 's) loading \<Rightarrow> bool" where
  "settled m \<longleftrightarrow>
     handles_destroyed (ld_log m) = handles_made (ld_log m) \<and>
     all_freed (ld_log m) = loaded_owed (ld_log m) + sum_list (map (owed \<circ> xc_buffer) (vs_external (ld_values m)))"

lemma fold_drop_values: "ld_values (fold delegate_drop ds m) = ld_values m"
  by (induction ds arbitrary: m) (simp_all add: delegate_drop_def)

lemma mset_external_frees:
  "mset (concat (map (\<lambda>c. fst (fb_free (xc_buffer c))) ext)) = sum_list (map (owed \<circ> xc_buffer) ext)"
  by (induction ext) (simp_all add: owed_def)

lemma method_drop_settles:
  assumes "accounted {#} m" and "drop_values (ld_values m) \<noteq> Panic"
  shows "\<exists>m'. method_drop m = Ok m' \<and> settled m' \<and> (\<exists>es. ld_log m' = ld_log m @ es \<and> handles_made es = [])"
proof -
  obtain es where es: "ld_log (fold delegate_drop (ld_delegates m) m) = ld_log m @ es" "handles_made es = []"
    "handles_destroyed es = map (\<lambda>d. (dg_backend d, dg_handle d)) (ld_delegates m)" "loaded_owed es = {#}"
    "all_freed es = sum_list (map (owed \<circ> dg_segment) (ld_delegates m))"
    using fold_drop_log by blast
  have "drop_values (ld_values m) = Ok (concat (map (\<lambda>c. fst (fb_free (xc_buffer c))) (vs_external (ld_values m))))"
    using assms(2) by (simp add: drop_values_def split: if_splits)
  then show ?thesis using assms(1)
    by (auto simp: method_drop_def settled_def es fold_drop_values mset_external_frees accounted_def)
qed

lemma method_new_init_post:
  "s_post (\<lambda>_ m'. accounted {#} m' \<and> method_ready env plan m')
    (\<lambda>m'. accounted {#} m' \<and> drop_values (ld_values m') \<noteq> Panic) (method_init env ext plan (method_new al temp w))"
  by (rule method_init_post) (simp_all add: method_new_def)

lemma method_load_post:
  "s_post (\<lambda>_ m'. accounted {#} m' \<and> method_ready env plan m') settled (method_load env ext plan al temp w)"
proof -
  let ?fresh = "\<lambda>m :: ('b, 'c, 'a) loading. ld_delegates m = [] \<and> ld_log m = [] \<and> vs_n_value (ld_values m) = 0 \<and> vs_input_set (ld_values m) = [] \<and>
    ps_tensors (vs_parse (ld_values m)) = [] \<and> vs_values (ld_values m) = [] \<and> ld_state m = Uninitialized \<and> vs_external (ld_values m) = []"
  have fresh: "?fresh (method_new al t w)" for t by (simp add: method_new_def)
  have start: "s_post (\<lambda>_. ?fresh) ?fresh (case temp of
      Some t \<Rightarrow> Ok (Inr t, method_new al temp w)
    | None \<Rightarrow> s_bind (on_values (on_parse (\<lambda>st. checked_alloc (raw_instance (ie_parser env) (ie_sizeof_platform_allocator env) 8 st)))
        (method_new al None w)) (\<lambda>_ m. Ok (Inr (ie_platform_allocator env), m)))"
  proof (cases temp)
    case None
    show ?thesis unfolding None option.case s_post_bind s_post_simps
      by (rule s_post_on_values, rule s_post_on_parse)
        (use fresh in \<open>auto dest!: alloc_tensors\<close>)
  qed (simp add: fresh)
  have init: "s_post (\<lambda>_ m'. accounted {#} m' \<and> method_ready env plan m') settled
      (r_bind (method_init env ext plan m) (\<lambda>(res, m). case res of
          Inl err \<Rightarrow> r_bind (method_drop m) (\<lambda>m. Ok (Inl err, m))
        | Inr _ \<Rightarrow> if ld_state m = Initialized then Ok (Inr (case ld_temp m of Some t \<Rightarrow> t | None \<Rightarrow> ta), m) else Panic))"
    if "?fresh m" for m ta
  proof -
    have post: "s_post (\<lambda>_ m'. accounted {#} m' \<and> method_ready env plan m')
        (\<lambda>m'. accounted {#} m' \<and> drop_values (ld_values m') \<noteq> Panic) (method_init env ext plan m)"
      using that by (intro method_init_post) simp_all
    show ?thesis
    proof (cases "method_init env ext plan m")
      case (Ok r)
      obtain res m' where r: "r = (res, m')" by (cases r)
      show ?thesis
      proof (cases res)
        case (Inl e)
        then have "accounted {#} m'" "drop_values (ld_values m') \<noteq> Panic" using post Ok r by simp_all
        from method_drop_settles [OF this] show ?thesis using Ok r Inl by auto
      qed (use post Ok r in simp)
    qed simp_all
  qed
  show ?thesis unfolding method_load_def s_post_bind
    by (rule s_post_mono [OF start], erule init) (simp add: settled_def)
qed

text \<open>
  C7. Loading a method and destroying it releases what was acquired for its delegates. When
  \<^verbatim>\<open>Method::load\<close> fails, at whatever point, every handle that a backend gave out was destroyed, each
  once and in the order they were made, and every free function owed for a delegate's data or an
  external constant was called exactly once. When it succeeds nothing was destroyed yet, and dropping the
  method does all of that: no handle is made any more and every handle is destroyed.
\<close>

theorem load_and_drop_settle:
  assumes "method_load env ext plan al temp w = Ok (res, m)"
  shows "(case res of
      Inl e \<Rightarrow> settled m
    | Inr t \<Rightarrow> handles_destroyed (ld_log m) = [] \<and>
        (\<exists>m' es. method_drop m = Ok m' \<and> settled m' \<and> ld_log m' = ld_log m @ es \<and> handles_made es = []))"
proof (cases res)
  case (Inl e)
  then show ?thesis using method_load_post [of env plan ext al temp w] assms by simp
next
  case (Inr t)
  then have ready: "accounted {#} m" "method_ready env plan m"
    using method_load_post [of env plan ext al temp w] assms by simp_all
  then have "drop_values (ld_values m) \<noteq> Panic" using table_ready_droppable method_ready_def by blast
  from method_drop_settles [OF ready(1) this] show ?thesis using Inr ready(1) by (auto simp: accounted_def)
qed

text \<open>
  C6. A method that was loaded is ready to run: it is initialised and at its start, every slot of the
  values table holds the value that the serialized value describes, its chains are those of the plan with
  all indices in range, and no input is set. With kernels and delegates that return, every kernel
  call resolved, and a name and an overload for the operator of every kernel call (the message for a
  failed kernel unwraps both, and loading accepts operators without an overload), \<^verbatim>\<open>execute\<close> and
  \<^verbatim>\<open>step\<close> return on any memory, with whatever inputs set; and while an input is missing \<^verbatim>\<open>execute\<close>
  refuses to run.
\<close>

theorem loaded_method_ready:
  assumes load: "method_load env ext plan al temp w = Ok (Inr t, m)"
    and "list_all kernels_filled (ld_chains m)" and "list_all (calls_reportable (sp_operators plan)) (ld_chains m)"
    and "callees_return menv"
  defines "meth \<equiv> method_of plan t m"
  shows "initialized meth \<and> \<not> in_progress meth \<and>
    (\<exists>fv. sp_values plan = Some fv \<and> m_n_value meth = length fv \<and>
      (\<forall>i < length fv. \<exists>e. vs_values (ld_values m) ! i = Some e \<and> mc_values (machine_of m mem) i = e \<and>
        value_of (length fv) (length (ps_tensors (vs_parse (ld_values m)))) (fv ! i) e)) \<and>
    list_all (chain_valid (m_n_value meth)) (m_chains meth) \<and>
    map ch_instructions (m_chains meth) = map (map_option (map the)) (the (sp_chains plan)) \<and>
    is_Ok (execute menv (meth\<lparr>m_input_set := flags\<rparr>) mc) \<and> is_Ok (step menv (meth\<lparr>m_input_set := flags\<rparr>) mc) \<and>
    (0 < inputs_of plan \<longrightarrow> execute menv meth mc = Ok (InvalidArgument, meth, mc))"
proof -
  have ready: "method_ready env plan m"
    using method_load_post [of env plan ext al temp w] load by simp
  then obtain fv where fv: "sp_values plan = Some fv" "table_filled fv (length fv) (ld_values m)"
    by (auto simp: method_ready_def table_ready_def)
  have chains: "list_all (chain_valid (m_n_value meth)) (m_chains meth)"
    using ready by (simp add: method_ready_def meth_def method_of_def)
  then have sound: "method_sound (meth\<lparr>m_input_set := flags\<rparr>)"
    using assms(2,3) by (auto simp: method_sound_def method_valid_def list_all_iff meth_def method_of_def)
  have start: "initialized meth" "\<not> in_progress meth" "m_chain_idx meth = 0"
    using ready by (simp_all add: method_ready_def initialized_def in_progress_def meth_def method_of_def)
  have "execute menv meth mc = Ok (InvalidArgument, meth, mc)" if "0 < inputs_of plan"
  proof -
    have "inputs_size meth = inputs_of plan" "m_input_set meth = replicate (inputs_of plan) False"
      using ready by (simp_all add: inputs_size_def inputs_of_def meth_def method_of_def method_ready_def table_ready_def)
    then show ?thesis using start(1,2) that by (auto simp: execute_def execute_with_def)
  qed
  moreover have "\<exists>e. vs_values (ld_values m) ! i = Some e \<and> mc_values (machine_of m mem) i = e \<and>
      value_of (length fv) (length (ps_tensors (vs_parse (ld_values m)))) (fv ! i) e" if "i < length fv" for i
    using fv(2) that by (auto simp: table_filled_def machine_of_def)
  moreover have "m_n_value meth = length fv" using fv(2) by (simp add: table_filled_def meth_def method_of_def)
  moreover have "map ch_instructions (m_chains meth) = map (map_option (map the)) (the (sp_chains plan))"
    using ready by (auto simp: method_ready_def meth_def method_of_def)
  ultimately show ?thesis
    using fv(1) start chains sound_execute_returns [OF sound assms(4)] sound_step_returns [OF sound assms(4)]
    by auto
qed

text \<open>
  A delegate without processed data aborts the program instead of failing to load, although a
  delegate without an id, or with data at an unknown place, is reported: the accessor's answer is unwrapped.
\<close>

theorem missing_processed_data_aborts:
  assumes "get_backend_class backend_id (ie_registry env) = Some backend"
    and "sdl_id d = Some backend_id"
  shows "(sdl_processed d = None \<and> fst (bi_is_available backend (ld_world m)) \<longrightarrow> delegate_init env d ctx m = Panic) \<and>
    (\<forall>p. sdl_processed d = Some p \<and> spd_location p \<notin> {0, 1} \<and> fst (bi_is_available backend (ld_world m)) \<longrightarrow>
      (\<exists>m'. delegate_init env d ctx m = Ok (Inl Internal, m'))) \<and>
    delegate_init env (d\<lparr>sdl_id := None\<rparr>) ctx m = Ok (Inl InvalidProgram, m)"
  using assms
  by (cases "bi_is_available backend (ld_world m)")
    (auto simp: delegate_init_def present_def ensure_def get_processed_data_def unwrap_def split: option.splits)

section \<open>An example\<close>

definition example_delegate :: s_delegate where
  "example_delegate = \<lparr>sdl_id = Some ''a'', sdl_processed = Some \<lparr>spd_location = 0, spd_index = 0\<rparr>,
     sdl_compile_specs = Some [\<lparr>scs_key = Some ''k'', scs_value = Some (0x100, 4)\<rparr>]\<rparr>"

definition example_delegate_plan :: s_plan where
  "example_delegate_plan = empty_s_plan\<lparr>sp_name := Some ''forward'', sp_values := Some [SV_Int (Some 3)], sp_inputs := Some [0],
     sp_delegates := Some [example_delegate], sp_chains := Some [Some [Some (DelegateCall 0 (Some [0]))]]\<rparr>"

definition example_init_env :: "(nat, unit, unit) init_env" where
  "example_init_env =
     \<lparr>ie_parser = example_parser_env True None,
      ie_registry = [\<lparr>be_name = ''a'', be_backend = Some (example_backend 7)\<rparr>], ie_backend_options = None,
      ie_reset = id, ie_size = \<lambda>_. 0, ie_kernel_registry = [], ie_registered_kernels = [], ie_uninit = None,
      ie_sizeof_delegate = 64, ie_sizeof_chain = 48, ie_sizeof_platform_allocator = 16, ie_platform_allocator = ()\<rparr>"

lemma example_plan_fields:
  "sp_name example_delegate_plan = Some ''forward''" "sp_values example_delegate_plan = Some [SV_Int (Some 3)]"
  "sp_inputs example_delegate_plan = Some [0]" "sp_delegates example_delegate_plan = Some [example_delegate]"
  "sp_chains example_delegate_plan = Some [Some [Some (DelegateCall 0 (Some [0]))]]"
  by (simp_all add: example_delegate_plan_def)

lemma example_parser_fields:
  "pe_overflow_checks (example_parser_env oc h) = oc" "pe_program (example_parser_env oc h) = example_program_state"
  by (simp_all add: example_parser_env_def)

lemma example_env_fields:
  "ie_parser example_init_env = example_parser_env True None" "ie_backend_options example_init_env = None"
  "get_backend_class ''a'' (ie_registry example_init_env) = Some (example_backend 7)"
  "ie_sizeof_delegate example_init_env = 64"
  by (simp_all add: example_init_env_def c_string_def)

lemma example_backend_fields:
  "bi_is_available (example_backend h) w = (True, w)"
  "bi_init (example_backend h) ctx b specs s w = \<lparr>ia_handle = Ok h, ia_frees = True, ia_allocator = s, ia_world = Suc w\<rparr>"
  by (simp_all add: example_backend_def)

lemma example_processed: "get_processed_data example_program_state example_delegate = Ok (fb_from_pointer 0x900 4 None 0)"
  by (simp add: get_processed_data_def example_delegate_def unwrap_def get_backend_delegate_data_def example_program_state_def
      program_new_def example_program_def)

definition example_values_state :: "unit values_state" where
  "example_values_state = \<lparr>vs_parse = \<lparr>ps_alloc = (), ps_tensors = []\<rparr>, vs_values = [Some (E_Int 3)], vs_n_value = 1,
     vs_input_set = [False], vs_external = []\<rparr>"

lemma example_parse_values:
  "parse_values (example_parser_env True None) None example_delegate_plan
     \<lparr>vs_parse = \<lparr>ps_alloc = (), ps_tensors = []\<rparr>, vs_values = [], vs_n_value = 0, vs_input_set = [], vs_external = []\<rparr> =
   Ok (Inr (), example_values_state)"
  by (simp add: parse_values_def present_def example_plan_fields allocate_tables_def on_parse_def raw_list_def example_raw
      example_sizes checked_alloc_def parse_constants_def sv_absent_def parse_value_def unwrap_def example_values_state_def)

lemma example_chains:
  "load_chains (chain_env example_init_env example_delegate_plan example_values_state) (sp_chains example_delegate_plan)
     \<lparr>al_method = (), al_temp = Some ()\<rparr> =
   Ok (Inr [\<lparr>ch_instructions = Some [DelegateCall 0 (Some [0])], ch_argument_lists = [[0]], ch_kernels = [None]\<rparr>],
     \<lparr>al_method = (), al_temp = Some ()\<rparr>)"
  by (simp add: chain_env_def example_env_fields example_plan_fields load_chains_def load_chain_def load_instruction_def
      arguments_step_def gen_instruction_arguments_def example_raw as_usize_def example_values_state_def Let_def
      example_init_env_def)

lemma example_specs:
  "populate_compile_specs (example_parser_env oc h) [\<lparr>scs_key = Some k, scs_value = Some v\<rparr>] \<lparr>ps_alloc = (), ps_tensors = ts\<rparr> =
   Ok (Inr [\<lparr>cs_key = k, cs_value = v\<rparr>], \<lparr>ps_alloc = (), ps_tensors = ts\<rparr>)"
  by (simp add: populate_compile_specs_def raw_list_def example_raw checked_alloc_def unwrap_def)

lemma example_loads:
  "\<exists>m. method_load example_init_env None example_delegate_plan () (Some ()) 0 = Ok (Inr (), m) \<and>
     ld_chains m = [\<lparr>ch_instructions = Some [DelegateCall 0 (Some [0])], ch_argument_lists = [[0]], ch_kernels = [None]\<rparr>] \<and>
     handles_made (ld_log m) = [(example_backend 7, 7)] \<and> handles_destroyed (ld_log m) = []"
proof -
  have "pg_pte_data_map example_program_state = None"
    by (simp add: example_program_state_def program_new_def)
  then have map: "choose_data_map example_init_env None m = Ok (Inr None, m)" for m :: "(nat, unit, unit) loading"
    by (simp add: choose_data_map_def example_env_fields example_parser_fields get_named_data_map_def ensure_def)
  have d: "sdl_id example_delegate = Some ''a''"
    "sdl_compile_specs example_delegate = Some [\<lparr>scs_key = Some ''k'', scs_value = Some (0x100, 4)\<rparr>]"
    by (simp_all add: example_delegate_def)
  note chains = example_chains [unfolded example_values_state_def One_nat_def]
  have call: "delegate_call_init (example_backend 7) ctx specs (fb_from_pointer 0x900 4 None 0) m =
      Ok (Inr \<lparr>dg_segment = (fb_from_pointer 0 0 None 0), dg_backend = example_backend 7, dg_handle = 7\<rparr>,
        record_events [HandleMade (example_backend 7) 7] (put_method_allocator () (m\<lparr>ld_world := Suc (ld_world m)\<rparr>)))"
    for ctx specs and m :: "(nat, unit, unit) loading"
    by (simp add: delegate_call_init_def fb_from_move_def fb_from_pointer_def Let_def example_backend_fields fb_free_def)
  show ?thesis
    by (simp add: method_load_def method_new_def method_init_def ensure_def on_values_def example_env_fields example_parse_values
        resolve_delegates_def present_def example_plan_fields(1,4) on_parse_def raw_list_def example_raw checked_alloc_def map
        unwrap_def Let_def delegate_init_def d example_backend_fields(1) example_parser_fields example_processed example_specs
        example_values_state_def call record_events_def put_method_allocator_def resolve_chains_def chains method_allocator_def)
qed

theorem load_and_drop_settle_witness:
  "\<exists>m m'. method_load example_init_env None example_delegate_plan () (Some ()) 0 = Ok (Inr (), m) \<and>
     handles_destroyed (ld_log m) = [] \<and> method_drop m = Ok m' \<and>
     handles_destroyed (ld_log m') = [(example_backend 7, 7)]"
proof -
  obtain m where m: "method_load example_init_env None example_delegate_plan () (Some ()) 0 = Ok (Inr (), m)"
    "handles_made (ld_log m) = [(example_backend 7, 7)]" "handles_destroyed (ld_log m) = []"
    using example_loads by blast
  from load_and_drop_settle [OF m(1)] show ?thesis
    using m by (auto simp: settled_def)
qed

theorem loaded_method_ready_witness:
  "\<exists>m. method_load example_init_env None example_delegate_plan () (Some ()) 0 = Ok (Inr (), m) \<and>
     is_Ok (execute example_env ((method_of example_delegate_plan () m)\<lparr>m_input_set := [True]\<rparr>) example_machine) \<and>
     execute example_env (method_of example_delegate_plan () m) example_machine =
       Ok (InvalidArgument, method_of example_delegate_plan () m, example_machine)"
proof -
  obtain m where m: "method_load example_init_env None example_delegate_plan () (Some ()) 0 = Ok (Inr (), m)"
    "ld_chains m = [\<lparr>ch_instructions = Some [DelegateCall 0 (Some [0])], ch_argument_lists = [[0]], ch_kernels = [None]\<rparr>]"
    using example_loads by blast
  have "list_all kernels_filled (ld_chains m)" by (simp add: m(2) kernels_filled_def)
  moreover have "list_all (calls_reportable (sp_operators example_delegate_plan)) (ld_chains m)"
    by (simp add: m(2) calls_reportable_def)
  moreover have "callees_return example_env" by (simp add: callees_return_def example_env_def)
  moreover have "0 < inputs_of example_delegate_plan" by (simp add: inputs_of_def example_plan_fields)
  ultimately show ?thesis using m(1) loaded_method_ready [OF m(1), of example_env _ "[True]" example_machine] by blast
qed

theorem missing_processed_data_aborts_witness:
  "delegate_init example_init_env (example_delegate\<lparr>sdl_processed := None\<rparr>) ctx (method_new () None 0) = Panic"
  using missing_processed_data_aborts [of "''a''" example_init_env "example_backend 7" "example_delegate\<lparr>sdl_processed := None\<rparr>"
      "method_new () None 0" ctx]
  by (simp add: example_env_fields example_backend_fields example_delegate_def)

end
