(* ===== verification/Tensor_Checks.thy ===== *)
theory Tensor_Checks
  imports Tensor_Util
begin

text \<open>
  The checks and index computations that kernels share: \<^verbatim>\<open>runtime/core/exec_aten/util/tensor_util.rs\<close>,
  with \<^verbatim>\<open>kernels/portable/cpu/util/delinearize_index.rs\<close>. A check that fails logs and returns false;
  one that asks for a dimension that does not exist aborts. Multiplications and additions of \<^verbatim>\<open>usize\<close> are those
  of the build (\<open>oc\<close>), except where the code checks them.
\<close>

section \<open>Dimensions and types\<close>

definition et_normalize_ix :: "int \<Rightarrow> int \<Rightarrow> int" where
  "et_normalize_ix ix upper_bound = (if ix < 0 then ix + upper_bound else ix)"

definition dim_is_valid :: "int \<Rightarrow> int \<Rightarrow> bool" where
  "dim_is_valid dim upper_bound \<longleftrightarrow> - upper_bound \<le> dim \<and> dim < upper_bound"

definition nonzero_dim :: "tensor_impl \<Rightarrow> int" where
  "nonzero_dim t = (if tensor_dim t = 0 then 1 else tensor_dim t)"

definition nonempty_size :: "tensor_impl \<Rightarrow> int \<Rightarrow> int result" where
  "nonempty_size t dim = (if tensor_dim t = 0 then Ok 1 else tensor_size t dim)"

definition tensor_can_cast_to :: "tensor_impl \<Rightarrow> ScalarType \<Rightarrow> bool" where
  "tensor_can_cast_to a dtype = can_cast (tensor_scalar_type a) dtype"

definition tensor_is_bool_type :: "tensor_impl \<Rightarrow> bool" where
  "tensor_is_bool_type t \<longleftrightarrow> tensor_scalar_type t = Bool"

definition tensor_is_type1 :: "tensor_impl \<Rightarrow> ScalarType \<Rightarrow> bool" where
  "tensor_is_type1 t dtype \<longleftrightarrow> tensor_scalar_type t = dtype"

definition tensor_is_type2 :: "tensor_impl \<Rightarrow> ScalarType \<Rightarrow> ScalarType \<Rightarrow> bool" where
  "tensor_is_type2 t dtype dtype2 \<longleftrightarrow> tensor_scalar_type t = dtype \<or> tensor_scalar_type t = dtype2"

definition tensor_is_type :: "tensor_impl \<Rightarrow> ScalarType \<Rightarrow> ScalarType \<Rightarrow> ScalarType \<Rightarrow> bool" where
  "tensor_is_type t dtype dtype2 dtype3 \<longleftrightarrow>
     tensor_scalar_type t = dtype \<or> tensor_scalar_type t = dtype2 \<or> tensor_scalar_type t = dtype3"

definition tensor_is_integral_type :: "tensor_impl \<Rightarrow> bool \<Rightarrow> bool" where
  "tensor_is_integral_type t include_bool = is_integral_type (tensor_scalar_type t) include_bool"

definition tensor_is_floating_type :: "tensor_impl \<Rightarrow> bool" where
  "tensor_is_floating_type t = is_floating_type (tensor_scalar_type t)"

definition tensor_is_real_type :: "tensor_impl \<Rightarrow> bool" where
  "tensor_is_real_type t = is_real_type (tensor_scalar_type t)"

definition tensor_is_realh_type :: "tensor_impl \<Rightarrow> bool" where
  "tensor_is_realh_type t = is_real_h_type (tensor_scalar_type t)"

definition tensor_is_realhbf16_type :: "tensor_impl \<Rightarrow> bool" where
  "tensor_is_realhbf16_type t = is_real_hbf16_type (tensor_scalar_type t)"

definition tensor_is_realhb_type :: "tensor_impl \<Rightarrow> bool" where
  "tensor_is_realhb_type t = is_real_hb_type (tensor_scalar_type t)"

definition tensor_is_realhbbf16_type :: "tensor_impl \<Rightarrow> bool" where
  "tensor_is_realhbbf16_type t = is_real_hbbf16_type (tensor_scalar_type t)"

definition tensor_is_complex_type :: "tensor_impl \<Rightarrow> bool" where
  "tensor_is_complex_type t = is_complex_type (tensor_scalar_type t)"

definition tensor_is_bits_type :: "tensor_impl \<Rightarrow> bool" where
  "tensor_is_bits_type t = is_bits_type (tensor_scalar_type t)"

definition tensors_have_same_dtype2 :: "tensor_impl \<Rightarrow> tensor_impl \<Rightarrow> bool" where
  "tensors_have_same_dtype2 a b \<longleftrightarrow> tensor_scalar_type a = tensor_scalar_type b"

definition tensors_have_same_dtype :: "tensor_impl \<Rightarrow> tensor_impl \<Rightarrow> tensor_impl \<Rightarrow> bool" where
  "tensors_have_same_dtype a b c \<longleftrightarrow>
     tensor_scalar_type a = tensor_scalar_type b \<and> tensor_scalar_type b = tensor_scalar_type c"

definition tensor_is_rank :: "tensor_impl \<Rightarrow> nat \<Rightarrow> bool" where
  "tensor_is_rank t rank \<longleftrightarrow> nat (tensor_dim t) = rank"

definition tensor_has_rank_greater_or_equal_to :: "tensor_impl \<Rightarrow> nat \<Rightarrow> bool" where
  "tensor_has_rank_greater_or_equal_to t rank \<longleftrightarrow> rank \<le> nat (tensor_dim t)"

definition tensor_has_rank_smaller_or_equal_to :: "tensor_impl \<Rightarrow> nat \<Rightarrow> bool" where
  "tensor_has_rank_smaller_or_equal_to t rank \<longleftrightarrow> nat (tensor_dim t) \<le> rank"

definition tensor_has_dim :: "tensor_impl \<Rightarrow> int \<Rightarrow> bool" where
  "tensor_has_dim t d \<longleftrightarrow>
     (if tensor_dim t = 0 then d = 0 \<or> d = -1
      else if 0 < d then d < tensor_dim t else 0 \<le> tensor_dim t + d)"

definition tensor_has_non_empty_dim :: "tensor_impl \<Rightarrow> int \<Rightarrow> bool result" where
  "tensor_has_non_empty_dim t d =
     (let udim = et_normalize_ix d (tensor_dim t)
      in if \<not> tensor_has_dim t d then Ok False
         else r_bind (tensor_size t udim) (\<lambda>s. Ok (s \<noteq> 0)))"

definition tensor_dim_has_index :: "tensor_impl \<Rightarrow> int \<Rightarrow> int \<Rightarrow> bool result" where
  "tensor_dim_has_index t d ix =
     (if \<not> tensor_dim t \<noteq> 0 then Panic
      else let d = (if d < 0 then d + tensor_dim t else d)
      in if \<not> (0 \<le> d \<and> d < tensor_dim t) then Panic
         else r_bind (tensor_size t d) (\<lambda>s. Ok (- s \<le> ix \<and> ix < s)))"

definition tensors_have_same_size_at_dims :: "tensor_impl \<Rightarrow> nat \<Rightarrow> tensor_impl \<Rightarrow> nat \<Rightarrow> bool result" where
  "tensors_have_same_size_at_dims a dim_a b dim_b =
     (if \<not> dim_a < nat (tensor_dim a) then Ok False
      else if \<not> dim_b < nat (tensor_dim b) then Ok False
      else r_bind (tensor_size a (int dim_a)) (\<lambda>x. r_bind (tensor_size b (int dim_b)) (\<lambda>y. Ok (x = y))))"

definition tensors_have_same_shape2 :: "tensor_impl \<Rightarrow> tensor_impl \<Rightarrow> bool" where
  "tensors_have_same_shape2 a b \<longleftrightarrow>
     (if tensor_numel a = 1 \<and> tensor_numel b = 1 then True
      else tensor_sizes a = tensor_sizes b \<and> tensor_numel a = tensor_numel b)"

definition tensors_have_same_shape :: "tensor_impl \<Rightarrow> tensor_impl \<Rightarrow> tensor_impl \<Rightarrow> bool" where
  "tensors_have_same_shape a b c \<longleftrightarrow>
     (if tensor_numel a = 1 \<and> tensor_numel b = 1 \<and> tensor_numel c = 1 then True
      else (tensor_sizes a = tensor_sizes b \<and> tensor_numel a = tensor_numel b) \<and>
           (tensor_sizes b = tensor_sizes c \<and> tensor_numel b = tensor_numel c))"

definition tensors_have_same_shape_and_dtype2 :: "tensor_impl \<Rightarrow> tensor_impl \<Rightarrow> bool" where
  "tensors_have_same_shape_and_dtype2 a b \<longleftrightarrow> tensors_have_same_shape2 a b \<and> tensors_have_same_dtype2 a b"

definition tensors_have_same_shape_and_dtype :: "tensor_impl \<Rightarrow> tensor_impl \<Rightarrow> tensor_impl \<Rightarrow> bool" where
  "tensors_have_same_shape_and_dtype a b c \<longleftrightarrow> tensors_have_same_shape a b c \<and> tensors_have_same_dtype a b c"

definition tensor_has_expected_size :: "tensor_impl \<Rightarrow> int list \<Rightarrow> bool" where
  "tensor_has_expected_size a expected_sizes \<longleftrightarrow> tensor_sizes a = expected_sizes"

definition tensors_have_same_strides2 :: "tensor_impl \<Rightarrow> tensor_impl \<Rightarrow> bool" where
  "tensors_have_same_strides2 a b \<longleftrightarrow> tensor_strides a = tensor_strides b"

definition tensors_have_same_strides :: "tensor_impl \<Rightarrow> tensor_impl \<Rightarrow> tensor_impl \<Rightarrow> bool" where
  "tensors_have_same_strides a b c \<longleftrightarrow> tensor_strides a = tensor_strides b \<and> tensor_strides b = tensor_strides c"

text \<open>The loop over the dimensions from the last, \<open>i\<close> counts down to one.\<close>

fun contiguous_strides_loop :: "bool \<Rightarrow> int list \<Rightarrow> int list \<Rightarrow> nat \<Rightarrow> bool result" where
  "contiguous_strides_loop oc strides sizes 0 = Ok True"
| "contiguous_strides_loop oc strides sizes (Suc i) =
     r_bind (i32_mul oc (strides ! Suc i) (sizes ! Suc i)) (\<lambda>p.
       if strides ! i \<noteq> p then Ok False else contiguous_strides_loop oc strides sizes i)"

definition tensor_is_contiguous :: "bool \<Rightarrow> tensor_impl \<Rightarrow> bool result" where
  "tensor_is_contiguous oc t =
     (let strides = tensor_strides t; sizes = tensor_sizes t
      in if length strides = 0 then Ok True
         else if strides ! (length strides - 1) \<noteq> 1 then Ok False
         else contiguous_strides_loop oc strides sizes (length strides - 1))"

definition tensors_have_same_rank :: "tensor_impl \<Rightarrow> tensor_impl \<Rightarrow> bool" where
  "tensors_have_same_rank a b \<longleftrightarrow> tensor_dim a = tensor_dim b"

definition tensor_is_scalar :: "tensor_impl \<Rightarrow> bool" where
  "tensor_is_scalar t \<longleftrightarrow> tensor_dim t = 0 \<and> tensor_numel t = 1"

section \<open>Indices\<close>

fun dims_product :: "int list \<Rightarrow> usize \<Rightarrow> usize result" where
  "dims_product [] dims = Ok dims"
| "dims_product (s # rest) dims =
     (case checked_mul dims (word_of_int s) of None \<Rightarrow> Panic | Some next_dims \<Rightarrow> dims_product rest next_dims)"

definition getLeadingDims :: "tensor_impl \<Rightarrow> int \<Rightarrow> usize result" where
  "getLeadingDims t dim =
     (if \<not> (0 \<le> dim \<and> dim \<le> tensor_dim t) then Panic
      else dims_product (take (nat dim) (tensor_sizes t)) 1)"

definition getTrailingDims :: "tensor_impl \<Rightarrow> int \<Rightarrow> usize result" where
  "getTrailingDims t dim =
     (if \<not> (-1 \<le> dim \<and> dim < tensor_dim t) then Panic
      else dims_product (drop (nat (dim + 1)) (tensor_sizes t)) 1)"

fun coordinate_loop :: "bool \<Rightarrow> tensor_impl \<Rightarrow> usize list \<Rightarrow> nat list \<Rightarrow> usize \<Rightarrow> usize result" where
  "coordinate_loop oc t coordinate [] index = Ok index"
| "coordinate_loop oc t coordinate (d # ds) index =
     r_bind (getTrailingDims t (int d)) (\<lambda>trailing.
     r_bind (umul oc (coordinate ! d) trailing) (\<lambda>p.
     r_bind (uadd oc index p) (\<lambda>index. coordinate_loop oc t coordinate ds index)))"

definition coordinateToIndex :: "bool \<Rightarrow> tensor_impl \<Rightarrow> usize list \<Rightarrow> usize result" where
  "coordinateToIndex oc t coordinate = coordinate_loop oc t coordinate [0..<nat (tensor_dim t)] 0"

fun memoize_loop :: "bool \<Rightarrow> int list \<Rightarrow> usize \<Rightarrow> usize list \<Rightarrow> usize list result" where
  "memoize_loop oc [] dims memo = Ok memo"
| "memoize_loop oc (s # rest) dims memo =
     r_bind (umul oc dims (word_of_int s)) (\<lambda>dims'. memoize_loop oc rest dims' (dims # memo))"

definition memoizeTrailingDims :: "bool \<Rightarrow> tensor_impl \<Rightarrow> usize list result" where
  "memoizeTrailingDims oc t = memoize_loop oc (rev (tensor_sizes t)) 1 []"

fun coordinate_memo_loop :: "bool \<Rightarrow> usize list \<Rightarrow> usize list \<Rightarrow> nat list \<Rightarrow> usize \<Rightarrow> usize result" where
  "coordinate_memo_loop oc coordinate memo [] index = Ok index"
| "coordinate_memo_loop oc coordinate memo (d # ds) index =
     r_bind (umul oc (coordinate ! d) (memo ! d)) (\<lambda>p.
     r_bind (uadd oc index p) (\<lambda>index. coordinate_memo_loop oc coordinate memo ds index))"

definition coordinateToIndexWithTrailingDimsMemo :: "bool \<Rightarrow> tensor_impl \<Rightarrow> usize list \<Rightarrow> usize list \<Rightarrow> usize result" where
  "coordinateToIndexWithTrailingDimsMemo oc t coordinate trailing_dims_memo =
     coordinate_memo_loop oc coordinate trailing_dims_memo [0..<nat (tensor_dim t)] 0"

text \<open>The digits of an index, from the last dimension; a size of zero is a division by zero.\<close>

fun delinearize_loop :: "int list \<Rightarrow> usize \<Rightarrow> usize list \<Rightarrow> usize list result" where
  "delinearize_loop [] index coordinate = Ok coordinate"
| "delinearize_loop (s # rest) index coordinate =
     (let dim_size = word_of_int s
      in if dim_size = 0 then Panic
         else delinearize_loop rest (index div dim_size) (index mod dim_size # coordinate))"

definition indexToCoordinate :: "tensor_impl \<Rightarrow> usize \<Rightarrow> usize list result" where
  "indexToCoordinate t index =
     (if \<not> index < word_of_int (tensor_numel t) then Panic else delinearize_loop (rev (tensor_sizes t)) index [])"

definition delinearize_index :: "usize \<Rightarrow> int list \<Rightarrow> nat \<Rightarrow> usize list result" where
  "delinearize_index linear_index shape out_indexes_len =
     (if \<not> length shape \<le> out_indexes_len then Panic else delinearize_loop (rev shape) linear_index [])"

section \<open>Values of one element\<close>

text \<open>Little-endian integers in memory, unsigned or in two's complement.\<close>

definition unsigned_at :: "bytes \<Rightarrow> usize \<Rightarrow> nat \<Rightarrow> int" where
  "unsigned_at mem p n = foldr (\<lambda>b v. uint b + 256 * v) (bytes_at mem p n) 0"

definition signed_at :: "bytes \<Rightarrow> usize \<Rightarrow> nat \<Rightarrow> int" where
  "signed_at mem p n =
     (let v = unsigned_at mem p n in if v < 2 ^ (8 * n - 1) then v else v - 2 ^ (8 * n))"

text \<open>A refusal is \<open>None\<close>; \<open>lowest\<close> and \<open>highest\<close> are the bounds of the target type.\<close>

definition extract_scalar_tensor_int :: "int \<Rightarrow> int \<Rightarrow> tensor_impl \<Rightarrow> bytes \<Rightarrow> int option" where
  "extract_scalar_tensor_int lowest highest t mem =
     (if tensor_numel t \<noteq> 1 then None
      else let in_range = (\<lambda>val. if val < lowest \<or> highest < val then None else Some val)
      in case tensor_scalar_type t of
           Byte \<Rightarrow> in_range (unsigned_at mem (ti_data t) 1)
         | Char \<Rightarrow> in_range (signed_at mem (ti_data t) 1)
         | Short \<Rightarrow> in_range (signed_at mem (ti_data t) 2)
         | Int_t \<Rightarrow> in_range (signed_at mem (ti_data t) 4)
         | Long \<Rightarrow> in_range (signed_at mem (ti_data t) 8)
         | _ \<Rightarrow> None)"

text \<open>A byte that is neither zero nor one is no \<^verbatim>\<open>bool\<close>.\<close>

definition extract_scalar_tensor_bool :: "tensor_impl \<Rightarrow> bytes \<Rightarrow> bool option result" where
  "extract_scalar_tensor_bool t mem =
     (if tensor_scalar_type t \<noteq> Bool then Ok None
      else if tensor_numel t \<noteq> 1 then Ok None
      else let b = mem (ti_data t)
      in if b = 0 then Ok (Some False) else if b = 1 then Ok (Some True) else Panic)"

section \<open>Resizing\<close>

definition resize_tensor_same_type ::
    "bool \<Rightarrow> tensor_id \<Rightarrow> int list \<Rightarrow> tensor_store \<Rightarrow> (Error \<times> tensor_store) result" where
  "resize_tensor_same_type oc t new_sizes st = resize_tensor_impl oc t new_sizes st"

definition resize_tensor ::
    "bool \<Rightarrow> tensor_id \<Rightarrow> int list \<Rightarrow> tensor_store \<Rightarrow> (Error \<times> tensor_store) result" where
  "resize_tensor oc t new_sizes st =
     (if \<not> length new_sizes \<le> K_TENSOR_DIMENSION_LIMIT then Ok (InvalidArgument, st)
      else resize_tensor_impl oc t (map wrap_i32 new_sizes) st)"

definition resize_or_abort :: "bool \<Rightarrow> tensor_id \<Rightarrow> int list \<Rightarrow> tensor_store \<Rightarrow> tensor_store result" where
  "resize_or_abort oc t new_sizes st =
     r_bind (resize_tensor_same_type oc t new_sizes st) (\<lambda>(err, st'). if err = Error_Ok then Ok st' else Panic)"

definition tensors_have_same_dim_order2 :: "tensor_impl \<Rightarrow> tensor_impl \<Rightarrow> bool" where
  "tensors_have_same_dim_order2 a b = tensors_have_same_dim_order [a, b]"

definition tensors_have_same_dim_order3 :: "tensor_impl \<Rightarrow> tensor_impl \<Rightarrow> tensor_impl \<Rightarrow> bool" where
  "tensors_have_same_dim_order3 a b c = tensors_have_same_dim_order [a, b, c]"

definition tensors_have_same_dim_order4 :: "tensor_impl \<Rightarrow> tensor_impl \<Rightarrow> tensor_impl \<Rightarrow> tensor_impl \<Rightarrow> bool" where
  "tensors_have_same_dim_order4 a b c d = tensors_have_same_dim_order [a, b, c, d]"

text \<open>Each product of a coordinate and a stride is one of 32-bit integers, extended before it is added.\<close>

fun calculate_linear_index :: "bool \<Rightarrow> int list \<Rightarrow> int list \<Rightarrow> nat \<Rightarrow> usize \<Rightarrow> usize result" where
  "calculate_linear_index oc coordinate strides 0 index = Ok index"
| "calculate_linear_index oc coordinate strides (Suc ndim) index =
     r_bind (i32_mul oc (hd coordinate) (hd strides)) (\<lambda>p.
     r_bind (uadd oc index (word_of_int p)) (\<lambda>index.
       calculate_linear_index oc (tl coordinate) (tl strides) ndim index))"

section \<open>Coordinates and indices\<close>

lemma mixed_snoc: "length xs = length ss \<Longrightarrow> mixed (xs @ [x]) (ss @ [s]) = mixed xs ss * s + x"
  by (induction xs ss rule: list_induct2) (simp_all add: algebra_simps)

lemma uint_size: "0 \<le> s \<Longrightarrow> s < 2 ^ 63 \<Longrightarrow> uint (word_of_int s :: usize) = s"
  by (rule uint_word_of_int_63)

lemma usize_mult_exact:
  fixes a b :: usize
  assumes "uint a * uint b < 2 ^ 63"
  shows "unat a * unat b < 2 ^ 64" and "uint (a * b) = uint a * uint b"
    and "(umul oc a b :: usize result) = Ok (a * b)" and "checked_mul a b = Some (a * b)"
proof -
  have "int (unat a * unat b) < int (2 ^ 64)" using assms by simp
  then show lt: "unat a * unat b < 2 ^ 64" by (simp only: of_nat_less_iff)
  show "uint (a * b) = uint a * uint b" using assms by (simp add: uint_word_ariths)
  show "(umul oc a b :: usize result) = Ok (a * b)" "checked_mul a b = Some (a * b)" using lt by (simp_all add: umul_exact)
qed

lemma usize_add_exact:
  fixes a b :: usize
  assumes "uint a + uint b < 2 ^ 63"
  shows "uint (a + b) = uint a + uint b" and "(uadd oc a b :: usize result) = Ok (a + b)"
proof -
  have "int (unat a + unat b) < int (2 ^ 64)" using assms by simp
  then have "unat a + unat b < 2 ^ 64" by (simp only: of_nat_less_iff)
  then show "(uadd oc a b :: usize result) = Ok (a + b)" by (simp add: uadd_def)
  show "uint (a + b) = uint a + uint b" using assms by (simp add: uint_word_ariths)
qed

lemma prod_list_pos: "\<forall>s \<in> set ss. 1 \<le> s \<Longrightarrow> 1 \<le> prod_list ss" for ss :: "int list"
proof (induction ss)
  case (Cons s ss)
  then show ?case using mult_mono [of 1 s 1 "prod_list ss"] by simp
qed simp

lemma delinearize_loop_correct:
  assumes "\<forall>s \<in> set ss. 1 \<le> s \<and> s < 2 ^ 63"
  shows "\<exists>c. delinearize_loop (rev ss) index acc = Ok (c @ acc) \<and> digits (map uint c) ss \<and>
    mixed (map uint c) ss = uint index mod prod_list ss"
  using assms
proof (induction ss arbitrary: index acc rule: rev_induct)
  case Nil
  then show ?case by simp
next
  case (snoc s ss)
  have s: "1 \<le> s" "uint (word_of_int s :: usize) = s" using snoc.prems uint_size [of s] by simp_all
  then have nz: "(word_of_int s :: usize) \<noteq> 0" by (metis not_one_le_zero uint_0_iff)
  let ?d = "word_of_int s :: usize"
  obtain c where c: "delinearize_loop (rev ss) (index div ?d) (index mod ?d # acc) = Ok (c @ (index mod ?d # acc))"
    "digits (map uint c) ss" "mixed (map uint c) ss = uint (index div ?d) mod prod_list ss"
    using snoc.IH [of "index div ?d" "index mod ?d # acc"] snoc.prems by auto
  have len: "length (map uint c) = length ss" using c(2) by (rule list_all2_lengthD)
  have div_mod: "uint (index div ?d) = uint index div s" "uint (index mod ?d) = uint index mod s"
    using s(2) by (simp_all add: uint_div uint_mod)
  have "mixed (map uint (c @ [index mod ?d])) (ss @ [s]) = uint index mod (s * prod_list ss)"
    using mixed_snoc [OF len, of "uint (index mod ?d)" s] c(3) prod_list_pos [of ss] snoc.prems
      zmod_zmult2_eq [of "prod_list ss" "uint index" s]
    by (simp add: div_mod mult.commute)
  moreover have "digits (map uint (c @ [index mod ?d])) (ss @ [s])"
    using c(2) s by (auto simp: div_mod intro!: list_all2_appendI)
  moreover have "delinearize_loop (rev (ss @ [s])) index acc = Ok ((c @ [index mod ?d]) @ acc)"
    using c(1) nz by (simp add: Let_def)
  ultimately show ?case by (intro exI [of _ "c @ [index mod ?d]"]) (simp add: mult.commute)
qed

lemma digits_pos: "digits xs ss \<Longrightarrow> \<forall>s \<in> set ss. 1 \<le> s"
  by (induction rule: list_all2_induct) auto

lemma digits_delinearize:
  assumes "\<forall>s \<in> set ss. 1 \<le> s \<and> s < 2 ^ 63" and "0 \<le> mixed xs ss" and "digits xs ss" and "uint index = mixed xs ss"
  shows "\<exists>c. delinearize_loop (rev ss) index [] = Ok c \<and> map uint c = xs"
proof -
  obtain c where c: "delinearize_loop (rev ss) index [] = Ok c" "digits (map uint c) ss"
    "mixed (map uint c) ss = uint index mod prod_list ss"
    using delinearize_loop_correct [OF assms(1), of index "[]"] by auto
  have "mixed xs ss < prod_list ss" using mixed_range [OF assms(3)] by simp
  then have "mixed (map uint c) ss = mixed xs ss" using c(3) assms(2,4) by simp
  then show ?thesis using mixed_inject [OF c(2) assms(3)] c(1) by blast
qed

lemma dims_product_correct:
  assumes "\<forall>s \<in> set ss. 1 \<le> s \<and> s < 2 ^ 63" and "1 \<le> uint dims" and "uint dims * prod_list ss < 2 ^ 63"
  shows "\<exists>r. dims_product ss dims = Ok r \<and> uint r = uint dims * prod_list ss"
  using assms
proof (induction ss arbitrary: dims)
  case (Cons s ss)
  let ?d = "word_of_int s :: usize"
  have s: "1 \<le> s" "uint ?d = s" using Cons.prems(1) uint_size [of s] by simp_all
  have p: "1 \<le> prod_list ss" using prod_list_pos [of ss] Cons.prems(1) by simp
  have "uint dims * s * 1 \<le> uint dims * s * prod_list ss"
    using p s(1) Cons.prems(2) by (intro mult_left_mono) auto
  then have le: "uint dims * s < 2 ^ 63" using Cons.prems(3) by (simp add: mult.assoc)
  note exact = usize_mult_exact [of dims ?d, unfolded s(2), OF le]
  have "1 \<le> uint dims * s" using Cons.prems(2) s(1) mult_mono [of 1 "uint dims" 1 s] by simp
  then show ?case
    using Cons.IH [of "dims * ?d"] Cons.prems exact(2) by (simp add: exact(4) mult.assoc)
qed simp

lemma memoize_loop_correct:
  assumes "\<forall>s \<in> set ss. 1 \<le> s \<and> s < 2 ^ 63" and "1 \<le> uint dims" and "uint dims * prod_list ss < 2 ^ 63"
  shows "\<exists>m. memoize_loop oc (rev ss) dims memo = Ok (m @ memo) \<and> length m = length ss \<and>
    (\<forall>d < length ss. uint (m ! d) = uint dims * prod_list (drop (Suc d) ss))"
  using assms
proof (induction ss arbitrary: dims memo rule: rev_induct)
  case (snoc s ss)
  let ?d = "word_of_int s :: usize"
  have s: "1 \<le> s" "uint ?d = s" using snoc.prems(1) uint_size [of s] by simp_all
  have p: "1 \<le> prod_list ss" using prod_list_pos [of ss] snoc.prems(1) by simp
  have "uint dims * s * 1 \<le> uint dims * s * prod_list ss"
    using p s(1) snoc.prems(2) by (intro mult_left_mono) auto
  then have le: "uint dims * s < 2 ^ 63" using snoc.prems(3) by (simp add: mult.assoc mult.commute [of s])
  note exact = usize_mult_exact [of dims ?d, unfolded s(2), OF le]
  have "1 \<le> uint dims * s" using snoc.prems(2) s(1) mult_mono [of 1 "uint dims" 1 s] by simp
  then obtain m where m: "memoize_loop oc (rev ss) (dims * ?d) (dims # memo) = Ok (m @ dims # memo)" "length m = length ss"
    "\<forall>d < length ss. uint (m ! d) = uint dims * s * prod_list (drop (Suc d) ss)"
    using snoc.IH [of "dims * ?d" "dims # memo"] snoc.prems exact(2) by (auto simp: mult.assoc mult.commute [of s])
  with exact(3) show ?case
    by (intro exI [of _ "m @ [dims]"]) (auto simp: nth_append less_Suc_eq mult_ac)
qed simp

lemma mixed_drop:
  "i < length ss \<Longrightarrow> length xs = length ss \<Longrightarrow>
   mixed (drop i xs) (drop i ss) = xs ! i * prod_list (drop (Suc i) ss) + mixed (drop (Suc i) xs) (drop (Suc i) ss)"
  by (simp add: Cons_nth_drop_Suc [symmetric])

lemma digits_drop: "digits xs ss \<Longrightarrow> digits (drop i xs) (drop i ss)"
  by (rule list_all2_dropI)

text \<open>One step of either loop: a digit times its trailing dims is added.\<close>

lemma coordinate_step:
  fixes c :: "usize list" and m index :: usize
  assumes "digits (map uint c) ss" and "i < length ss" and "uint m = prod_list (drop (Suc i) ss)"
    and "uint index + mixed (drop i (map uint c)) (drop i ss) < 2 ^ 63"
  shows "(umul oc (c ! i) m :: usize result) = Ok (c ! i * m)"
    and "(uadd oc index (c ! i * m) :: usize result) = Ok (index + c ! i * m)"
    and "uint (index + c ! i * m) + mixed (drop (Suc i) (map uint c)) (drop (Suc i) ss) =
      uint index + mixed (drop i (map uint c)) (drop i ss)"
proof -
  have len: "length c = length ss" using list_all2_lengthD [OF assms(1)] by simp
  have split: "mixed (drop i (map uint c)) (drop i ss) =
      uint (c ! i) * uint m + mixed (drop (Suc i) (map uint c)) (drop (Suc i) ss)"
    using mixed_drop [of i ss "map uint c"] assms(2,3) len by simp
  have rest: "0 \<le> mixed (drop (Suc i) (map uint c)) (drop (Suc i) ss)"
    using mixed_range [OF digits_drop [OF assms(1), of "Suc i"]] by simp
  have le: "uint index + uint (c ! i) * uint m < 2 ^ 63" using assms(4) split rest by linarith
  have prod: "uint (c ! i) * uint m < 2 ^ 63" using le uint_ge_0 [of index] by linarith
  show "(umul oc (c ! i) m :: usize result) = Ok (c ! i * m)" by (rule usize_mult_exact [OF prod])
  have le': "uint index + uint (c ! i * m) < 2 ^ 63" using le usize_mult_exact(2) [OF prod] by simp
  show "(uadd oc index (c ! i * m) :: usize result) = Ok (index + c ! i * m)" by (rule usize_add_exact [OF le'])
  have "uint (index + c ! i * m) = uint index + uint (c ! i) * uint m"
    using usize_add_exact(1) [OF le'] usize_mult_exact(2) [OF prod] by simp
  then show "uint (index + c ! i * m) + mixed (drop (Suc i) (map uint c)) (drop (Suc i) ss) =
      uint index + mixed (drop i (map uint c)) (drop i ss)"
    using split by simp
qed

lemma coordinate_memo_loop_correct:
  fixes c memo :: "usize list" and index :: usize
  assumes "digits (map uint c) ss" and "\<forall>d < length ss. uint (memo ! d) = prod_list (drop (Suc d) ss)"
    and "uint index + mixed (drop i (map uint c)) (drop i ss) < 2 ^ 63" and "i \<le> length ss"
  shows "\<exists>r. coordinate_memo_loop oc c memo [i..<length ss] index = Ok r \<and>
    uint r = uint index + mixed (drop i (map uint c)) (drop i ss)"
  using assms(3,4)
proof (induction "length ss - i" arbitrary: i index)
  case 0
  then show ?case using list_all2_lengthD [OF assms(1)] by simp
next
  case (Suc n)
  then have i: "i < length ss" and upt: "[i..<length ss] = i # [Suc i..<length ss]" by (simp_all add: upt_conv_Cons)
  note step = coordinate_step [OF assms(1) i assms(2) [rule_format, OF i] Suc.prems(1)]
  show ?case
    using Suc.hyps(1) [of "Suc i" "index + c ! i * memo ! i"] Suc.hyps(2) Suc.prems step i by (auto simp: upt)
qed

lemma coordinate_loop_correct:
  fixes c :: "usize list" and index :: usize
  assumes "digits (map uint c) ss" and "\<forall>d < length ss. \<exists>m. getTrailingDims t (int d) = Ok m \<and> uint m = prod_list (drop (Suc d) ss)"
    and "uint index + mixed (drop i (map uint c)) (drop i ss) < 2 ^ 63" and "i \<le> length ss"
  shows "\<exists>r. coordinate_loop oc t c [i..<length ss] index = Ok r \<and>
    uint r = uint index + mixed (drop i (map uint c)) (drop i ss)"
  using assms(3,4)
proof (induction "length ss - i" arbitrary: i index)
  case 0
  then show ?case using list_all2_lengthD [OF assms(1)] by simp
next
  case (Suc n)
  then have i: "i < length ss" and upt: "[i..<length ss] = i # [Suc i..<length ss]" by (simp_all add: upt_conv_Cons)
  obtain m where m: "getTrailingDims t (int i) = Ok m" "uint m = prod_list (drop (Suc i) ss)"
    using assms(2) i by blast
  note step = coordinate_step [OF assms(1) i m(2) Suc.prems(1)]
  show ?case
    using Suc.hyps(1) [of "Suc i" "index + c ! i * m"] Suc.hyps(2) Suc.prems step i m(1) by (auto simp: upt)
qed

lemma le_mult_int: "1 \<le> x \<Longrightarrow> 0 \<le> p \<Longrightarrow> p \<le> x * p" for x p :: int
  using mult_right_mono [of 1 x p] by linarith

text \<open>The sizes of a tensor that has an element are positive and their product fits.\<close>

lemma tensor_with_element:
  assumes "tensor_inv t" and "tensor_numel t \<noteq> 0"
  obtains ss where "tensor_sizes t = ss" and "nat (tensor_dim t) = length ss" and "0 \<le> tensor_dim t"
    and "\<forall>s \<in> set ss. 1 \<le> s \<and> s < 2 ^ 63" and "tensor_numel t = prod_list ss" and "prod_list ss < 2 ^ 63"
proof -
  obtain ss where ss: "ti_sizes t = Some ss" "length ss = nat (ti_dim t)" "numel_fits ss" "ti_numel t = prod_list ss"
    using assms(1) by (auto simp: tensor_inv_def)
  have nz: "prod_list ss \<noteq> 0" using assms(2) ss(4) by (simp add: tensor_numel_def)
  have nonneg: "\<forall>s \<in> set ss. 0 \<le> s" using ss(3) by (simp add: numel_fits_def numel_fits_from_def)
  then have pos: "\<forall>s \<in> set ss. 1 \<le> s" using nz by (auto simp: prod_list_zero_iff int_one_le_iff_zero_less order_less_le)
  have small: "prod_list ss < 2 ^ 63" using numel_fits_range [OF ss(3)] by simp
  have le: "s \<le> prod_list xs" if "s \<in> set xs" "\<forall>s \<in> set xs. 1 \<le> s" for s and xs :: "int list"
    using that
  proof (induction xs)
    case (Cons x xs)
    then have "1 \<le> prod_list xs" and "1 \<le> x" using prod_list_pos [of xs] by simp_all
    moreover have "s = x \<or> s \<le> prod_list xs" using Cons by auto
    ultimately have "s \<le> x * prod_list xs"
      using le_mult_int [of x "prod_list xs"] le_mult_int [of "prod_list xs" x] mult.commute [of x "prod_list xs"]
      by linarith
    then show ?case by (simp only: prod_list.Cons)
  qed simp
  have "\<forall>s \<in> set ss. 1 \<le> s \<and> s < 2 ^ 63" using le pos small by fastforce
  then show thesis using that [of ss] ss small assms(1)
    by (simp add: tensor_sizes_def tensor_dim_def tensor_numel_def tensor_inv_def)
qed

lemma trailing_dims:
  assumes "tensor_sizes t = ss" and "nat (tensor_dim t) = length ss" and "0 \<le> tensor_dim t"
    and "\<forall>s \<in> set ss. 1 \<le> s \<and> s < 2 ^ 63" and "prod_list ss < 2 ^ 63" and "d < length ss"
  shows "\<exists>m. getTrailingDims t (int d) = Ok m \<and> uint m = prod_list (drop (Suc d) ss)"
proof -
  have "prod_list ss = prod_list (take (Suc d) ss) * prod_list (drop (Suc d) ss)"
    by (metis append_take_drop_id prod_list.append)
  moreover have "1 \<le> prod_list (take (Suc d) ss)" "1 \<le> prod_list (drop (Suc d) ss)"
    using assms(4) by (auto intro!: prod_list_pos dest: in_set_takeD in_set_dropD)
  ultimately have "prod_list (drop (Suc d) ss) < 2 ^ 63"
    using le_mult_int [of "prod_list (take (Suc d) ss)" "prod_list (drop (Suc d) ss)"]
      assms(5) by linarith
  then have "\<exists>m. dims_product (drop (Suc d) ss) 1 = Ok m \<and> uint m = prod_list (drop (Suc d) ss)"
    using dims_product_correct [of "drop (Suc d) ss" 1] assms(4) by (auto dest: in_set_dropD)
  then show ?thesis using assms by (simp add: getTrailingDims_def nat_add_distrib)
qed

lemma coordinate_to_index:
  assumes "tensor_sizes t = ss" and "nat (tensor_dim t) = length ss" and "0 \<le> tensor_dim t"
    and "\<forall>s \<in> set ss. 1 \<le> s \<and> s < 2 ^ 63" and "prod_list ss < 2 ^ 63" and "digits (map uint c) ss"
  shows "\<exists>index. uint index = mixed (map uint c) ss \<and> coordinateToIndex oc t c = Ok index \<and>
    r_bind (memoizeTrailingDims oc t) (coordinateToIndexWithTrailingDimsMemo oc t c) = Ok index"
proof -
  have small: "uint (0 :: usize) + mixed (drop 0 (map uint c)) (drop 0 ss) < 2 ^ 63"
    using mixed_range [OF assms(6)] assms(5) by simp
  have trailing: "\<forall>d < length ss. \<exists>m. getTrailingDims t (int d) = Ok m \<and> uint m = prod_list (drop (Suc d) ss)"
    using trailing_dims [OF assms(1-5)] by simp
  obtain index where index: "coordinateToIndex oc t c = Ok index" "uint index = mixed (map uint c) ss"
    using coordinate_loop_correct [OF assms(6) trailing small] assms(2) by (auto simp: coordinateToIndex_def)
  obtain memo where memo: "memoizeTrailingDims oc t = Ok memo" "\<forall>d < length ss. uint (memo ! d) = prod_list (drop (Suc d) ss)"
    using memoize_loop_correct [OF assms(4), of 1 oc "[]"] assms(1,5) by (auto simp: memoizeTrailingDims_def)
  obtain i where i: "coordinateToIndexWithTrailingDimsMemo oc t c memo = Ok i" "uint i = mixed (map uint c) ss"
    using coordinate_memo_loop_correct [OF assms(6) memo(2) small] assms(2)
    by (auto simp: coordinateToIndexWithTrailingDimsMemo_def)
  then have "i = index" using index(2) by (metis word_uint_eq_iff)
  then show ?thesis using index memo(1) i(1) by auto
qed

text \<open>C20. Over the elements of a tensor, \<^verbatim>\<open>indexToCoordinate\<close> and \<^verbatim>\<open>coordinateToIndex\<close> are
  inverse to each other: every index below the element count has a coordinate within the sizes that maps back to
  it, and every coordinate within the sizes has an index below the element count that maps back to it. The
  faster variant that memoizes the trailing dims computes the same index, and no overflow check of any of them
  is reached.
\<close>
theorem coordinates_round_trip:
  assumes "tensor_inv t"
  shows "(\<forall>index. uint index < tensor_numel t \<longrightarrow>
      (\<exists>c. indexToCoordinate t index = Ok c \<and> digits (map uint c) (tensor_sizes t) \<and>
         coordinateToIndex oc t c = Ok index \<and>
         r_bind (memoizeTrailingDims oc t) (coordinateToIndexWithTrailingDimsMemo oc t c) = Ok index)) \<and>
    (\<forall>c. digits (map uint c) (tensor_sizes t) \<longrightarrow>
      (\<exists>index. coordinateToIndex oc t c = Ok index \<and> uint index < tensor_numel t \<and>
         indexToCoordinate t index = Ok c))"
proof -
  have map_uint: "map uint c = map uint c' \<Longrightarrow> c = c'" for c c' :: "usize list"
    by (rule map_injective) (auto intro: injI simp: word_uint_eq_iff)
  have "\<forall>index. uint index < tensor_numel t \<longrightarrow>
      (\<exists>c. indexToCoordinate t index = Ok c \<and> digits (map uint c) (tensor_sizes t) \<and>
         coordinateToIndex oc t c = Ok index \<and>
         r_bind (memoizeTrailingDims oc t) (coordinateToIndexWithTrailingDimsMemo oc t c) = Ok index)"
  proof (intro allI impI)
    fix index :: usize assume lt: "uint index < tensor_numel t"
    then have "tensor_numel t \<noteq> 0" using uint_ge_0 [of index] by linarith
    then obtain ss where ss: "tensor_sizes t = ss" "nat (tensor_dim t) = length ss" "0 \<le> tensor_dim t"
      "\<forall>s \<in> set ss. 1 \<le> s \<and> s < 2 ^ 63" "tensor_numel t = prod_list ss" "prod_list ss < 2 ^ 63"
      using tensor_with_element [OF assms] by metis
    obtain c where c: "delinearize_loop (rev ss) index [] = Ok c" "digits (map uint c) ss"
      "mixed (map uint c) ss = uint index"
      using delinearize_loop_correct [OF ss(4), of index "[]"] lt ss(5) by auto
    obtain i where "uint i = mixed (map uint c) ss" "coordinateToIndex oc t c = Ok i"
      "r_bind (memoizeTrailingDims oc t) (coordinateToIndexWithTrailingDimsMemo oc t c) = Ok i"
      using coordinate_to_index [OF ss(1-4,6) c(2)] by metis
    moreover have "index < word_of_int (tensor_numel t)"
      using lt ss(5,6) uint_size [of "prod_list ss"] prod_list_pos [of ss] ss(4) by (simp add: word_less_def)
    ultimately show "\<exists>c. indexToCoordinate t index = Ok c \<and> digits (map uint c) (tensor_sizes t) \<and>
         coordinateToIndex oc t c = Ok index \<and>
         r_bind (memoizeTrailingDims oc t) (coordinateToIndexWithTrailingDimsMemo oc t c) = Ok index"
      using c ss(1) by (auto simp: indexToCoordinate_def word_uint_eq_iff)
  qed
  moreover have "\<forall>c. digits (map uint c) (tensor_sizes t) \<longrightarrow>
      (\<exists>index. coordinateToIndex oc t c = Ok index \<and> uint index < tensor_numel t \<and>
         indexToCoordinate t index = Ok c)"
  proof (intro allI impI)
    fix c :: "usize list" assume digits: "digits (map uint c) (tensor_sizes t)"
    have "tensor_numel t = prod_list (tensor_sizes t)"
      using assms by (auto simp: tensor_inv_def tensor_numel_def tensor_sizes_def)
    then have "tensor_numel t \<noteq> 0" using prod_list_pos [OF digits_pos [OF digits]] by simp
    then obtain ss where ss: "tensor_sizes t = ss" "nat (tensor_dim t) = length ss" "0 \<le> tensor_dim t"
      "\<forall>s \<in> set ss. 1 \<le> s \<and> s < 2 ^ 63" "tensor_numel t = prod_list ss" "prod_list ss < 2 ^ 63"
      using tensor_with_element [OF assms] by metis
    have d: "digits (map uint c) ss" using digits ss(1) by simp
    obtain i where i: "uint i = mixed (map uint c) ss" "coordinateToIndex oc t c = Ok i"
      using coordinate_to_index [OF ss(1-4,6) d] by metis
    have lt: "uint i < tensor_numel t" using mixed_range [OF d] i(1) ss(5) by simp
    then have "i < word_of_int (tensor_numel t)"
      using ss(5,6) uint_size [of "prod_list ss"] prod_list_pos [of ss] ss(4) by (simp add: word_less_def)
    then have "indexToCoordinate t i = Ok c"
      using digits_delinearize [OF ss(4) _ d i(1)] mixed_range [OF d] map_uint ss(1)
      by (auto simp: indexToCoordinate_def)
    then show "\<exists>index. coordinateToIndex oc t c = Ok index \<and> uint index < tensor_numel t \<and>
         indexToCoordinate t index = Ok c"
      using i(2) lt by blast
  qed
  ultimately show ?thesis ..
qed

theorem coordinates_round_trip_witness:
  "tensor_inv example_tensor \<and>
   (\<exists>c. indexToCoordinate example_tensor 23 = Ok c \<and> digits (map uint c) [2, 3, 4] \<and>
      coordinateToIndex True example_tensor c = Ok 23) \<and>
   (\<exists>index. coordinateToIndex True example_tensor [1, 2, 3] = Ok index \<and> uint index < 24 \<and>
      indexToCoordinate example_tensor index = Ok [1, 2, 3])"
proof (intro conjI)
  show "tensor_inv example_tensor" by (rule example_tensor_inv)
  have e: "tensor_numel example_tensor = 24" "tensor_sizes example_tensor = [2, 3, 4]"
    by (simp_all add: example_tensor_def tensor_numel_def tensor_sizes_def)
  note trip = coordinates_round_trip [OF example_tensor_inv, of True, unfolded e]
  show "\<exists>c. indexToCoordinate example_tensor 23 = Ok c \<and> digits (map uint c) [2, 3, 4] \<and>
      coordinateToIndex True example_tensor c = Ok 23"
    using trip [THEN conjunct1, rule_format, of 23] by auto
  show "\<exists>index. coordinateToIndex True example_tensor [1, 2, 3] = Ok index \<and> uint index < 24 \<and>
      indexToCoordinate example_tensor index = Ok [1, 2, 3]"
    using trip [THEN conjunct2, rule_format, of "[1, 2, 3]"] by simp
qed

section \<open>Contiguity\<close>

text \<open>The strides of the default dim order, as \<^const>\<open>stride_loop\<close> computes them when no size is zero.\<close>

lemma stride_loop_default:
  assumes "stride_loop oc xs d i s = Ok s'" and "\<forall>k \<le> i. unat (d ! k) = k" and "i < length s"
    and "\<forall>k \<le> i. xs ! k \<noteq> 0"
  shows "length s' = length s \<and> (\<forall>k \<ge> i. s' ! k = s ! k) \<and>
    (\<forall>k < i. (i32_mul oc (s' ! Suc k) (xs ! Suc k) :: int result) = Ok (s' ! k))"
  using assms
proof (induction i arbitrary: s)
  case (Suc i)
  obtain v where v: "(i32_mul oc (s ! Suc i) (xs ! Suc i) :: int result) = Ok v" "stride_loop oc xs d i (s[i := v]) = Ok s'"
    using Suc.prems by (auto simp: Let_def r_bind_Ok_iff)
  then have "length s' = length s \<and> (\<forall>k \<ge> i. s' ! k = s[i := v] ! k) \<and>
    (\<forall>k < i. (i32_mul oc (s' ! Suc k) (xs ! Suc k) :: int result) = Ok (s' ! k))"
    using Suc.IH [of "s[i := v]"] Suc.prems by simp
  then show ?case using v(1) Suc.prems(3) by (auto simp: less_Suc_eq nth_list_update Suc_le_eq)
qed simp

lemma contiguous_strides_loop_correct:
  assumes "\<forall>k < i. (i32_mul oc (s' ! Suc k) (xs ! Suc k) :: int result) = Ok (s' ! k)" and "st ! i = s' ! i"
  shows "contiguous_strides_loop oc st xs i = Ok (\<forall>k < i. st ! k = s' ! k)"
  using assms
proof (induction i)
  case (Suc i)
  then have "(i32_mul oc (st ! Suc i) (xs ! Suc i) :: int result) = Ok (s' ! i)" by simp
  then show ?case using Suc by (auto simp: less_Suc_eq)
qed simp

text \<open>For a tensor with no size of zero, \<^verbatim>\<open>tensor_is_contiguous\<close> answers whether its strides are
  the ones \<^verbatim>\<open>dim_order_to_stride\<close> computes for the default dim order: the check and the
  function that lays tensors out agree.
\<close>
theorem contiguous_iff_default_strides:
  assumes "tensor_strides t = st" and "tensor_sizes t = xs" and "length st = length xs" and "length xs \<le> 16"
    and "0 \<notin> set xs"
    and "dim_order_to_stride oc xs (map of_nat [0..<length xs]) (length xs) (replicate (length xs) 0) = Ok st'"
  shows "tensor_is_contiguous oc t = Ok (st = st')"
proof (cases xs rule: rev_cases)
  case Nil
  then show ?thesis using assms by (simp add: tensor_is_contiguous_def dim_order_to_stride_def)
next
  case (snoc ys y)
  let ?n = "length ys"
  have d: "unat (map of_nat [0..<length xs] ! k :: u8) = k" if "k \<le> ?n" for k
    using that assms(4) snoc by (simp add: unat_of_nat del: upt_Suc)
  define s0 :: "int list" where "s0 = (replicate (length xs) 0)[?n := 1]"
  have "stride_loop oc xs (map of_nat [0..<length xs]) ?n s0 = Ok st'"
    using assms(6) snoc d [of ?n]
    by (simp add: dim_order_to_stride_def dim_order_to_stride_nocheck_def s0_def del: map_append upt_Suc split: if_splits)
  moreover have "\<forall>k \<le> ?n. xs ! k \<noteq> 0" using assms(5) snoc by (metis length_append_singleton less_Suc_eq_le nth_mem)
  moreover have s0: "s0 ! ?n = 1" "length s0 = Suc ?n"
    using snoc by (simp_all only: s0_def nth_list_update_eq length_replicate length_list_update length_append_singleton)
  ultimately have "length st' = length s0 \<and> (\<forall>k \<ge> ?n. st' ! k = s0 ! k) \<and>
      (\<forall>k < ?n. (i32_mul oc (st' ! Suc k) (xs ! Suc k) :: int result) = Ok (st' ! k))"
    using s0 by (intro stride_loop_default [where d = "map of_nat [0..<length xs]"]) (auto simp: d simp del: upt_Suc)
  then have s': "length st' = Suc ?n" "st' ! ?n = 1"
    "\<forall>k < ?n. (i32_mul oc (st' ! Suc k) (xs ! Suc k) :: int result) = Ok (st' ! k)"
    using s0 by simp_all
  have eq: "st = st' \<longleftrightarrow> st ! ?n = 1 \<and> (\<forall>k < ?n. st ! k = st' ! k)"
    using s'(1,2) assms(3) snoc by (auto simp: list_eq_iff_nth_eq less_Suc_eq)
  have "st \<noteq> []" using assms(3) snoc by auto
  then show ?thesis
    using contiguous_strides_loop_correct [OF s'(3), of st] s'(2) assms(1-3) snoc eq
    by (simp add: tensor_is_contiguous_def Let_def)
qed

theorem contiguous_iff_default_strides_witness:
  "tensor_is_contiguous True example_tensor = Ok True \<and>
   tensor_is_contiguous True (example_tensor\<lparr>ti_strides := Some [12, 1, 3]\<rparr>) = Ok False"
proof -
  have st: "dim_order_to_stride True [2, 3, 4] (map of_nat [0..<length [2, 3, 4 :: int]]) (length [2, 3, 4 :: int])
      (replicate (length [2, 3, 4 :: int]) 0) = Ok [12, 4, 1]"
    by code_simp
  note iff = contiguous_iff_default_strides [OF refl _ _ _ _ st]
  have "tensor_is_contiguous True example_tensor = Ok (tensor_strides example_tensor = [12, 4, 1])"
    by (rule iff) (simp_all add: example_tensor_def tensor_sizes_def tensor_strides_def)
  moreover have "tensor_is_contiguous True (example_tensor\<lparr>ti_strides := Some [12, 1, 3]\<rparr>) =
      Ok (tensor_strides (example_tensor\<lparr>ti_strides := Some [12, 1, 3]\<rparr>) = [12, 4, 1])"
    by (rule iff) (simp_all add: example_tensor_def tensor_sizes_def tensor_strides_def)
  ultimately show ?thesis by (simp add: example_tensor_def tensor_strides_def)
qed

section \<open>Limits of the checks\<close>

text \<open>
  With a size of zero the two disagree: \<^verbatim>\<open>dim_order_to_stride\<close> counts it as one, the check multiplies
  by it, so a tensor of shape \<open>[2, 0, 3]\<close> that the runtime laid out itself in the default dim order is
  reported as not contiguous.
\<close>
theorem empty_tensor_not_contiguous:
  "dim_order_to_stride True [2, 0, 3] [0, 1, 2] 3 [0, 0, 0] = Ok [3, 3, 1] \<and>
   tensor_is_contiguous True (example_tensor\<lparr>ti_sizes := Some [2, 0, 3], ti_strides := Some [3, 3, 1], ti_numel := 0\<rparr>)
   = Ok False"
  by code_simp

text \<open>
  \<^verbatim>\<open>tensor_has_non_empty_dim\<close> does not survive the dims that \<^verbatim>\<open>tensor_has_dim\<close>
  accepts for a zero-dimensional tensor: it reads the size of a dimension that does not exist and aborts.
\<close>
theorem non_empty_dim_of_scalar_aborts:
  "tensor_dim t = 0 \<Longrightarrow> tensor_has_non_empty_dim t d = (if d = 0 \<or> d = -1 then Panic else Ok False)"
  by (simp add: tensor_has_non_empty_dim_def tensor_has_dim_def tensor_size_def et_normalize_ix_def tensor_dim_def)

theorem non_empty_dim_of_scalar_aborts_witness:
  "tensor_has_non_empty_dim (example_tensor\<lparr>ti_dim := 0, ti_sizes := Some [], ti_numel := 1\<rparr>) (-1) = Panic"
  using non_empty_dim_of_scalar_aborts [of "example_tensor\<lparr>ti_dim := 0, ti_sizes := Some [], ti_numel := 1\<rparr>" "-1"]
  by (simp add: tensor_dim_def)

text \<open>
  \<^verbatim>\<open>resize_tensor\<close> narrows 64-bit sizes to 32 bits without a check: any size is taken modulo
  two to the 32, so a shape far beyond the capacity of the tensor is accepted as a small one.
\<close>
theorem resize_tensor_narrows:
  assumes "length sizes \<le> 16" and "\<forall>v \<in> set sizes. fits_i32 v"
  shows "resize_tensor oc t (map (\<lambda>v. v + k * 2 ^ 32) sizes) st = resize_tensor_impl oc t sizes st"
proof -
  have "wrap_i32 (v + k * 2 ^ 32) = v" if "fits_i32 v" for v
  proof -
    have "wrap_i32 (v + k * 2 ^ 32) = wrap_i32 v"
      by (simp add: wrap_i32_def add.assoc add.commute [of "k * 4294967296"]) (metis add.assoc mod_mult_self1)
    then show ?thesis using that by simp
  qed
  then have "map wrap_i32 (map (\<lambda>v. v + k * 2 ^ 32) sizes) = sizes"
    using assms(2) by (simp add: map_idI)
  then show ?thesis using assms(1) by (simp only: resize_tensor_def K_TENSOR_DIMENSION_LIMIT_def) simp
qed

theorem resize_tensor_narrows_witness:
  "resize_tensor True 0 [4294967298, 4294967299, 4294967300] (\<lambda>_. example_tensor) =
   resize_tensor_impl True 0 [2, 3, 4] (\<lambda>_. example_tensor)"
  using resize_tensor_narrows [of "[2, 3, 4]" True 0 1 "\<lambda>_. example_tensor"] by (simp add: fits_i32_def)

text \<open>
  \<^verbatim>\<open>calculate_linear_index\<close> multiplies 32-bit numbers: for an element whose offset does not fit them
  a product may wrap, although the index it is added to has 64 bits.
\<close>
lemma calculate_linear_index_wraps:
  "calculate_linear_index False [2] [1073741824] (Suc 0) 0 = Ok (word_of_int (- 2147483648))"
  "calculate_linear_index True [2] [1073741824] (Suc 0) 0 = Panic"
  "element_offset [1073741824] [2] = 2147483648"
  by (simp_all only: calculate_linear_index.simps list.sel i32_mul_def fits_i32_def wrap_i32_def uadd_def r_bind.simps
      element_offset_def) simp_all

end
