(* ===== verification/Block_Copy.thy ===== *)
theory Block_Copy
  imports ET_Prelude
begin

text \<open>
  Regions of byte memory and what copying blocks one after the other leaves in them; shared by the kernels that move
  whole blocks (slicing, selecting, concatenating) and by the elementwise ones.
\<close>

section \<open>Regions\<close>

definition data_region :: "usize \<Rightarrow> nat \<Rightarrow> usize set" where
  "data_region p n = (\<lambda>i. p + of_nat i) ` {..<n}"

lemma data_regionI [intro]: "i < n \<Longrightarrow> p + of_nat i \<in> data_region p n"
  by (simp add: data_region_def)

lemma data_regionE [elim]: "a \<in> data_region p n \<Longrightarrow> (\<And>i. i < n \<Longrightarrow> a = p + of_nat i \<Longrightarrow> thesis) \<Longrightarrow> thesis"
  by (auto simp: data_region_def)

lemma data_region_list: "data_region p n = set (map (\<lambda>i. p + of_nat i) [0..<n])"
  by (auto simp: data_region_def)

lemma data_region_0 [simp]: "data_region p 0 = {}"
  by (simp add: data_region_def)

lemma data_region_mono: "m \<le> n \<Longrightarrow> data_region p m \<subseteq> data_region p n"
  by (auto simp: data_region_def)

lemma data_region_part: "k + m \<le> n \<Longrightarrow> data_region (p + of_nat k) m \<subseteq> data_region p n"
proof
  fix a assume "k + m \<le> n" "a \<in> data_region (p + of_nat k) m"
  then obtain i where i: "i < m" "a = p + of_nat (k + i)" by (auto simp: data_region_def add.assoc)
  then show "a \<in> data_region p n" using \<open>k + m \<le> n\<close> by (simp only: data_regionI)
qed

text \<open>Two places of a region that fits the address space are the same only if their numbers are.\<close>

lemma place_inject:
  fixes p :: usize
  assumes "p + of_nat i = p + of_nat j" and "i < 2 ^ 64" and "j < 2 ^ 64"
  shows "i = j"
proof -
  have "(of_nat i :: usize) = of_nat j" using assms(1) by simp
  then show ?thesis using assms(2,3) by (metis unat_of_nat_64)
qed

lemma data_region_split:
  assumes "i \<le> k" and "k + m < 2 ^ 64"
  shows "data_region p i \<inter> data_region (p + of_nat k) m = {}"
proof (rule ccontr)
  assume "data_region p i \<inter> data_region (p + of_nat k) m \<noteq> {}"
  then obtain a b where ab: "a < i" "b < m" "p + of_nat a = p + of_nat k + of_nat b"
    by (auto simp: data_region_def)
  have "p + of_nat a = p + of_nat (k + b)" using ab(3) by (simp add: add.assoc)
  then show False using place_inject [of p a "k + b"] ab(1,2) assms by simp
qed

section \<open>One write, one copy\<close>

lemma write_bytes_inside:
  "i < length bs \<Longrightarrow> length bs < 2 ^ 64 \<Longrightarrow> write_bytes dst bs mem (dst + of_nat i) = bs ! i"
  by (simp add: write_bytes_def unat_of_nat_64)

lemma write_bytes_outside: "a \<notin> data_region dst (length bs) \<Longrightarrow> write_bytes dst bs mem a = mem a"
proof -
  assume a: "a \<notin> data_region dst (length bs)"
  have "a = dst + of_nat (unat (a - dst))" by simp
  then have "\<not> unat (a - dst) < length bs" using a by (metis data_regionI)
  then show ?thesis by (simp add: write_bytes_def)
qed

lemma copy_bytes_write: "n < 2 ^ 64 \<Longrightarrow> copy_bytes src dst (of_nat n) mem = write_bytes dst (bytes_at mem src n) mem"
  by (rule ext) (simp add: copy_bytes_def write_bytes_def word_less_nat_alt unat_of_nat_64)

lemma copy_bytes_outside: "n < 2 ^ 64 \<Longrightarrow> a \<notin> data_region dst n \<Longrightarrow> copy_bytes src dst (of_nat n) mem a = mem a"
  by (simp add: copy_bytes_write write_bytes_outside)

lemma bytes_at_cong:
  "(\<And>a. a \<in> data_region p n \<Longrightarrow> m a = mem a) \<Longrightarrow> bytes_at m p n = bytes_at mem p n"
  by (rule nth_equalityI) auto

section \<open>Copies that follow one another\<close>

text \<open>Blocks \<open>(src, n)\<close> copied to consecutive places from \<open>dest\<close> on.\<close>

fun append_copies :: "(usize \<times> nat) list \<Rightarrow> usize \<Rightarrow> bytes \<Rightarrow> bytes" where
  "append_copies [] dest mem = mem"
| "append_copies ((src, n) # blocks) dest mem =
     append_copies blocks (dest + of_nat n) (copy_bytes src dest (of_nat n) mem)"

abbreviation copied :: "(usize \<times> nat) list \<Rightarrow> nat" where
  "copied blocks \<equiv> sum_list (map snd blocks)"

lemma append_copies_append:
  "append_copies (xs @ ys) dest mem = append_copies ys (dest + of_nat (copied xs)) (append_copies xs dest mem)"
  by (induction xs arbitrary: dest mem) (auto simp: add.assoc)

lemma append_copies_outside:
  "copied blocks < 2 ^ 64 \<Longrightarrow> a \<notin> data_region dest (copied blocks) \<Longrightarrow> append_copies blocks dest mem a = mem a"
proof (induction blocks arbitrary: dest mem)
  case (Cons b blocks)
  obtain src n where b: "b = (src, n)" by (cases b)
  have "a \<notin> data_region (dest + of_nat n) (copied blocks)" "a \<notin> data_region dest n"
    using Cons.prems(2) data_region_part [of n "copied blocks" "n + copied blocks" dest]
      data_region_mono [of n "n + copied blocks" dest] by (auto simp: b)
  then show ?case using Cons.IH Cons.prems(1) by (simp add: b copy_bytes_outside)
qed simp

text \<open>When no block lies in the destination, the destination ends as the blocks put together.\<close>

lemma append_copies_bytes:
  assumes "copied blocks < 2 ^ 64"
    and "\<forall>(src, n) \<in> set blocks. data_region src n \<inter> data_region dest (copied blocks) = {}"
  shows "bytes_at (append_copies blocks dest mem) dest (copied blocks) = concat (map (\<lambda>(src, n). bytes_at mem src n) blocks)"
  using assms
proof (induction blocks arbitrary: dest mem)
  case Nil
  then show ?case by (simp add: bytes_at_def)
next
  case (Cons b blocks)
  obtain src n where b: "b = (src, n)" by (cases b)
  let ?m = "copy_bytes src dest (of_nat n) mem" and ?rest = "data_region (dest + of_nat n) (copied blocks)"
  have n: "n < 2 ^ 64" "copied blocks < 2 ^ 64" using Cons.prems(1) by (simp_all add: b)
  have rest: "?rest \<subseteq> data_region dest (copied (b # blocks))" "data_region dest n \<subseteq> data_region dest (copied (b # blocks))"
    using data_region_part [of n "copied blocks" "n + copied blocks" dest] data_region_mono [of n "n + copied blocks" dest]
    by (simp_all add: b)
  have apart: "data_region dest n \<inter> ?rest = {}" using Cons.prems(1) by (intro data_region_split) (simp_all add: b)
  have blocks: "bytes_at ?m s k = bytes_at mem s k" if "(s, k) \<in> set blocks" for s k
  proof (intro bytes_at_cong copy_bytes_outside [OF n(1)])
    fix a assume "a \<in> data_region s k"
    moreover have "data_region s k \<inter> data_region dest (copied (b # blocks)) = {}"
      using bspec [OF Cons.prems(2), of "(s, k)"] that by simp
    ultimately show "a \<notin> data_region dest n" using rest(2) by blast
  qed
  have "bytes_at (append_copies blocks (dest + of_nat n) ?m) dest n = bytes_at ?m dest n"
    using apart n(2) by (intro bytes_at_cong append_copies_outside) auto
  also have "\<dots> = bytes_at mem src n" using n(1) by (simp add: bytes_at_copy)
  finally have first: "bytes_at (append_copies blocks (dest + of_nat n) ?m) dest n = bytes_at mem src n" .
  have "bytes_at (append_copies blocks (dest + of_nat n) ?m) (dest + of_nat n) (copied blocks) =
      concat (map (\<lambda>(src, n). bytes_at ?m src n) blocks)"
  proof (rule Cons.IH [OF n(2)], intro ballI, clarify)
    fix s k assume "(s, k) \<in> set blocks"
    then have "data_region s k \<inter> data_region dest (copied (b # blocks)) = {}"
      using bspec [OF Cons.prems(2), of "(s, k)"] by simp
    then show "data_region s k \<inter> ?rest = {}" using rest(1) by blast
  qed
  also have "\<dots> = concat (map (\<lambda>(src, n). bytes_at mem src n) blocks)"
    using blocks by (intro arg_cong [of _ _ concat] map_cong) auto
  finally show ?case using first by (simp add: b bytes_at_append)
qed

section \<open>Rows\<close>

text \<open>Rows of width \<open>w\<close>, written in any order, each by a step that changes only its own row.\<close>

lemma rows_in_any_order:
  assumes "distinct ks" and "\<forall>k \<in> set ks. k < N" and "N * w < 2 ^ 64"
    and "\<And>k m. k \<in> set ks \<Longrightarrow> (\<And>a. a \<notin> data_region dest (N * w) \<Longrightarrow> m a = mem a) \<Longrightarrow>
      bytes_at (step k m) (dest + of_nat (k * w)) w = row k \<and>
      (\<forall>a. a \<notin> data_region (dest + of_nat (k * w)) w \<longrightarrow> step k m a = m a)"
  shows "(\<forall>k \<in> set ks. bytes_at (fold step ks mem) (dest + of_nat (k * w)) w = row k) \<and>
    (\<forall>a. a \<notin> data_region dest (N * w) \<longrightarrow> fold step ks mem a = mem a)"
  using assms(1,2,4)
proof (induction ks rule: rev_induct)
  case (snoc k ks)
  have part: "data_region (dest + of_nat (j * w)) w \<subseteq> data_region dest (N * w)" if "j < N" for j
    using that mult_le_mono1 [of "Suc j" N w] by (intro data_region_part) simp
  have IH: "\<forall>j \<in> set ks. bytes_at (fold step ks mem) (dest + of_nat (j * w)) w = row j"
    "\<forall>a. a \<notin> data_region dest (N * w) \<longrightarrow> fold step ks mem a = mem a"
    using snoc.IH snoc.prems by simp_all
  have k: "k < N" "k \<notin> set ks" using snoc.prems by simp_all
  have step: "bytes_at (step k (fold step ks mem)) (dest + of_nat (k * w)) w = row k"
    "\<forall>a. a \<notin> data_region (dest + of_nat (k * w)) w \<longrightarrow> step k (fold step ks mem) a = fold step ks mem a"
    using snoc.prems(3) [of k "fold step ks mem"] IH(2) by simp_all
  have apart: "data_region (dest + of_nat (j * w)) w \<inter> data_region (dest + of_nat (k * w)) w = {}"
    if j: "j < N" "j \<noteq> k" for j
  proof (rule ccontr)
    assume "\<not> ?thesis"
    then obtain x y where xy: "x < w" "y < w" "dest + of_nat (j * w + x) = dest + of_nat (k * w + y)"
      by (auto simp: data_region_def add.assoc)
    have "j * w + x < N * w" "k * w + y < N * w"
      using xy(1,2) mult_le_mono1 [of "Suc j" N w] mult_le_mono1 [of "Suc k" N w] j(1) k(1) by simp_all
    then have "j * w + x = k * w + y" using place_inject [OF xy(3)] assms(3) by simp
    then have "(j * w + x) div w = (k * w + y) div w" by simp
    then show False using xy(1,2) j(2) by simp
  qed
  have "bytes_at (step k (fold step ks mem)) (dest + of_nat (j * w)) w = row j" if "j \<in> set ks" for j
  proof -
    have j: "j < N" "j \<noteq> k" using that snoc.prems(1,2) by auto
    then have "bytes_at (step k (fold step ks mem)) (dest + of_nat (j * w)) w =
        bytes_at (fold step ks mem) (dest + of_nat (j * w)) w"
      using apart step(2) by (intro bytes_at_cong) blast
    then show ?thesis using IH(1) that by simp
  qed
  then show ?case using step IH(2) part [OF k(1)] by auto
qed simp

lemma bytes_at_rows:
  "bytes_at m dest (N * w) = concat (map (\<lambda>k. bytes_at m (dest + of_nat (k * w)) w) [0..<N])"
proof (induction N)
  case (Suc N)
  have "Suc N * w = N * w + w" by simp
  then show ?case using Suc by (simp add: bytes_at_append del: mult_Suc)
qed (simp add: bytes_at_def)

end
