(* ===== verification/Broadcast.thy ===== *)
theory Broadcast
  imports Tensor_Checks
begin

text \<open>
  Broadcasting: the shape rules and index computations of
  \<^verbatim>\<open>kernels/portable/cpu/util/broadcast_util.rs\<close> and the iterator of
  \<^verbatim>\<open>kernels/portable/cpu/util/broadcast_indexes_range.rs\<close>, over which every elementwise kernel
  loops. A \<^verbatim>\<open>ShapeType\<close> array has sixteen entries; an iterator over \<^verbatim>\<open>NT\<close> tensors
  keeps the index into the output apart from the list of the \<^verbatim>\<open>NT - 1\<close> indexes into the inputs.
\<close>

section \<open>Shapes\<close>

text \<open>The shapes are compared from the last dimension, so the loops run over their reversals.\<close>

fun broadcastable_to_loop :: "int list \<Rightarrow> int list \<Rightarrow> bool" where
  "broadcastable_to_loop [] to_rev = True"
| "broadcastable_to_loop (f # from_rev) (t # to_rev) =
     (if \<not> (t = f \<or> f = 1) then False else broadcastable_to_loop from_rev to_rev)"
| "broadcastable_to_loop (f # from_rev) [] = False"

definition tensor_is_broadcastable_to :: "int list \<Rightarrow> int list \<Rightarrow> bool" where
  "tensor_is_broadcastable_to broadcast_from_shape broadcast_to_shape =
     (if length broadcast_to_shape < length broadcast_from_shape then False
      else broadcastable_to_loop (rev broadcast_from_shape) (rev broadcast_to_shape))"

definition tensor_is_broadcastable_to_tensors :: "tensor_impl \<Rightarrow> tensor_impl \<Rightarrow> bool" where
  "tensor_is_broadcastable_to_tensors broadcast_from broadcast_to =
     tensor_is_broadcastable_to (tensor_sizes broadcast_from) (tensor_sizes broadcast_to)"

fun broadcastable_between_loop :: "int list \<Rightarrow> int list \<Rightarrow> bool" where
  "broadcastable_between_loop (a # a_rev) (b # b_rev) =
     (if a = b \<or> a = 1 \<or> b = 1 then broadcastable_between_loop a_rev b_rev else False)"
| "broadcastable_between_loop _ _ = True"

definition tensors_are_broadcastable_between :: "int list \<Rightarrow> int list \<Rightarrow> bool" where
  "tensors_are_broadcastable_between a_shape b_shape = broadcastable_between_loop (rev a_shape) (rev b_shape)"

definition tensors_are_broadcastable_between_tensors :: "tensor_impl \<Rightarrow> tensor_impl \<Rightarrow> bool" where
  "tensors_are_broadcastable_between_tensors a b = tensors_are_broadcastable_between (tensor_sizes a) (tensor_sizes b)"

text \<open>The target is written from its last dimension, up to the longer of the two shapes.\<close>

fun target_size_loop :: "int list \<Rightarrow> int list \<Rightarrow> int list" where
  "target_size_loop (a # a_rev) (b # b_rev) = (if b = 1 then a else b) # target_size_loop a_rev b_rev"
| "target_size_loop (a # a_rev) [] = a # target_size_loop a_rev []"
| "target_size_loop [] (b # b_rev) = b # target_size_loop [] b_rev"
| "target_size_loop [] [] = []"

definition get_broadcast_target_size :: "int list \<Rightarrow> int list \<Rightarrow> nat \<Rightarrow> int list result" where
  "get_broadcast_target_size a_size b_size out_sizes_len =
     (if \<not> tensors_are_broadcastable_between a_size b_size then Err InvalidArgument
      else if \<not> (length a_size \<le> out_sizes_len \<and> length b_size \<le> out_sizes_len) then Err InvalidArgument
      else Ok (rev (target_size_loop (rev a_size) (rev b_size))))"

definition get_broadcast_target_size_tensors :: "tensor_impl \<Rightarrow> tensor_impl \<Rightarrow> nat \<Rightarrow> int list result" where
  "get_broadcast_target_size_tensors a b out_sizes_len =
     get_broadcast_target_size (tensor_sizes a) (tensor_sizes b) out_sizes_len"

definition resize_to_broadcast_target_size ::
    "bool \<Rightarrow> tensor_id \<Rightarrow> tensor_id \<Rightarrow> tensor_id \<Rightarrow> tensor_store \<Rightarrow> (Error \<times> tensor_store) result" where
  "resize_to_broadcast_target_size oc a b out st =
     (case get_broadcast_target_size_tensors (st a) (st b) K_TENSOR_DIMENSION_LIMIT of
        Panic \<Rightarrow> Panic | Err e \<Rightarrow> Ok (e, st)
      | Ok expected_output_size \<Rightarrow> resize_tensor_same_type oc out expected_output_size st)"

definition resize_to_broadcast_target_size_3 ::
    "bool \<Rightarrow> tensor_id \<Rightarrow> tensor_id \<Rightarrow> tensor_id \<Rightarrow> tensor_id \<Rightarrow> tensor_store \<Rightarrow> (Error \<times> tensor_store) result" where
  "resize_to_broadcast_target_size_3 oc a b c out st =
     (case get_broadcast_target_size_tensors (st a) (st b) K_TENSOR_DIMENSION_LIMIT of
        Panic \<Rightarrow> Panic | Err e \<Rightarrow> Ok (e, st)
      | Ok interim_output_size \<Rightarrow>
          (case get_broadcast_target_size interim_output_size (tensor_sizes (st c)) K_TENSOR_DIMENSION_LIMIT of
             Panic \<Rightarrow> Panic | Err e \<Rightarrow> Ok (e, st)
           | Ok expected_output_size \<Rightarrow> resize_tensor_same_type oc out expected_output_size st))"

section \<open>Linear indexes\<close>

fun linearize_loop :: "bool \<Rightarrow> usize list \<Rightarrow> int list \<Rightarrow> int list \<Rightarrow> usize \<Rightarrow> usize result" where
  "linearize_loop oc (ix # ixs) (s # shape) strides linear_index =
     (if word_of_int s \<le> ix then
        if s \<noteq> 1 then Panic else linearize_loop oc ixs shape (tl strides) linear_index
      else case strides of
          [] \<Rightarrow> Panic
        | stride # rest \<Rightarrow>
            r_bind (umul oc ix (word_of_int stride)) (\<lambda>p.
            r_bind (uadd oc linear_index p) (\<lambda>linear_index. linearize_loop oc ixs shape rest linear_index)))"
| "linearize_loop oc _ _ _ linear_index = Ok linear_index"

definition linearize_access_indexes :: "bool \<Rightarrow> usize list \<Rightarrow> int \<Rightarrow> int list \<Rightarrow> int list \<Rightarrow> usize result" where
  "linearize_access_indexes oc indexes_broadcast_to broadcast_to_ndim broadcast_from_shape broadcast_from_strides =
     r_bind (usub oc (word_of_int broadcast_to_ndim) (of_nat (length broadcast_from_shape))) (\<lambda>num_skip_dims :: usize.
     r_bind (usub oc (word_of_int broadcast_to_ndim) num_skip_dims) (\<lambda>m.
       case checked_add num_skip_dims m of
         None \<Rightarrow> Panic
       | Some end_ix \<Rightarrow>
           if length indexes_broadcast_to < unat end_ix then Panic
           else let indexes_broadcast_from = take (unat m) (drop (unat num_skip_dims) indexes_broadcast_to)
           in if length indexes_broadcast_from \<noteq> length broadcast_from_shape then Panic
              else linearize_loop oc indexes_broadcast_from broadcast_from_shape broadcast_from_strides 0))"

definition linearize_access_indexes_tensor :: "bool \<Rightarrow> usize list \<Rightarrow> int \<Rightarrow> tensor_impl \<Rightarrow> usize result" where
  "linearize_access_indexes_tensor oc indexes_broadcast_to broadcast_to_ndim broadcast_from =
     linearize_access_indexes oc indexes_broadcast_to broadcast_to_ndim
       (tensor_sizes broadcast_from) (tensor_strides broadcast_from)"

section \<open>The iterator\<close>

fun arrayref_begin_ignoring_leading_1s :: "int list \<Rightarrow> int list" where
  "arrayref_begin_ignoring_leading_1s [] = []"
| "arrayref_begin_ignoring_leading_1s (s # arr) =
     (if s = 1 then arrayref_begin_ignoring_leading_1s arr else s # arr)"

definition sizes_match_ignoring_leading_1s :: "int list \<Rightarrow> int list \<Rightarrow> bool" where
  "sizes_match_ignoring_leading_1s lhs rhs \<longleftrightarrow>
     arrayref_begin_ignoring_leading_1s lhs = arrayref_begin_ignoring_leading_1s rhs"

type_synonym shape_type = "usize list"

definition effective_stride_at :: "tensor_impl \<Rightarrow> nat \<Rightarrow> usize" where
  "effective_stride_at t i =
     (if tensor_sizes t ! i = 1 then 0 else word_of_int (tensor_strides t ! i))"

definition effective_input_broadcast_stride :: "tensor_impl \<Rightarrow> tensor_impl \<Rightarrow> shape_type result" where
  "effective_input_broadcast_stride output t =
     (if \<not> tensor_dim t \<le> tensor_dim output then Panic
      else let num_leading_ones = nat (tensor_dim output - tensor_dim t)
      in if K_TENSOR_DIMENSION_LIMIT < nat (tensor_dim output) then Panic
         else if \<exists>i \<in> set [0..<nat (tensor_dim t)]. tensor_sizes t ! i \<noteq> 1 \<and> length (tensor_strides t) \<le> i then Panic
         else Ok (replicate num_leading_ones 0 @ map (effective_stride_at t) [0..<nat (tensor_dim t)] @
           replicate (K_TENSOR_DIMENSION_LIMIT - nat (tensor_dim output)) 0))"

record broadcast_iterator =
  bi_output_index :: int
  bi_input_indexes :: "int list"
  bi_delinearized_output_index :: shape_type
  bi_output_dim_or_zero :: int
  bi_output_shape :: "int list"
  bi_effective_strides :: "shape_type list"

fun effective_strides :: "tensor_impl \<Rightarrow> tensor_impl list \<Rightarrow> shape_type list result" where
  "effective_strides output [] = Ok []"
| "effective_strides output (t # ts) =
     r_bind (effective_input_broadcast_stride output t) (\<lambda>st.
     r_bind (effective_strides output ts) (\<lambda>sts. Ok (st # sts)))"

definition make_begin :: "tensor_impl \<Rightarrow> tensor_impl list \<Rightarrow> bool \<Rightarrow> broadcast_iterator result" where
  "make_begin output inputs support_noncontiguous =
     (let all_match = list_all (\<lambda>t. sizes_match_ignoring_leading_1s (tensor_sizes t) (tensor_sizes output)) inputs;
          dim_or_zero = (if \<not> support_noncontiguous \<and> all_match then 0 else tensor_dim output);
          zeros = replicate K_TENSOR_DIMENSION_LIMIT 0
      in r_bind (if support_noncontiguous \<or> dim_or_zero \<noteq> 0 then effective_strides output inputs
                 else Ok (map (\<lambda>_. zeros) inputs)) (\<lambda>strides.
         Ok \<lparr>bi_output_index = 0, bi_input_indexes = map (\<lambda>_. 0) inputs, bi_delinearized_output_index = zeros,
              bi_output_dim_or_zero = dim_or_zero, bi_output_shape = tensor_sizes output,
              bi_effective_strides = strides\<rparr>))"

definition make_end :: "tensor_impl \<Rightarrow> tensor_impl list \<Rightarrow> broadcast_iterator" where
  "make_end output inputs =
     (let zeros = replicate K_TENSOR_DIMENSION_LIMIT 0
      in \<lparr>bi_output_index = tensor_numel output, bi_input_indexes = map (\<lambda>_. 0) inputs,
          bi_delinearized_output_index = zeros, bi_output_dim_or_zero = 0, bi_output_shape = [],
          bi_effective_strides = map (\<lambda>_. zeros) inputs\<rparr>)"

text \<open>The inner loops over the inputs: a stride, or a multiple of it, is added to or taken from each index.\<close>

fun add_strides :: "bool \<Rightarrow> nat \<Rightarrow> shape_type list \<Rightarrow> int list \<Rightarrow> int list result" where
  "add_strides oc ii (st # sts) (c # cs) =
     r_bind (i64_add oc c (sint (st ! ii))) (\<lambda>c'.
     r_bind (add_strides oc ii sts cs) (\<lambda>cs'. Ok (c' # cs')))"
| "add_strides oc ii _ cs = Ok cs"

fun sub_strides :: "bool \<Rightarrow> usize \<Rightarrow> nat \<Rightarrow> shape_type list \<Rightarrow> int list \<Rightarrow> int list result" where
  "sub_strides oc item ii (st # sts) (c # cs) =
     r_bind (i64_mul oc (sint item) (sint (st ! ii))) (\<lambda>p.
     r_bind (i64_sub oc c p) (\<lambda>c'.
     r_bind (sub_strides oc item ii sts cs) (\<lambda>cs'. Ok (c' # cs'))))"
| "sub_strides oc item ii _ cs = Ok cs"

text \<open>The loop of \<^verbatim>\<open>increment\<close>, from the last dimension: a carry, or the last step.\<close>

fun increment_loop ::
    "bool \<Rightarrow> int list \<Rightarrow> shape_type list \<Rightarrow> nat \<Rightarrow> shape_type \<Rightarrow> int list \<Rightarrow> (shape_type \<times> int list) result" where
  "increment_loop oc shape strides 0 delin cs = Ok (delin, cs)"
| "increment_loop oc shape strides (Suc ii) delin cs =
     r_bind (i32_sub oc (shape ! ii) 1) (\<lambda>last_ix.
       if sint (ucast (delin ! ii) :: 32 word) = last_ix then
         r_bind (sub_strides oc (delin ! ii) ii strides cs) (\<lambda>cs'.
           increment_loop oc shape strides ii (delin[ii := 0]) cs')
       else
         r_bind (uadd oc (delin ! ii) 1) (\<lambda>d.
         r_bind (add_strides oc ii strides cs) (\<lambda>cs'. Ok (delin[ii := d], cs'))))"

definition increment :: "bool \<Rightarrow> broadcast_iterator \<Rightarrow> broadcast_iterator result" where
  "increment oc it =
     r_bind (i64_add oc (bi_output_index it) 1) (\<lambda>n.
       if bi_output_dim_or_zero it = 0 then
         Ok (it\<lparr>bi_output_index := n, bi_input_indexes := map (\<lambda>_. n) (bi_input_indexes it)\<rparr>)
       else r_bind (increment_loop oc (bi_output_shape it) (bi_effective_strides it) (nat (bi_output_dim_or_zero it))
            (bi_delinearized_output_index it) (bi_input_indexes it)) (\<lambda>(delin, cs).
         Ok (it\<lparr>bi_output_index := n, bi_delinearized_output_index := delin, bi_input_indexes := cs\<rparr>)))"

fun increment_times :: "bool \<Rightarrow> nat \<Rightarrow> broadcast_iterator \<Rightarrow> broadcast_iterator result" where
  "increment_times oc 0 it = Ok it"
| "increment_times oc (Suc n) it = r_bind (increment oc it) (increment_times oc n)"

fun dot_loop :: "bool \<Rightarrow> shape_type \<Rightarrow> shape_type \<Rightarrow> nat list \<Rightarrow> int \<Rightarrow> int result" where
  "dot_loop oc delin strides [] acc = Ok acc"
| "dot_loop oc delin strides (j # js) acc =
     r_bind (i64_mul oc (sint (delin ! j)) (sint (strides ! j))) (\<lambda>p.
     r_bind (i64_add oc acc p) (dot_loop oc delin strides js))"

fun dot_inputs :: "bool \<Rightarrow> shape_type \<Rightarrow> nat \<Rightarrow> shape_type list \<Rightarrow> int list result" where
  "dot_inputs oc delin dim [] = Ok []"
| "dot_inputs oc delin dim (st # sts) =
     r_bind (dot_loop oc delin st [0..<dim] 0) (\<lambda>c. r_bind (dot_inputs oc delin dim sts) (\<lambda>cs. Ok (c # cs)))"

definition add_assign :: "bool \<Rightarrow> int \<Rightarrow> broadcast_iterator \<Rightarrow> broadcast_iterator result" where
  "add_assign oc n it =
     (if n \<le> 3 then increment_times oc (nat n) it
      else r_bind (i64_add oc (bi_output_index it) n) (\<lambda>i.
        if bi_output_dim_or_zero it = 0 then
          Ok (it\<lparr>bi_output_index := i, bi_input_indexes := map (\<lambda>_. i) (bi_input_indexes it)\<rparr>)
        else r_bind (delinearize_index (word_of_int i) (bi_output_shape it) (length (bi_delinearized_output_index it))) (\<lambda>coord.
          let delin = coord @ drop (length coord) (bi_delinearized_output_index it)
          in r_bind (dot_inputs oc delin (nat (bi_output_dim_or_zero it)) (bi_effective_strides it)) (\<lambda>cs.
             Ok (it\<lparr>bi_output_index := i, bi_delinearized_output_index := delin, bi_input_indexes := cs\<rparr>)))))"

record range_iter =
  ri_it :: broadcast_iterator
  ri_end_index :: int
  ri_started :: bool

definition into_iter :: "tensor_impl \<Rightarrow> tensor_impl list \<Rightarrow> bool \<Rightarrow> range_iter result" where
  "into_iter output inputs support_noncontiguous =
     r_bind (make_begin output inputs support_noncontiguous) (\<lambda>it.
       Ok \<lparr>ri_it = it, ri_end_index = bi_output_index (make_end output inputs), ri_started = False\<rparr>)"

definition range_next :: "bool \<Rightarrow> range_iter \<Rightarrow> ((int \<times> int list) option \<times> range_iter) result" where
  "range_next oc r =
     r_bind (if ri_started r then r_bind (increment oc (ri_it r)) (\<lambda>it. Ok (r\<lparr>ri_it := it\<rparr>))
             else Ok (r\<lparr>ri_started := True\<rparr>)) (\<lambda>r'.
       if ri_end_index r' \<le> bi_output_index (ri_it r') then Ok (None, r')
       else Ok (Some (bi_output_index (ri_it r'), bi_input_indexes (ri_it r')), r'))"

text \<open>
  The loop \<^verbatim>\<open>for indexes in range\<close> over a body that changes a state, with fuel for one call of
  \<^verbatim>\<open>next\<close> each; \<open>None\<close> says that the fuel ran out.
\<close>

fun for_range :: "bool \<Rightarrow> nat \<Rightarrow> (int \<times> int list \<Rightarrow> 's \<Rightarrow> 's) \<Rightarrow> range_iter \<Rightarrow> 's \<Rightarrow> 's option result" where
  "for_range oc 0 body r s = Ok None"
| "for_range oc (Suc fuel) body r s =
     r_bind (range_next oc r) (\<lambda>(item, r').
       case item of None \<Rightarrow> Ok (Some s) | Some indexes \<Rightarrow> for_range oc fuel body r' (body indexes s))"

section \<open>Elementwise kernels\<close>

text \<open>An element type: its size, and how its values are read from and written as bytes.\<close>

record 'a ctype =
  ct_size :: nat
  ct_load :: "u8 list \<Rightarrow> 'a"
  ct_store :: "'a \<Rightarrow> u8 list"

definition load_elem :: "'a ctype \<Rightarrow> bytes \<Rightarrow> usize \<Rightarrow> int \<Rightarrow> 'a" where
  "load_elem ct mem p i = ct_load ct (bytes_at mem (p + word_of_int (i * int (ct_size ct))) (ct_size ct))"

definition store_elem :: "'a ctype \<Rightarrow> usize \<Rightarrow> int \<Rightarrow> 'a \<Rightarrow> bytes \<Rightarrow> bytes" where
  "store_elem ct p i v mem = write_bytes (p + word_of_int (i * int (ct_size ct))) (ct_store ct v) mem"

definition apply_binary_elementwise_fn ::
    "bool \<Rightarrow> nat \<Rightarrow> 'a ctype \<Rightarrow> 'b ctype \<Rightarrow> 'o ctype \<Rightarrow> ('a \<Rightarrow> 'b \<Rightarrow> 'o) \<Rightarrow>
     tensor_impl \<Rightarrow> tensor_impl \<Rightarrow> tensor_impl \<Rightarrow> bytes \<Rightarrow> bytes option result" where
  "apply_binary_elementwise_fn oc fuel ctype_a ctype_b ctype_out compute_fun a b out mem =
     r_bind (into_iter out [a, b] False) (\<lambda>r.
       for_range oc fuel (\<lambda>(out_index, ixs) mem.
         store_elem ctype_out (ti_data out) out_index
           (compute_fun (load_elem ctype_a mem (ti_data a) (ixs ! 0)) (load_elem ctype_b mem (ti_data b) (ixs ! 1))) mem)
       r mem)"

definition apply_ternary_elementwise_fn ::
    "bool \<Rightarrow> nat \<Rightarrow> 'a ctype \<Rightarrow> 'b ctype \<Rightarrow> 'c ctype \<Rightarrow> 'o ctype \<Rightarrow> ('a \<Rightarrow> 'b \<Rightarrow> 'c \<Rightarrow> 'o) \<Rightarrow>
     tensor_impl \<Rightarrow> tensor_impl \<Rightarrow> tensor_impl \<Rightarrow> tensor_impl \<Rightarrow> bytes \<Rightarrow> bytes option result" where
  "apply_ternary_elementwise_fn oc fuel ctype_a ctype_b ctype_c ctype_out compute_fun a b c out mem =
     r_bind (into_iter out [a, b, c] False) (\<lambda>r.
       for_range oc fuel (\<lambda>(out_index, ixs) mem.
         store_elem ctype_out (ti_data out) out_index
           (compute_fun (load_elem ctype_a mem (ti_data a) (ixs ! 0)) (load_elem ctype_b mem (ti_data b) (ixs ! 1))
             (load_elem ctype_c mem (ti_data c) (ixs ! 2))) mem)
       r mem)"

section \<open>The rules of broadcasting\<close>

lemma broadcastable_to_loop_length: "broadcastable_to_loop f t \<Longrightarrow> length f \<le> length t"
  by (induction f t rule: broadcastable_to_loop.induct) (auto split: if_splits)

lemma broadcastable_to_iff: "tensor_is_broadcastable_to f t \<longleftrightarrow> broadcastable_to_loop (rev f) (rev t)"
  using broadcastable_to_loop_length [of "rev f" "rev t"] by (auto simp: tensor_is_broadcastable_to_def)

lemma broadcastable_to_loop_refl: "broadcastable_to_loop f f"
  by (induction f) simp_all

lemma broadcastable_to_loop_trans:
  "broadcastable_to_loop f t \<Longrightarrow> broadcastable_to_loop t u \<Longrightarrow> broadcastable_to_loop f u"
proof (induction f u arbitrary: t rule: broadcastable_to_loop.induct)
  case (2 f from_rev u to_rev)
  then show ?case by (cases t) (auto split: if_splits)
next
  case (3 f from_rev)
  then show ?case by (cases t) simp_all
qed simp

lemma broadcastable_to_loop_antisym:
  "broadcastable_to_loop f t \<Longrightarrow> broadcastable_to_loop t f \<Longrightarrow> f = t"
  by (induction f t rule: broadcastable_to_loop.induct) (auto split: if_splits, metis list.exhaust broadcastable_to_loop.simps(3))

lemma target_upper:
  "broadcastable_between_loop a b \<Longrightarrow>
   broadcastable_to_loop a (target_size_loop a b) \<and> broadcastable_to_loop b (target_size_loop a b)"
proof (induction a b rule: target_size_loop.induct)
  case (1 a a_rev b b_rev)
  then show ?case by (auto split: if_splits)
next
  case (2 a a_rev)
  then show ?case by (cases a_rev) simp_all
next
  case (3 b b_rev)
  then show ?case by (cases b_rev) simp_all
qed simp

lemma target_least:
  "broadcastable_to_loop a c \<Longrightarrow> broadcastable_to_loop b c \<Longrightarrow>
   broadcastable_between_loop a b \<and> broadcastable_to_loop (target_size_loop a b) c"
proof (induction a b arbitrary: c rule: target_size_loop.induct)
  case (1 a a_rev b b_rev)
  then show ?case by (cases c) (auto split: if_splits)
next
  case (2 a a_rev)
  then show ?case by (cases c) (auto split: if_splits)
next
  case (3 b b_rev)
  then show ?case by (cases c) (auto split: if_splits)
qed simp

lemma target_length: "length (target_size_loop a b) = max (length a) (length b)"
  by (induction a b rule: target_size_loop.induct) simp_all

text \<open>C19. The shape that \<^verbatim>\<open>get_broadcast_target_size\<close> computes is the least shape to which both
  inputs broadcast: both are broadcastable to it in the sense of \<^verbatim>\<open>tensor_is_broadcastable_to\<close>,
  and it is broadcastable to every other such shape. It exists, within the limit on the number of dimensions,
  exactly when the inputs have a common target at all, it has as many dimensions as the longer input, and it does
  not depend on the order of the inputs.
\<close>
theorem broadcast_target_least:
  "(get_broadcast_target_size a b len = Ok out \<longrightarrow>
      tensor_is_broadcastable_to a out \<and> tensor_is_broadcastable_to b out \<and>
      (\<forall>c. tensor_is_broadcastable_to a c \<and> tensor_is_broadcastable_to b c \<longrightarrow> tensor_is_broadcastable_to out c) \<and>
      length out = max (length a) (length b) \<and> length out \<le> len \<and> get_broadcast_target_size b a len = Ok out) \<and>
   (get_broadcast_target_size a b len = Err InvalidArgument \<longleftrightarrow>
      len < max (length a) (length b) \<or> (\<nexists>c. tensor_is_broadcastable_to a c \<and> tensor_is_broadcastable_to b c))"
proof (rule conjI, rule impI, goal_cases)
  case 1
  then have between: "broadcastable_between_loop (rev a) (rev b)" and len: "length a \<le> len" "length b \<le> len"
    and out: "out = rev (target_size_loop (rev a) (rev b))"
    by (auto simp: get_broadcast_target_size_def tensors_are_broadcastable_between_def split: if_splits)
  have upper: "tensor_is_broadcastable_to a out" "tensor_is_broadcastable_to b out"
    using target_upper [OF between] by (simp_all add: broadcastable_to_iff out)
  have upper': "broadcastable_to_loop (rev a) (rev out)" "broadcastable_to_loop (rev b) (rev out)"
    using upper by (simp_all add: broadcastable_to_iff)
  have between': "broadcastable_between_loop (rev b) (rev a)" using target_least [OF upper'(2,1)] by simp
  have "target_size_loop (rev b) (rev a) = target_size_loop (rev a) (rev b)"
    using target_least [OF upper'(2,1)] target_least target_upper [OF between']
    by (metis broadcastable_to_loop_antisym out rev_rev_ident)
  then show ?case
    using upper target_least between' len
    by (auto simp: broadcastable_to_iff out target_length get_broadcast_target_size_def
        tensors_are_broadcastable_between_def)
next
  case 2
  have "broadcastable_between_loop (rev a) (rev b) \<longleftrightarrow>
      (\<exists>c. tensor_is_broadcastable_to a c \<and> tensor_is_broadcastable_to b c)"
    using target_upper target_least by (metis broadcastable_to_iff rev_rev_ident)
  then show ?case by (auto simp: get_broadcast_target_size_def tensors_are_broadcastable_between_def)
qed

theorem broadcast_target_least_witness:
  "get_broadcast_target_size [4, 1, 3] [5, 1] 16 = Ok [4, 5, 3] \<and>
   tensor_is_broadcastable_to [4, 1, 3] [4, 5, 3] \<and> get_broadcast_target_size [5, 1] [4, 1, 3] 16 = Ok [4, 5, 3] \<and>
   (\<nexists>c. tensor_is_broadcastable_to [4, 2] c \<and> tensor_is_broadcastable_to [4, 3] c)"
proof -
  have eval: "get_broadcast_target_size [4, 1, 3] [5, 1] 16 = Ok [4, 5, 3]"
    "get_broadcast_target_size [4, 2] [4, 3] 16 = Err InvalidArgument"
    by code_simp+
  from broadcast_target_least [of "[4, 2]" "[4, 3]" 16 "[]"] eval(2)
  have "\<nexists>c. tensor_is_broadcastable_to [4, 2] c \<and> tensor_is_broadcastable_to [4, 3] c" by simp
  with eval(1) broadcast_target_least [of "[4, 1, 3]" "[5, 1]" 16 "[4, 5, 3]"] show ?thesis by blast
qed

end
