(* ===== verification/Broadcast_Range.thy ===== *)
theory Broadcast_Range
  imports Broadcast Block_Copy
begin

text \<open>
  What the iterator over broadcast tensors does: the carry loop is an odometer in the sizes of the output, walked
  by the loops over a range (locale \<open>index_walk\<close>, interpreted for the iterator that keeps coordinates and
  for the one that only counts); it agrees with the reference computation of an index and with skipping; what an
  elementwise kernel computes.
\<close>

section \<open>The odometer\<close>

lemma sint_uint_small: "uint (w :: usize) < 2 ^ 63 \<Longrightarrow> sint w = uint w"
  by (simp add: sint_uint signed_take_bit_eq_take_bit_minus take_bit_int_eq_self bit_iff_odd)

lemma as_i32_small: "uint (w :: usize) < 2 ^ 31 \<Longrightarrow> sint (ucast w :: 32 word) = uint w"
proof -
  assume w: "uint w < 2 ^ 31"
  then have "uint (ucast w :: 32 word) = uint w" by (simp add: unsigned_ucast_eq take_bit_word_eq_self take_bit_int_eq_self)
  with w show ?thesis by (simp add: sint_uint signed_take_bit_eq_take_bit_minus take_bit_int_eq_self bit_iff_odd)
qed

lemma mixed_update:
  "length D = length S \<Longrightarrow> i < length S \<Longrightarrow>
   mixed (D[i := v]) S = mixed D S + (v - D ! i) * prod_list (drop (Suc i) S)"
proof (induction D S arbitrary: i rule: list_induct2)
  case (Cons x xs y ys)
  then show ?case by (cases i) (simp_all add: algebra_simps)
qed simp

lemma element_offset_update:
  assumes "i < length D"
  shows "element_offset E (D[i := v]) = element_offset E D + (v - D ! i) * E ! i"
proof -
  have "(\<Sum>k < length D. D[i := v] ! k * E ! k) = v * E ! i + (\<Sum>k \<in> {..<length D} - {i}. D[i := v] ! k * E ! k)"
    using assms by (subst sum.remove [of _ i]) simp_all
  also have "(\<Sum>k \<in> {..<length D} - {i}. D[i := v] ! k * E ! k) = (\<Sum>k \<in> {..<length D} - {i}. D ! k * E ! k)"
    by (rule sum.cong) auto
  also have "(\<Sum>k < length D. D ! k * E ! k) = D ! i * E ! i + (\<Sum>k \<in> {..<length D} - {i}. D ! k * E ! k)"
    using assms by (subst sum.remove [of _ i]) simp_all
  then have "(\<Sum>k \<in> {..<length D} - {i}. D ! k * E ! k) = (\<Sum>k < length D. D ! k * E ! k) - D ! i * E ! i" by simp
  finally show ?thesis by (simp add: element_offset_def algebra_simps)
qed

lemma element_offset_mono:
  assumes "digits D S" and "length E = length S" and "\<forall>e \<in> set E. 0 \<le> e"
  shows "0 \<le> element_offset E D \<and> element_offset E D \<le> element_offset E (map (\<lambda>s. s - 1) S)"
proof -
  have d: "length D = length S" "0 \<le> D ! k" "D ! k \<le> S ! k - 1" if "k < length S" for k
    using assms(1) that by (auto simp: list_all2_conv_all_nth)
  have len: "length D = length S" using assms(1) by (rule list_all2_lengthD)
  have e: "0 \<le> E ! k" if "k < length S" for k using assms(2,3) that by simp
  have "0 \<le> (\<Sum>k < length S. D ! k * E ! k)" using d e by (intro sum_nonneg) simp
  moreover have "(\<Sum>k < length S. D ! k * E ! k) \<le> (\<Sum>k < length S. (S ! k - 1) * E ! k)"
    using d e by (intro sum_mono mult_right_mono) simp_all
  ultimately show ?thesis using len by (simp add: element_offset_def)
qed

lemma element_offset_term:
  assumes "digits D S" and "length E = length S" and "\<forall>e \<in> set E. 0 \<le> e" and "i < length S"
  shows "0 \<le> D ! i * E ! i" and "D ! i * E ! i \<le> element_offset E D"
proof -
  have d: "0 \<le> D ! k" and e: "0 \<le> E ! k" if "k < length S" for k
    using assms that by (auto simp: list_all2_conv_all_nth)
  have len: "length D = length S" using assms(1) by (rule list_all2_lengthD)
  show "0 \<le> D ! i * E ! i" using d e assms(4) by simp
  show "D ! i * E ! i \<le> element_offset E D"
    unfolding element_offset_def len using assms(4) d e by (intro member_le_sum) simp_all
qed

text \<open>The strides of the inputs as numbers, small enough that no index leaves the signed word.\<close>

definition strides_for :: "int list \<Rightarrow> int list list \<Rightarrow> shape_type list \<Rightarrow> bool" where
  "strides_for S Es strides \<longleftrightarrow>
     list_all2 (\<lambda>st E. map uint (take (length S) st) = E \<and> length E = length S \<and> (\<forall>e \<in> set E. e < 2 ^ 31) \<and>
       element_offset E (map (\<lambda>s. s - 1) S) < 2 ^ 63) strides Es"

lemma strides_for_Cons [simp]:
  "strides_for S (E # Es) (st # strides) \<longleftrightarrow>
     (map uint (take (length S) st) = E \<and> length E = length S \<and> (\<forall>e \<in> set E. e < 2 ^ 31) \<and>
       element_offset E (map (\<lambda>s. s - 1) S) < 2 ^ 63) \<and> strides_for S Es strides"
  by (auto simp: strides_for_def)

lemma stride_word:
  assumes "map uint (take (length S) st) = E" and "length E = length S" and "\<forall>e \<in> set E. e < 2 ^ 31" and "i < length S"
  shows "sint (st ! i :: usize) = E ! i" and "0 \<le> E ! i"
proof -
  have "length S \<le> length st" using assms(1,2) by (metis length_map length_take min.cobounded1)
  then have u: "uint (st ! i) = E ! i" using assms(1,4) by auto
  moreover have "E ! i < 2 ^ 31" using assms(2-4) by simp
  ultimately show "sint (st ! i) = E ! i" by (simp add: sint_uint_small)
  show "0 \<le> E ! i" using u uint_ge_0 by metis
qed

lemma strides_nonneg:
  assumes "map uint (take (length S) st) = E"
  shows "\<forall>e \<in> set E. 0 \<le> e"
  using assms by auto

lemma add_strides_correct:
  assumes "strides_for S Es strides" and "digits D S" and "digits (D[i := D ! i + 1]) S" and "i < length S"
  shows "add_strides oc i strides (map (\<lambda>E. element_offset E D) Es) =
    Ok (map (\<lambda>E. element_offset E (D[i := D ! i + 1])) Es)"
  using assms(1)
proof (induction Es arbitrary: strides)
  case Nil
  then show ?case by (simp add: strides_for_def)
next
  case (Cons E Es)
  then obtain st sts where strides: "strides = st # sts" by (auto simp: strides_for_def list_all2_Cons2)
  note E = Cons.prems [unfolded strides strides_for_Cons]
  have len: "length D = length S" using assms(2) by (rule list_all2_lengthD)
  have eq: "element_offset E (D[i := D ! i + 1]) = element_offset E D + E ! i"
    using assms(4) len by (simp add: element_offset_update)
  have "fits_i64 (element_offset E D + E ! i)"
    using element_offset_mono [OF assms(3), of E] E strides_nonneg [of S st E] eq by (simp add: fits_i64_def)
  then show ?case
    using Cons.IH [of sts] E stride_word [of S st E i] assms(4) by (simp add: strides i64_add_exact eq)
qed

lemma sub_strides_correct:
  assumes "strides_for S Es strides" and "digits D S" and "sint item = D ! i" and "i < length S"
  shows "sub_strides oc item i strides (map (\<lambda>E. element_offset E D) Es) =
    Ok (map (\<lambda>E. element_offset E (D[i := 0])) Es)"
  using assms(1)
proof (induction Es arbitrary: strides)
  case Nil
  then show ?case by (simp add: strides_for_def)
next
  case (Cons E Es)
  then obtain st sts where strides: "strides = st # sts" by (auto simp: strides_for_def list_all2_Cons2)
  note E = Cons.prems [unfolded strides strides_for_Cons]
  have len: "length D = length S" using assms(2) by (rule list_all2_lengthD)
  have eq: "element_offset E (D[i := 0]) = element_offset E D - D ! i * E ! i"
    using assms(4) len by (simp add: element_offset_update)
  note bounds = element_offset_mono [OF assms(2), of E] element_offset_term [OF assms(2), of E i]
  have fits: "fits_i64 (D ! i * E ! i)" "fits_i64 (element_offset E D - D ! i * E ! i)"
    using bounds E strides_nonneg [of S st E] assms(4) by (simp_all add: fits_i64_def)
  then show ?case
    using Cons.IH [of sts] E stride_word [of S st E i] assms(3,4)
    by (simp add: strides i64_mul_exact i64_sub_exact eq)
qed

text \<open>The digits \<open>D\<close> and the array that holds them.\<close>

definition shows_digits :: "int list \<Rightarrow> int list \<Rightarrow> shape_type \<Rightarrow> bool" where
  "shows_digits S D delin \<longleftrightarrow> length delin = 16 \<and> map uint (take (length S) delin) = D \<and>
     drop (length S) delin = replicate (16 - length S) 0"

lemma shows_digits_nth:
  "shows_digits S D delin \<Longrightarrow> length S \<le> 16 \<Longrightarrow> i < length S \<Longrightarrow> uint (delin ! i) = D ! i"
  by (auto simp: shows_digits_def)

lemma shows_digits_update:
  "shows_digits S D delin \<Longrightarrow> i < length S \<Longrightarrow> uint d = v \<Longrightarrow> shows_digits S (D[i := v]) (delin[i := d])"
  by (auto simp: shows_digits_def take_update_swap map_update)

lemma increment_loop_correct:
  assumes "strides_for S Es strides" and "\<forall>s \<in> set S. 1 \<le> s \<and> s < 2 ^ 31" and "length S \<le> 16"
    and "digits D S" and "shows_digits S D delin" and "i \<le> length S" and "\<forall>k < length S. i \<le> k \<longrightarrow> D ! k = 0"
    and "mixed D S + prod_list (drop i S) \<le> prod_list S"
  shows "\<exists>delin' D'. increment_loop oc S strides i delin (map (\<lambda>E. element_offset E D) Es) =
      Ok (delin', map (\<lambda>E. element_offset E D') Es) \<and> digits D' S \<and> shows_digits S D' delin' \<and>
      mixed D' S = (mixed D S + prod_list (drop i S)) mod prod_list S"
  using assms(4-8)
proof (induction i arbitrary: D delin)
  case 0
  then have "mixed D S = 0" using mixed_range [of D S] by simp
  then show ?case using 0 by auto
next
  case (Suc i)
  let ?P = "prod_list (drop (Suc i) S)"
  have i: "i < length S" and len: "length D = length S" using Suc.prems(1,3) by (auto dest: list_all2_lengthD)
  have s: "1 \<le> S ! i" "S ! i < 2 ^ 31" using assms(2) i by simp_all
  have d: "0 \<le> D ! i" "D ! i < S ! i" using Suc.prems(1) i by (simp_all add: list_all2_conv_all_nth)
  have u: "uint (delin ! i) = D ! i" using shows_digits_nth [OF Suc.prems(2) assms(3) i] .
  have item: "sint (delin ! i) = D ! i" "sint (ucast (delin ! i) :: 32 word) = D ! i"
    using u d s sint_uint_small [of "delin ! i"] as_i32_small [of "delin ! i"] by simp_all
  have last_ix: "i32_sub oc (S ! i) 1 = Ok (S ! i - 1)" for oc
    using s by (intro i32_sub_exact) (simp add: fits_i32_def)
  have drop_i: "prod_list (drop i S) = S ! i * ?P" using i by (simp add: Cons_nth_drop_Suc [symmetric])
  show ?case
  proof (cases "D ! i = S ! i - 1")
    case True
    let ?D = "D[i := 0]"
    have mixed: "mixed ?D S + prod_list (drop i S) = mixed D S + ?P"
      using len i by (simp add: mixed_update drop_i True left_diff_distrib)
    have digits: "digits ?D S" using Suc.prems(1) i s(1)
      by (metis list_all2_update_cong list_update_id order.refl order_less_le_trans zero_less_one)
    have "\<exists>delin' D'. increment_loop oc S strides i (delin[i := 0]) (map (\<lambda>E. element_offset E ?D) Es) =
        Ok (delin', map (\<lambda>E. element_offset E D') Es) \<and> digits D' S \<and> shows_digits S D' delin' \<and>
        mixed D' S = (mixed ?D S + prod_list (drop i S)) mod prod_list S"
    proof (rule Suc.IH)
      show "digits ?D S" by (rule digits)
      show "shows_digits S ?D (delin[i := 0])" using Suc.prems(2) i by (rule shows_digits_update) simp
      show "\<forall>k < length S. i \<le> k \<longrightarrow> ?D ! k = 0" using Suc.prems(4) len by (auto simp: nth_list_update Suc_le_eq)
      show "mixed ?D S + prod_list (drop i S) \<le> prod_list S" using mixed Suc.prems(5) by simp
    qed (use i in simp)
    then show ?thesis
      using True item mixed sub_strides_correct [OF assms(1) Suc.prems(1) item(1) i, of oc] by (simp add: last_ix)
  next
    case False
    let ?D = "D[i := D ! i + 1]"
    have digits: "digits ?D S" using Suc.prems(1) i d False
      by (auto simp: list_all2_conv_all_nth nth_list_update)
    have mixed: "mixed ?D S = mixed D S + ?P" using len i by (simp add: mixed_update)
    then have "mixed ?D S = (mixed D S + ?P) mod prod_list S" using mixed_range [OF digits] by simp
    moreover have small: "uint (delin ! i) + uint (1 :: usize) < 2 ^ 63" using u d s by simp
    ultimately show ?thesis
      using False item add_strides_correct [OF assms(1) Suc.prems(1) digits i, of oc] digits
        usize_add_exact [OF small] shows_digits_update [OF Suc.prems(2) i, of "delin ! i + 1" "D ! i + 1"] u
      by (auto simp: last_ix)
  qed
qed

text \<open>
  The state of an iterator that keeps coordinates, at the \<open>n\<close>th element of an output of sizes \<open>S\<close>:
  its coordinate are the digits of \<open>n\<close>, and each input's index is the sum of the digits times its strides.
\<close>

definition at_index :: "int list \<Rightarrow> int list list \<Rightarrow> int \<Rightarrow> broadcast_iterator \<Rightarrow> bool" where
  "at_index S Es n it \<longleftrightarrow>
     bi_output_index it = n \<and> bi_output_shape it = S \<and> bi_output_dim_or_zero it = int (length S) \<and>
     strides_for S Es (bi_effective_strides it) \<and>
     (\<exists>D. digits D S \<and> mixed D S = n mod prod_list S \<and> shows_digits S D (bi_delinearized_output_index it) \<and>
        bi_input_indexes it = map (\<lambda>E. element_offset E D) Es)"

lemma at_index_unique:
  assumes "at_index S Es n it" and "at_index S Es n it'" and "bi_effective_strides it = bi_effective_strides it'"
  shows "it = it'"
proof -
  obtain D D' where D: "digits D S" "mixed D S = n mod prod_list S" "shows_digits S D (bi_delinearized_output_index it)"
      "bi_input_indexes it = map (\<lambda>E. element_offset E D) Es"
    and D': "digits D' S" "mixed D' S = n mod prod_list S" "shows_digits S D' (bi_delinearized_output_index it')"
      "bi_input_indexes it' = map (\<lambda>E. element_offset E D') Es"
    using assms by (auto simp: at_index_def)
  have eq: "D = D'" using mixed_inject [OF D(1) D'(1)] D(2) D'(2) by simp
  have "map uint (take (length S) (bi_delinearized_output_index it)) = map uint (take (length S) (bi_delinearized_output_index it'))"
    using D(3) D'(3) eq by (simp add: shows_digits_def)
  then have "take (length S) (bi_delinearized_output_index it) = take (length S) (bi_delinearized_output_index it')"
    by (rule map_injective) (auto intro: injI simp: word_uint_eq_iff)
  moreover have "drop (length S) (bi_delinearized_output_index it) = drop (length S) (bi_delinearized_output_index it')"
    using D(3) D'(3) by (simp add: shows_digits_def)
  ultimately have "bi_delinearized_output_index it = bi_delinearized_output_index it'"
    by (metis append_take_drop_id)
  then show ?thesis using assms D(4) D'(4) eq by (simp add: at_index_def)
qed

lemma increment_at_index:
  assumes "at_index S Es n it" and "S \<noteq> []" and "\<forall>s \<in> set S. 1 \<le> s \<and> s < 2 ^ 31" and "length S \<le> 16"
    and "0 \<le> n" and "n < prod_list S" and "prod_list S < 2 ^ 63"
  shows "\<exists>it'. increment oc it = Ok it' \<and> at_index S Es (n + 1) it' \<and>
    bi_effective_strides it' = bi_effective_strides it"
proof -
  obtain D where D: "digits D S" "mixed D S = n" "shows_digits S D (bi_delinearized_output_index it)"
      "bi_input_indexes it = map (\<lambda>E. element_offset E D) Es"
    using assms(1,5,6) by (auto simp: at_index_def)
  have strides: "strides_for S Es (bi_effective_strides it)" using assms(1) by (simp add: at_index_def)
  obtain delin' D' where step: "increment_loop oc S (bi_effective_strides it) (length S) (bi_delinearized_output_index it)
        (map (\<lambda>E. element_offset E D) Es) = Ok (delin', map (\<lambda>E. element_offset E D') Es)"
      "digits D' S" "shows_digits S D' delin'" "mixed D' S = (n + 1) mod prod_list S"
    using increment_loop_correct [OF strides assms(3,4) D(1,3) order_refl, of oc] D(2) assms(6) by auto
  have "(i64_add oc n 1 :: int result) = Ok (n + 1)"
    using assms(5-7) by (intro i64_add_exact) (simp add: fits_i64_def)
  then show ?thesis using assms(1,2) D(4) step by (auto simp: at_index_def increment_def)
qed

lemma increment_times_at_index:
  assumes "at_index S Es n it" and "S \<noteq> []" and "\<forall>s \<in> set S. 1 \<le> s \<and> s < 2 ^ 31" and "length S \<le> 16"
    and "0 \<le> n" and "n + int k \<le> prod_list S" and "prod_list S < 2 ^ 63"
  shows "\<exists>it'. increment_times oc k it = Ok it' \<and> at_index S Es (n + int k) it' \<and>
    bi_effective_strides it' = bi_effective_strides it"
  using assms(1,5,6)
proof (induction k arbitrary: n it)
  case (Suc k)
  obtain it1 where it1: "increment oc it = Ok it1" "at_index S Es (n + 1) it1"
      "bi_effective_strides it1 = bi_effective_strides it"
    using increment_at_index [OF Suc.prems(1) assms(2-4) Suc.prems(2) _ assms(7), of oc] Suc.prems(3) by auto
  have eq: "n + 1 + int k = n + int (Suc k)" by simp
  show ?case using Suc.IH [OF it1(2)] Suc.prems(2,3) it1(1,3) unfolding eq by auto
qed auto

lemma dot_loop_correct:
  assumes "map uint (take (length S) st) = E" and "length E = length S" and "\<forall>e \<in> set E. e < 2 ^ 31"
    and "element_offset E (map (\<lambda>s. s - 1) S) < 2 ^ 63" and "digits D S" and "shows_digits S D delin"
    and "length S \<le> 16" and "\<forall>s \<in> set S. 1 \<le> s \<and> s < 2 ^ 31" and "k \<le> length S"
  shows "dot_loop oc delin st [0..<k] 0 = Ok (\<Sum>j < k. D ! j * E ! j)"
proof -
  have len: "length D = length S" using assms(5) by (rule list_all2_lengthD)
  note nonneg = strides_nonneg [OF assms(1)]
  have prefix: "0 \<le> (\<Sum>j < i. D ! j * E ! j)" "(\<Sum>j < i. D ! j * E ! j) < 2 ^ 63" if "i \<le> length S" for i
  proof -
    have summand: "0 \<le> D ! j * E ! j" if "j < length S" for j
      using element_offset_term [OF assms(5,2) nonneg that] by simp
    then show "0 \<le> (\<Sum>j < i. D ! j * E ! j)" using that by (intro sum_nonneg) simp
    have "(\<Sum>j < i. D ! j * E ! j) \<le> (\<Sum>j < length S. D ! j * E ! j)"
      using that summand by (intro sum_mono2) auto
    also have "\<dots> = element_offset E D" by (simp add: element_offset_def len)
    finally show "(\<Sum>j < i. D ! j * E ! j) < 2 ^ 63"
      using element_offset_mono [OF assms(5,2) nonneg] assms(4) by linarith
  qed
  have "dot_loop oc delin st [i..<k] (\<Sum>j < i. D ! j * E ! j) = Ok (\<Sum>j < k. D ! j * E ! j)" if "i \<le> k" for i
    using that
  proof (induction "k - i" arbitrary: i)
    case (Suc n)
    then have i: "i < k" and upt: "[i..<k] = i # [Suc i..<k]" by (simp_all add: upt_conv_Cons)
    have il: "i < length S" using i assms(9) by simp
    have d: "0 \<le> D ! i" "D ! i < S ! i" using assms(5) il by (simp_all add: list_all2_conv_all_nth)
    have "S ! i < 2 ^ 31" using assms(8) il by simp
    then have delin: "sint (delin ! i) = D ! i"
      using shows_digits_nth [OF assms(6,7) il] d sint_uint_small [of "delin ! i"] by simp
    have "fits_i64 (D ! i * E ! i)"
      using element_offset_term [OF assms(5,2) nonneg il] element_offset_mono [OF assms(5,2) nonneg] assms(4)
      by (simp add: fits_i64_def)
    moreover have "fits_i64 ((\<Sum>j < i. D ! j * E ! j) + D ! i * E ! i)"
      using prefix [of "Suc i"] il by (simp add: fits_i64_def)
    moreover have "sint (st ! i) = E ! i" using stride_word [OF assms(1-3) il] by simp
    moreover have "dot_loop oc delin st [Suc i..<k] (\<Sum>j < Suc i. D ! j * E ! j) = Ok (\<Sum>j < k. D ! j * E ! j)"
      using Suc i by (intro Suc.hyps(1)) simp_all
    ultimately show ?case by (simp add: upt delin i64_mul_exact i64_add_exact)
  qed simp
  from this [of 0] show ?thesis by simp
qed

lemma dot_inputs_correct:
  assumes "strides_for S Es strides" and "digits D S" and "shows_digits S D delin"
    and "length S \<le> 16" and "\<forall>s \<in> set S. 1 \<le> s \<and> s < 2 ^ 31"
  shows "dot_inputs oc delin (length S) strides = Ok (map (\<lambda>E. element_offset E D) Es)"
  using assms(1)
proof (induction Es arbitrary: strides)
  case Nil
  then show ?case by (simp add: strides_for_def)
next
  case (Cons E Es)
  then obtain st sts where strides: "strides = st # sts" by (auto simp: strides_for_def list_all2_Cons2)
  note E = Cons.prems [unfolded strides strides_for_Cons]
  have "length D = length S" using assms(2) by (rule list_all2_lengthD)
  then show ?case
    using Cons.IH [of sts] E dot_loop_correct [of S st E D delin "length S" oc] assms
    by (simp add: strides element_offset_def)
qed

lemma add_assign_at_index:
  assumes "at_index S Es n it" and "S \<noteq> []" and "\<forall>s \<in> set S. 1 \<le> s \<and> s < 2 ^ 31" and "length S \<le> 16"
    and "0 \<le> n" and "0 \<le> m" and "n + m < prod_list S" and "prod_list S < 2 ^ 63"
  shows "\<exists>it'. add_assign oc m it = Ok it' \<and> at_index S Es (n + m) it' \<and>
    bi_effective_strides it' = bi_effective_strides it"
proof (cases "m \<le> 3")
  case True
  then show ?thesis
    using increment_times_at_index [OF assms(1-5), of "nat m" oc] assms(6-8) by (simp add: add_assign_def)
next
  case False
  let ?w = "word_of_int (n + m) :: usize"
  have w: "uint ?w = n + m" using assms(5-8) by (intro uint_size) simp_all
  have strides: "strides_for S Es (bi_effective_strides it)" using assms(1) by (simp add: at_index_def)
  have sizes: "\<forall>s \<in> set S. 1 \<le> s \<and> s < 2 ^ 63" using assms(3) by fastforce
  obtain c where c: "delinearize_loop (rev S) ?w [] = Ok c" "digits (map uint c) S" "mixed (map uint c) S = n + m"
    using delinearize_loop_correct [OF sizes, of ?w "[]"] w assms(5-7) by auto
  have len: "length c = length S" using list_all2_lengthD [OF c(2)] by simp
  let ?delin = "c @ drop (length c) (bi_delinearized_output_index it)"
  have shown: "shows_digits S (map uint c) ?delin" and dlen: "length (bi_delinearized_output_index it) = 16"
    using assms(1,4) len by (auto simp: at_index_def shows_digits_def)
  have "(i64_add oc n m :: int result) = Ok (n + m)"
    using assms(5-8) by (intro i64_add_exact) (simp add: fits_i64_def)
  moreover have "delinearize_index ?w S 16 = Ok c" using c(1) assms(4) by (simp add: delinearize_index_def)
  moreover have "dot_inputs oc ?delin (length S) (bi_effective_strides it) = Ok (map (\<lambda>E. element_offset E (map uint c)) Es)"
    by (rule dot_inputs_correct [OF strides c(2) shown assms(4,3)])
  ultimately show ?thesis
    using False assms(1,2,5-7) c(2,3) shown dlen strides
    by (auto simp: add_assign_def at_index_def Let_def)
qed

text \<open>Skipping and stepping reach the same state.\<close>

lemma add_assign_is_stepping:
  assumes "at_index S Es n it" and "S \<noteq> []" and "\<forall>s \<in> set S. 1 \<le> s \<and> s < 2 ^ 31" and "length S \<le> 16"
    and "0 \<le> n" and "0 \<le> m" and "n + m < prod_list S" and "prod_list S < 2 ^ 63"
  shows "add_assign oc m it = increment_times oc (nat m) it"
proof -
  obtain a where a: "add_assign oc m it = Ok a" "at_index S Es (n + m) a" "bi_effective_strides a = bi_effective_strides it"
    using add_assign_at_index [OF assms] by metis
  obtain b where b: "increment_times oc (nat m) it = Ok b" "at_index S Es (n + m) b" "bi_effective_strides b = bi_effective_strides it"
    using increment_times_at_index [OF assms(1-5), of "nat m" oc] assms(6-8) by auto
  show ?thesis using at_index_unique [OF a(2) b(2)] a(1,3) b(1,3) by simp
qed

section \<open>Walking the index space\<close>

text \<open>
  What the loop over a range needs of its iterator: a description \<open>stands n it\<close> of the states in which it
  stands at the \<open>n\<close>th element, kept by \<^verbatim>\<open>increment\<close>, with the input indexes \<open>ixs n\<close>.
\<close>

locale index_walk =
  fixes oc :: bool and stands :: "int \<Rightarrow> broadcast_iterator \<Rightarrow> bool" and ixs :: "int \<Rightarrow> int list" and numel :: int
  assumes step: "stands n it \<Longrightarrow> 0 \<le> n \<Longrightarrow> n < numel \<Longrightarrow> \<exists>it'. increment oc it = Ok it' \<and> stands (n + 1) it'"
    and output_index: "stands n it \<Longrightarrow> bi_output_index it = n"
    and input_indexes: "stands n it \<Longrightarrow> 0 \<le> n \<Longrightarrow> n < numel \<Longrightarrow> bi_input_indexes it = ixs n"
begin

lemma walk_from:
  assumes "stands (int n) it" and "int n < numel" and "numel = int (n + Suc k)"
  shows "for_range oc (Suc k) body \<lparr>ri_it = it, ri_end_index = numel, ri_started = True\<rparr> s =
    Ok (Some (fold (\<lambda>i. body (int i, ixs (int i))) [Suc n..<n + Suc k] s))"
  using assms
proof (induction k arbitrary: n it s)
  case 0
  then obtain it' where "increment oc it = Ok it'" "stands (int n + 1) it'" using step [of "int n" it] by auto
  then show ?case using 0 output_index by (simp add: range_next_def)
next
  case (Suc k)
  then obtain it' where it': "increment oc it = Ok it'" "stands (int n + 1) it'" using step [of "int n" it] by auto
  have upt: "[Suc n..<n + Suc (Suc k)] = Suc n # [Suc (Suc n)..<Suc n + Suc k]" by (simp add: upt_conv_Cons del: upt_Suc)
  have "bi_input_indexes it' = ixs (int (Suc n))"
    using input_indexes [OF it'(2)] Suc.prems by (simp add: add.commute)
  then have nxt: "range_next oc \<lparr>ri_it = it, ri_end_index = numel, ri_started = True\<rparr> =
      Ok (Some (int (Suc n), ixs (int (Suc n))), \<lparr>ri_it = it', ri_end_index = numel, ri_started = True\<rparr>)"
    using it' output_index [OF it'(2)] Suc.prems by (simp add: range_next_def)
  have "for_range oc (Suc k) body \<lparr>ri_it = it', ri_end_index = numel, ri_started = True\<rparr> (body (int (Suc n), ixs (int (Suc n))) s) =
      Ok (Some (fold (\<lambda>i. body (int i, ixs (int i))) [Suc (Suc n)..<Suc n + Suc k] (body (int (Suc n), ixs (int (Suc n))) s)))"
    using it'(2) Suc.prems by (intro Suc.IH) (simp_all add: add.commute)
  then show ?case unfolding upt by (subst for_range.simps) (simp add: nxt del: for_range.simps upt_Suc)
qed

lemma walk:
  assumes "stands 0 it" and "0 \<le> numel"
  shows "for_range oc (Suc (nat numel)) body \<lparr>ri_it = it, ri_end_index = numel, ri_started = False\<rparr> s =
    Ok (Some (fold (\<lambda>i. body (int i, ixs (int i))) [0..<nat numel] s))"
proof (cases "nat numel")
  case 0
  then show ?thesis using assms output_index [OF assms(1)] by (simp add: range_next_def)
next
  case (Suc k)
  then have numel: "numel = int (0 + Suc k)" "0 < numel" using assms(2) by simp_all
  have upt: "[0..<Suc k] = 0 # [Suc 0..<0 + Suc k]" by (simp add: upt_conv_Cons del: upt_Suc)
  have nxt: "range_next oc \<lparr>ri_it = it, ri_end_index = numel, ri_started = False\<rparr> =
      Ok (Some (0, ixs 0), \<lparr>ri_it = it, ri_end_index = numel, ri_started = True\<rparr>)"
    using output_index [OF assms(1)] input_indexes [OF assms(1)] numel(2) by (simp add: range_next_def)
  have "for_range oc (Suc k) body \<lparr>ri_it = it, ri_end_index = numel, ri_started = True\<rparr> (body (0, ixs 0) s) =
      Ok (Some (fold (\<lambda>i. body (int i, ixs (int i))) [Suc 0..<0 + Suc k] (body (0, ixs 0) s)))"
    using assms(1) numel by (intro walk_from) simp_all
  then show ?thesis unfolding Suc upt by (subst for_range.simps) (simp add: nxt del: for_range.simps upt_Suc)
qed

end

text \<open>The coordinates of the \<open>n\<close>th element.\<close>

fun coordinates :: "int list \<Rightarrow> int \<Rightarrow> int list" where
  "coordinates [] n = []"
| "coordinates (s # S) n = n div prod_list S # coordinates S (n mod prod_list S)"

lemma coordinates_correct:
  "\<forall>s \<in> set S. 1 \<le> s \<Longrightarrow> 0 \<le> n \<Longrightarrow> n < prod_list S \<Longrightarrow>
   digits (coordinates S n) S \<and> mixed (coordinates S n) S = n"
proof (induction S arbitrary: n)
  case (Cons s S)
  have p: "1 \<le> prod_list S" using prod_list_pos [of S] Cons.prems(1) by simp
  have "n div prod_list S < s"
  proof (rule ccontr)
    assume "\<not> n div prod_list S < s"
    then have "s * prod_list S \<le> n div prod_list S * prod_list S" using p by (intro mult_right_mono) simp_all
    also have "\<dots> \<le> n" using div_mult_mod_eq [of n "prod_list S"] pos_mod_sign [of "prod_list S" n] p by linarith
    finally show False using Cons.prems(3) by simp
  qed
  then show ?case using Cons.IH [of "n mod prod_list S"] Cons.prems p
    by (simp add: pos_imp_zdiv_nonneg_iff)
qed simp

text \<open>The iterator that keeps coordinates, and the one that counts for all tensors alike.\<close>

definition stands_at :: "int list \<Rightarrow> int list list \<Rightarrow> int \<Rightarrow> broadcast_iterator \<Rightarrow> bool" where
  "stands_at S Es n it \<longleftrightarrow> at_index S Es n it \<and> S \<noteq> [] \<and> (\<forall>s \<in> set S. 1 \<le> s \<and> s < 2 ^ 31) \<and> length S \<le> 16 \<and>
     prod_list S < 2 ^ 63"

definition counts_at :: "nat \<Rightarrow> int \<Rightarrow> int \<Rightarrow> broadcast_iterator \<Rightarrow> bool" where
  "counts_at k numel n it \<longleftrightarrow> bi_output_index it = n \<and> bi_output_dim_or_zero it = 0 \<and>
     bi_input_indexes it = replicate k n \<and> numel < 2 ^ 63"

interpretation odometer: index_walk oc "stands_at S Es"
  "\<lambda>n. map (\<lambda>E. element_offset E (coordinates S n)) Es" "prod_list S" for oc S Es
proof unfold_locales
  show "\<exists>it'. increment oc it = Ok it' \<and> stands_at S Es (n + 1) it'"
    if "stands_at S Es n it" "0 \<le> n" "n < prod_list S" for n it
    using that increment_at_index [of S Es n it oc] by (auto simp: stands_at_def)
  show "bi_output_index it = n" if "stands_at S Es n it" for n it
    using that by (simp add: stands_at_def at_index_def)
  show "bi_input_indexes it = map (\<lambda>E. element_offset E (coordinates S n)) Es"
    if at: "stands_at S Es n it" and n: "0 \<le> n" "n < prod_list S" for n it
  proof -
    obtain D where D: "digits D S" "mixed D S = n" "bi_input_indexes it = map (\<lambda>E. element_offset E D) Es"
      using at unfolding stands_at_def at_index_def mod_pos_pos_trivial [OF n] by metis
    have "D = coordinates S n"
      using mixed_inject [OF D(1)] coordinates_correct [of S n] D(2) at n by (auto simp: stands_at_def)
    then show ?thesis using D(3) by simp
  qed
qed

interpretation counter: index_walk oc "counts_at k numel" "\<lambda>n. replicate k n" numel for oc k numel
proof unfold_locales
  show "\<exists>it'. increment oc it = Ok it' \<and> counts_at k numel (n + 1) it'"
    if "counts_at k numel n it" "0 \<le> n" "n < numel" for n it
  proof -
    have "(i64_add oc n 1 :: int result) = Ok (n + 1)"
      using that by (intro i64_add_exact) (simp add: fits_i64_def counts_at_def)
    then show ?thesis using that by (simp add: increment_def counts_at_def map_replicate_const)
  qed
qed (simp_all add: counts_at_def)

section \<open>Strides of the inputs\<close>

definition zero_ones :: "int list \<Rightarrow> int list \<Rightarrow> int list" where
  "zero_ones T xs = map2 (\<lambda>s x. if s = 1 then 0 else x) T xs"

lemma zero_ones_simps [simp]:
  "zero_ones [] xs = []" "zero_ones T [] = []"
  "zero_ones (s # T) (x # xs) = (if s = 1 then 0 else x) # zero_ones T xs"
  by (simp_all add: zero_ones_def)

lemma length_zero_ones [simp]: "length (zero_ones T xs) = min (length T) (length xs)"
  by (simp add: zero_ones_def)

text \<open>The strides along which an input of sizes \<open>T\<close> is read for an output of \<open>n\<close> dimensions.\<close>

definition input_strides :: "nat \<Rightarrow> int list \<Rightarrow> int list \<Rightarrow> int list" where
  "input_strides n T st = replicate (n - length T) 0 @ zero_ones T st"

lemma element_offset_Cons [simp]: "element_offset (e # E) (d # D) = d * e + element_offset E D"
  unfolding element_offset_def length_Cons by (subst sum.lessThan_Suc_shift) simp

lemma element_offset_Nil [simp]: "element_offset E [] = 0"
  by (simp add: element_offset_def)

lemma element_offset_skip: "length D = n + m \<Longrightarrow> element_offset (replicate n 0 @ E) D = element_offset E (drop n D)"
proof (induction n arbitrary: D)
  case (Suc n)
  then obtain d D' where "D = d # D'" by (cases D) auto
  then show ?case using Suc by simp
qed simp

text \<open>Row-major strides, and the index they give: a mixed-radix number in the sizes of the input.\<close>

fun row_major :: "int list \<Rightarrow> int list" where
  "row_major [] = []"
| "row_major (s # T) = prod_list T # row_major T"

lemma length_row_major [simp]: "length (row_major T) = length T"
  by (induction T) simp_all

lemma row_major_nonneg: "\<forall>s \<in> set T. 0 \<le> s \<Longrightarrow> \<forall>e \<in> set (row_major T). 0 \<le> e"
  by (induction T) (auto simp: prod_list_nonneg_int)

text \<open>An input may be read for an output: aligned at the last dimension, each size is one or the output's.\<close>

lemma broadcastable_split:
  "broadcastable_to_loop f t \<longleftrightarrow>
     length f \<le> length t \<and> list_all2 (\<lambda>t s. s = t \<or> t = 1) f (take (length f) t)"
  by (induction f t rule: broadcastable_to_loop.induct) auto

lemma broadcastable_aligned:
  "tensor_is_broadcastable_to T S \<longleftrightarrow> length T \<le> length S \<and>
     list_all2 (\<lambda>t s. s = t \<or> t = 1) T (drop (length S - length T) S)"
  by (simp add: broadcastable_to_iff broadcastable_split take_rev)

lemma zero_ones_digits:
  "list_all2 (\<lambda>t s. s = t \<or> t = 1) T S \<Longrightarrow> digits D S \<Longrightarrow> digits (zero_ones T D) T"
proof (induction T S arbitrary: D rule: list_all2_induct)
  case (Cons t T s S)
  then show ?case by (cases D) auto
qed simp

lemma row_major_offset:
  "length D = length T \<Longrightarrow> element_offset (zero_ones T (row_major T)) D = mixed (zero_ones T D) T"
  by (induction D T rule: list_induct2) simp_all

lemma input_offset_mixed:
  assumes "tensor_is_broadcastable_to T S" and "digits D S"
  shows "element_offset (input_strides (length S) T (row_major T)) D =
      mixed (zero_ones T (drop (length S - length T) D)) T"
    and "digits (zero_ones T (drop (length S - length T) D)) T"
proof -
  have T: "length T \<le> length S" "list_all2 (\<lambda>t s. s = t \<or> t = 1) T (drop (length S - length T) S)"
    using assms(1) by (simp_all add: broadcastable_aligned)
  have len: "length D = length S" using assms(2) by (rule list_all2_lengthD)
  show "digits (zero_ones T (drop (length S - length T) D)) T"
    using zero_ones_digits [OF T(2) digits_drop [OF assms(2)]] .
  have "element_offset (input_strides (length S) T (row_major T)) D =
      element_offset (zero_ones T (row_major T)) (drop (length S - length T) D)"
    unfolding input_strides_def using len T(1) by (intro element_offset_skip [where m = "length T"]) simp
  also have "\<dots> = mixed (zero_ones T (drop (length S - length T) D)) T"
    using len T(1) by (intro row_major_offset) simp
  finally show "element_offset (input_strides (length S) T (row_major T)) D =
      mixed (zero_ones T (drop (length S - length T) D)) T" .
qed

text \<open>When only leading ones tell the sizes apart, every tensor has the index of the output.\<close>

lemma begin_ignoring_split:
  "\<exists>k. arr = replicate k 1 @ arrayref_begin_ignoring_leading_1s arr"
proof (induction arr)
  case (Cons s arr)
  then obtain k where "arr = replicate k 1 @ arrayref_begin_ignoring_leading_1s arr" ..
  then have "s # arr = replicate (Suc k) 1 @ arrayref_begin_ignoring_leading_1s arr" if "s = 1" using that by simp
  then show ?case by (cases "s = 1") (auto intro: exI [of _ "Suc k"] exI [of _ 0])
qed simp

lemma matching_sizes:
  assumes "sizes_match_ignoring_leading_1s T S" and "length T \<le> length S"
  shows "S = replicate (length S - length T) 1 @ T"
proof -
  obtain a b where T: "T = replicate a 1 @ arrayref_begin_ignoring_leading_1s S"
    and S: "S = replicate b 1 @ arrayref_begin_ignoring_leading_1s S"
    using begin_ignoring_split [of T] begin_ignoring_split [of S] assms(1)
    by (auto simp: sizes_match_ignoring_leading_1s_def)
  have "length T = a + length (arrayref_begin_ignoring_leading_1s S)"
    "length S = b + length (arrayref_begin_ignoring_leading_1s S)"
    using arg_cong [OF T, of length] arg_cong [OF S, of length] by simp_all
  then have ab: "a \<le> b" "length S - length T = b - a" using assms(2) by simp_all
  have "replicate (b - a) 1 @ T = replicate (b - a + a) 1 @ arrayref_begin_ignoring_leading_1s S"
    by (subst T) (simp add: replicate_add)
  then show ?thesis using S ab by simp
qed

lemma mixed_leading_ones:
  "digits D (replicate k 1 @ T) \<Longrightarrow> mixed D (replicate k 1 @ T) = mixed (drop k D) T"
proof (induction k arbitrary: D)
  case (Suc k)
  then show ?case by (cases D) auto
qed simp

lemma zero_ones_id: "digits D T \<Longrightarrow> zero_ones T D = D"
  by (induction rule: list_all2_induct) auto

lemma matching_offset:
  assumes "sizes_match_ignoring_leading_1s T S" and "length T \<le> length S" and "digits D S"
  shows "element_offset (input_strides (length S) T (row_major T)) D = mixed D S"
proof -
  note S = matching_sizes [OF assms(1,2)]
  have T: "drop (length S - length T) S = T" by (subst S) simp
  have bt: "tensor_is_broadcastable_to T S" using assms(2) T by (simp add: broadcastable_aligned list_all2_refl)
  have "digits (drop (length S - length T) D) T" using digits_drop [OF assms(3), of "length S - length T"] T by simp
  then have "mixed (zero_ones T (drop (length S - length T) D)) T = mixed (drop (length S - length T) D) T"
    by (simp add: zero_ones_id)
  also have "\<dots> = mixed D S" using mixed_leading_ones [of D "length S - length T" T] assms(3) S by simp
  finally show ?thesis using input_offset_mixed(1) [OF bt assms(3)] by simp
qed

lemma linearize_loop_correct:
  fixes c :: "usize list"
  assumes "list_all2 (\<lambda>t s. s = t \<or> t = 1) T S" and "digits (map uint c) S" and "length st = length T"
    and "\<forall>e \<in> set st. 0 \<le> e \<and> e < 2 ^ 31" and "\<forall>s \<in> set S. s < 2 ^ 31"
    and "uint acc + element_offset (zero_ones T st) (map uint c) < 2 ^ 63"
  shows "\<exists>r. linearize_loop oc c T st acc = Ok r \<and> uint r = uint acc + element_offset (zero_ones T st) (map uint c)"
  using assms
proof (induction T S arbitrary: c st acc rule: list_all2_induct)
  case (Cons t T s S)
  obtain ix c' where c: "c = ix # c'" using Cons.prems(1) by (cases c) auto
  obtain e st' where st: "st = e # st'" using Cons.prems(2) by (cases st) auto
  have ix: "uint ix < s" "digits (map uint c') S" using Cons.prems(1) c by simp_all
  have e: "0 \<le> e" "uint (word_of_int e :: usize) = e"
    using Cons.prems(3) st uint_size [of e] by simp_all
  have "0 \<le> t" using Cons.hyps(1) ix(1) uint_ge_0 [of ix] by linarith
  then have t: "uint (word_of_int t :: usize) = t"
    using Cons.hyps(1) Cons.prems(4) uint_size [of t] by auto
  have nonneg: "0 \<le> element_offset (zero_ones T st') (map uint c')"
  proof -
    have "length c' = length S" "length T = length S" using list_all2_lengthD [OF ix(2)] list_all2_lengthD [OF Cons.hyps(2)] by simp_all
    moreover have "\<forall>x \<in> set (zero_ones T st'). 0 \<le> x"
      using Cons.prems(3) st by (auto simp: zero_ones_def dest: set_zip_rightD)
    moreover have "length (zero_ones T st') = length S" using calculation Cons.prems(2) st by simp
    ultimately show ?thesis using element_offset_mono [OF ix(2), of "zero_ones T st'"] by simp
  qed
  show ?case
  proof (cases "word_of_int t \<le> ix")
    case True
    then have "t \<noteq> s" using t ix(1) by (auto simp: word_le_def)
    then have "t = 1" using Cons.hyps(1) by simp
    then show ?thesis using Cons.IH [OF ix(2), of st' acc] Cons.prems True by (simp add: c st)
  next
    case False
    then have small: "uint ix < t" using t by (simp add: word_le_def not_le)
    have prod: "element_offset (zero_ones (t # T) st) (map uint c) =
        uint ix * e + element_offset (zero_ones T st') (map uint c')"
    proof (cases "t = 1")
      case True
      then have "uint ix = 0" using small uint_ge_0 [of ix] by linarith
      then show ?thesis by (simp add: c st True)
    qed (simp add: c st)
    have ge: "0 \<le> uint ix * e" using e by simp
    have mult_small: "uint ix * uint (word_of_int e :: usize) < 2 ^ 63"
      using Cons.prems(5) prod nonneg uint_ge_0 [of acc] unfolding e(2) by linarith
    have add_small: "uint acc + uint (ix * word_of_int e) < 2 ^ 63"
      using Cons.prems(5) prod nonneg usize_mult_exact(2) [OF mult_small] unfolding e(2) by linarith
    have acc: "uint (acc + ix * word_of_int e) = uint acc + uint ix * e"
      using usize_add_exact(1) [OF add_small] usize_mult_exact(2) [OF mult_small] e(2) by simp
    obtain r where r: "linearize_loop oc c' T st' (acc + ix * word_of_int e) = Ok r"
        "uint r = uint (acc + ix * word_of_int e) + element_offset (zero_ones T st') (map uint c')"
      using Cons.IH [OF ix(2), of st' "acc + ix * word_of_int e"] Cons.prems st prod acc by auto
    then have "linearize_loop oc c (t # T) st acc = Ok r"
      using False by (simp add: c st usize_mult_exact(3) [OF mult_small] usize_add_exact(2) [OF add_small])
    moreover have "uint r = uint acc + element_offset (zero_ones (t # T) st) (map uint c)"
      using r(2) acc prod by linarith
    ultimately show ?thesis by blast
  qed
qed simp

lemma linearize_access_indexes_correct:
  fixes c :: "usize list"
  assumes "tensor_is_broadcastable_to T S" and "length S \<le> 16" and "digits (map uint c) S" and "length st = length T"
    and "\<forall>e \<in> set st. 0 \<le> e \<and> e < 2 ^ 31" and "\<forall>s \<in> set S. s < 2 ^ 31"
    and "element_offset (input_strides (length S) T st) (map uint c) < 2 ^ 63"
  shows "linearize_access_indexes oc c (int (length S)) T st =
    Ok (word_of_int (element_offset (input_strides (length S) T st) (map uint c)))"
proof -
  let ?k = "length S - length T"
  have T: "length T \<le> length S" "list_all2 (\<lambda>t s. s = t \<or> t = 1) T (drop ?k S)"
    using assms(1) by (simp_all add: broadcastable_aligned)
  have len: "length c = length S" using list_all2_lengthD [OF assms(3)] by simp
  have off: "element_offset (input_strides (length S) T st) (map uint c) =
      element_offset (zero_ones T st) (map uint (drop ?k c))"
    unfolding input_strides_def drop_map [symmetric] using len T(1)
    by (intro element_offset_skip [where m = "length T"]) simp
  have nat_word: "unat (of_nat n :: usize) = n" if "n \<le> 16" for n using that by (simp add: unat_of_nat_64)
  have k: "unat (of_nat ?k :: usize) = ?k" using assms(2) by (intro nat_word) simp
  have skip: "(usub oc (word_of_int (int (length S))) (of_nat (length T)) :: usize result) = Ok (of_nat ?k)"
    using T(1) assms(2) by (simp add: usub_def word_less_nat_alt nat_word of_nat_diff)
  have m: "(usub oc (word_of_int (int (length S))) (of_nat ?k) :: usize result) = Ok (of_nat (length T))"
  proof -
    have "\<not> (of_nat (length S) :: usize) < of_nat ?k"
      using assms(2) unfolding word_less_nat_alt k by (simp add: nat_word)
    moreover have "(of_nat (length S) :: usize) - of_nat ?k = of_nat (length T)" using T(1) by (simp add: of_nat_diff)
    ultimately show ?thesis unfolding usub_def by simp
  qed
  have checked: "checked_add (of_nat ?k :: usize) (of_nat (length T)) = Some (of_nat (length S))"
    unfolding checked_add_def k using T(1) assms(2) by (simp add: nat_word of_nat_diff)
  have take_drop: "take (length T) (drop ?k c) = drop ?k c" using len T(1) by simp
  obtain r where r: "linearize_loop oc (drop ?k c) T st 0 = Ok r"
    "uint r = element_offset (zero_ones T st) (map uint (drop ?k c))"
    using linearize_loop_correct [OF T(2), of "drop ?k c" st 0 oc] digits_drop [OF assms(3), of ?k] assms(4-7) off
    by (auto simp: drop_map dest: in_set_dropD)
  have "r = word_of_int (element_offset (input_strides (length S) T st) (map uint c))"
    using r(2) off by (metis word_of_int_uint)
  then show ?thesis
    using r(1) T(1) assms(2) len
    by (simp only: linearize_access_indexes_def skip m checked r_bind.simps option.case k nat_word Let_def take_drop
        length_drop if_False if_True) (simp add: nat_word take_drop)
qed

section \<open>Iterating over broadcast tensors\<close>

definition range_output :: "tensor_impl \<Rightarrow> bool" where
  "range_output out \<longleftrightarrow> tensor_inv out \<and> tensor_dim out \<le> 16 \<and> (\<forall>s \<in> set (tensor_sizes out). s < 2 ^ 31)"

text \<open>The index into an input that belongs to the \<open>n\<close>th element of the output.\<close>

definition input_index :: "tensor_impl \<Rightarrow> tensor_impl \<Rightarrow> int \<Rightarrow> int" where
  "input_index out t n =
     element_offset (input_strides (length (tensor_sizes out)) (tensor_sizes t) (tensor_strides t))
       (coordinates (tensor_sizes out) n)"

definition range_input :: "bool \<Rightarrow> tensor_impl \<Rightarrow> tensor_impl \<Rightarrow> bool" where
  "range_input support_noncontiguous out t \<longleftrightarrow>
     tensor_inv t \<and> tensor_is_broadcastable_to (tensor_sizes t) (tensor_sizes out) \<and>
     length (tensor_strides t) = length (tensor_sizes t) \<and> (\<forall>e \<in> set (tensor_strides t). 0 \<le> e \<and> e < 2 ^ 31) \<and>
     (tensor_strides t = row_major (tensor_sizes t) \<or>
      support_noncontiguous \<and>
        element_offset (input_strides (length (tensor_sizes out)) (tensor_sizes t) (tensor_strides t))
          (map (\<lambda>s. s - 1) (tensor_sizes out)) < 2 ^ 63)"

lemma tensor_sizes_facts:
  assumes "tensor_inv t"
  shows "nat (tensor_dim t) = length (tensor_sizes t)" and "tensor_dim t = int (length (tensor_sizes t))"
    and "tensor_numel t = prod_list (tensor_sizes t)" and "prod_list (tensor_sizes t) < 2 ^ 63"
    and "\<forall>s \<in> set (tensor_sizes t). 0 \<le> s" and "0 \<le> tensor_numel t"
proof -
  obtain ss where ss: "ti_sizes t = Some ss" "length ss = nat (ti_dim t)" "numel_fits ss" "ti_numel t = prod_list ss" "0 \<le> ti_dim t"
    using assms by (auto simp: tensor_inv_def)
  then have sizes: "tensor_sizes t = ss" by (simp add: tensor_sizes_def)
  show "nat (tensor_dim t) = length (tensor_sizes t)" "tensor_dim t = int (length (tensor_sizes t))"
    "tensor_numel t = prod_list (tensor_sizes t)" "prod_list (tensor_sizes t) < 2 ^ 63" "0 \<le> tensor_numel t"
    using ss sizes numel_fits_range [OF ss(3)] by (simp_all add: tensor_dim_def tensor_numel_def)
  show "\<forall>s \<in> set (tensor_sizes t). 0 \<le> s" using ss(3) sizes by (simp add: numel_fits_def numel_fits_from_def)
qed

lemma range_output_facts:
  assumes "range_output out" and "tensor_numel out \<noteq> 0"
  shows "\<forall>s \<in> set (tensor_sizes out). 1 \<le> s \<and> s < 2 ^ 31" and "length (tensor_sizes out) \<le> 16"
    and "prod_list (tensor_sizes out) < 2 ^ 63"
proof -
  have inv: "tensor_inv out" using assms(1) by (simp add: range_output_def)
  note f = tensor_sizes_facts [OF inv]
  have "0 \<notin> set (tensor_sizes out)" using assms(2) f(3) by (simp add: prod_list_zero_iff)
  show "\<forall>s \<in> set (tensor_sizes out). 1 \<le> s \<and> s < 2 ^ 31"
  proof (intro ballI conjI)
    fix s assume s: "s \<in> set (tensor_sizes out)"
    then have "s \<noteq> 0" and "0 \<le> s" using \<open>0 \<notin> _\<close> f(5) by auto
    then show "1 \<le> s" by simp
    show "s < 2 ^ 31" using s assms(1) by (simp add: range_output_def)
  qed
  show "length (tensor_sizes out) \<le> 16" using f(2) assms(1) by (simp add: range_output_def)
  show "prod_list (tensor_sizes out) < 2 ^ 63" by (rule f(4))
qed

lemma row_major_index_range:
  assumes "tensor_inv t" and "tensor_is_broadcastable_to (tensor_sizes t) S"
    and "tensor_strides t = row_major (tensor_sizes t)" and "digits D S"
  shows "0 \<le> element_offset (input_strides (length S) (tensor_sizes t) (tensor_strides t)) D"
    and "element_offset (input_strides (length S) (tensor_sizes t) (tensor_strides t)) D < tensor_numel t"
  using input_offset_mixed [OF assms(2,4)] mixed_range tensor_sizes_facts(3) [OF assms(1)] assms(3) by simp_all

lemma max_index_fits:
  assumes "range_output out" and "tensor_numel out \<noteq> 0" and "range_input nc out t"
  shows "element_offset (input_strides (length (tensor_sizes out)) (tensor_sizes t) (tensor_strides t))
    (map (\<lambda>s. s - 1) (tensor_sizes out)) < 2 ^ 63"
proof (cases "tensor_strides t = row_major (tensor_sizes t)")
  case True
  have "digits (map (\<lambda>s. s - 1) (tensor_sizes out)) (tensor_sizes out)"
    using range_output_facts(1) [OF assms(1,2), unfolded all_set_conv_all_nth] by (fastforce simp: list_all2_conv_all_nth)
  then show ?thesis
    using row_major_index_range(2) [OF _ _ True, of "tensor_sizes out"] assms(3) tensor_sizes_facts(3,4) [of t]
    by (auto simp: range_input_def intro: order_less_trans)
next
  case False
  then show ?thesis using assms(3) by (simp add: range_input_def)
qed

lemma input_strides_entries:
  "length T \<le> n \<Longrightarrow> length st = length T \<Longrightarrow> length (input_strides n T st) = n"
  "\<forall>e \<in> set st. 0 \<le> e \<and> e < 2 ^ 31 \<Longrightarrow> \<forall>e \<in> set (input_strides n T st). 0 \<le> e \<and> e < 2 ^ 31"
  by (auto simp: input_strides_def zero_ones_def dest: set_zip_rightD)

lemma effective_stride_correct:
  assumes "range_output out" and "range_input nc out t"
  shows "\<exists>st. effective_input_broadcast_stride out t = Ok st \<and>
    map uint (take (length (tensor_sizes out)) st) =
      input_strides (length (tensor_sizes out)) (tensor_sizes t) (tensor_strides t)"
proof -
  let ?S = "tensor_sizes out" and ?T = "tensor_sizes t"
  have dims: "nat (tensor_dim out) = length ?S" "tensor_dim out = int (length ?S)" "nat (tensor_dim t) = length ?T"
    "tensor_dim t = int (length ?T)" "length ?S \<le> 16"
    using tensor_sizes_facts [of out] tensor_sizes_facts [of t] assms by (auto simp: range_output_def range_input_def)
  have len: "length ?T \<le> length ?S" "length (tensor_strides t) = length ?T"
    and ent: "\<forall>e \<in> set (tensor_strides t). 0 \<le> e \<and> e < 2 ^ 31"
    using assms(2) by (simp_all add: range_input_def broadcastable_aligned)
  have word: "uint (word_of_int (tensor_strides t ! i) :: usize) = tensor_strides t ! i" if "i < length ?T" for i
  proof -
    have "0 \<le> tensor_strides t ! i \<and> tensor_strides t ! i < 2 ^ 31" using ent len(2) that nth_mem by metis
    then show ?thesis by (intro uint_size) simp_all
  qed
  have eq: "map (\<lambda>i. uint (effective_stride_at t i)) [0..<length ?T] = zero_ones ?T (tensor_strides t)"
    using len(2) by (intro nth_equalityI) (auto simp: zero_ones_def effective_stride_at_def word)
  have none: "\<not> (\<exists>i \<in> set [0..<length ?T]. ?T ! i \<noteq> 1 \<and> length (tensor_strides t) \<le> i)" using len(2) by auto
  have diff: "nat (int (length ?S) - int (length ?T)) = length ?S - length ?T" using len(1) by simp
  have "effective_input_broadcast_stride out t =
      Ok (replicate (length ?S - length ?T) 0 @ map (effective_stride_at t) [0..<length ?T] @ replicate (16 - length ?S) 0)"
    unfolding effective_input_broadcast_stride_def dims(2,4) Let_def nat_int diff K_TENSOR_DIMENSION_LIMIT_def
    using none len(1) dims(5) by simp
  then show ?thesis using len(1) eq by (simp add: input_strides_def o_def)
qed

lemma effective_strides_correct:
  assumes "range_output out" and "tensor_numel out \<noteq> 0" and "\<forall>t \<in> set inputs. range_input nc out t"
  shows "\<exists>sts. effective_strides out inputs = Ok sts \<and>
    strides_for (tensor_sizes out)
      (map (\<lambda>t. input_strides (length (tensor_sizes out)) (tensor_sizes t) (tensor_strides t)) inputs) sts"
  using assms(3)
proof (induction inputs)
  case Nil
  then show ?case by (simp add: strides_for_def)
next
  case (Cons t inputs)
  obtain st where st: "effective_input_broadcast_stride out t = Ok st" "map uint (take (length (tensor_sizes out)) st) =
      input_strides (length (tensor_sizes out)) (tensor_sizes t) (tensor_strides t)"
    using effective_stride_correct [OF assms(1)] Cons.prems by fastforce
  have t: "range_input nc out t" using Cons.prems by simp
  then have facts: "length (tensor_sizes t) \<le> length (tensor_sizes out)" "length (tensor_strides t) = length (tensor_sizes t)"
    "\<forall>e \<in> set (tensor_strides t). 0 \<le> e \<and> e < 2 ^ 31"
    unfolding range_input_def broadcastable_aligned by blast+
  show ?case
    using Cons st max_index_fits [OF assms(1,2) t] input_strides_entries(1) [OF facts(1,2)]
      input_strides_entries(2) [OF facts(3)]
    by auto
qed

lemma make_begin_correct:
  assumes "range_output out" and "\<forall>t \<in> set inputs. range_input nc out t" and "tensor_numel out \<noteq> 0"
  shows "\<exists>it. make_begin out inputs nc = Ok it \<and>
    (if tensor_sizes out \<noteq> [] \<and> (nc \<or> \<not> (\<forall>t \<in> set inputs. sizes_match_ignoring_leading_1s (tensor_sizes t) (tensor_sizes out)))
     then stands_at (tensor_sizes out)
       (map (\<lambda>t. input_strides (length (tensor_sizes out)) (tensor_sizes t) (tensor_strides t)) inputs) 0 it
     else counts_at (length inputs) (tensor_numel out) 0 it)"
proof -
  note out = range_output_facts [OF assms(1,3)]
  have inv: "tensor_inv out" using assms(1) by (simp add: range_output_def)
  note f = tensor_sizes_facts [OF inv]
  obtain sts where sts: "effective_strides out inputs = Ok sts" "strides_for (tensor_sizes out)
      (map (\<lambda>t. input_strides (length (tensor_sizes out)) (tensor_sizes t) (tensor_strides t)) inputs) sts"
    using effective_strides_correct [OF assms(1,3,2)] by blast
  let ?zeros = "replicate (length (tensor_sizes out)) 0 :: int list"
  have zero: "digits ?zeros (tensor_sizes out)"
    using out(1) [unfolded all_set_conv_all_nth] by (fastforce simp: list_all2_conv_all_nth)
  have mixed_zero: "mixed (replicate (length S) 0) S = 0" for S by (induction S) simp_all
  have "shows_digits (tensor_sizes out) ?zeros (replicate 16 0)"
    using out(2) by (simp add: shows_digits_def min_def map_replicate_const)
  moreover have "map (\<lambda>t. 0) inputs = map (\<lambda>E. element_offset E ?zeros)
      (map (\<lambda>t. input_strides (length (tensor_sizes out)) (tensor_sizes t) (tensor_strides t)) inputs)"
    by (simp add: element_offset_def)
  ultimately have digits: "\<exists>D. digits D (tensor_sizes out) \<and> mixed D (tensor_sizes out) = 0 mod prod_list (tensor_sizes out) \<and>
      shows_digits (tensor_sizes out) D (replicate 16 0) \<and> map (\<lambda>t. 0) inputs = map (\<lambda>E. element_offset E D)
      (map (\<lambda>t. input_strides (length (tensor_sizes out)) (tensor_sizes t) (tensor_strides t)) inputs)"
    using zero mixed_zero by (intro exI [of _ ?zeros]) simp
  have dim: "tensor_dim out = 0 \<longleftrightarrow> tensor_sizes out = []" using f(2) by simp
  show ?thesis
    using sts digits out f(2-4) dim
    by (auto simp: make_begin_def Let_def list_all_iff stands_at_def at_index_def counts_at_def
        K_TENSOR_DIMENSION_LIMIT_def map_replicate_const)
qed

lemma make_begin_total:
  assumes "range_output out" and "\<forall>t \<in> set inputs. range_input nc out t"
  shows "\<exists>it. make_begin out inputs nc = Ok it"
proof -
  have "\<exists>sts. effective_strides out inputs = Ok sts"
    using assms(2) effective_stride_correct [OF assms(1)] by (induction inputs) fastforce+
  then show ?thesis by (auto simp: make_begin_def Let_def)
qed

lemma broadcast_iteration_all:
  assumes "range_output out" and "\<forall>t \<in> set inputs. range_input nc out t"
  shows "\<exists>r. into_iter out inputs nc = Ok r \<and> for_range oc (Suc (nat (tensor_numel out))) body r s =
    Ok (Some (fold (\<lambda>n. body (int n, map (\<lambda>t. input_index out t (int n)) inputs)) [0..<nat (tensor_numel out)] s))"
proof (cases "tensor_numel out = 0")
  case True
  obtain it where it: "make_begin out inputs nc = Ok it" using make_begin_total [OF assms] by blast
  then have "bi_output_index it = 0" by (auto simp: make_begin_def Let_def r_bind_Ok_iff)
  then show ?thesis using it True by (simp add: into_iter_def make_end_def Let_def range_next_def)
next
  case False
  note out = range_output_facts [OF assms(1) False]
  have "tensor_inv out" using assms(1) by (simp add: range_output_def)
  note f = tensor_sizes_facts [OF this]
  let ?Es = "map (\<lambda>t. input_strides (length (tensor_sizes out)) (tensor_sizes t) (tensor_strides t)) inputs"
  let ?slow = "tensor_sizes out \<noteq> [] \<and>
    (nc \<or> \<not> (\<forall>t \<in> set inputs. sizes_match_ignoring_leading_1s (tensor_sizes t) (tensor_sizes out)))"
  obtain it where it: "make_begin out inputs nc = Ok it"
    "if ?slow then stands_at (tensor_sizes out) ?Es 0 it else counts_at (length inputs) (tensor_numel out) 0 it"
    using make_begin_correct [OF assms(1,2) False] by blast
  have r: "into_iter out inputs nc = Ok \<lparr>ri_it = it, ri_end_index = tensor_numel out, ri_started = False\<rparr>"
    using it(1) by (simp add: into_iter_def make_end_def Let_def)
  show ?thesis
  proof (cases ?slow)
    case True
    then have "stands_at (tensor_sizes out) ?Es 0 it" using it(2) by simp
    from odometer.walk [OF this, of oc body s] f show ?thesis by (simp add: r input_index_def o_def)
  next
    case fast: False
    then have "counts_at (length inputs) (tensor_numel out) 0 it" using it(2) by (simp split: if_splits)
    note walk = counter.walk [OF this f(6), of oc body s]
    have same: "map (\<lambda>t. input_index out t (int n)) inputs = replicate (length inputs) (int n)"
      if n: "n < nat (tensor_numel out)" for n
    proof -
      have lt: "int n < prod_list (tensor_sizes out)" using n f(3) by linarith
      have D: "digits (coordinates (tensor_sizes out) (int n)) (tensor_sizes out)"
        "mixed (coordinates (tensor_sizes out) (int n)) (tensor_sizes out) = int n"
        using coordinates_correct [of "tensor_sizes out" "int n"] out(1) lt by simp_all
      have "input_index out t (int n) = int n" if t: "t \<in> set inputs" for t
      proof (cases "tensor_sizes out = []")
        case True
        then show ?thesis using lt by (simp add: input_index_def)
      next
        case False
        then have "sizes_match_ignoring_leading_1s (tensor_sizes t) (tensor_sizes out)" "\<not> nc" using fast t by auto
        moreover have "length (tensor_sizes t) \<le> length (tensor_sizes out)" "tensor_strides t = row_major (tensor_sizes t)"
          using assms(2) t \<open>\<not> nc\<close> by (auto simp: range_input_def broadcastable_aligned)
        ultimately show ?thesis using matching_offset [OF _ _ D(1)] D(2) by (simp add: input_index_def)
      qed
      then show ?thesis by (simp add: map_replicate_const [symmetric] cong: map_cong)
    qed
    have "fold (\<lambda>n. body (int n, map (\<lambda>t. input_index out t (int n)) inputs)) [0..<nat (tensor_numel out)] s =
        fold (\<lambda>n. body (int n, replicate (length inputs) (int n))) [0..<nat (tensor_numel out)] s"
      using same by (intro fold_cong) simp_all
    then show ?thesis using walk by (simp add: r)
  qed
qed

text \<open>C16. Iterating over an output of at most sixteen dimensions and inputs that broadcast to it visits every element of
  the output once, in order, each with the element of every input that its coordinates name (the input's strides
  times the coordinates, dimensions of size one standing still), and it ends: one call of \<^verbatim>\<open>next\<close> more
  than there are elements suffices. The shortcut for sizes that agree up to leading ones, which gives every input
  the index of the output, and the incremental carry loop compute the same indexes, and no addition overflows.
\<close>
theorem broadcast_iteration_exact:
  assumes "range_output out" and "\<forall>t \<in> set inputs. range_input nc out t"
  shows "\<exists>r. into_iter out inputs nc = Ok r \<and> for_range oc (Suc (nat (tensor_numel out))) body r s =
    Ok (Some (fold (\<lambda>n. body (int n, map (\<lambda>t. input_index out t (int n)) inputs)) [0..<nat (tensor_numel out)] s))"
  by (rule broadcast_iteration_all [OF assms])

lemma input_index_bounds:
  assumes "range_output out" and "range_input nc out t" and "0 \<le> n" and "n < tensor_numel out"
    and "tensor_strides t = row_major (tensor_sizes t)"
  shows "0 \<le> input_index out t n \<and> input_index out t n < tensor_numel t"
proof -
  have nz: "tensor_numel out \<noteq> 0" using assms(3,4) by simp
  have inv: "tensor_inv out" using assms(1) by (simp add: range_output_def)
  have "digits (coordinates (tensor_sizes out) n) (tensor_sizes out)"
    using coordinates_correct [of "tensor_sizes out" n] range_output_facts(1) [OF assms(1) nz] assms(3,4)
      tensor_sizes_facts(3) [OF inv] by simp
  moreover have "tensor_inv t" "tensor_is_broadcastable_to (tensor_sizes t) (tensor_sizes out)"
    using assms(2) by (simp_all add: range_input_def)
  ultimately show ?thesis using row_major_index_range assms(5) by (simp add: input_index_def)
qed

text \<open>C17. The index that the iterator gives an input is the one the reference computation gives: the linear index of the
  output is split into coordinates by \<^verbatim>\<open>delinearize_index\<close> and put together again along the input's
  strides by \<^verbatim>\<open>linearize_access_indexes\<close>. For an input in row-major layout it is the index of one of
  its elements: no kernel that loops over the range reads outside its inputs.
\<close>
theorem input_index_sound:
  assumes "range_output out" and "range_input nc out t" and "0 \<le> n" and "n < tensor_numel out"
  shows "r_bind (delinearize_index (word_of_int n) (tensor_sizes out) 16) (\<lambda>c.
      linearize_access_indexes_tensor oc c (tensor_dim out) t) = Ok (word_of_int (input_index out t n)) \<and>
    (tensor_strides t = row_major (tensor_sizes t) \<longrightarrow> 0 \<le> input_index out t n \<and> input_index out t n < tensor_numel t)"
proof -
  have nz: "tensor_numel out \<noteq> 0" using assms(3,4) by simp
  note out = range_output_facts [OF assms(1) nz]
  have inv: "tensor_inv out" using assms(1) by (simp add: range_output_def)
  note f = tensor_sizes_facts [OF inv]
  let ?S = "tensor_sizes out"
  have D: "digits (coordinates ?S n) ?S" "mixed (coordinates ?S n) ?S = n"
    using coordinates_correct [of ?S n] out(1) assms(3,4) f(3) by simp_all
  have w: "uint (word_of_int n :: usize) = n" using assms(3,4) f(3,4) by (intro uint_size) simp_all
  have sizes: "\<forall>s \<in> set ?S. 1 \<le> s \<and> s < 2 ^ 63" using out(1) by fastforce
  obtain c where c: "delinearize_loop (rev ?S) (word_of_int n) [] = Ok c" "map uint c = coordinates ?S n"
    using digits_delinearize [OF sizes _ D(1), of "word_of_int n"] D(2) w assms(3) by auto
  have t: "tensor_is_broadcastable_to (tensor_sizes t) ?S" "length (tensor_strides t) = length (tensor_sizes t)"
    "\<forall>e \<in> set (tensor_strides t). 0 \<le> e \<and> e < 2 ^ 31" "tensor_inv t"
    using assms(2) by (simp_all add: range_input_def)
  have "length (tensor_sizes t) \<le> length ?S" using t(1) by (simp add: broadcastable_aligned)
  note len = input_strides_entries(1) [OF this t(2)] and ent = input_strides_entries(2) [OF t(3)]
  have "element_offset (input_strides (length ?S) (tensor_sizes t) (tensor_strides t)) (coordinates ?S n) < 2 ^ 63"
    using element_offset_mono [OF D(1) len] ent max_index_fits [OF assms(1) nz assms(2)]
    by (auto intro: order_le_less_trans)
  then have "linearize_access_indexes oc c (int (length ?S)) (tensor_sizes t) (tensor_strides t) =
      Ok (word_of_int (input_index out t n))"
    using linearize_access_indexes_correct [OF t(1) out(2) _ t(2,3), of c oc] D(1) c(2) out(1)
    by (simp add: input_index_def)
  then have "r_bind (delinearize_index (word_of_int n) ?S 16) (\<lambda>c. linearize_access_indexes_tensor oc c (tensor_dim out) t) =
      Ok (word_of_int (input_index out t n))"
    using c(1) out(2) f(2) by (simp add: delinearize_index_def linearize_access_indexes_tensor_def)
  then show ?thesis using input_index_bounds [OF assms] by blast
qed

lemma increment_times_add:
  "increment_times oc (a + b) it = r_bind (increment_times oc a it) (increment_times oc b)"
proof (induction a arbitrary: it)
  case (Suc a)
  then show ?case by (cases "increment oc it") simp_all
qed simp

lemma count_times:
  assumes "counts_at k numel n it" and "0 \<le> n" and "n + int j \<le> numel"
  shows "increment_times oc j it = Ok (it\<lparr>bi_output_index := n + int j, bi_input_indexes := replicate k (n + int j)\<rparr>)"
  using assms
proof (induction j arbitrary: n it)
  case 0
  then show ?case by (simp add: counts_at_def)
next
  case (Suc j)
  let ?it = "it\<lparr>bi_output_index := n + 1, bi_input_indexes := replicate k (n + 1)\<rparr>"
  have "(i64_add oc n 1 :: int result) = Ok (n + 1)"
    using Suc.prems by (intro i64_add_exact) (simp add: fits_i64_def counts_at_def)
  then have "increment oc it = Ok ?it" using Suc.prems by (simp add: increment_def counts_at_def map_replicate_const)
  moreover have "counts_at k numel (n + 1) ?it" using Suc.prems by (simp add: counts_at_def)
  ultimately show ?case using Suc.IH [of "n + 1" ?it] Suc.prems by (simp add: add.assoc)
qed

text \<open>C18. Skipping is stepping: from any place in the range, \<^verbatim>\<open>+= m\<close> (which for more than three steps
  computes the coordinates afresh by division) reaches the very state that \<open>m\<close> single increments reach.
\<close>
theorem skip_is_stepping:
  assumes "range_output out" and "\<forall>t \<in> set inputs. range_input nc out t"
    and "make_begin out inputs nc = Ok it" and "int (k + m) < tensor_numel out"
  shows "r_bind (increment_times oc k it) (add_assign oc (int m)) = increment_times oc (k + m) it \<and>
    is_Ok (increment_times oc (k + m) it)"
proof -
  have nz: "tensor_numel out \<noteq> 0" using assms(4) by simp
  note out = range_output_facts [OF assms(1) nz]
  have "tensor_inv out" using assms(1) by (simp add: range_output_def)
  note f = tensor_sizes_facts [OF this]
  let ?Es = "map (\<lambda>t. input_strides (length (tensor_sizes out)) (tensor_sizes t) (tensor_strides t)) inputs"
  consider "stands_at (tensor_sizes out) ?Es 0 it" | "counts_at (length inputs) (tensor_numel out) 0 it"
    using make_begin_correct [OF assms(1,2) nz] assms(3) by (auto split: if_splits)
  then show ?thesis
  proof cases
    case 1
    then have at: "at_index (tensor_sizes out) ?Es 0 it" "tensor_sizes out \<noteq> []" by (simp_all add: stands_at_def)
    obtain it' where it': "increment_times oc k it = Ok it'" "at_index (tensor_sizes out) ?Es (int k) it'"
      using increment_times_at_index [OF at out(1,2) order_refl, of k oc] out(3) assms(4) f(3) by auto
    have "add_assign oc (int m) it' = increment_times oc m it'"
      using add_assign_is_stepping [OF it'(2) at(2) out(1,2), of "int m" oc] out(3) assms(4) f(3) by simp
    moreover have "is_Ok (increment_times oc (k + m) it)"
      using increment_times_at_index [OF at out(1,2) order_refl, of "k + m" oc] out(3) assms(4) f(3) by auto
    ultimately show ?thesis using it'(1) by (simp add: increment_times_add)
  next
    case 2
    let ?it = "it\<lparr>bi_output_index := int k, bi_input_indexes := replicate (length inputs) (int k)\<rparr>"
    have k: "increment_times oc k it = Ok ?it" using count_times [OF 2, of k oc] assms(4) by simp
    have at: "counts_at (length inputs) (tensor_numel out) (int k) ?it" using 2 by (simp add: counts_at_def)
    have "(i64_add oc (int k) (int m) :: int result) = Ok (int k + int m)"
      using assms(4) f(3,4) by (intro i64_add_exact) (simp add: fits_i64_def)
    then have "add_assign oc (int m) ?it = increment_times oc m ?it"
      using count_times [OF at, of m oc] assms(4) at by (simp add: add_assign_def counts_at_def map_replicate_const)
    then show ?thesis using k count_times [OF at, of m oc] assms(4) by (simp add: increment_times_add)
  qed
qed

section \<open>What an elementwise kernel computes\<close>

lemma elem_offset_eq: "(word_of_int (int n * int k) :: usize) = of_nat (n * k)"
  by (metis of_int_of_nat_eq of_nat_mult)

lemma store_elem_write:
  "store_elem ct p (int n) v mem = write_bytes (p + of_nat (n * ct_size ct)) (ct_store ct v) mem"
  by (simp add: store_elem_def elem_offset_eq)

text \<open>
  A loop that stores, for each element of the output in order, a value that depends on the memory only outside
  the output.
\<close>

lemma fold_store:
  assumes "\<And>v. length (ct_store ct v) = ct_size ct" and "N * ct_size ct < 2 ^ 64"
    and "\<And>n m. n < N \<Longrightarrow> (\<And>a. a \<notin> data_region p (N * ct_size ct) \<Longrightarrow> m a = mem a) \<Longrightarrow> val n m = val n mem"
    and "mem' = fold (\<lambda>n m. store_elem ct p (int n) (val n m) m) [0..<N] mem"
  shows "(\<forall>n < N. bytes_at mem' (p + of_nat (n * ct_size ct)) (ct_size ct) = ct_store ct (val n mem)) \<and>
    (\<forall>a. a \<notin> data_region p (N * ct_size ct) \<longrightarrow> mem' a = mem a)"
proof -
  have row: "bytes_at (store_elem ct p (int k) (val k m) m) (p + of_nat (k * ct_size ct)) (ct_size ct) = ct_store ct (val k mem) \<and>
      (\<forall>a. a \<notin> data_region (p + of_nat (k * ct_size ct)) (ct_size ct) \<longrightarrow> store_elem ct p (int k) (val k m) m a = m a)"
    if k: "k \<in> set [0..<N]" and m: "\<And>a. a \<notin> data_region p (N * ct_size ct) \<Longrightarrow> m a = mem a" for k m
  proof -
    have "ct_size ct \<le> N * ct_size ct" using k by (cases N) simp_all
    then have "ct_size ct < 2 ^ 64" using assms(2) by linarith
    moreover have "val k m = val k mem" using assms(3) [of k m] k m by simp
    ultimately show ?thesis using assms(1) by (simp add: store_elem_write bytes_at_write write_bytes_outside)
  qed
  have less: "\<forall>k \<in> set [0..<N]. k < N" by simp
  have "(\<forall>k \<in> set [0..<N]. bytes_at mem' (p + of_nat (k * ct_size ct)) (ct_size ct) = ct_store ct (val k mem)) \<and>
      (\<forall>a. a \<notin> data_region p (N * ct_size ct) \<longrightarrow> mem' a = mem a)"
    unfolding assms(4) by (rule rows_in_any_order [OF distinct_upt less assms(2)]) (rule row, assumption, blast)
  then show ?thesis by (auto simp: atLeast_upt)
qed

text \<open>Reading an element of a tensor that lies outside the output.\<close>

lemma load_elem_outside:
  assumes "0 \<le> ix" and "ix < int N" and "data_region q (N * ct_size ct) \<inter> R = {}"
    and "\<And>a. a \<notin> R \<Longrightarrow> m a = mem a"
  shows "load_elem ct m q ix = load_elem ct mem q ix"
proof -
  obtain n where n: "ix = int n" "n < N" using assms(1,2) by (metis nonneg_int_cases of_nat_less_iff)
  have "m (q + of_nat (n * ct_size ct) + of_nat i) = mem (q + of_nat (n * ct_size ct) + of_nat i)" if "i < ct_size ct" for i
  proof -
    have "n * ct_size ct + i < Suc n * ct_size ct" using that by simp
    also have "\<dots> \<le> N * ct_size ct" using n(2) by (intro mult_right_mono) simp_all
    finally have "q + of_nat (n * ct_size ct + i) \<in> data_region q (N * ct_size ct)" by (rule data_regionI)
    then have "q + of_nat (n * ct_size ct + i) \<notin> R" using assms(3) by blast
    then show ?thesis using assms(4) by (simp add: add.assoc)
  qed
  then have "bytes_at m (q + of_nat (n * ct_size ct)) (ct_size ct) = bytes_at mem (q + of_nat (n * ct_size ct)) (ct_size ct)"
    by (intro bytes_at_eqI) simp_all
  then show ?thesis by (simp add: load_elem_def n(1) elem_offset_eq)
qed

text \<open>C15. A binary elementwise kernel over inputs in row-major layout that broadcast to its output: it ends, every element
  of the output is the function of the two elements that broadcasting pairs with it, as they were before the
  kernel ran, and no byte outside the output changes, as long as the output does not overlap the inputs.
\<close>
theorem apply_binary_exact:
  assumes "range_output out" and "range_input False out a" and "range_input False out b"
    and "\<forall>v. length (ct_store co v) = ct_size co" and "nat (tensor_numel out) * ct_size co < 2 ^ 64"
    and "data_region (ti_data a) (nat (tensor_numel a) * ct_size ca) \<inter> data_region (ti_data out) (nat (tensor_numel out) * ct_size co) = {}"
    and "data_region (ti_data b) (nat (tensor_numel b) * ct_size cb) \<inter> data_region (ti_data out) (nat (tensor_numel out) * ct_size co) = {}"
  shows "\<exists>mem'. apply_binary_elementwise_fn oc (Suc (nat (tensor_numel out))) ca cb co f a b out mem = Ok (Some mem') \<and>
    (\<forall>n < nat (tensor_numel out). bytes_at mem' (ti_data out + of_nat (n * ct_size co)) (ct_size co) =
       ct_store co (f (load_elem ca mem (ti_data a) (input_index out a (int n)))
                      (load_elem cb mem (ti_data b) (input_index out b (int n))))) \<and>
    (\<forall>x. x \<notin> data_region (ti_data out) (nat (tensor_numel out) * ct_size co) \<longrightarrow> mem' x = mem x)"
proof -
  let ?N = "nat (tensor_numel out)" and ?R = "data_region (ti_data out) (nat (tensor_numel out) * ct_size co)"
  let ?body = "\<lambda>(out_index, ixs) mem. store_elem co (ti_data out) out_index
      (f (load_elem ca mem (ti_data a) (ixs ! 0)) (load_elem cb mem (ti_data b) (ixs ! 1))) mem"
  let ?val = "\<lambda>n m. f (load_elem ca m (ti_data a) (input_index out a (int n)))
      (load_elem cb m (ti_data b) (input_index out b (int n)))"
  define mem' where "mem' = fold (\<lambda>n m. store_elem co (ti_data out) (int n) (?val n m) m) [0..<?N] mem"
  obtain r where r: "into_iter out [a, b] False = Ok r"
    "for_range oc (Suc ?N) ?body r mem =
      Ok (Some (fold (\<lambda>n. ?body (int n, map (\<lambda>t. input_index out t (int n)) [a, b])) [0..<?N] mem))"
    using broadcast_iteration_all [of out "[a, b]" False oc ?body mem] assms(1-3) by auto
  have run: "apply_binary_elementwise_fn oc (Suc ?N) ca cb co f a b out mem = Ok (Some mem')"
    using r by (simp add: apply_binary_elementwise_fn_def mem'_def del: for_range.simps)
  have ix: "0 \<le> input_index out t (int n)" "input_index out t (int n) < int (nat (tensor_numel t))"
    if "range_input False out t" "n < ?N" for t n
  proof -
    have "tensor_strides t = row_major (tensor_sizes t)" using that(1) by (simp add: range_input_def)
    then have "0 \<le> input_index out t (int n) \<and> input_index out t (int n) < tensor_numel t"
      using input_index_bounds [OF assms(1) that(1), of "int n"] that(2) by simp
    then show "0 \<le> input_index out t (int n)" "input_index out t (int n) < int (nat (tensor_numel t))" by linarith+
  qed
  have "?val n m = ?val n mem" if "n < ?N" "\<And>x. x \<notin> ?R \<Longrightarrow> m x = mem x" for n m
    using load_elem_outside [OF ix [OF assms(2) that(1)] assms(6) that(2)]
      load_elem_outside [OF ix [OF assms(3) that(1)] assms(7) that(2)] by simp
  from fold_store [where ct = co and N = ?N and p = "ti_data out" and val = ?val and mem = mem, OF _ assms(5) this mem'_def]
  show ?thesis using run assms(4) by blast
qed

section \<open>Examples\<close>

definition column_tensor :: tensor_impl where
  "column_tensor = \<lparr>ti_sizes = Some [3, 1], ti_dim_order = Some [0, 1],
     ti_strides = Some [1, 1], ti_data = 8192, ti_dim = 2, ti_numel = 3, ti_numel_bound = 3,
     ti_type = Float, ti_shape_dynamism = DYNAMIC_BOUND,
     ti_device = \<lparr>device_type = CPU, device_index = 0\<rparr>\<rparr>"

lemma column_tensor_inv: "tensor_inv column_tensor"
proof -
  have "tensor_new True Float 2 (Some [3, 1]) 8192 (Some [0, 1]) (Some [1, 1]) DYNAMIC_BOUND CPU 0 = Ok column_tensor"
    by code_simp
  then show ?thesis by (rule tensor_new_inv) simp_all
qed

lemma example_range:
  "range_output example_tensor" "range_input False example_tensor column_tensor" "range_input False example_tensor example_tensor"
  using example_tensor_inv column_tensor_inv
  by (simp_all add: range_output_def range_input_def example_tensor_def column_tensor_def tensor_dim_def
      tensor_sizes_def tensor_strides_def broadcastable_to_iff)

lemma example_numel: "tensor_numel example_tensor = 24" "tensor_numel column_tensor = 3"
  by (simp_all add: example_tensor_def column_tensor_def tensor_numel_def)

theorem broadcast_iteration_exact_witness:
  "\<exists>r. into_iter example_tensor [column_tensor] False = Ok r \<and>
     for_range True 25 (\<lambda>x s. s @ [x]) r [] = Ok (Some (map (\<lambda>n. (int n, [input_index example_tensor column_tensor (int n)])) [0..<24])) \<and>
     input_index example_tensor column_tensor 17 = 1"
proof -
  have collect: "fold (\<lambda>n s. s @ [g n]) xs s = s @ map g xs" for g :: "nat \<Rightarrow> int \<times> int list" and xs s
    by (induction xs arbitrary: s) simp_all
  have "input_index example_tensor column_tensor 17 = 1" by code_simp
  then show ?thesis
    using broadcast_iteration_exact [OF example_range(1), of "[column_tensor]" False True "\<lambda>x s. s @ [x]" "[]"] example_range(2)
    by (simp add: example_numel collect del: for_range.simps)
qed

theorem input_index_sound_witness:
  "r_bind (delinearize_index 17 [2, 3, 4] 16) (\<lambda>c. linearize_access_indexes_tensor True c 3 column_tensor) = Ok 1 \<and>
   input_index example_tensor column_tensor 17 < 3"
proof -
  have "input_index example_tensor column_tensor 17 = 1" by code_simp
  then show ?thesis
    using input_index_sound [OF example_range(1,2), of 17 True]
    by (simp add: example_numel) (simp add: example_tensor_def tensor_sizes_def tensor_dim_def)
qed

theorem skip_is_stepping_witness:
  "r_bind (make_begin example_tensor [column_tensor] False) (\<lambda>it. r_bind (increment_times True 2 it) (add_assign True 10)) =
   r_bind (make_begin example_tensor [column_tensor] False) (increment_times True 12)"
proof -
  obtain it where it: "make_begin example_tensor [column_tensor] False = Ok it"
    using make_begin_total [OF example_range(1), of "[column_tensor]" False] example_range(2) by auto
  show ?thesis
    using skip_is_stepping [OF example_range(1) _ it, of 2 10 True] example_range(2) by (simp add: it example_numel)
qed

definition byte_ctype :: "u8 ctype" where
  "byte_ctype = \<lparr>ct_size = 1, ct_load = hd, ct_store = (\<lambda>v. [v])\<rparr>"

theorem apply_binary_exact_witness:
  "\<exists>mem'. apply_binary_elementwise_fn True 25 byte_ctype byte_ctype byte_ctype (+) column_tensor
      (example_tensor\<lparr>ti_data := 12288\<rparr>) example_tensor (\<lambda>_. 1) = Ok (Some mem') \<and> mem' 4113 = 2 \<and> mem' 8192 = 1"
proof -
  let ?b = "example_tensor\<lparr>ti_data := 12288\<rparr>"
  have b: "range_input False example_tensor ?b" "tensor_numel ?b = 24"
  proof -
    have "tensor_inv ?b" using example_tensor_inv by (simp add: tensor_inv_def)
    then show "range_input False example_tensor ?b" "tensor_numel ?b = 24"
      by (simp_all add: range_input_def example_tensor_def tensor_numel_def tensor_sizes_def tensor_strides_def
          broadcastable_to_iff)
  qed
  have data: "ti_data column_tensor = 8192" "ti_data ?b = 12288" "ti_data example_tensor = 4096"
    by (simp_all add: column_tensor_def example_tensor_def)
  have apart: "data_region 8192 3 \<inter> data_region 4096 24 = {}" "data_region 12288 24 \<inter> data_region 4096 24 = {}"
    unfolding data_region_list by code_simp+
  have out: "8192 \<notin> data_region 4096 24" unfolding data_region_list by code_simp
  obtain mem' where mem': "apply_binary_elementwise_fn True 25 byte_ctype byte_ctype byte_ctype (+) column_tensor ?b
        example_tensor (\<lambda>_. 1) = Ok (Some mem')"
    "\<forall>n < 24. bytes_at mem' (4096 + of_nat n) 1 = [2]" "\<forall>x. x \<notin> data_region 4096 24 \<longrightarrow> mem' x = 1"
    using apply_binary_exact [OF example_range(1,2) b(1), of byte_ctype byte_ctype byte_ctype True "(+)" "\<lambda>_. 1"] apart
    by (auto simp: example_numel b(2) data byte_ctype_def load_elem_def bytes_at_def)
  have "mem' 4113 = 2" using mem'(2) [rule_format, of 17] by (simp add: bytes_at_def)
  moreover have "mem' 8192 = 1" using mem'(3) out by blast
  ultimately show ?thesis using mem'(1) by blast
qed

end
