(* ===== verification/Slice_Util.thy ===== *)
theory Slice_Util
  imports Tensor_Checks Kernel_Context Block_Copy "HOL-Library.Signed_Division"
begin

text \<open>
  Slicing: \<^verbatim>\<open>kernels/portable/cpu/util/slice_util.rs\<close>, the kernel
  \<^verbatim>\<open>kernels/portable/cpu/op_slice_copy.rs\<close> and the loop of
  \<^verbatim>\<open>runtime/kernel/thread_parallel_interface.rs\<close> without a thread pool. A kernel works on the failure
  state of its context, the tensors and the memory; \<open>dbg\<close> says whether the build has debug assertions.
\<close>

section \<open>The state of a kernel\<close>

record kernel_state =
  ks_failure :: Error
  ks_tensors :: tensor_store
  ks_mem :: bytes

definition kernel_fail :: "Error \<Rightarrow> kernel_state \<Rightarrow> kernel_state" where
  "kernel_fail e s = s\<lparr>ks_failure := e\<rparr>"

definition kernel_check :: "bool \<Rightarrow> Error \<Rightarrow> kernel_state \<Rightarrow> kernel_state result \<Rightarrow> kernel_state result" where
  "kernel_check cond err s rest = (if \<not> cond then Ok (kernel_fail err s) else rest)"

text \<open>A raw array of \<^verbatim>\<open>kTensorDimensionLimit\<close> sizes; writing past it is undefined.\<close>

definition sizes_array :: "int list \<Rightarrow> int list result" where
  "sizes_array sizes = (if K_TENSOR_DIMENSION_LIMIT < length sizes then Panic else Ok sizes)"

section \<open>Arguments and target sizes\<close>

definition check_narrow_copy_args :: "bool \<Rightarrow> tensor_impl \<Rightarrow> int \<Rightarrow> int \<Rightarrow> int \<Rightarrow> tensor_impl \<Rightarrow> bool result" where
  "check_narrow_copy_args oc in' dim start length' out =
     (if \<not> 0 < tensor_dim in' then Ok False
      else if \<not> tensors_have_same_dtype2 in' out then Ok False
      else if \<not> tensor_has_dim in' dim then Ok False
      else if \<not> 0 \<le> length' then Ok False
      else r_bind (tensor_size in' dim) (\<lambda>s.
        if \<not> - s \<le> start then Ok False
        else if \<not> start \<le> s then Ok False
        else let start = (if start < 0 then start + s else start)
        in r_bind (i64_add oc start length') (\<lambda>e. Ok (e \<le> s))))"

definition get_narrow_copy_out_target_size :: "tensor_impl \<Rightarrow> int \<Rightarrow> int \<Rightarrow> int list result" where
  "get_narrow_copy_out_target_size in' dim length' =
     r_bind (sizes_array (tensor_sizes in')) (\<lambda>out_sizes.
       if \<not> (0 \<le> dim \<and> dim < int K_TENSOR_DIMENSION_LIMIT) then Panic else Ok (out_sizes[nat dim := wrap_i32 length']))"

definition check_slice_copy_args :: "tensor_impl \<Rightarrow> int \<Rightarrow> int \<Rightarrow> tensor_impl \<Rightarrow> bool" where
  "check_slice_copy_args in' dim step out \<longleftrightarrow>
     0 < tensor_dim in' \<and> tensors_have_same_dtype2 in' out \<and> tensor_has_dim in' dim \<and> 0 < step"

definition get_slice_copy_out_target_size :: "tensor_impl \<Rightarrow> int \<Rightarrow> int \<Rightarrow> int list result" where
  "get_slice_copy_out_target_size in' dim length' = get_narrow_copy_out_target_size in' dim length'"

fun scatter_sizes_loop :: "tensor_impl \<Rightarrow> tensor_impl \<Rightarrow> int \<Rightarrow> int \<Rightarrow> int list \<Rightarrow> bool result" where
  "scatter_sizes_loop input src dim num_values [] = Ok True"
| "scatter_sizes_loop input src dim num_values (d # ds) =
     r_bind (if d \<noteq> dim then tensors_have_same_size_at_dims input (nat d) src (nat d)
             else r_bind (tensor_size src d) (\<lambda>s. Ok (s = num_values))) (\<lambda>ok.
       if \<not> ok then Ok False else scatter_sizes_loop input src dim num_values ds)"

definition check_slice_scatter_args ::
    "tensor_impl \<Rightarrow> tensor_impl \<Rightarrow> int \<Rightarrow> int \<Rightarrow> int \<Rightarrow> tensor_impl \<Rightarrow> bool result" where
  "check_slice_scatter_args input src dim num_values step output =
     (if \<not> 0 < tensor_dim input then Ok False
      else if \<not> dim_is_valid dim (tensor_dim input) then Ok False
      else if \<not> tensors_have_same_shape_and_dtype2 input output then Ok False
      else if \<not> tensors_have_same_rank input src then Ok False
      else if \<not> 0 < step then Ok False
      else scatter_sizes_loop input src dim num_values [0..tensor_dim input - 1])"

text \<open>
  The start and the end are put into the range of the dimension; the third result is the number of steps
  between them. No operation overflows for a dimension whose length is not negative.
\<close>

definition adjust_slice_indices :: "int \<Rightarrow> int \<Rightarrow> int \<Rightarrow> int \<Rightarrow> (int \<times> int \<times> int) result" where
  "adjust_slice_indices dim_length start stop step =
     (let start = (if start < 0 then start + dim_length else start);
          stop = (if stop < 0 then stop + dim_length else stop);
          start = (if start < 0 then 0 else start);
          stop = (if stop < 0 then 0 else stop);
          start = (if dim_length < start then dim_length else start);
          stop = (if dim_length < stop then dim_length else stop)
      in if dim_length \<le> start \<or> stop \<le> 0 \<or> stop \<le> start then Ok (start, stop, 0)
         else if step = 0 then Panic
         else Ok (start, stop, (stop - 1 - start) sdiv step + 1))"

section \<open>Copying a slice\<close>

text \<open>One row of the slice: \<open>len\<close> blocks, \<open>step\<close> blocks apart in the source.\<close>

fun slice_row :: "bool \<Rightarrow> nat \<Rightarrow> usize \<Rightarrow> usize \<Rightarrow> usize \<Rightarrow> usize \<Rightarrow> bytes \<Rightarrow> (usize \<times> bytes) result" where
  "slice_row oc 0 step length_per_step src dest mem = Ok (dest, mem)"
| "slice_row oc (Suc len) step length_per_step src dest mem =
     r_bind (umul oc step length_per_step) (\<lambda>skip.
       slice_row oc len step length_per_step (src + skip) (dest + length_per_step)
         (copy_bytes src dest length_per_step mem))"

definition slice_src :: "bool \<Rightarrow> usize \<Rightarrow> usize \<Rightarrow> usize \<Rightarrow> usize \<Rightarrow> usize \<Rightarrow> usize result" where
  "slice_src oc input_data i dim_length start length_per_step =
     r_bind (umul oc i dim_length) (\<lambda>a. r_bind (uadd oc a start) (\<lambda>b.
     r_bind (umul oc b length_per_step) (\<lambda>offset. Ok (input_data + offset))))"

fun slice_rows ::
    "bool \<Rightarrow> usize \<Rightarrow> usize \<Rightarrow> usize \<Rightarrow> nat \<Rightarrow> usize \<Rightarrow> usize \<Rightarrow> nat list \<Rightarrow> usize \<Rightarrow> bytes \<Rightarrow> bytes result" where
  "slice_rows oc input_data dim_length start len step length_per_step [] dest mem = Ok mem"
| "slice_rows oc input_data dim_length start len step length_per_step (i # rows) dest mem =
     r_bind (slice_src oc input_data (of_nat i) dim_length start length_per_step) (\<lambda>src.
     r_bind (slice_row oc len step length_per_step src dest mem) (\<lambda>(dest', mem').
       slice_rows oc input_data dim_length start len step length_per_step rows dest' mem'))"

text \<open>The body of the parallel loop: the destination of a row is computed from its number.\<close>

fun slice_chunk ::
    "bool \<Rightarrow> usize \<Rightarrow> usize \<Rightarrow> usize \<Rightarrow> nat \<Rightarrow> usize \<Rightarrow> usize \<Rightarrow> usize \<Rightarrow> nat list \<Rightarrow> bytes \<Rightarrow> bytes result" where
  "slice_chunk oc input_data dest dim_length len start step length_per_step [] mem = Ok mem"
| "slice_chunk oc input_data dest dim_length len start step length_per_step (i # rows) mem =
     r_bind (slice_src oc input_data (of_nat i) dim_length start length_per_step) (\<lambda>src.
     r_bind (umul oc (of_nat i) (of_nat len)) (\<lambda>a. r_bind (umul oc a length_per_step) (\<lambda>offset.
     r_bind (slice_row oc len step length_per_step src (dest + offset) mem) (\<lambda>(_, mem').
       slice_chunk oc input_data dest dim_length len start step length_per_step rows mem'))))"

text \<open>
  Without a thread pool the whole range is one chunk; with debug assertions there is one chunk for each number,
  from the last to the first.
\<close>

definition parallel_order :: "bool \<Rightarrow> nat \<Rightarrow> nat list" where
  "parallel_order dbg n = (if dbg then rev [0..<n] else [0..<n])"

definition compute_slice ::
    "bool \<Rightarrow> bool \<Rightarrow> tensor_id \<Rightarrow> int \<Rightarrow> int \<Rightarrow> int \<Rightarrow> int \<Rightarrow> tensor_id \<Rightarrow> kernel_state \<Rightarrow> kernel_state result" where
  "compute_slice oc dbg in' dim start length' step out s =
     (let t = ks_tensors s in'
      in if length' \<le> 0 then Ok s
      else kernel_check (dim < tensor_dim t) InvalidArgument s
        (r_bind (tensor_size t dim) (\<lambda>dim_length.
         kernel_check (0 \<le> start \<and> 0 \<le> length' \<and> 0 \<le> step) InvalidArgument s
          (r_bind (i64_mul oc (length' - 1) step) (\<lambda>p. r_bind (i64_add oc start p) (\<lambda>requested_slice.
           kernel_check ((word_of_int requested_slice :: usize) < word_of_int dim_length) InvalidArgument s
            (r_bind (getLeadingDims t dim) (\<lambda>leading_dims. r_bind (getTrailingDims t dim) (\<lambda>trailing_dims.
               if trailing_dims = 0 then Ok s
               else r_bind (tensor_element_size t) (\<lambda>es. r_bind (umul oc trailing_dims (word_of_int es)) (\<lambda>length_per_step.
                 r_bind (tensor_nbytes oc (ks_tensors s out)) (\<lambda>nbytes.
                 r_bind (umul oc (word_of_int length') leading_dims) (\<lambda>a. r_bind (umul oc a length_per_step) (\<lambda>needed.
                   kernel_check (needed \<le> nbytes) InvalidArgument s
                    (r_bind (umul oc leading_dims (word_of_int length')) (\<lambda>b. r_bind (umul oc b trailing_dims) (\<lambda>total_elements.
                       let input_data = ti_data t; dest = ti_data (ks_tensors s out)
                       in r_bind
                         (if 8 \<le> sint leading_dims \<and> 32768 \<le> sint total_elements
                          then slice_chunk oc input_data dest (word_of_int dim_length) (nat length') (word_of_int start)
                            (word_of_int step) length_per_step (parallel_order dbg (unat leading_dims)) (ks_mem s)
                          else slice_rows oc input_data (word_of_int dim_length) (word_of_int start) (nat length')
                            (word_of_int step) length_per_step [0..<unat leading_dims] dest (ks_mem s)) (\<lambda>mem.
                         Ok (s\<lparr>ks_mem := mem\<rparr>)))))))))))))))))))"

definition slice_copy_Tensor_out ::
    "bool \<Rightarrow> bool \<Rightarrow> tensor_id \<Rightarrow> int \<Rightarrow> int option \<Rightarrow> int option \<Rightarrow> int \<Rightarrow> tensor_id \<Rightarrow> kernel_state \<Rightarrow> kernel_state result" where
  "slice_copy_Tensor_out oc dbg in' dim start_val end_val step out s =
     (let t = ks_tensors s in'
      in kernel_check (check_slice_copy_args t dim step (ks_tensors s out)) InvalidArgument s
        (let dim = (if dim < 0 then dim + tensor_dim t else dim)
         in kernel_check (tensors_have_same_dim_order2 t (ks_tensors s out)) InvalidArgument s
          (r_bind (tensor_size t dim) (\<lambda>dim_length.
             let stop = (case end_val of Some v \<Rightarrow> v | None \<Rightarrow> dim_length);
                 start = (case start_val of Some v \<Rightarrow> v | None \<Rightarrow> 0)
             in r_bind (adjust_slice_indices dim_length start stop step) (\<lambda>(start, _, length').
                r_bind (get_slice_copy_out_target_size t dim length') (\<lambda>target_sizes.
                r_bind (resize_tensor oc out target_sizes (ks_tensors s)) (\<lambda>(err, ts).
                  let s = s\<lparr>ks_tensors := ts\<rparr>
                  in kernel_check (err = Error_Ok) InvalidArgument s
                    (compute_slice oc dbg in' dim start length' step out s))))))))"

definition narrow_copy_out ::
    "bool \<Rightarrow> bool \<Rightarrow> tensor_id \<Rightarrow> int \<Rightarrow> int \<Rightarrow> int \<Rightarrow> tensor_id \<Rightarrow> kernel_state \<Rightarrow> kernel_state result" where
  "narrow_copy_out oc dbg in' dim start length' out s =
     (let t = ks_tensors s in'
      in r_bind (check_narrow_copy_args oc t dim start length' (ks_tensors s out)) (\<lambda>ok. kernel_check ok InvalidArgument s
        (let dim = (if dim < 0 then dim + tensor_dim t else dim)
         in r_bind (get_narrow_copy_out_target_size t dim length') (\<lambda>target_sizes.
            r_bind (resize_tensor oc out target_sizes (ks_tensors s)) (\<lambda>(err, ts).
              let s = s\<lparr>ks_tensors := ts\<rparr>
              in kernel_check (err = Error_Ok) InvalidArgument s
                (if length' \<noteq> 0 then compute_slice oc dbg in' dim start length' 1 out s else Ok s))))))"

section \<open>The range of a slice\<close>

text \<open>The positions that \<open>start:end:step\<close> names in a dimension of \<open>n\<close> elements, negative numbers counting from its end.\<close>

definition from_end :: "int \<Rightarrow> int \<Rightarrow> int" where
  "from_end n i = max 0 (min n (if i < 0 then i + n else i))"

definition slice_positions :: "int \<Rightarrow> int \<Rightarrow> int \<Rightarrow> int \<Rightarrow> int list" where
  "slice_positions n start stop step =
     filter (\<lambda>i. (i - from_end n start) mod step = 0) [from_end n start..from_end n stop - 1]"

lemma le_div_pos: "0 < d \<Longrightarrow> q \<le> x div d \<longleftrightarrow> q * d \<le> x" for q x d :: int
proof
  assume d: "0 < d" and "q \<le> x div d"
  then have "q * d \<le> x div d * d" by (intro mult_right_mono) simp_all
  also have "\<dots> \<le> x" using div_mult_mod_eq [of x d] pos_mod_sign [of d x] d by linarith
  finally show "q * d \<le> x" .
next
  assume "0 < d" and "q * d \<le> x"
  then show "q \<le> x div d" using zdiv_mono1 [of "q * d" x d] by simp
qed

lemma filter_steps:
  assumes "0 < step"
  shows "filter (\<lambda>i. (i - a) mod step = 0) [a..b - 1] = map (\<lambda>j. a + int j * step) [0..<nat ((b - a + step - 1) div step)]"
proof (rule sorted_distinct_set_unique)
  let ?n = "nat ((b - a + step - 1) div step)"
  show "sorted (filter (\<lambda>i. (i - a) mod step = 0) [a..b - 1])" "distinct (filter (\<lambda>i. (i - a) mod step = 0) [a..b - 1])"
    by (simp_all add: sorted_wrt_filter)
  show "sorted (map (\<lambda>j. a + int j * step) [0..<?n])"
    using assms by (auto simp: sorted_iff_nth_mono intro!: mult_right_mono)
  show "distinct (map (\<lambda>j. a + int j * step) [0..<?n])"
    using assms by (auto simp: distinct_map inj_on_def)
  have less: "int j < (b - a + step - 1) div step \<longleftrightarrow> a + int j * step < b" for j
  proof -
    have "int j < (b - a + step - 1) div step \<longleftrightarrow> int j + 1 \<le> (b - a + step - 1) div step" by (rule add1_zle_eq [symmetric])
    also have "\<dots> \<longleftrightarrow> (int j + 1) * step \<le> b - a + step - 1" by (rule le_div_pos [OF assms])
    also have "\<dots> \<longleftrightarrow> a + int j * step < b" unfolding distrib_right by linarith
    finally show ?thesis .
  qed
  show "set (filter (\<lambda>i. (i - a) mod step = 0) [a..b - 1]) = set (map (\<lambda>j. a + int j * step) [0..<?n])"
  proof (intro set_eqI iffI)
    fix i assume "i \<in> set (filter (\<lambda>i. (i - a) mod step = 0) [a..b - 1])"
    then have i: "a \<le> i" "i < b" "(i - a) mod step = 0" by auto
    define j where "j = nat ((i - a) div step)"
    have "i = a + int j * step" using i assms by (auto simp: j_def pos_imp_zdiv_nonneg_iff elim!: dvdE simp flip: dvd_eq_mod_eq_0)
    then show "i \<in> set (map (\<lambda>j. a + int j * step) [0..<?n])" using i(2) less [of j] by force
  next
    fix i assume "i \<in> set (map (\<lambda>j. a + int j * step) [0..<?n])"
    then obtain j where "i = a + int j * step" "a + int j * step < b" using less by force
    then show "i \<in> set (filter (\<lambda>i. (i - a) mod step = 0) [a..b - 1])" using assms by simp
  qed
qed


lemma steps_to_last:
  fixes a b step :: int
  assumes "a < b" and "0 < step"
  shows "(b - 1 - a) sdiv step + 1 = (b - a + step - 1) div step" and "0 < (b - a + step - 1) div step"
    and "a + ((b - 1 - a) div step) * step < b"
proof -
  have "b - a + step - 1 = (b - 1 - a) + step * 1" by simp
  then have e: "(b - a + step - 1) div step = (b - 1 - a) div step + 1" using assms(2) by (simp only: div_mult_self2)
  have nonneg: "0 \<le> (b - 1 - a) div step" using assms by (simp add: pos_imp_zdiv_nonneg_iff)
  then show "(b - 1 - a) sdiv step + 1 = (b - a + step - 1) div step" "0 < (b - a + step - 1) div step"
    using assms e by (auto simp: signed_divide_int_def sgn_if abs_if)
  show "a + ((b - 1 - a) div step) * step < b"
    using le_div_pos [OF assms(2), of "(b - 1 - a) div step" "b - 1 - a"] by simp
qed

text \<open>The slice kernels' index arithmetic: for a dimension of \<open>n\<close> elements and a positive step,
  \<open>adjust_slice_indices\<close> never fails; it puts the start and the end into the dimension, negative
  numbers counting from the end, and counts exactly the positions \<open>start\<close>, \<open>start + step\<close>, \<open>\<dots>\<close> below
  the end, none when the end is not above the start.
\<close>
theorem adjust_slice_indices_exact:
  assumes "0 \<le> n" and "0 < step"
  shows "adjust_slice_indices n start stop step =
    Ok (from_end n start, from_end n stop, int (length (slice_positions n start stop step)))"
proof -
  let ?a = "from_end n start" and ?b = "from_end n stop"
  have a: "(let s = (if start < 0 then start + n else start); s = (if s < 0 then 0 else s) in if n < s then n else s) = ?a"
    using assms(1) by (simp add: from_end_def Let_def)
  have b: "(let s = (if stop < 0 then stop + n else stop); s = (if s < 0 then 0 else s) in if n < s then n else s) = ?b"
    using assms(1) by (simp add: from_end_def Let_def)
  have ranges: "0 \<le> ?a" "?a \<le> n" "?b \<le> n" using assms(1) by (simp_all add: from_end_def)
  have len: "int (length (slice_positions n start stop step)) = max 0 ((?b - ?a + step - 1) div step)"
    unfolding slice_positions_def filter_steps [OF assms(2)] by simp
  have "adjust_slice_indices n start stop step =
      (if n \<le> ?a \<or> ?b \<le> 0 \<or> ?b \<le> ?a then Ok (?a, ?b, 0) else Ok (?a, ?b, (?b - 1 - ?a) sdiv step + 1))"
    using assms(2) unfolding adjust_slice_indices_def a [symmetric] b [symmetric] Let_def by simp
  also have "\<dots> = Ok (?a, ?b, max 0 ((?b - ?a + step - 1) div step))"
  proof (cases "?a < ?b")
    case True
    then show ?thesis using steps_to_last [OF True assms(2)] ranges by auto
  next
    case False
    then have "(?b - ?a + step - 1) div step \<le> 0"
      using le_div_pos [OF assms(2), of 1 "?b - ?a + step - 1"] by linarith
    then show ?thesis using False by simp
  qed
  finally show ?thesis using len by simp
qed

section \<open>The blocks of a slice\<close>

text \<open>The blocks of \<open>w\<close> bytes that the rows of a slice take from a tensor with dimension length \<open>n\<close>.\<close>

definition row_blocks :: "usize \<Rightarrow> nat \<Rightarrow> nat \<Rightarrow> nat list \<Rightarrow> nat \<Rightarrow> (usize \<times> nat) list" where
  "row_blocks p n w positions i = map (\<lambda>q. (p + of_nat ((i * n + q) * w), w)) positions"

lemma copied_row_blocks [simp]: "copied (row_blocks p n w positions i) = length positions * w"
  by (simp add: row_blocks_def o_def sum_list_triv)

lemma copied_rows [simp]: "copied (concat (map (row_blocks p n w positions) rows)) = length rows * length positions * w"
  by (induction rows) (simp_all add: algebra_simps)

lemma slice_row_blocks:
  assumes "unat step * w < 2 ^ 64" and "w < 2 ^ 64"
  shows "slice_row oc len step (of_nat w) src dest mem =
    Ok (dest + of_nat (len * w), append_copies (map (\<lambda>j. (src + of_nat (j * unat step * w), w)) [0..<len]) dest mem)"
proof (induction len arbitrary: src dest mem)
  case (Suc len)
  have skip: "(umul oc step (of_nat w) :: usize result) = Ok (step * of_nat w)"
    using assms by (intro umul_exact) (simp add: unat_of_nat_64)
  have next_src: "src + step * of_nat w + of_nat (j * unat step * w) = src + of_nat (Suc j * unat step * w)" for j
    by (simp add: algebra_simps)
  have "map (\<lambda>j. (src + of_nat (j * unat step * w), w)) [0..<Suc len] =
      (src, w) # map (\<lambda>j. (src + step * of_nat w + of_nat (j * unat step * w), w)) [0..<len]"
    unfolding next_src map_upt_Suc by simp
  then show ?case using skip Suc [of "src + step * of_nat w" "dest + of_nat w" "copy_bytes src dest (of_nat w) mem"]
    by (simp add: add.assoc)
qed simp


lemma umul_of_nat: "a * b < 2 ^ 64 \<Longrightarrow> a < 2 ^ 64 \<Longrightarrow> b < 2 ^ 64 \<Longrightarrow> (umul oc (of_nat a :: usize) (of_nat b) :: usize result) = Ok (of_nat (a * b))"
  by (simp add: umul_exact unat_of_nat_64)

lemma uadd_of_nat: "a + b < 2 ^ 64 \<Longrightarrow> (uadd oc (of_nat a :: usize) (of_nat b) :: usize result) = Ok (of_nat (a + b))"
  by (simp add: uadd_def unat_of_nat_64)

lemma below_of_mult: "0 < w \<Longrightarrow> x * w < b \<Longrightarrow> x < b" for x w b :: nat
  using mult_le_mono2 [of 1 w x] by linarith

lemma slice_src_exact:
  assumes "0 < w" and "(i * n + a) * w < 2 ^ 64" and "i < 2 ^ 64" and "n < 2 ^ 64" and "w < 2 ^ 64"
  shows "slice_src oc p (of_nat i) (of_nat n) (of_nat a) (of_nat w) = Ok (p + of_nat ((i * n + a) * w))"
proof -
  have "i * n + a < 2 ^ 64" using assms(1,2) by (rule below_of_mult)
  then show ?thesis using assms unfolding slice_src_def
    using umul_of_nat [of i n oc] uadd_of_nat [of "i * n" a oc] umul_of_nat [of "i * n + a" w oc] by simp
qed

lemma slice_rows_blocks:
  assumes "0 < w" and "w < 2 ^ 64" and "n < 2 ^ 64" and "unat step * w < 2 ^ 64"
    and "\<forall>i \<in> set rows. i < 2 ^ 64 \<and> (i * n + a) * w < 2 ^ 64"
    and "positions = map (\<lambda>j. a + j * unat step) [0..<len]"
  shows "slice_rows oc p (of_nat n) (of_nat a) len step (of_nat w) rows dest mem =
    Ok (append_copies (concat (map (row_blocks p n w positions) rows)) dest mem)"
  using assms(5)
proof (induction rows arbitrary: dest mem)
  case (Cons i rows)
  have row: "map (\<lambda>j. (p + of_nat ((i * n + a) * w) + of_nat (j * unat step * w), w)) [0..<len] = row_blocks p n w positions i"
    by (simp add: row_blocks_def assms(6) o_def) (simp add: algebra_simps)
  have "slice_src oc p (of_nat i) (of_nat n) (of_nat a) (of_nat w) = Ok (p + of_nat ((i * n + a) * w))"
    using assms(1-3) Cons.prems by (intro slice_src_exact) simp_all
  moreover have "slice_row oc len step (of_nat w) (p + of_nat ((i * n + a) * w)) dest mem =
      Ok (dest + of_nat (len * w), append_copies (row_blocks p n w positions i) dest mem)"
    using slice_row_blocks [OF assms(4,2), of oc len "p + of_nat ((i * n + a) * w)" dest mem] by (simp only: row)
  ultimately show ?case using Cons by (simp add: append_copies_append assms(6) del: of_nat_mult)
qed simp

lemma slice_chunk_blocks:
  assumes "0 < w" and "w < 2 ^ 64" and "n < 2 ^ 64" and "unat step * w < 2 ^ 64"
    and "\<forall>i \<in> set rows. i < 2 ^ 64 \<and> (i * n + a) * w < 2 ^ 64 \<and> i * len * w < 2 ^ 64" and "len < 2 ^ 64"
    and "positions = map (\<lambda>j. a + j * unat step) [0..<len]"
  shows "slice_chunk oc p dest (of_nat n) len (of_nat a) step (of_nat w) rows mem =
    Ok (fold (\<lambda>i. append_copies (row_blocks p n w positions i) (dest + of_nat (i * (len * w)))) rows mem)"
  using assms(5)
proof (induction rows arbitrary: mem)
  case (Cons i rows)
  have row: "map (\<lambda>j. (p + of_nat ((i * n + a) * w) + of_nat (j * unat step * w), w)) [0..<len] = row_blocks p n w positions i"
    by (simp add: row_blocks_def assms(7) o_def) (simp add: algebra_simps)
  have src: "slice_src oc p (of_nat i) (of_nat n) (of_nat a) (of_nat w) = Ok (p + of_nat ((i * n + a) * w))"
    using assms(1-3) Cons.prems by (intro slice_src_exact) simp_all
  have small: "i * len * w < 2 ^ 64" using Cons.prems by simp
  then have "i * len < 2 ^ 64" by (rule below_of_mult [OF assms(1)])
  then have dest: "(umul oc (of_nat i :: usize) (of_nat len) :: usize result) = Ok (of_nat (i * len))"
    "(umul oc (of_nat (i * len) :: usize) (of_nat w) :: usize result) = Ok (of_nat (i * (len * w)))"
    using small Cons.prems assms(2,6) umul_of_nat [of i len oc] umul_of_nat [of "i * len" w oc] by (simp_all add: mult.assoc)
  have "slice_row oc len step (of_nat w) (p + of_nat ((i * n + a) * w)) (dest + of_nat (i * (len * w))) mem =
      Ok (dest + of_nat (i * (len * w)) + of_nat (len * w), append_copies (row_blocks p n w positions i) (dest + of_nat (i * (len * w))) mem)"
    using slice_row_blocks [OF assms(4,2), of oc len "p + of_nat ((i * n + a) * w)" "dest + of_nat (i * (len * w))" mem]
    by (simp only: row)
  then show ?case using src dest Cons by (simp del: of_nat_mult)
qed simp


text \<open>The bytes of the blocks at \<open>positions\<close> in every row.\<close>

definition rows_bytes :: "bytes \<Rightarrow> usize \<Rightarrow> nat \<Rightarrow> nat \<Rightarrow> nat list \<Rightarrow> nat \<Rightarrow> u8 list" where
  "rows_bytes mem p n w positions rows =
     concat (map (\<lambda>i. concat (map (\<lambda>q. bytes_at mem (p + of_nat ((i * n + q) * w)) w) positions)) [0..<rows])"

lemma row_position: "i < rows \<Longrightarrow> q < n \<Longrightarrow> i * n + q < rows * n" for i q n rows :: nat
  using mult_le_mono1 [of "Suc i" rows n] by simp

lemma row_blocks_apart:
  assumes "\<forall>q \<in> set positions. q < n" and "i < rows" and "data_region p (rows * n * w) \<inter> R = {}"
  shows "\<forall>(src, k) \<in> set (row_blocks p n w positions i). data_region src k \<inter> R = {}"
proof -
  have "data_region (p + of_nat ((i * n + q) * w)) w \<subseteq> data_region p (rows * n * w)" if "q \<in> set positions" for q
  proof -
    have "Suc (i * n + q) * w \<le> rows * n * w"
      using row_position [of i rows q n] assms(1,2) that by (intro mult_le_mono1) simp
    then show ?thesis by (intro data_region_part) simp
  qed
  then show ?thesis using assms(3) by (auto simp: row_blocks_def simp del: of_nat_mult)
qed

lemma concat_map_concat: "concat (map f (concat (map g xs))) = concat (map (\<lambda>i. concat (map f (g i))) xs)"
  by (induction xs) simp_all

lemma slice_serial:
  assumes "\<forall>q \<in> set positions. q < n" and "rows * length positions * w < 2 ^ 64"
    and "data_region p (rows * n * w) \<inter> data_region dest (rows * length positions * w) = {}"
    and "mem' = append_copies (concat (map (row_blocks p n w positions) [0..<rows])) dest mem"
  shows "bytes_at mem' dest (rows * length positions * w) = rows_bytes mem p n w positions rows \<and>
    (\<forall>a. a \<notin> data_region dest (rows * length positions * w) \<longrightarrow> mem' a = mem a)"
proof -
  let ?blocks = "concat (map (row_blocks p n w positions) [0..<rows])"
  have size: "copied ?blocks = rows * length positions * w" by simp
  have "\<forall>(src, k) \<in> set ?blocks. data_region src k \<inter> data_region dest (copied ?blocks) = {}"
    using row_blocks_apart [OF assms(1) _ assms(3)] unfolding size by fastforce
  moreover have "copied ?blocks < 2 ^ 64" using assms(2) by (simp only: size)
  moreover have "concat (map (\<lambda>(src, k). bytes_at mem src k) ?blocks) = rows_bytes mem p n w positions rows"
    unfolding rows_bytes_def concat_map_concat by (simp add: row_blocks_def o_def)
  ultimately show ?thesis
    using append_copies_bytes [of ?blocks dest mem] append_copies_outside [of ?blocks _ dest mem]
    unfolding size assms(4) by simp
qed

lemma slice_parallel:
  assumes "\<forall>q \<in> set positions. q < n" and "rows * length positions * w < 2 ^ 64"
    and "data_region p (rows * n * w) \<inter> data_region dest (rows * length positions * w) = {}"
    and "distinct ks" and "set ks = {..<rows}"
    and "mem' = fold (\<lambda>i. append_copies (row_blocks p n w positions i) (dest + of_nat (i * (length positions * w)))) ks mem"
  shows "bytes_at mem' dest (rows * length positions * w) = rows_bytes mem p n w positions rows \<and>
    (\<forall>a. a \<notin> data_region dest (rows * length positions * w) \<longrightarrow> mem' a = mem a)"
proof -
  let ?W = "length positions * w" and ?R = "data_region dest (rows * (length positions * w))"
  let ?step = "\<lambda>i. append_copies (row_blocks p n w positions i) (dest + of_nat (i * ?W))"
  let ?row = "\<lambda>i. concat (map (\<lambda>q. bytes_at mem (p + of_nat ((i * n + q) * w)) w) positions)"
  have R: "data_region p (rows * n * w) \<inter> ?R = {}" "rows * ?W < 2 ^ 64" using assms(2,3) by (simp_all add: mult.assoc)
  have row: "bytes_at (?step i m) (dest + of_nat (i * ?W)) ?W = ?row i \<and>
      (\<forall>a. a \<notin> data_region (dest + of_nat (i * ?W)) ?W \<longrightarrow> ?step i m a = m a)"
    if i: "i \<in> set ks" and m: "\<And>a. a \<notin> ?R \<Longrightarrow> m a = mem a" for i m
  proof -
    let ?blocks = "row_blocks p n w positions i" and ?d = "dest + of_nat (i * ?W)"
    have lt: "i < rows" using i assms(5) by simp
    have "Suc i * ?W \<le> rows * ?W" using lt by (intro mult_le_mono1) simp
    then have part: "data_region ?d ?W \<subseteq> ?R" and small: "copied ?blocks < 2 ^ 64"
      using R(2) lt mult_le_mono1 [of 1 rows ?W] by (auto intro!: data_region_part simp del: of_nat_mult)
    have apart: "\<forall>(src, k) \<in> set ?blocks. data_region src k \<inter> ?R = {}" using row_blocks_apart [OF assms(1) lt R(1)] .
    then have "\<forall>(src, k) \<in> set ?blocks. data_region src k \<inter> data_region ?d (copied ?blocks) = {}" using part by force
    from append_copies_bytes [OF small this, of m]
    have "bytes_at (?step i m) ?d ?W = concat (map (\<lambda>(src, k). bytes_at m src k) ?blocks)" by (simp only: copied_row_blocks)
    also have "\<dots> = concat (map (\<lambda>(src, k). bytes_at mem src k) ?blocks)"
      using apart m by (intro arg_cong [of _ _ concat] map_cong refl) (force intro!: bytes_at_cong)
    also have "\<dots> = ?row i" by (simp add: row_blocks_def o_def)
    finally show ?thesis using append_copies_outside [OF small, of _ ?d m] unfolding copied_row_blocks by blast
  qed
  have ks: "\<forall>k \<in> set ks. k < rows" using assms(5) by simp
  have all: "(\<forall>i \<in> set ks. bytes_at (fold ?step ks mem) (dest + of_nat (i * ?W)) ?W = ?row i) \<and>
      (\<forall>a. a \<notin> ?R \<longrightarrow> fold ?step ks mem a = mem a)"
    by (rule rows_in_any_order [OF assms(4) ks R(2)]) (rule row, assumption, blast)
  have "map (\<lambda>i. bytes_at (fold ?step ks mem) (dest + of_nat (i * ?W)) ?W) [0..<rows] = map ?row [0..<rows]"
  proof (intro map_cong refl)
    fix i assume "i \<in> set [0..<rows]"
    then have "i \<in> set ks" using assms(5) by auto
    then show "bytes_at (fold ?step ks mem) (dest + of_nat (i * ?W)) ?W = ?row i" using all by blast
  qed
  then have "bytes_at (fold ?step ks mem) dest (rows * ?W) = rows_bytes mem p n w positions rows"
    unfolding bytes_at_rows rows_bytes_def by (simp only:)
  then show ?thesis using all unfolding assms(6) by (simp add: mult.assoc)
qed


section \<open>The copy of a slice\<close>

text \<open>
  The sizes of a tensor around one of its dims, as natural numbers: \<open>l\<close> rows, \<open>n\<close> blocks in a row,
  \<open>k\<close> elements of \<open>e\<close> bytes in a block.
\<close>

definition split_at :: "tensor_impl \<Rightarrow> nat \<Rightarrow> nat \<Rightarrow> nat \<Rightarrow> nat \<Rightarrow> nat \<Rightarrow> bool" where
  "split_at t d l n k e \<longleftrightarrow> tensor_inv t \<and> 0 < l * n * k \<and> d < length (tensor_sizes t) \<and> tensor_sizes t ! d = int n \<and>
     prod_list (take d (tensor_sizes t)) = int l \<and> prod_list (drop (Suc d) (tensor_sizes t)) = int k \<and>
     element_size (ti_type t) = Ok (of_nat e) \<and> 0 < e \<and> l * n * k * e < 2 ^ 63"

lemma split_prod_list: "d < length ss \<Longrightarrow> prod_list ss = prod_list (take d ss) * ss ! d * prod_list (drop (Suc d) ss)"
  for ss :: "int list"
  by (subst id_take_nth_drop, assumption) simp

lemma usize_of_uint: "uint m = int k \<Longrightarrow> m = of_nat k" for m :: usize
proof -
  assume "uint m = int k"
  then have "(word_of_int (uint m) :: usize) = of_nat k" by simp
  then show "m = of_nat k" by simp
qed

lemma split_at_facts:
  assumes "split_at t d l n k e"
  shows "tensor_size t (int d) = Ok (int n)" and "getLeadingDims t (int d) = Ok (of_nat l)"
    and "getTrailingDims t (int d) = Ok (of_nat k)" and "tensor_numel t = int (l * n * k)" and "int d < tensor_dim t"
proof -
  have inv: "tensor_inv t" and d: "d < length (tensor_sizes t)" using assms by (simp_all add: split_at_def)
  have sizes: "ti_sizes t = Some (tensor_sizes t)" "int (length (tensor_sizes t)) = tensor_dim t"
      "tensor_numel t = prod_list (tensor_sizes t)"
    using inv by (auto simp: tensor_inv_def tensor_sizes_def tensor_dim_def tensor_numel_def)
  then show numel: "tensor_numel t = int (l * n * k)" and dim: "int d < tensor_dim t"
    using split_prod_list [OF d] assms d by (simp_all add: split_at_def)
  then show "tensor_size t (int d) = Ok (int n)" using sizes assms by (simp add: tensor_size_def tensor_dim_def split_at_def)
  have nz: "tensor_numel t \<noteq> 0" using numel assms by (simp add: split_at_def)
  obtain ss where ss: "tensor_sizes t = ss" "nat (tensor_dim t) = length ss" "0 \<le> tensor_dim t"
    "\<forall>s \<in> set ss. 1 \<le> s \<and> s < 2 ^ 63" "tensor_numel t = prod_list ss" "prod_list ss < 2 ^ 63"
    by (rule tensor_with_element [OF inv nz])
  obtain m where m: "getTrailingDims t (int d) = Ok m" "uint m = prod_list (drop (Suc d) ss)"
    using trailing_dims [OF ss(1-4,6)] d ss(1) by auto
  have "m = of_nat k" using m(2) assms ss(1) by (intro usize_of_uint) (simp add: split_at_def)
  then show "getTrailingDims t (int d) = Ok (of_nat k)" using m(1) by simp
  have "1 \<le> prod_list (drop d ss)" using ss(4) by (auto intro!: prod_list_pos dest: in_set_dropD)
  moreover have "1 \<le> prod_list (take d ss)" using ss(4) by (auto intro!: prod_list_pos dest: in_set_takeD)
  moreover have "prod_list ss = prod_list (drop d ss) * prod_list (take d ss)"
    by (metis append_take_drop_id prod_list.append mult.commute)
  ultimately have "prod_list (take d ss) < 2 ^ 63"
    using le_mult_int [of "prod_list (drop d ss)" "prod_list (take d ss)"] ss(6) by linarith
  then obtain m' where m': "dims_product (take d ss) 1 = Ok m'" "uint m' = prod_list (take d ss)"
    using dims_product_correct [of "take d ss" 1] ss(4) by (auto dest: in_set_takeD)
  have "m' = of_nat l" using m'(2) assms ss(1) by (intro usize_of_uint) (simp add: split_at_def)
  then show "getLeadingDims t (int d) = Ok (of_nat l)" using m'(1) dim ss(1) by (simp add: getLeadingDims_def)
qed


lemma below_64: "x \<le> y \<Longrightarrow> y < 2 ^ 63 \<Longrightarrow> x < 2 ^ 64" for x y :: nat
  by simp

lemma fits_i64_of_nat: "x < 2 ^ 63 \<Longrightarrow> fits_i64 (int x)"
  by (simp add: fits_i64_def)

lemma split_at_bounds:
  assumes "split_at t d l n k e"
  shows "0 < l" and "0 < n" and "0 < k" and "0 < e" and "l * n * (k * e) < 2 ^ 63" and "l * n * k < 2 ^ 63" and "l * n < 2 ^ 63"
    and "l < 2 ^ 63" and "n < 2 ^ 63" and "k * e < 2 ^ 63" and "k < 2 ^ 63" and "e < 2 ^ 63"
proof -
  have all: "0 < l * n * (k * e)" "l * n * (k * e) < 2 ^ 63" using assms by (simp_all add: split_at_def mult.assoc)
  then show pos: "0 < l" "0 < n" "0 < k" "0 < e" "l * n * (k * e) < 2 ^ 63" by simp_all
  show "l * n * k < 2 ^ 63" using below_of_mult [OF pos(4), of "l * n * k"] all(2) by (simp add: mult.assoc)
  show ln: "l * n < 2 ^ 63" and ke: "k * e < 2 ^ 63"
    using below_of_mult [of "k * e" "l * n"] below_of_mult [of "l * n" "k * e"] all by (simp_all add: mult.commute [of "k * e"])
  show "l < 2 ^ 63" "n < 2 ^ 63" using below_of_mult [of n l] below_of_mult [of l n] ln pos by (simp_all add: mult.commute)
  show "k < 2 ^ 63" "e < 2 ^ 63" using below_of_mult [of e k] below_of_mult [of k e] ke pos by (simp_all add: mult.commute)
qed

lemma compute_slice_run:
  assumes t: "split_at (ks_tensors s in') d l n k e" and out: "split_at (ks_tensors s out) d l len k e"
    and step: "start + (len - 1) * step < n"
  shows "compute_slice oc dbg in' (int d) (int start) (int len) (int step) out s =
    r_bind
      (if 8 \<le> sint (of_nat l :: usize) \<and> 32768 \<le> sint (of_nat (l * len * k) :: usize)
       then slice_chunk oc (ti_data (ks_tensors s in')) (ti_data (ks_tensors s out)) (of_nat n) len (of_nat start) (of_nat step)
         (of_nat (k * e)) (parallel_order dbg l) (ks_mem s)
       else slice_rows oc (ti_data (ks_tensors s in')) (of_nat n) (of_nat start) len (of_nat step) (of_nat (k * e)) [0..<l]
         (ti_data (ks_tensors s out)) (ks_mem s))
      (\<lambda>mem. Ok (s\<lparr>ks_mem := mem\<rparr>))"
proof -
  let ?t = "ks_tensors s in'" and ?o = "ks_tensors s out" and ?w = "k * e"
  note bt = split_at_bounds [OF t] and bo = split_at_bounds [OF out]
  have words: "(word_of_int (int m) :: usize) = of_nat m" for m by simp
  have last: "(int len - 1) * int step = int ((len - 1) * step)" using bo(2) by (simp add: of_nat_diff)
  have ops: "(umul oc (of_nat k :: usize) (of_nat e) :: usize result) = Ok (of_nat ?w)"
    "(umul oc (of_nat len :: usize) (of_nat l) :: usize result) = Ok (of_nat (l * len))"
    "(umul oc (of_nat (l * len) :: usize) (of_nat ?w) :: usize result) = Ok (of_nat (l * len * ?w))"
    "(umul oc (of_nat l :: usize) (of_nat len) :: usize result) = Ok (of_nat (l * len))"
    "(umul oc (of_nat (l * len) :: usize) (of_nat k) :: usize result) = Ok (of_nat (l * len * k))"
    "(umul oc (of_nat (l * len * k) :: usize) (of_nat e) :: usize result) = Ok (of_nat (l * len * ?w))"
    using umul_of_nat [of k e oc] umul_of_nat [of len l oc] umul_of_nat [of "l * len" ?w oc] umul_of_nat [of l len oc]
      umul_of_nat [of "l * len" k oc] umul_of_nat [of "l * len * k" e oc] bo
    by (simp_all add: mult.commute [of len l] mult.assoc del: of_nat_mult)
  have es: "tensor_element_size ?t = Ok (sint (of_nat e :: usize))" using t by (simp add: tensor_element_size_def split_at_def)
  have nbytes: "tensor_nbytes oc ?o = Ok (of_nat (l * len * ?w))"
    using out ops(6) split_at_facts(4) [OF out] by (simp add: tensor_nbytes_def split_at_def tensor_numel_def del: of_nat_mult)
  have "fits_i64 (int ((len - 1) * step))" "fits_i64 (int (start + (len - 1) * step))"
    using step bt(9) by (intro fits_i64_of_nat; linarith)+
  then have i64: "(i64_mul oc (int len - 1) (int step) :: int result) = Ok (int ((len - 1) * step))"
    "(i64_add oc (int start) (int ((len - 1) * step)) :: int result) = Ok (int (start + (len - 1) * step))"
    unfolding i64_mul_def i64_add_def last of_nat_add [symmetric] by simp_all
  have within: "(of_nat (start + (len - 1) * step) :: usize) < of_nat n"
    using step bt(9) by (simp add: word_less_nat_alt unat_of_nat_64 del: of_nat_mult of_nat_add)
  have k0: "(of_nat k :: usize) \<noteq> 0" using bt(3,11) unat_of_nat_64 [of k] by fastforce
  have conds: "\<not> int len \<le> 0" "int d < tensor_dim ?t" "0 \<le> int start \<and> 0 \<le> int len \<and> 0 \<le> int step"
    using bo(2) split_at_facts(5) [OF t] by simp_all
  have ints: "nat (int len) = len" "unat (of_nat l :: usize) = l" "word_of_int (sint (of_nat e :: usize)) = (of_nat e :: usize)"
    using bt(8) by (simp_all add: unat_of_nat_64)
  show ?thesis
    unfolding compute_slice_def kernel_check_def Let_def
    by (simp only: conds split_at_facts(1-3) [OF t] r_bind.simps i64 words within k0 es ops nbytes ints if_False if_True
        not_True_eq_False order_refl simp_thms)
qed

lemma compute_slice_copies:
  assumes t: "split_at (ks_tensors s in') d l n k e" and out: "split_at (ks_tensors s out) d l len k e"
    and step: "0 < step" "start + (len - 1) * step < n" "step * (k * e) < 2 ^ 63"
    and apart: "data_region (ti_data (ks_tensors s in')) (l * n * (k * e)) \<inter> data_region (ti_data (ks_tensors s out)) (l * len * (k * e)) = {}"
  shows "\<exists>mem'. compute_slice oc dbg in' (int d) (int start) (int len) (int step) out s = Ok (s\<lparr>ks_mem := mem'\<rparr>) \<and>
    bytes_at mem' (ti_data (ks_tensors s out)) (l * len * (k * e)) =
      rows_bytes (ks_mem s) (ti_data (ks_tensors s in')) n (k * e) (map (\<lambda>j. start + j * step) [0..<len]) l \<and>
    (\<forall>a. a \<notin> data_region (ti_data (ks_tensors s out)) (l * len * (k * e)) \<longrightarrow> mem' a = ks_mem s a)"
proof -
  let ?t = "ks_tensors s in'" and ?o = "ks_tensors s out" and ?w = "k * e" and ?pos = "map (\<lambda>j. start + j * step) [0..<len]"
  let ?large = "8 \<le> sint (of_nat l :: usize) \<and> 32768 \<le> sint (of_nat (l * len * k) :: usize)"
  note bt = split_at_bounds [OF t] and bo = split_at_bounds [OF out]
  have len_pos: "length ?pos = len" and w: "0 < ?w" using bt(3,4) by simp_all
  have below_last: "start + j * step < n" if "j < len" for j
    using step(2) that mult_le_mono1 [of j "len - 1" step] by linarith
  have "step < 2 ^ 63" using below_of_mult [OF w step(3)] .
  then have bounds: "unat (of_nat step :: usize) = step" "len < 2 ^ 64" "n < 2 ^ 64" "?w < 2 ^ 64" "step * ?w < 2 ^ 64"
    "\<forall>q \<in> set ?pos. q < n" "l * length ?pos * ?w < 2 ^ 64"
    "data_region (ti_data ?t) (l * n * ?w) \<inter> data_region (ti_data ?o) (l * length ?pos * ?w) = {}"
    using bt bo step(3) apart below_last by (simp_all add: unat_of_nat_64)
  have src: "i < 2 ^ 64 \<and> (i * n + start) * ?w < 2 ^ 64 \<and> i * len * ?w < 2 ^ 64" if "i < l" for i
  proof -
    have le: "(i * n + start) * ?w \<le> l * n * ?w" "i * len * ?w \<le> l * len * ?w"
      using row_position [of i l start n] that step(2) by (intro mult_le_mono1; simp)+
    show ?thesis using less_imp_le [OF that] bt(8) le bt(5) bo(5) by (intro conjI) (erule below_64, assumption)+
  qed
  have serial: "slice_rows oc (ti_data ?t) (of_nat n) (of_nat start) len (of_nat step) (of_nat ?w) [0..<l] (ti_data ?o) (ks_mem s) =
      Ok (append_copies (concat (map (row_blocks (ti_data ?t) n ?w ?pos) [0..<l])) (ti_data ?o) (ks_mem s))"
    by (rule slice_rows_blocks [OF w bounds(4,3)]) (use src bounds(1,5) in auto)
  have parallel: "slice_chunk oc (ti_data ?t) (ti_data ?o) (of_nat n) len (of_nat start) (of_nat step) (of_nat ?w)
        (parallel_order dbg l) (ks_mem s) =
      Ok (fold (\<lambda>i. append_copies (row_blocks (ti_data ?t) n ?w ?pos i) (ti_data ?o + of_nat (i * (length ?pos * ?w))))
        (parallel_order dbg l) (ks_mem s))"
    unfolding len_pos
    by (rule slice_chunk_blocks [OF w bounds(4,3)]) (use src bounds(1,2,5) in \<open>auto simp: parallel_order_def\<close>)
  have order: "distinct (parallel_order dbg l)" "set (parallel_order dbg l) = {..<l}" by (auto simp: parallel_order_def)
  show ?thesis
  proof (cases ?large)
    case True
    then show ?thesis using slice_parallel [OF bounds(6-8) order refl, of "ks_mem s"]
      unfolding compute_slice_run [OF t out step(2)] parallel if_P [OF True] r_bind.simps len_pos by blast
  next
    case False
    then show ?thesis using slice_serial [OF bounds(6-8) refl, of "ks_mem s"]
      unfolding compute_slice_run [OF t out step(2)] serial if_not_P [OF False] r_bind.simps len_pos by blast
  qed
qed

section \<open>The kernel\<close>

lemma slice_position_range:
  assumes "0 \<le> n" and "0 < step" and "q \<in> set (slice_positions n start stop step)"
  shows "0 \<le> q \<and> q < n"
  using assms by (auto simp: slice_positions_def from_end_def)

lemma slice_positions_steps:
  assumes "0 \<le> n" and "0 < step"
  shows "slice_positions n start stop step =
    map (\<lambda>j. from_end n start + int j * step) [0..<length (slice_positions n start stop step)]"
  unfolding slice_positions_def filter_steps [OF assms(2)] by simp

text \<open>The target sizes: the sliced dim gets the number of positions, the other sizes stay.\<close>

lemma slice_target_size:
  assumes "split_at t d l n k e" and "length (tensor_sizes t) \<le> K_TENSOR_DIMENSION_LIMIT" and "fits_i32 v"
  shows "get_slice_copy_out_target_size t (int d) v = Ok ((tensor_sizes t)[d := v])"
  using assms by (simp add: get_slice_copy_out_target_size_def get_narrow_copy_out_target_size_def sizes_array_def split_at_def)

lemma slice_positions_nat:
  assumes "0 < step" and positions: "positions = slice_positions (int n) start stop (int step)"
    and a: "a = nat (from_end (int n) start)"
  shows "from_end (int n) start = int a" and "map nat positions = map (\<lambda>j. a + j * step) [0..<length positions]"
    and "0 < length positions \<Longrightarrow> a + (length positions - 1) * step < n" and "length positions \<le> n"
proof -
  let ?len = "length positions"
  show a_eq: "from_end (int n) start = int a" by (simp add: a from_end_def)
  have eq: "positions = map (\<lambda>j. int (a + j * step)) [0..<?len]"
    using slice_positions_steps [of "int n" "int step" start stop] assms(1) unfolding positions a_eq by simp
  have "map nat (map (\<lambda>j. int (a + j * step)) [0..<?len]) = map (\<lambda>j. a + j * step) [0..<?len]"
    by (simp only: map_map o_def nat_int)
  then show "map nat positions = map (\<lambda>j. a + j * step) [0..<?len]" unfolding eq [symmetric] .
  show last: "a + (?len - 1) * step < n" if "0 < ?len"
  proof -
    have "positions ! (?len - 1) \<in> set positions" using that by (intro nth_mem) simp
    then have "positions ! (?len - 1) < int n"
      using slice_position_range [of "int n" "int step"] assms(1) unfolding positions by simp
    moreover have "positions ! (?len - 1) = int (a + (?len - 1) * step)" using that by (subst eq) simp
    ultimately show ?thesis by linarith
  qed
  show "?len \<le> n"
  proof (cases "0 < ?len")
    case True
    have "(?len - 1) * 1 \<le> (?len - 1) * step" using assms(1) by (intro mult_le_mono2) simp
    then show ?thesis using last [OF True] by linarith
  qed simp
qed

lemma resized_split_at:
  assumes t: "split_at t d l n k e" and new: "tensor_inv o'" "tensor_sizes o' = (tensor_sizes t)[d := int len]"
    and "ti_type o' = ti_type t" and "0 < len" and "len \<le> n"
  shows "split_at o' d l len k e"
proof -
  have "l * len * k * e \<le> l * n * k * e" using assms(6) by (intro mult_le_mono1 mult_le_mono2)
  also have "\<dots> < 2 ^ 63" using t by (simp add: split_at_def)
  finally show ?thesis using assms by (simp add: split_at_def)
qed


text \<open>C21. The slice kernel as a whole: for arguments that pass its checks, an output that could be resized and an
  input with at least one element, it takes the output's memory to hold exactly the blocks of the input at the
  positions \<open>start:end:step\<close>, for every row in order, changes no other byte, sets no failure and gives the
  output its new shape. The same memory results from the serial loop and from the two parallel ones, which run
  the rows forwards in one chunk or, in a build with debug assertions, backwards one by one. The input is a
  well-formed tensor of fewer than \<open>2 ^ 63\<close> bytes with sizes that fit in 32 bits, the bytes it is read from and
  those the output is written to are disjoint, and one step, in bytes, is below \<open>2 ^ 63\<close>: a larger step
  can overflow the pointer arithmetic although the checks accept it.
\<close>
theorem slice_copy_exact:
  assumes t: "split_at (ks_tensors s in') d l n k e" and sizes: "\<forall>v \<in> set (tensor_sizes (ks_tensors s in')). fits_i32 v" and out: "tensor_inv (ks_tensors s out)" "in' \<noteq> out"
    and type: "tensors_have_same_dtype2 (ks_tensors s in') (ks_tensors s out)"
    and order: "tensors_have_same_dim_order2 (ks_tensors s in') (ks_tensors s out)"
    and dim: "tensor_has_dim (ks_tensors s in') dim" "int d = (if dim < 0 then dim + tensor_dim (ks_tensors s in') else dim)"
    and positions: "positions = slice_positions (int n) (case start of Some v \<Rightarrow> v | None \<Rightarrow> 0)
      (case stop of Some v \<Rightarrow> v | None \<Rightarrow> int n) (int step)"
    and step: "0 < step" "step * (k * e) < 2 ^ 63"
    and resized: "resize_tensor oc out ((tensor_sizes (ks_tensors s in'))[d := int (length positions)]) (ks_tensors s) = Ok (Error_Ok, ts)"
    and apart: "data_region (ti_data (ks_tensors s in')) (l * n * (k * e)) \<inter>
      data_region (ti_data (ts out)) (l * length positions * (k * e)) = {}"
  shows "\<exists>mem. slice_copy_Tensor_out oc dbg in' dim start stop (int step) out s = Ok (s\<lparr>ks_tensors := ts, ks_mem := mem\<rparr>) \<and>
    bytes_at mem (ti_data (ts out)) (l * length positions * (k * e)) =
      rows_bytes (ks_mem s) (ti_data (ks_tensors s in')) n (k * e) (map nat positions) l \<and>
    (\<forall>a. a \<notin> data_region (ti_data (ts out)) (l * length positions * (k * e)) \<longrightarrow> mem a = ks_mem s a)"
proof -
  let ?t = "ks_tensors s in'" and ?len = "length positions" and ?s = "s\<lparr>ks_tensors := ts\<rparr>"
  let ?start = "case start of Some v \<Rightarrow> v | None \<Rightarrow> 0" and ?stop = "case stop of Some v \<Rightarrow> v | None \<Rightarrow> int n"
  define a where "a = nat (from_end (int n) ?start)"
  note a = slice_positions_nat [OF step(1) positions a_def]
  have "fits_i32 (int n)" using t sizes by (auto simp: split_at_def dest: nth_mem)
  then have fits: "fits_i32 (int ?len)" using a(4) by (simp add: fits_i32_def)
  let ?target = "(tensor_sizes ?t)[d := int ?len]"
  have "map wrap_i32 ?target = ?target"
    using sizes fits set_update_subset_insert [of "tensor_sizes ?t" d "int ?len"] by (intro map_idI) auto
  then obtain o' where o': "internal_resize_contiguous oc ?target (ks_tensors s out) = Ok (Error_Ok, o')"
    and ts: "ts = (ks_tensors s)(out := o')" and limit: "length (tensor_sizes ?t) \<le> K_TENSOR_DIMENSION_LIMIT"
    using resized by (auto simp: resize_tensor_def resize_tensor_impl_def outcome_simps split: if_splits)
  note facts = resize_Ok_facts [OF out(1) o']
  have run: "slice_copy_Tensor_out oc dbg in' dim start stop (int step) out s =
      compute_slice oc dbg in' (int d) (int a) (int ?len) (int step) out ?s"
  proof -
    have "check_slice_copy_args ?t dim (int step) (ks_tensors s out)"
      using type dim(1) step(1) split_at_facts(5) [OF t] by (simp add: check_slice_copy_args_def)
    moreover have "adjust_slice_indices (int n) ?start ?stop (int step) = Ok (int a, from_end (int n) ?stop, int ?len)"
      using adjust_slice_indices_exact [of "int n" "int step" ?start ?stop] step(1) by (simp add: a(1) positions)
    ultimately show ?thesis
      using order resized slice_target_size [OF t limit fits] split_at_facts(1) [OF t]
      by (simp add: slice_copy_Tensor_out_def kernel_check_def Let_def flip: dim(2))
  qed
  show ?thesis
  proof (cases "0 < ?len")
    case False
    then show ?thesis unfolding run by (simp add: compute_slice_def rows_bytes_def bytes_at_def) (rule exI [of _ "ks_mem s"], simp)
  next
    case True
    have in_ts: "ts in' = ?t" "ts out = o'" using out(2) by (simp_all add: ts)
    obtain ss strides numel where "o' = (ks_tensors s out)\<lparr>ti_sizes := ss, ti_strides := strides, ti_numel := numel\<rparr>"
      using facts by blast
    then have "ti_type o' = ti_type ?t" using type by (simp add: tensors_have_same_dtype2_def tensor_scalar_type_def)
    then have o'_split: "split_at o' d l ?len k e" using resized_split_at [OF t _ _ _ True a(4)] facts by blast
    have "\<exists>mem. compute_slice oc dbg in' (int d) (int a) (int ?len) (int step) out ?s = Ok (?s\<lparr>ks_mem := mem\<rparr>) \<and>
        bytes_at mem (ti_data (ks_tensors ?s out)) (l * ?len * (k * e)) =
          rows_bytes (ks_mem ?s) (ti_data (ks_tensors ?s in')) n (k * e) (map (\<lambda>j. a + j * step) [0..<?len]) l \<and>
        (\<forall>x. x \<notin> data_region (ti_data (ks_tensors ?s out)) (l * ?len * (k * e)) \<longrightarrow> mem x = ks_mem ?s x)"
      by (rule compute_slice_copies) (use t o'_split step a(3) [OF True] apart in_ts in simp_all)
    then show ?thesis unfolding run a(2) by (simp add: in_ts)
  qed
qed


definition slice_example :: kernel_state where
  "slice_example = \<lparr>ks_failure = Error_Ok,
     ks_tensors = (\<lambda>i. if i = 1 then example_tensor\<lparr>ti_data := 8192\<rparr> else example_tensor), ks_mem = (\<lambda>a. ucast a)\<rparr>"

text \<open>Every second element of the middle dim of a tensor of shape 2, 3, 4.\<close>

theorem slice_copy_exact_witness:
  "\<exists>s'. slice_copy_Tensor_out True False 0 (- 2) None None 2 1 slice_example = Ok s' \<and>
     bytes_at (ks_mem s') 8192 64 = rows_bytes (\<lambda>a. ucast a) 4096 3 16 [0, 2] 2 \<and> ks_mem s' 8256 = 64"
proof -
  let ?o = "example_tensor\<lparr>ti_data := 8192\<rparr>"
  have t: "ks_tensors slice_example 0 = example_tensor" "ks_tensors slice_example 1 = ?o" by (simp_all add: slice_example_def)
  have split: "split_at example_tensor 1 2 3 4 4"
    using example_tensor_inv by (simp add: split_at_def example_tensor_def tensor_sizes_def)
  have inv: "tensor_inv ?o" using example_tensor_inv by (simp add: tensor_inv_def)
  have sizes: "tensor_sizes example_tensor = [2, 3, 4]" by (simp add: example_tensor_def tensor_sizes_def)
  have checks: "tensors_have_same_dtype2 example_tensor ?o" "tensors_have_same_dim_order2 example_tensor ?o"
    "tensor_has_dim example_tensor (- 2)" "tensor_dim example_tensor = 3"
    by code_simp+
  have "case internal_resize_contiguous True [2, 2, 4] ?o of Ok (Error_Ok, t) \<Rightarrow> ti_data t = 8192 | _ \<Rightarrow> False" by code_simp
  then obtain o' where o': "internal_resize_contiguous True [2, 2, 4] ?o = Ok (Error_Ok, o')" "ti_data o' = 8192"
    by (auto split: outcome.splits prod.splits Error.splits)
  define ts where "ts = (ks_tensors slice_example)(1 := o')"
  have resized: "resize_tensor True 1 [2, 2, 4] (ks_tensors slice_example) = Ok (Error_Ok, ts)"
    using o'(1) t by (simp add: resize_tensor_def resize_tensor_impl_def ts_def K_TENSOR_DIMENSION_LIMIT_def wrap_i32_def)
  have positions: "slice_positions 3 0 3 2 = [0, 2]" by code_simp
  have apart: "data_region 4096 96 \<inter> data_region 8192 64 = {}" "8256 \<notin> data_region 8192 64"
    using data_region_split [of 96 4096 64 4096] data_region_split [of 64 64 1 8192] data_regionI [of 0 1 8256] by auto
  have "ti_data example_tensor = 4096" by (simp add: example_tensor_def)
  then have "\<exists>mem. slice_copy_Tensor_out True False 0 (- 2) None None 2 1 slice_example = Ok (slice_example\<lparr>ks_tensors := ts, ks_mem := mem\<rparr>) \<and>
      bytes_at mem 8192 64 = rows_bytes (ks_mem slice_example) 4096 3 16 [0, 2] 2 \<and>
      (\<forall>a. a \<notin> data_region 8192 64 \<longrightarrow> mem a = ks_mem slice_example a)"
    using slice_copy_exact [of slice_example 0 1 2 3 4 4 1 "- 2" "[0, 2]" None None 2 True ts False]
      t split inv sizes checks positions resized o'(2) apart by (simp add: ts_def fits_i32_def)
  then show ?thesis using apart(2) by (auto simp: slice_example_def)
qed

section \<open>Narrowing\<close>

lemma check_narrow_True:
  assumes "check_narrow_copy_args oc t dim start len o' = Ok True" and "0 \<le> start"
  shows "0 < tensor_dim t" and "tensors_have_same_dtype2 t o'" and "tensor_has_dim t dim" and "0 \<le> len"
    and "0 \<le> dim" and "\<exists>n. tensor_size t dim = Ok n \<and> start \<le> n \<and> (fits_i64 (start + len) \<longrightarrow> start + len \<le> n)"
  using assms by (auto simp: check_narrow_copy_args_def outcome_simps Let_def i64_add_def tensor_size_def split: if_splits)

text \<open>Narrowing from a start that is not negative is slicing with step one.\<close>

theorem narrow_is_slice:
  assumes check: "check_narrow_copy_args oc (ks_tensors s in') dim start len (ks_tensors s out) = Ok True"
    and start: "0 \<le> start" "start + len < 2 ^ 63"
    and order: "tensors_have_same_dim_order2 (ks_tensors s in') (ks_tensors s out)"
  shows "narrow_copy_out oc dbg in' dim start len out s =
    slice_copy_Tensor_out oc dbg in' dim (Some start) (Some (start + len)) 1 out s"
proof -
  let ?t = "ks_tensors s in'"
  note facts = check_narrow_True [OF check start(1)]
  then obtain n where n: "tensor_size ?t dim = Ok n" "start \<le> n" "start + len \<le> n"
    using start by (auto simp: fits_i64_def)
  have args: "check_slice_copy_args ?t dim 1 (ks_tensors s out)" using facts by (simp add: check_slice_copy_args_def)
  have "adjust_slice_indices n start (start + len) 1 = Ok (start, start + len, len)"
    using n start facts(4) by (auto simp: adjust_slice_indices_def Let_def signed_divide_int_def sgn_if abs_if)
  moreover have skip: "(if len \<noteq> 0 then compute_slice oc dbg in' d start len 1 out s else Ok s) = compute_slice oc dbg in' d start len 1 out s"
    for d s by (simp add: compute_slice_def)
  ultimately show ?thesis using check facts(5) order args n(1)
    unfolding narrow_copy_out_def Let_def kernel_check_def skip
    by (simp add: slice_copy_Tensor_out_def kernel_check_def Let_def get_slice_copy_out_target_size_def)
qed

theorem narrow_is_slice_witness:
  "narrow_copy_out True False 0 1 1 2 1 slice_example = slice_copy_Tensor_out True False 0 1 (Some 1) (Some 3) 1 1 slice_example"
proof -
  have "check_narrow_copy_args True example_tensor 1 1 2 (example_tensor\<lparr>ti_data := 8192\<rparr>) = Ok True"
    "tensors_have_same_dim_order2 example_tensor (example_tensor\<lparr>ti_data := 8192\<rparr>)" by code_simp+
  then show ?thesis using narrow_is_slice [of True slice_example 0 1 1 2 1 False] by (simp add: slice_example_def)
qed

text \<open>
  A negative start passes \<^verbatim>\<open>check_narrow_copy_args\<close>, which counts it from the end of the dim, but is handed on
  as it is: after it has resized its output, the kernel fails.
\<close>
theorem narrow_negative_start_fails:
  assumes "check_narrow_copy_args oc (ks_tensors s in') dim start len (ks_tensors s out) = Ok True"
    and "0 \<le> dim" and "start < 0" and "0 < len" and "narrow_copy_out oc dbg in' dim start len out s = Ok s'"
  shows "ks_failure s' = InvalidArgument \<and> ks_mem s' = ks_mem s"
  using assms by (auto simp: narrow_copy_out_def kernel_check_def kernel_fail_def compute_slice_def Let_def outcome_simps split: if_splits)

text \<open>
  A row moves its source pointer after its last block as well. For a slice of one block any step is legal, but
  a large one overflows that product, and a build with overflow checks aborts.
\<close>
lemma slice_step_overflows: "slice_row True 1 (2 ^ 62) 4 src dest mem = Panic"
  by (simp add: umul_def)

text \<open>\<^verbatim>\<open>tensor_has_dim\<close> accepts negative dims, with which \<^verbatim>\<open>check_narrow_copy_args\<close> reads a size and aborts.\<close>

lemma narrow_check_aborts: "check_narrow_copy_args oc example_tensor (- 1) 0 1 example_tensor = Panic"
  by code_simp

end
