(* ===== verification/Copy_Ops_Util.thy ===== *)
theory Copy_Ops_Util
  imports Slice_Util Broadcast
begin

text \<open>
  Argument checks and target sizes of the copying kernels, and the strided copy:
  \<^verbatim>\<open>kernels/portable/cpu/util/copy_ops_util.rs\<close>, with the kernel of
  \<^verbatim>\<open>kernels/portable/cpu/op_as_strided_copy.rs\<close>. A function that fills a raw array of sizes returns the entries it
  writes; more entries than the array has are undefined. A failed check is \<open>Ok False\<close>, an abort is \<open>Panic\<close>.
\<close>

section \<open>Loops over checks and sizes\<close>

fun check_all :: "('a \<Rightarrow> bool result) \<Rightarrow> 'a list \<Rightarrow> bool result" where
  "check_all f [] = Ok True"
| "check_all f (x # xs) = r_bind (f x) (\<lambda>ok. if \<not> ok then Ok False else check_all f xs)"

fun collect :: "('a \<Rightarrow> 'b result) \<Rightarrow> 'a list \<Rightarrow> 'b list result" where
  "collect f [] = Ok []"
| "collect f (x # xs) = r_bind (f x) (\<lambda>y. r_bind (collect f xs) (\<lambda>ys. Ok (y # ys)))"

definition aref_at :: "'a list \<Rightarrow> nat \<Rightarrow> 'a result" where
  "aref_at xs i = (if i < length xs then Ok (xs ! i) else Panic)"

abbreviation dims_of :: "tensor_impl \<Rightarrow> int list" where
  "dims_of t \<equiv> [0..tensor_dim t - 1]"

definition out_sizes_of :: "int list result \<Rightarrow> int list result" where
  "out_sizes_of r = r_bind r sizes_array"

definition normalize_dim :: "tensor_impl \<Rightarrow> int \<Rightarrow> int" where
  "normalize_dim t dim = (if dim < 0 then dim + nonzero_dim t else dim)"

section \<open>Strided copies\<close>

fun storage_loop :: "bool \<Rightarrow> int list \<Rightarrow> int list \<Rightarrow> usize \<Rightarrow> usize option result" where
  "storage_loop oc [] strides size' = Ok (Some size')"
| "storage_loop oc (s # sizes) strides size' =
     (if s = 0 then Ok None
      else case strides of
          [] \<Rightarrow> Panic
        | stride # rest \<Rightarrow>
            r_bind (i64_sub oc s 1) (\<lambda>m. r_bind (i64_mul oc stride m) (\<lambda>p.
            r_bind (uadd oc size' (word_of_int p)) (\<lambda>size'. storage_loop oc sizes rest size'))))"

definition as_strided_copy_compute_storage_nbytes :: "bool \<Rightarrow> int list \<Rightarrow> int list \<Rightarrow> usize \<Rightarrow> usize result" where
  "as_strided_copy_compute_storage_nbytes oc sizes strides itemsize_bytes =
     r_bind (storage_loop oc sizes strides 1) (\<lambda>r.
       case r of None \<Rightarrow> Ok 0 | Some size' \<Rightarrow> umul oc size' itemsize_bytes)"

definition check_as_strided_copy_args ::
    "bool \<Rightarrow> tensor_impl \<Rightarrow> int list \<Rightarrow> int list \<Rightarrow> int option \<Rightarrow> tensor_impl \<Rightarrow> bool result" where
  "check_as_strided_copy_args oc in' size' stride storage_offset out =
     (if \<not> tensors_have_same_dtype2 in' out then Ok False
      else if \<not> length size' = length stride then Ok False
      else if \<not> list_all (\<lambda>val. 0 \<le> val) stride then Ok False
      else let offset = (case storage_offset of Some v \<Rightarrow> v | None \<Rightarrow> 0)
      in if \<not> 0 \<le> offset then Ok False
      else r_bind (tensor_element_size in') (\<lambda>es.
        r_bind (as_strided_copy_compute_storage_nbytes oc size' stride (word_of_int es)) (\<lambda>storage_size_bytes.
        r_bind (umul oc (word_of_int offset) (word_of_int es)) (\<lambda>storage_offset_bytes.
          if storage_size_bytes = 0 then Ok True
          else r_bind (tensor_nbytes oc in') (\<lambda>new_storage_size_bytes.
            r_bind (uadd oc storage_size_bytes storage_offset_bytes) (\<lambda>needed. Ok (needed \<le> new_storage_size_bytes)))))))"

text \<open>
  Pointers to elements of \<open>es\<close> bytes. The innermost dim is one copy when its stride is one, and a loop over elements
  otherwise; an outer dim is a loop over its steps.
\<close>

definition ptr_offset :: "nat \<Rightarrow> usize \<Rightarrow> int \<Rightarrow> usize" where
  "ptr_offset es p n = p + word_of_int (n * int es)"

fun strided_elements :: "nat \<Rightarrow> nat \<Rightarrow> int \<Rightarrow> usize \<Rightarrow> usize \<Rightarrow> bytes \<Rightarrow> bytes" where
  "strided_elements es 0 stride src dst mem = mem"
| "strided_elements es (Suc n) stride src dst mem =
     strided_elements es n stride (ptr_offset es src stride) (ptr_offset es dst 1) (copy_bytes src dst (of_nat es) mem)"

fun strided_steps :: "nat \<Rightarrow> nat \<Rightarrow> int \<Rightarrow> int \<Rightarrow> (usize \<Rightarrow> usize \<Rightarrow> bytes \<Rightarrow> bytes result) \<Rightarrow> usize \<Rightarrow> usize \<Rightarrow> bytes \<Rightarrow> bytes result" where
  "strided_steps es 0 stride trailing f src dst mem = Ok mem"
| "strided_steps es (Suc n) stride trailing f src dst mem =
     r_bind (f src dst mem) (strided_steps es n stride trailing f (ptr_offset es src stride) (ptr_offset es dst trailing))"

fun as_strided_copy_rec ::
    "nat \<Rightarrow> tensor_impl \<Rightarrow> int list \<Rightarrow> int list \<Rightarrow> int \<Rightarrow> usize \<Rightarrow> usize \<Rightarrow> bytes \<Rightarrow> bytes result" where
  "as_strided_copy_rec es out [s] (stride # strides) dim src dst mem =
     (let num_elements = (word_of_int s :: usize)
      in Ok (if stride = 1 then copy_bytes src dst (num_elements * of_nat es) mem
             else strided_elements es (unat num_elements) stride src dst mem))"
| "as_strided_copy_rec es out (s # s' # sizes) (stride # strides) dim src dst mem =
     r_bind (getTrailingDims out dim) (\<lambda>trailing_dims.
       strided_steps es (nat s) stride (uint trailing_dims) (as_strided_copy_rec es out (s' # sizes) strides (dim + 1)) src dst mem)"
| "as_strided_copy_rec es out _ _ dim src dst mem = Panic"

definition as_strided_copy ::
    "nat \<Rightarrow> tensor_impl \<Rightarrow> int list \<Rightarrow> int list \<Rightarrow> int \<Rightarrow> tensor_impl \<Rightarrow> bytes \<Rightarrow> bytes result" where
  "as_strided_copy es in' size' stride offset out mem =
     (let in_data = ptr_offset es (ti_data in') offset; out_data = ti_data out
      in if size' = [] then Ok (copy_bytes in_data out_data (of_nat es) mem)
         else as_strided_copy_rec es out size' stride 0 in_data out_data mem)"

definition as_strided_copy_out ::
    "bool \<Rightarrow> tensor_id \<Rightarrow> int list \<Rightarrow> int list \<Rightarrow> int option \<Rightarrow> tensor_id \<Rightarrow> kernel_state \<Rightarrow> kernel_state result" where
  "as_strided_copy_out oc in' size' stride storage_offset out s =
     r_bind (check_as_strided_copy_args oc (ks_tensors s in') size' stride storage_offset (ks_tensors s out)) (\<lambda>ok.
     kernel_check ok InvalidArgument s
      (r_bind (resize_tensor oc out size' (ks_tensors s)) (\<lambda>(err, ts).
         let s = s\<lparr>ks_tensors := ts\<rparr>
         in kernel_check (err = Error_Ok) InvalidArgument s
           (kernel_check (tensors_have_same_dim_order2 (ts in') (ts out)) InvalidArgument s
           (kernel_check (tensor_is_default_dim_order (ts in')) InvalidArgument s
             (if tensor_numel (ts in') = 0 then Ok s
              else let offset = (case storage_offset of Some v \<Rightarrow> v | None \<Rightarrow> 0)
              in if tensor_scalar_type (ts in') \<notin> set switch_all_types then Ok (kernel_fail InvalidArgument s)
              else r_bind (element_size (tensor_scalar_type (ts in'))) (\<lambda>es.
                   r_bind (as_strided_copy (unat es) (ts in') size' stride offset (ts out) (ks_mem s)) (\<lambda>mem.
                     Ok (s\<lparr>ks_mem := mem\<rparr>)))))))))"

section \<open>Concatenation and stacking\<close>

text \<open>The first tensor with elements, or the first one of all.\<close>

fun first_with_elements :: "nat \<Rightarrow> tensor_impl list \<Rightarrow> nat" where
  "first_with_elements i [] = 0"
| "first_with_elements i (t # ts) = (if 0 < tensor_numel t then i else first_with_elements (Suc i) ts)"

definition check_cat_tensor :: "tensor_impl \<Rightarrow> int \<Rightarrow> tensor_impl \<Rightarrow> tensor_impl \<Rightarrow> bool result" where
  "check_cat_tensor ref dim out t =
     (if \<not> can_cast (tensor_scalar_type t) (tensor_scalar_type out) then Ok False
      else if \<not> tensors_have_same_dim_order2 t out then Ok False
      else if tensor_numel t = 0 then Ok True
      else if \<not> tensor_is_rank ref (nat (tensor_dim t)) then Ok False
      else check_all (\<lambda>d. if d \<noteq> dim then tensors_have_same_size_at_dims t (nat d) ref (nat d) else Ok True) (dims_of t))"

definition check_cat_args :: "tensor_impl list \<Rightarrow> int \<Rightarrow> tensor_impl \<Rightarrow> bool result" where
  "check_cat_args tensors dim out =
     (if \<not> 0 < length tensors then Ok False
      else let ref = tensors ! first_with_elements 0 tensors
      in r_bind (check_all (check_cat_tensor ref dim out) tensors) (\<lambda>ok.
        if \<not> ok then Ok False
        else if \<not> (tensor_numel ref = 0 \<or> dim < tensor_dim ref) then Ok False
        else Ok (0 \<le> dim)))"

text \<open>The sum of the sizes of the tensors with elements, and the last tensor that is not one-dimensional and empty.\<close>

fun cat_dim_loop :: "bool \<Rightarrow> int \<Rightarrow> nat \<Rightarrow> tensor_impl list \<Rightarrow> usize \<Rightarrow> nat \<Rightarrow> (usize \<times> nat) result" where
  "cat_dim_loop oc dim i [] cat_dim_size ref_i = Ok (cat_dim_size, ref_i)"
| "cat_dim_loop oc dim i (t # ts) cat_dim_size ref_i =
     r_bind (if 0 < tensor_numel t then r_bind (tensor_size t dim) (\<lambda>s. uadd oc cat_dim_size (word_of_int s)) else Ok cat_dim_size)
       (\<lambda>cat_dim_size. cat_dim_loop oc dim (Suc i) ts cat_dim_size (if tensor_dim t \<noteq> 1 \<or> tensor_numel t \<noteq> 0 then i else ref_i))"

definition get_cat_out_target_size :: "bool \<Rightarrow> tensor_impl list \<Rightarrow> int \<Rightarrow> int list result" where
  "get_cat_out_target_size oc tensors dim =
     r_bind (cat_dim_loop oc dim 0 tensors 0 0) (\<lambda>(cat_dim_size, ref_i).
     r_bind (aref_at tensors ref_i) (\<lambda>ref.
       out_sizes_of (collect (\<lambda>d. if d \<noteq> dim then tensor_size ref d else Ok (wrap_i32 (uint cat_dim_size))) (dims_of ref))))"

definition check_stack_args :: "tensor_impl list \<Rightarrow> int \<Rightarrow> tensor_impl \<Rightarrow> bool result" where
  "check_stack_args tensors dim out =
     (if \<not> 0 < length tensors then Ok False
      else r_bind (check_all (\<lambda>t.
          if \<not> can_cast (tensor_scalar_type t) (tensor_scalar_type out) then Ok False
          else if \<not> tensor_is_rank t (nat (tensor_dim (tensors ! 0))) then Ok False
          else check_all (\<lambda>d. tensors_have_same_size_at_dims t (nat d) (tensors ! 0) (nat d)) (dims_of t)) tensors) (\<lambda>ok.
        if \<not> ok then Ok False else Ok (0 \<le> dim \<and> dim < tensor_dim (tensors ! 0) + 1)))"

definition get_stack_out_target_size :: "tensor_impl list \<Rightarrow> int \<Rightarrow> int list result" where
  "get_stack_out_target_size tensors dim =
     r_bind (aref_at tensors 0) (\<lambda>t.
       out_sizes_of (collect (\<lambda>d. if d < dim then tensor_size t d
         else if d = dim then Ok (wrap_i32 (int (length tensors)))
         else tensor_size t (d - 1)) [0..tensor_dim t]))"

section \<open>Expanding\<close>

definition check_expand_copy_args :: "tensor_impl \<Rightarrow> int list \<Rightarrow> bool \<Rightarrow> tensor_impl \<Rightarrow> bool" where
  "check_expand_copy_args input expand_sizes implicit out \<longleftrightarrow>
     \<not> implicit \<and> length (tensor_sizes input) \<le> length expand_sizes \<and> length expand_sizes \<le> K_TENSOR_DIMENSION_LIMIT \<and>
     tensors_have_same_dtype2 input out"

text \<open>
  The sizes are compared from the last one, so the loops run over the reversals and build the output from its end.
  A refusal is \<open>None\<close>.
\<close>

fun expand_leading :: "int list \<Rightarrow> int list \<Rightarrow> int list option" where
  "expand_leading [] output = Some output"
| "expand_leading (e # expand_rev) output = (if 0 \<le> e then expand_leading expand_rev (wrap_i32 e # output) else None)"

fun expand_loop :: "int list \<Rightarrow> int list \<Rightarrow> int list \<Rightarrow> int list option" where
  "expand_loop (s # self_rev) (e # expand_rev) output =
     (if e = -1 then expand_loop self_rev expand_rev (s # output)
      else if s \<noteq> 1 \<and> e \<noteq> s then None
      else expand_loop self_rev expand_rev (wrap_i32 e # output))"
| "expand_loop self_rev expand_rev output = expand_leading expand_rev output"

definition get_expand_copy_out_target_size :: "int list \<Rightarrow> int list \<Rightarrow> int list option" where
  "get_expand_copy_out_target_size self_sizes expand_sizes = expand_loop (rev self_sizes) (rev expand_sizes) []"

section \<open>Permuting\<close>

fun permute_loop :: "tensor_impl \<Rightarrow> int list \<Rightarrow> bool list \<Rightarrow> bool" where
  "permute_loop t [] dim_exist = True"
| "permute_loop t (d # dims) dim_exist =
     (if \<not> tensor_has_dim t d then False
      else let dim = nat (if 0 \<le> d then d else tensor_dim t + d)
      in if \<not> dim < K_TENSOR_DIMENSION_LIMIT then False
      else if dim_exist ! dim then False
      else permute_loop t dims (dim_exist[dim := True]))"

definition check_permute_copy_args :: "tensor_impl \<Rightarrow> int list \<Rightarrow> tensor_impl \<Rightarrow> bool" where
  "check_permute_copy_args in' dims out =
     (if \<not> tensor_is_rank in' (length dims) then False
      else if \<not> tensors_have_same_dtype2 in' out then False
      else permute_loop in' dims (replicate K_TENSOR_DIMENSION_LIMIT False))"

definition get_permute_copy_out_target_size :: "tensor_impl \<Rightarrow> int list \<Rightarrow> int list result" where
  "get_permute_copy_out_target_size in' dims =
     out_sizes_of (collect (\<lambda>i. r_bind (aref_at dims (nat i)) (\<lambda>d.
       tensor_size in' (if 0 \<le> d then d else d + tensor_dim in'))) (dims_of in'))"

section \<open>Unbinding, selecting and splitting\<close>

definition check_unbind_copy_args :: "tensor_impl \<Rightarrow> int \<Rightarrow> tensor_impl list \<Rightarrow> bool result" where
  "check_unbind_copy_args in' dim out =
     (if \<not> 0 < tensor_dim in' then Ok False
      else if \<not> dim_is_valid dim (tensor_dim in') then Ok False
      else r_bind (tensor_size in' dim) (\<lambda>dim_size.
        if dim_size \<noteq> int (length out) then Ok False
        else check_all (\<lambda>o'.
          if tensor_scalar_type o' \<noteq> tensor_scalar_type (out ! 0) then Ok False
          else if tensor_dim o' \<noteq> tensor_dim in' - 1 then Ok False
          else check_all (\<lambda>(out_d, d). r_bind (tensor_size o' (int out_d)) (\<lambda>x. r_bind (tensor_size in' d) (\<lambda>y. Ok (x = y))))
            (enumerate 0 (filter (\<lambda>d. d \<noteq> dim) (dims_of in')))) out))"

definition check_select_copy_out_args :: "tensor_impl \<Rightarrow> int \<Rightarrow> int \<Rightarrow> tensor_impl \<Rightarrow> bool result" where
  "check_select_copy_out_args in' dim index out =
     (if \<not> tensor_has_rank_greater_or_equal_to in' 1 then Ok False
      else if \<not> tensor_has_dim in' dim then Ok False
      else r_bind (tensor_dim_has_index in' dim index) (\<lambda>ok.
        if \<not> ok then Ok False else Ok (tensors_have_same_dtype2 in' out)))"

definition get_select_copy_out_target_size :: "tensor_impl \<Rightarrow> int \<Rightarrow> int list result" where
  "get_select_copy_out_target_size in' dim =
     out_sizes_of (collect (\<lambda>d. tensor_size in' (if d < dim then d else d + 1)) [0..tensor_dim in' - 2])"

fun split_sum :: "bool \<Rightarrow> int list \<Rightarrow> int \<Rightarrow> int option result" where
  "split_sum oc [] so_far = Ok (Some so_far)"
| "split_sum oc (s # sizes) so_far =
     (if \<not> 0 \<le> s then Ok None else r_bind (i64_add oc so_far s) (split_sum oc sizes))"

definition check_split_with_sizes_copy_args :: "bool \<Rightarrow> tensor_impl \<Rightarrow> int list \<Rightarrow> int \<Rightarrow> tensor_impl list \<Rightarrow> bool result" where
  "check_split_with_sizes_copy_args oc in' split_sizes dim out =
     (if \<not> tensor_has_rank_greater_or_equal_to in' 1 then Ok False
      else if \<not> tensor_has_dim in' dim then Ok False
      else if length split_sizes \<noteq> length out then Ok False
      else r_bind (split_sum oc split_sizes 0) (\<lambda>r.
        case r of None \<Rightarrow> Ok False | Some so_far \<Rightarrow> r_bind (tensor_size in' dim) (\<lambda>dim_size. Ok (so_far = dim_size))))"

definition get_split_with_sizes_copy_out_target_size :: "tensor_impl \<Rightarrow> int \<Rightarrow> int \<Rightarrow> int list result" where
  "get_split_with_sizes_copy_out_target_size in' split_size dim =
     r_bind (out_sizes_of (Ok (tensor_sizes in'))) (\<lambda>out_sizes.
       if \<not> (0 \<le> dim \<and> dim < int K_TENSOR_DIMENSION_LIMIT) then Panic else Ok (out_sizes[nat dim := wrap_i32 split_size]))"

text \<open>An output of a split: the last one has the remainder.\<close>

definition split_output_ok :: "tensor_impl \<Rightarrow> int \<Rightarrow> int \<Rightarrow> tensor_impl list \<Rightarrow> int \<Rightarrow> nat \<times> tensor_impl \<Rightarrow> bool result" where
  "split_output_ok input split_size dim out remainder = (\<lambda>(i, o').
     if tensor_scalar_type o' \<noteq> tensor_scalar_type (out ! 0) then Ok False
     else if tensor_dim o' \<noteq> tensor_dim input then Ok False
     else check_all (\<lambda>d.
       if d = dim then r_bind (tensor_size o' d) (\<lambda>s. Ok (s = (if i < length out - 1 then split_size else remainder)))
       else tensors_have_same_size_at_dims o' (nat d) input (nat d)) (dims_of o'))"

definition validate_split_copy_outputs :: "tensor_impl \<Rightarrow> int \<Rightarrow> int \<Rightarrow> tensor_impl list \<Rightarrow> int \<Rightarrow> bool result" where
  "validate_split_copy_outputs input split_size dim out remainder =
     check_all (split_output_ok input split_size dim out remainder) (enumerate 0 out)"

definition check_split_copy_args :: "bool \<Rightarrow> tensor_impl \<Rightarrow> int \<Rightarrow> int \<Rightarrow> tensor_impl list \<Rightarrow> bool result" where
  "check_split_copy_args oc input split_size dim out =
     (if \<not> 0 < tensor_dim input then Ok False
      else if \<not> (0 \<le> dim \<and> dim < tensor_dim input) then Ok False
      else r_bind (tensor_size input dim) (\<lambda>dim_size.
        if \<not> 0 \<le> split_size then Ok False
        else if \<not> (0 < split_size \<or> dim_size = 0) then Ok False
        else if dim_size \<le> split_size then
          if length out \<noteq> 1 then Ok False else validate_split_copy_outputs input split_size dim out dim_size
        else r_bind (i64_add oc dim_size split_size) (\<lambda>a. r_bind (i64_sub oc a 1) (\<lambda>b.
          let expected_out_len = b sdiv split_size
          in if int (length out) \<noteq> expected_out_len then Ok False
          else let remainder = dim_size smod split_size;
                   remainder = (if remainder = 0 then split_size else remainder)
          in validate_split_copy_outputs input split_size dim out remainder))))"

section \<open>Squeezing and unsqueezing\<close>

definition check_squeeze_copy_dim_args :: "tensor_impl \<Rightarrow> int \<Rightarrow> tensor_impl \<Rightarrow> bool" where
  "check_squeeze_copy_dim_args in' dim out \<longleftrightarrow> tensors_have_same_dtype2 in' out \<and> tensor_has_dim in' dim"

text \<open>The sizes written and the number of dims reported.\<close>

definition get_squeeze_copy_dim_out_target_size :: "tensor_impl \<Rightarrow> int \<Rightarrow> (int list \<times> int) result" where
  "get_squeeze_copy_dim_out_target_size in' dim =
     (if tensor_dim in' = 0 then Ok ([], 0)
      else r_bind (tensor_size in' dim) (\<lambda>s.
        let out_ndim = (if s = 1 then tensor_dim in' - 1 else tensor_dim in')
        in r_bind (out_sizes_of (Ok (map snd (filter (\<lambda>(d, s). d \<noteq> dim \<or> s \<noteq> 1) (zip (dims_of in') (tensor_sizes in'))))))
          (\<lambda>out_sizes. Ok (out_sizes, out_ndim))))"

definition check_squeeze_copy_dims_args :: "tensor_impl \<Rightarrow> int list \<Rightarrow> tensor_impl \<Rightarrow> bool" where
  "check_squeeze_copy_dims_args in' dims out \<longleftrightarrow>
     tensors_have_same_dtype2 in' out \<and>
     list_all (\<lambda>i. let dim = normalize_dim in' (dims ! i)
       in tensor_has_dim in' dim \<and>
          list_all (\<lambda>j. i \<noteq> j \<longrightarrow> dim \<noteq> normalize_dim in' (dims ! j)) [0..<length dims]) [0..<length dims]"

fun dims_to_remove_loop :: "tensor_impl \<Rightarrow> int list \<Rightarrow> nat \<Rightarrow> nat result" where
  "dims_to_remove_loop in' [] dims_to_remove = Ok dims_to_remove"
| "dims_to_remove_loop in' (d # dims) dims_to_remove =
     r_bind (tensor_size in' (normalize_dim in' d)) (\<lambda>s.
       dims_to_remove_loop in' dims (if s = 1 then Suc dims_to_remove else dims_to_remove))"

definition get_squeeze_copy_dims_out_target_size :: "tensor_impl \<Rightarrow> int list \<Rightarrow> (int list \<times> int) result" where
  "get_squeeze_copy_dims_out_target_size in' dims =
     (if tensor_dim in' = 0 then Ok ([], 0)
      else r_bind (dims_to_remove_loop in' dims 0) (\<lambda>dims_to_remove.
        r_bind (out_sizes_of (Ok (map snd (filter
            (\<lambda>(in_d, s). \<not> list_ex (\<lambda>d. in_d = normalize_dim in' d) dims \<or> s \<noteq> 1) (zip (dims_of in') (tensor_sizes in'))))))
          (\<lambda>out_sizes. Ok (out_sizes, tensor_dim in' - int dims_to_remove))))"

text \<open>
  The message for a size behind the new dim reads the input at the output's index, one too far: for the last dim it
  aborts.
\<close>

definition check_unsqueeze_copy_args :: "tensor_impl \<Rightarrow> int \<Rightarrow> tensor_impl \<Rightarrow> bool result" where
  "check_unsqueeze_copy_args input dim out =
     (if \<not> 0 \<le> dim then Ok False
      else if \<not> tensors_have_same_dtype2 input out then Ok False
      else if \<not> tensor_has_dim out dim then Ok False
      else if tensor_dim input \<noteq> tensor_dim out - 1 then Ok False
      else check_all (\<lambda>d.
        if d < dim then r_bind (tensor_size input d) (\<lambda>x. r_bind (tensor_size out d) (\<lambda>y. Ok (x = y)))
        else if dim < d then r_bind (tensor_size input (d - 1)) (\<lambda>x. r_bind (tensor_size out d) (\<lambda>y.
          if x = y then Ok True else r_bind (tensor_size input d) (\<lambda>_. Ok False)))
        else r_bind (tensor_size out d) (\<lambda>y. Ok (y = 1))) (dims_of out))"

section \<open>Views\<close>

fun view_sizes_loop :: "int list \<Rightarrow> int list \<Rightarrow> bool \<Rightarrow> bool" where
  "view_sizes_loop (s # sizes) (o' # out_sizes) size_inferred =
     (if s = -1 \<and> size_inferred then False
      else if \<not> (o' = s \<or> s = -1) then False
      else view_sizes_loop sizes out_sizes (size_inferred \<or> s = -1))"
| "view_sizes_loop _ _ size_inferred = True"

definition check_view_copy_args :: "tensor_impl \<Rightarrow> int list \<Rightarrow> tensor_impl \<Rightarrow> bool" where
  "check_view_copy_args self size_int64_t out \<longleftrightarrow>
     length size_int64_t = length (tensor_sizes out) \<and> tensor_numel self = tensor_numel out \<and>
     tensors_have_same_dtype2 self out \<and> view_sizes_loop size_int64_t (tensor_sizes out) False"

text \<open>The product of the sizes that are given and the dim that is inferred; a second such dim is a refusal.\<close>

fun view_target_loop :: "bool \<Rightarrow> nat \<Rightarrow> int list \<Rightarrow> usize \<Rightarrow> nat option \<Rightarrow> (usize \<times> nat option) option result" where
  "view_target_loop oc i [] numels minus_1_dim = Ok (Some (numels, minus_1_dim))"
| "view_target_loop oc i (s # sizes) numels minus_1_dim =
     (if s \<noteq> -1 then r_bind (umul oc numels (word_of_int s)) (\<lambda>numels. view_target_loop oc (Suc i) sizes numels minus_1_dim)
      else if minus_1_dim \<noteq> None then Ok None
      else view_target_loop oc (Suc i) sizes numels (Some i))"

definition get_view_copy_target_size :: "bool \<Rightarrow> tensor_impl \<Rightarrow> int list \<Rightarrow> int \<Rightarrow> int list option result" where
  "get_view_copy_target_size oc input size_int64_t dim =
     (if int (length size_int64_t) \<noteq> dim then Ok None
      else r_bind (out_sizes_of (Ok (map wrap_i32 size_int64_t))) (\<lambda>out_sizes.
        r_bind (view_target_loop oc 0 size_int64_t 1 None) (\<lambda>r. case r of
            None \<Rightarrow> Ok None
          | Some (numels, None) \<Rightarrow> Ok (Some out_sizes)
          | Some (numels, Some i) \<Rightarrow>
              if numels = 0 then Panic
              else Ok (Some (out_sizes[i := wrap_i32 (uint ((word_of_int (tensor_numel input) :: usize) div numels))])))))"

definition get_view_as_real_copy_out_target_size :: "tensor_impl \<Rightarrow> int list result" where
  "get_view_as_real_copy_out_target_size self = out_sizes_of (Ok (tensor_sizes self @ [2]))"

section \<open>Diagonals, windows, pixels and formats\<close>

definition check_tril_args :: "tensor_impl \<Rightarrow> tensor_impl \<Rightarrow> bool" where
  "check_tril_args in' out \<longleftrightarrow> tensors_have_same_dtype2 in' out \<and> tensor_has_rank_greater_or_equal_to in' 2"

definition check_diagonal_copy_args :: "tensor_impl \<Rightarrow> int \<Rightarrow> int \<Rightarrow> tensor_impl \<Rightarrow> bool" where
  "check_diagonal_copy_args in' dim1 dim2 out \<longleftrightarrow>
     tensors_have_same_dtype2 in' out \<and> tensor_has_rank_greater_or_equal_to in' 2 \<and>
     tensor_has_dim in' dim1 \<and> tensor_has_dim in' dim2 \<and> normalize_dim in' dim1 \<noteq> normalize_dim in' dim2"

definition get_diagonal_copy_out_target_size :: "bool \<Rightarrow> tensor_impl \<Rightarrow> int \<Rightarrow> int \<Rightarrow> int \<Rightarrow> int list result" where
  "get_diagonal_copy_out_target_size oc in' offset dim1 dim2 =
     (let dim1 = normalize_dim in' dim1; dim2 = normalize_dim in' dim2
      in r_bind
        (if 0 \<le> offset then r_bind (tensor_size in' dim2) (\<lambda>s2.
           if s2 \<le> offset then Ok 0 else r_bind (tensor_size in' dim1) (\<lambda>s1. Ok (min s1 (s2 - offset))))
         else r_bind (tensor_size in' dim1) (\<lambda>s1. r_bind (i64_sub oc 0 offset) (\<lambda>n.
           if s1 \<le> n then Ok 0 else r_bind (tensor_size in' dim2) (\<lambda>s2. r_bind (i64_add oc s1 offset) (\<lambda>d. Ok (min d s2))))))
        (\<lambda>diagonal_size.
          if tensor_dim in' < 2 then Panic
          else let others = map snd (filter (\<lambda>(d, s). d \<noteq> dim1 \<and> d \<noteq> dim2) (zip (dims_of in') (tensor_sizes in')))
          in out_sizes_of (Ok (take (nat (tensor_dim in') - 2) others @ [wrap_i32 diagonal_size]))))"

definition check_unfold_copy_args :: "tensor_impl \<Rightarrow> int \<Rightarrow> int \<Rightarrow> int \<Rightarrow> bool result" where
  "check_unfold_copy_args self dim size' step =
     (let dim = normalize_dim self dim
      in if \<not> tensor_has_dim self dim then Ok False
      else if \<not> 0 \<le> size' then Ok False
      else r_bind (tensor_size self dim) (\<lambda>s. if \<not> size' \<le> s then Ok False else Ok (0 < step)))"

definition get_unfold_copy_out_target_size :: "bool \<Rightarrow> tensor_impl \<Rightarrow> int \<Rightarrow> int \<Rightarrow> int \<Rightarrow> int list result" where
  "get_unfold_copy_out_target_size oc self dim size' step =
     r_bind (tensor_size self dim) (\<lambda>s. r_bind (i64_sub oc s size') (\<lambda>a. r_bind (i64_add oc a step) (\<lambda>b.
       if step = 0 \<or> \<not> fits_i64 (b sdiv step) then Panic
       else out_sizes_of (Ok ((tensor_sizes self)[nat dim := wrap_i32 (b sdiv step)] @ [wrap_i32 size'])))))"

definition check_pixel_shuffle_args :: "bool \<Rightarrow> tensor_impl \<Rightarrow> int \<Rightarrow> tensor_impl \<Rightarrow> bool result" where
  "check_pixel_shuffle_args oc in' upscale_factor out =
     (if \<not> tensors_have_same_dtype2 in' out then Ok False
      else if \<not> tensor_has_rank_greater_or_equal_to in' 3 then Ok False
      else if \<not> tensor_has_rank_greater_or_equal_to out 3 then Ok False
      else if \<not> 0 < upscale_factor then Ok False
      else r_bind (tensor_size in' (tensor_dim in' - 3)) (\<lambda>c. r_bind (i64_mul oc upscale_factor upscale_factor) (\<lambda>f.
        if f = 0 then Panic else Ok (c smod f = 0))))"

definition check_pixel_unshuffle_args :: "tensor_impl \<Rightarrow> int \<Rightarrow> tensor_impl \<Rightarrow> bool result" where
  "check_pixel_unshuffle_args in' downscale_factor out =
     (if \<not> tensors_have_same_dtype2 in' out then Ok False
      else if \<not> tensor_has_rank_greater_or_equal_to in' 3 then Ok False
      else if \<not> tensor_has_rank_greater_or_equal_to out 3 then Ok False
      else if \<not> 0 < downscale_factor then Ok False
      else r_bind (tensor_size in' (tensor_dim in' - 1)) (\<lambda>w.
        if w smod downscale_factor \<noteq> 0 then Ok False
        else r_bind (tensor_size in' (tensor_dim in' - 2)) (\<lambda>h. Ok (h smod downscale_factor = 0))))"

text \<open>The leading sizes and the last three; a refusal is \<open>None\<close>.\<close>

definition get_pixel_shuffle_out_target_size :: "bool \<Rightarrow> tensor_impl \<Rightarrow> int \<Rightarrow> int list option result" where
  "get_pixel_shuffle_out_target_size oc in' upscale_factor =
     (if \<not> upscale_factor < 32768 then Ok None
      else let casted_upscale_factor = wrap_i32 upscale_factor; n = tensor_dim in'
      in r_bind (tensor_size in' (n - 3)) (\<lambda>c. r_bind (i32_mul oc casted_upscale_factor casted_upscale_factor) (\<lambda>f.
         if f = 0 then Panic
         else r_bind (tensor_size in' (n - 2)) (\<lambda>h. r_bind (i64_mul oc h casted_upscale_factor) (\<lambda>h'.
              r_bind (tensor_size in' (n - 1)) (\<lambda>w. r_bind (i64_mul oc w casted_upscale_factor) (\<lambda>w'.
              r_bind (out_sizes_of (Ok (take (nat n - 3) (tensor_sizes in') @ [wrap_i32 (c sdiv f), wrap_i32 h', wrap_i32 w'])))
                (\<lambda>out_sizes. Ok (Some out_sizes)))))))))"

definition get_pixel_unshuffle_out_target_size :: "bool \<Rightarrow> tensor_impl \<Rightarrow> int \<Rightarrow> int list result" where
  "get_pixel_unshuffle_out_target_size oc in' downscale_factor =
     (let casted_factor = wrap_i32 downscale_factor; n = tensor_dim in'
      in r_bind (tensor_size in' (n - 3)) (\<lambda>c. r_bind (i32_mul oc casted_factor casted_factor) (\<lambda>f.
         r_bind (i64_mul oc c f) (\<lambda>c'. if casted_factor = 0 then Panic
         else r_bind (tensor_size in' (n - 2)) (\<lambda>h. r_bind (tensor_size in' (n - 1)) (\<lambda>w.
              out_sizes_of (Ok (take (nat n - 3) (tensor_sizes in') @
                [wrap_i32 c', wrap_i32 (h sdiv casted_factor), wrap_i32 (w sdiv casted_factor)]))))))))"

datatype MemoryFormat = Contiguous | Preserve

definition check_to_copy_args :: "tensor_impl \<Rightarrow> bool \<Rightarrow> MemoryFormat option \<Rightarrow> tensor_impl \<Rightarrow> bool" where
  "check_to_copy_args input non_blocking memory_format out \<longleftrightarrow>
     \<not> non_blocking \<and> (memory_format = None \<or> memory_format = Some Contiguous)"

definition check__to_dim_order_copy_args :: "tensor_impl \<Rightarrow> bool \<Rightarrow> int list option \<Rightarrow> tensor_impl \<Rightarrow> bool result" where
  "check__to_dim_order_copy_args input non_blocking dim_order out =
     (if non_blocking then Ok False
      else case dim_order of
          Some dim_order_ref \<Rightarrow>
            if int (length dim_order_ref) \<noteq> tensor_dim input then Ok False
            else if K_TENSOR_DIMENSION_LIMIT < length dim_order_ref then Panic
            else let dim_order_bytes = map (\<lambda>d. word_of_int d :: u8) dim_order_ref
            in if \<not> (is_channels_last_dim_order dim_order_bytes (length dim_order_ref) \<or>
                     is_contiguous_dim_order dim_order_bytes (length dim_order_ref)) then Ok False
            else Ok (map uint (tensor_dim_order out) = dim_order_ref)
        | None \<Rightarrow> Ok (tensor_dim_order out = tensor_dim_order input))"

section \<open>Loops\<close>

lemma check_all_True: "check_all f xs = Ok True \<longleftrightarrow> (\<forall>x \<in> set xs. f x = Ok True)"
  by (induction xs) (auto simp: outcome_simps)

lemma collect_total: "(\<And>x. x \<in> set xs \<Longrightarrow> f x = Ok (g x)) \<Longrightarrow> collect f xs = Ok (map g xs)"
  by (induction xs) simp_all

lemma tensor_sizes_inv:
  assumes "tensor_inv t"
  shows "int (length (tensor_sizes t)) = tensor_dim t" and "tensor_numel t = prod_list (tensor_sizes t)"
    and "\<forall>s \<in> set (tensor_sizes t). 0 \<le> s"
    and "\<lbrakk>0 \<le> d; d < tensor_dim t\<rbrakk> \<Longrightarrow> tensor_size t d = Ok (tensor_sizes t ! nat d)"
  using assms by (auto simp: tensor_inv_def tensor_sizes_def tensor_dim_def tensor_numel_def tensor_size_def
      numel_fits_def numel_fits_from_def)

section \<open>Permutations\<close>

text \<open>A dim counted from the end is below zero.\<close>

definition permute_dim :: "tensor_impl \<Rightarrow> int \<Rightarrow> int" where
  "permute_dim t d = (if 0 \<le> d then d else d + tensor_dim t)"

lemma permute_dim_range:
  "0 < tensor_dim t \<Longrightarrow> tensor_has_dim t d \<longleftrightarrow> 0 \<le> permute_dim t d \<and> permute_dim t d < tensor_dim t"
  by (auto simp: tensor_has_dim_def permute_dim_def)

lemma permute_loop_iff:
  assumes "length dim_exist = K_TENSOR_DIMENSION_LIMIT" and "0 < tensor_dim t" and "tensor_dim t \<le> int K_TENSOR_DIMENSION_LIMIT"
  shows "permute_loop t dims dim_exist \<longleftrightarrow>
    (\<forall>d \<in> set dims. tensor_has_dim t d \<and> \<not> dim_exist ! nat (permute_dim t d)) \<and> distinct (map (permute_dim t) dims)"
  using assms(1)
proof (induction dims arbitrary: dim_exist)
  case (Cons d dims)
  let ?dim = "nat (permute_dim t d)" and ?new = "dim_exist[nat (permute_dim t d) := True]"
  show ?case
  proof (cases "tensor_has_dim t d")
    case True
    then have d: "0 \<le> permute_dim t d" "?dim < K_TENSOR_DIMENSION_LIMIT"
      using permute_dim_range [OF assms(2)] assms(3) by auto
    have new: "tensor_has_dim t e \<and> \<not> ?new ! nat (permute_dim t e) \<longleftrightarrow>
        tensor_has_dim t e \<and> \<not> dim_exist ! nat (permute_dim t e) \<and> permute_dim t e \<noteq> permute_dim t d" for e
      using d Cons.prems permute_dim_range [OF assms(2), of e] by (auto simp: nth_list_update)
    have "permute_loop t (d # dims) dim_exist \<longleftrightarrow> \<not> dim_exist ! ?dim \<and> permute_loop t dims ?new"
    proof -
      have pd: "(if 0 \<le> d then d else tensor_dim t + d) = permute_dim t d" by (simp add: permute_dim_def add.commute)
      show ?thesis using True d(2) unfolding permute_loop.simps pd Let_def by simp
    qed
    also have "permute_loop t dims ?new \<longleftrightarrow>
        (\<forall>e \<in> set dims. tensor_has_dim t e \<and> \<not> ?new ! nat (permute_dim t e)) \<and> distinct (map (permute_dim t) dims)"
      using Cons.IH [of ?new] Cons.prems by simp
    finally show ?thesis unfolding new using True by (simp add: image_iff eq_commute [of "permute_dim t d"] ball_conj_distrib del: permute_loop.simps) blast
  qed simp
qed simp

lemma permutation_iff:
  assumes "int (length xs) = n"
  shows "mset xs = mset [0..n - 1] \<longleftrightarrow> (\<forall>x \<in> set xs. 0 \<le> x \<and> x < n) \<and> distinct xs"
proof
  assume m: "mset xs = mset [0..n - 1]"
  then have "distinct xs" by (metis distinct_upto mset_eq_imp_distinct_iff)
  moreover have "set xs = {0..n - 1}" using m by (metis set_mset_mset set_upto)
  ultimately show "(\<forall>x \<in> set xs. 0 \<le> x \<and> x < n) \<and> distinct xs" by auto
next
  assume r: "(\<forall>x \<in> set xs. 0 \<le> x \<and> x < n) \<and> distinct xs"
  have "set xs = {0..n - 1}"
  proof (rule card_subset_eq)
    show "set xs \<subseteq> {0..n - 1}" using r by auto
    show "card (set xs) = card {0..n - 1}" using r assms by (simp add: distinct_card)
  qed simp
  then show "mset xs = mset [0..n - 1]" using r by (simp add: set_eq_iff_mset_eq_distinct [symmetric])
qed

text \<open>Permuting: \<^verbatim>\<open>check_permute_copy_args\<close> accepts exactly the lists of dims that are, negative dims counted
  from the end, a permutation of all dims of a tensor (and an output of the same type); the target size then lists
  the sizes of the tensor in that order, so the output has as many elements as the input.
\<close>
theorem permute_args_exact:
  assumes "tensor_inv t" and "tensor_dim t \<le> int K_TENSOR_DIMENSION_LIMIT"
  shows "(check_permute_copy_args t dims out \<longleftrightarrow>
      tensors_have_same_dtype2 t out \<and> mset (map (permute_dim t) dims) = mset [0..tensor_dim t - 1]) \<and>
    (check_permute_copy_args t dims out \<longrightarrow>
      (let out_sizes = map (\<lambda>d. tensor_sizes t ! nat (permute_dim t d)) dims
       in get_permute_copy_out_target_size t dims = Ok out_sizes \<and>
          mset out_sizes = mset (tensor_sizes t) \<and> prod_list out_sizes = tensor_numel t))"
proof -
  note sizes = tensor_sizes_inv [OF assms(1)]
  let ?n = "tensor_dim t" and ?ds = "map (permute_dim t) dims" and ?out = "map (\<lambda>d. tensor_sizes t ! nat (permute_dim t d)) dims"
  have n: "0 \<le> ?n" using sizes(1) by linarith
  have iff: "check_permute_copy_args t dims out \<longleftrightarrow> tensors_have_same_dtype2 t out \<and> mset ?ds = mset [0..?n - 1]"
  proof (cases "int (length dims) = ?n")
    case False
    then have "length ?ds \<noteq> length [0..?n - 1]" using n by simp
    then have "mset ?ds \<noteq> mset [0..?n - 1]" using mset_eq_length by blast
    then show ?thesis using False n by (auto simp: check_permute_copy_args_def tensor_is_rank_def)
  next
    case True
    then have rank: "tensor_is_rank t (length dims)" by (simp add: tensor_is_rank_def flip: True)
    show ?thesis
    proof (cases "?n = 0")
      case True
      then show ?thesis using \<open>int (length dims) = ?n\<close> rank by (simp add: check_permute_copy_args_def)
    next
      case False
      then have "permute_loop t dims (replicate K_TENSOR_DIMENSION_LIMIT False) \<longleftrightarrow> (\<forall>d \<in> set ?ds. 0 \<le> d \<and> d < ?n) \<and> distinct ?ds"
        using n assms(2) permute_dim_range [of t] by (subst permute_loop_iff) auto
      then show ?thesis using rank permutation_iff [of ?ds ?n] True by (simp add: check_permute_copy_args_def)
    qed
  qed
  have "get_permute_copy_out_target_size t dims = Ok ?out \<and> mset ?out = mset (tensor_sizes t)"
    if "mset ?ds = mset [0..?n - 1]"
  proof -
    have len: "int (length dims) = ?n" using mset_eq_length [OF that] n by simp
    then have range: "\<forall>d \<in> set ?ds. 0 \<le> d \<and> d < ?n" using that permutation_iff [of ?ds ?n] by simp
    have "collect (\<lambda>i. r_bind (aref_at dims (nat i)) (\<lambda>d. tensor_size t (if 0 \<le> d then d else d + tensor_dim t))) (dims_of t) =
        Ok (map (\<lambda>i. tensor_sizes t ! nat (permute_dim t (dims ! nat i))) (dims_of t))"
    proof (rule collect_total)
      fix i assume "i \<in> set (dims_of t)"
      then have i: "nat i < length dims" using len by auto
      then have "permute_dim t (dims ! nat i) \<in> set ?ds" by simp
      then show "r_bind (aref_at dims (nat i)) (\<lambda>d. tensor_size t (if 0 \<le> d then d else d + tensor_dim t)) =
          Ok (tensor_sizes t ! nat (permute_dim t (dims ! nat i)))"
        using i range sizes(4) by (simp add: aref_at_def flip: permute_dim_def)
    qed
    moreover have "map (\<lambda>i. tensor_sizes t ! nat (permute_dim t (dims ! nat i))) (dims_of t) = ?out"
      using len by (intro nth_equalityI) (auto simp: nth_upto)
    moreover have "mset ?out = mset (map (\<lambda>d. tensor_sizes t ! nat d) [0..?n - 1])"
      using arg_cong [OF that, of "image_mset (\<lambda>d. tensor_sizes t ! nat d)"] by (simp add: image_mset.compositionality o_def)
    moreover have "map (\<lambda>d. tensor_sizes t ! nat d) [0..?n - 1] = tensor_sizes t"
      using sizes(1) by (intro nth_equalityI) (auto simp: nth_upto)
    ultimately show ?thesis using len assms(2) by (simp add: get_permute_copy_out_target_size_def out_sizes_of_def sizes_array_def)
  qed
  moreover have "prod_list ?out = tensor_numel t" if "mset ?out = mset (tensor_sizes t)"
    using that sizes(2) by (metis prod_mset_prod_list)
  ultimately show ?thesis using iff by (simp add: Let_def)
qed

section \<open>Splits\<close>

lemma check_all_dims:
  assumes "check_all f [0..n - 1] = Ok True" and "0 \<le> d" and "d < n"
  shows "f d = Ok True"
  using assms unfolding check_all_True by simp

lemma split_output_sizes:
  assumes "split_output_ok input split_size dim out remainder (i, o') = Ok True" and "tensor_inv input" and "tensor_inv o'"
    and "0 \<le> dim" and "dim < tensor_dim input"
  shows "tensor_sizes o' = (tensor_sizes input)[nat dim := (if i < length out - 1 then split_size else remainder)]"
proof -
  let ?v = "if i < length out - 1 then split_size else remainder"
  have dims: "tensor_dim o' = tensor_dim input" and all: "check_all (\<lambda>d. if d = dim then r_bind (tensor_size o' d) (\<lambda>s. Ok (s = ?v))
       else tensors_have_same_size_at_dims o' (nat d) input (nat d)) (dims_of o') = Ok True"
    using assms(1) by (auto simp: split_output_ok_def split: if_splits)
  note o_sizes = tensor_sizes_inv [OF assms(3)] and in_sizes = tensor_sizes_inv [OF assms(2)]
  have "tensor_sizes o' ! k = (tensor_sizes input)[nat dim := ?v] ! k" if k: "k < length (tensor_sizes o')" for k
  proof -
    have d: "0 \<le> int k" "int k < tensor_dim o'" using k o_sizes(1) by simp_all
    then have "(if int k = dim then r_bind (tensor_size o' (int k)) (\<lambda>s. Ok (s = ?v))
       else tensors_have_same_size_at_dims o' (nat (int k)) input (nat (int k))) = Ok True"
      using check_all_dims [OF all] by blast
    moreover have "tensor_size o' (int k) = Ok (tensor_sizes o' ! k)" "tensor_size input (int k) = Ok (tensor_sizes input ! k)"
      using o_sizes(4) [of "int k"] in_sizes(4) [of "int k"] d dims by simp_all
    moreover have "nat dim = k" if "int k = dim" using that by simp
    moreover have "nat dim \<noteq> k" if "int k \<noteq> dim" using that assms(4) by auto
    ultimately show ?thesis using d dims in_sizes(1)
      by (cases "int k = dim") (auto simp: tensors_have_same_size_at_dims_def split: if_splits)
  qed
  then show ?thesis using o_sizes(1) in_sizes(1) dims by (intro nth_equalityI) simp_all
qed

lemma split_sizes_sum:
  assumes "0 < m"
  shows "sum_list (map (\<lambda>i. if i < m - 1 then split_size else remainder) [0..<m]) = int (m - 1) * split_size + remainder"
proof -
  obtain k where m: "m = Suc k" using assms by (cases m) auto
  have "map (\<lambda>i. if i < k then split_size else remainder) [0..<k] = replicate k split_size"
    by (intro nth_equalityI) simp_all
  then show ?thesis by (simp add: m sum_list_replicate)
qed

lemma ceiling_split:
  fixes n s :: int
  assumes "0 < s" and "s < n"
  shows "0 < (n + s - 1) sdiv s" and "((n + s - 1) sdiv s - 1) * s + (if n smod s = 0 then s else n smod s) = n"
proof -
  have d: "(n + s - 1) sdiv s = (n + s - 1) div s" "n smod s = n mod s"
    using assms by (simp_all add: signed_divide_int_def signed_modulo_int_def sgn_if abs_if)
  have e: "(n + s - 1) div s = (n - 1) div s + 1" using assms div_mult_self2 [of s "n - 1" 1] by (simp add: algebra_simps)
  show "0 < (n + s - 1) sdiv s" unfolding d e using assms by (simp add: pos_imp_zdiv_nonneg_iff add_nonneg_pos)
  have "n = n div s * s + n mod s" by simp
  moreover have "(n - 1) div s = (if n mod s = 0 then n div s - 1 else n div s)"
  proof (cases "n mod s = 0")
    case True
    have "n - 1 = s * (n div s - 1) + (s - 1)" using True \<open>n = n div s * s + n mod s\<close> by (simp add: algebra_simps)
    then have "(n - 1) div s = n div s - 1" by (rule int_div_pos_eq) (use assms in simp_all)
    then show ?thesis using True by simp
  next
    case False
    then have "1 \<le> n mod s" using pos_mod_sign [OF assms(1), of n] by linarith
    have "n - 1 = s * (n div s) + (n mod s - 1)" using \<open>n = n div s * s + n mod s\<close> by (simp add: mult.commute)
    then have "(n - 1) div s = n div s" 
      by (rule int_div_pos_eq) (use \<open>1 \<le> n mod s\<close> pos_mod_bound [OF assms(1), of n] in linarith)+
    then show ?thesis using False by simp
  qed
  ultimately show "((n + s - 1) sdiv s - 1) * s + (if n smod s = 0 then s else n smod s) = n"
    unfolding d e by (auto simp: algebra_simps)
qed


text \<open>Splitting: outputs that \<^verbatim>\<open>check_split_copy_args\<close> accepts are consecutive parts of the input. Each has the
  input's sizes except along the split dim, no part is longer than the split size, and the lengths along that dim
  add up to the input's.
\<close>
theorem split_outputs_partition:
  assumes "check_split_copy_args oc input split_size dim out = Ok True" and "tensor_inv input" and "\<forall>o' \<in> set out. tensor_inv o'"
    and "\<forall>s \<in> set (tensor_sizes input). s < 2 ^ 31" and "split_size < 2 ^ 62"
  shows "sum_list (map (\<lambda>o'. tensor_sizes o' ! nat dim) out) = tensor_sizes input ! nat dim \<and>
    (\<forall>o' \<in> set out. \<exists>v. 0 \<le> v \<and> v \<le> split_size \<and> tensor_sizes o' = (tensor_sizes input)[nat dim := v])"
proof -
  note sizes = tensor_sizes_inv [OF assms(2)]
  let ?n = "tensor_sizes input ! nat dim" and ?m = "length out"
  have dim: "0 \<le> dim" "dim < tensor_dim input" using assms(1) by (auto simp: check_split_copy_args_def split: if_splits)
  then have dim': "nat dim < length (tensor_sizes input)" and n: "tensor_size input dim = Ok ?n" "0 \<le> ?n" "?n < 2 ^ 31"
    using sizes assms(4) by simp_all
  obtain remainder where r: "validate_split_copy_outputs input split_size dim out remainder = Ok True" "0 < ?m"
      "int (?m - 1) * split_size + remainder = ?n" "0 \<le> remainder" "remainder \<le> split_size" "0 \<le> split_size"
  proof (cases "?n \<le> split_size")
    case True
    then show thesis using assms(1) n dim by (intro that [of ?n]) (auto simp: check_split_copy_args_def split: if_splits)
  next
    case False
    then have s: "0 < split_size" "split_size < ?n" using assms(1) n dim by (auto simp: check_split_copy_args_def split: if_splits)
    then have ops: "(i64_add oc ?n split_size :: int result) = Ok (?n + split_size)"
      "(i64_sub oc (?n + split_size) 1 :: int result) = Ok (?n + split_size - 1)"
      using n by (simp_all add: i64_add_exact i64_sub_exact fits_i64_def)
    let ?r = "if ?n smod split_size = 0 then split_size else ?n smod split_size"
    have acc: "int ?m = (?n + split_size - 1) sdiv split_size" "validate_split_copy_outputs input split_size dim out ?r = Ok True"
      using assms(1) n dim s ops by (auto simp: check_split_copy_args_def Let_def split: if_splits)
    show thesis
    proof (rule that [OF acc(2)])
      show m: "0 < ?m" using acc(1) ceiling_split(1) [OF s] by linarith
      have "int (?m - 1) = (?n + split_size - 1) sdiv split_size - 1" using acc(1) m by linarith
      then show "int (?m - 1) * split_size + ?r = ?n" using ceiling_split(2) [OF s] by (simp only:)
      show "0 \<le> ?r" "?r \<le> split_size" "0 \<le> split_size"
        using s by (auto simp: signed_modulo_int_def sgn_if abs_if pos_mod_bound less_imp_le)
    qed
  qed
  let ?len = "\<lambda>i. if i < ?m - 1 then split_size else remainder"
  have shape: "tensor_sizes (out ! i) = (tensor_sizes input)[nat dim := ?len i]" if i: "i < ?m" for i
  proof (rule split_output_sizes)
    have "(i, out ! i) \<in> set (enumerate 0 out)" using i by (simp add: in_set_enumerate_eq)
    then show "split_output_ok input split_size dim out remainder (i, out ! i) = Ok True"
      using r(1) unfolding validate_split_copy_outputs_def check_all_True by blast
  qed (use assms(2,3) i dim in simp_all)
  have "map (\<lambda>o'. tensor_sizes o' ! nat dim) out = map ?len [0..<?m]" using shape dim' by (intro nth_equalityI) simp_all
  then have "sum_list (map (\<lambda>o'. tensor_sizes o' ! nat dim) out) = ?n" using split_sizes_sum [OF r(2)] r(3) by simp
  moreover have "\<exists>v. 0 \<le> v \<and> v \<le> split_size \<and> tensor_sizes o' = (tensor_sizes input)[nat dim := v]" if mem: "o' \<in> set out" for o'
  proof -
    obtain i where "i < ?m" "o' = out ! i" using mem by (auto simp: in_set_conv_nth)
    then show ?thesis using shape r(4-6) by (intro exI [of _ "?len i"]) auto
  qed
  ultimately show ?thesis by blast
qed

section \<open>Expanded shapes\<close>

lemma expand_leading_Some:
  "expand_leading er acc = Some out \<Longrightarrow> out = map wrap_i32 (rev er) @ acc \<and> (\<forall>e \<in> set er. 0 \<le> e)"
  by (induction er acc rule: expand_leading.induct) (auto split: if_splits)

lemma expand_leading_new:
  assumes "expand_leading er acc = Some out"
  shows "\<exists>new. out = rev new @ acc \<and> length new = length er \<and> broadcastable_to_loop [] new \<and>
    (\<forall>i < length er. er ! i \<noteq> -1 \<longrightarrow> new ! i = wrap_i32 (er ! i))"
  using expand_leading_Some [OF assms] by (intro exI [of _ "map wrap_i32 er"]) (auto simp: rev_map)

lemma expand_loop_Some:
  assumes "expand_loop sr er acc = Some out" and "length sr \<le> length er" and "\<forall>s \<in> set sr. fits_i32 s"
  shows "\<exists>new. out = rev new @ acc \<and> length new = length er \<and> broadcastable_to_loop sr new \<and>
    (\<forall>i < length er. er ! i \<noteq> -1 \<longrightarrow> new ! i = wrap_i32 (er ! i))"
  using assms
proof (induction sr er acc rule: expand_loop.induct)
  case (1 s self_rev e expand_rev acc)
  let ?v = "if e = -1 then s else wrap_i32 e"
  have step: "expand_loop self_rev expand_rev (?v # acc) = Some out" and v: "?v = s \<or> s = 1"
    using "1.prems" by (auto split: if_splits)
  obtain new where "out = rev new @ ?v # acc" "length new = length expand_rev" "broadcastable_to_loop self_rev new"
      "\<forall>i < length expand_rev. expand_rev ! i \<noteq> -1 \<longrightarrow> new ! i = wrap_i32 (expand_rev ! i)"
    using step "1.IH" "1.prems" by (cases "e = -1") (auto split: if_splits)
  then show ?case using v by (intro exI [of _ "?v # new"]) (auto simp: nth_Cons split: nat.splits)
next
  case "2_1"
  then show ?case using expand_leading_new by simp
qed simp_all

text \<open>
  The target of an expansion has the requested sizes, and the input broadcasts to it; so the indices of the elementwise
  iterator apply to it.
\<close>
theorem expand_target_broadcasts:
  assumes "get_expand_copy_out_target_size self_sizes expand_sizes = Some out" and "length self_sizes \<le> length expand_sizes"
    and "\<forall>s \<in> set self_sizes. fits_i32 s"
  shows "tensor_is_broadcastable_to self_sizes out \<and> length out = length expand_sizes \<and>
    (\<forall>i < length expand_sizes. expand_sizes ! i \<noteq> -1 \<longrightarrow> out ! i = wrap_i32 (expand_sizes ! i))"
proof -
  obtain new where new: "out = rev new" "length new = length expand_sizes" "broadcastable_to_loop (rev self_sizes) new"
    "\<forall>i < length expand_sizes. rev expand_sizes ! i \<noteq> -1 \<longrightarrow> new ! i = wrap_i32 (rev expand_sizes ! i)"
    using expand_loop_Some [of "rev self_sizes" "rev expand_sizes" "[]" out] assms
    by (auto simp: get_expand_copy_out_target_size_def)
  have "out ! i = wrap_i32 (expand_sizes ! i)" if "i < length expand_sizes" "expand_sizes ! i \<noteq> -1" for i
  proof -
    have "rev expand_sizes ! (length expand_sizes - Suc i) = expand_sizes ! i" using that by (simp add: rev_nth)
    then show ?thesis using new(1,2,4) that by (simp add: rev_nth)
  qed
  then show ?thesis using new assms(2) by (simp add: tensor_is_broadcastable_to_def)
qed


section \<open>Inferred views\<close>

definition given_sizes :: "int list \<Rightarrow> int list" where
  "given_sizes sizes = filter (\<lambda>s. s \<noteq> -1) sizes"

lemma view_target_loop_given:
  assumes "\<forall>s \<in> set sizes. s = -1 \<or> 1 \<le> s \<and> s < 2 ^ 31" and "uint numels * prod_list (given_sizes sizes) < 2 ^ 63"
    and "length (filter (\<lambda>s. s = -1) sizes) + (if inferred = None then 0 else 1) \<le> 1"
  shows "\<exists>product. view_target_loop oc i sizes numels inferred = Ok (Some (product,
      if -1 \<in> set sizes then Some (i + length (takeWhile (\<lambda>s. s \<noteq> -1) sizes)) else inferred)) \<and>
    uint product = uint numels * prod_list (given_sizes sizes)"
  using assms
proof (induction sizes arbitrary: i numels inferred)
  case Nil
  then show ?case by (simp add: given_sizes_def)
next
  case (Cons s sizes)
  show ?case
  proof (cases "s = -1")
    case True
    then have "inferred = None" "-1 \<notin> set sizes" using Cons.prems(3) by (auto simp: filter_empty_conv split: if_splits)
    then show ?thesis using True Cons.IH [of numels "Some i" "Suc i"] Cons.prems by (auto simp: given_sizes_def)
  next
    case False
    let ?p = "prod_list (given_sizes sizes)" and ?s = "word_of_int s :: usize"
    have s: "1 \<le> s" "uint ?s = s" using Cons.prems(1) False uint_size [of s] by auto
    have given: "given_sizes (s # sizes) = s # given_sizes sizes" using False by (simp add: given_sizes_def)
    have p: "1 \<le> ?p" using Cons.prems(1) by (intro prod_list_pos) (auto simp: given_sizes_def)
    have bound: "uint numels * s * ?p < 2 ^ 63" using Cons.prems(2) by (simp add: given mult.assoc)
    have "uint numels * s * 1 \<le> uint numels * s * ?p" using p s(1) by (intro mult_left_mono) simp_all
    then have small: "uint numels * uint ?s < 2 ^ 63" using bound s(2) by simp
    have "\<exists>product. view_target_loop oc (Suc i) sizes (numels * ?s) inferred = Ok (Some (product,
        if -1 \<in> set sizes then Some (Suc i + length (takeWhile (\<lambda>s. s \<noteq> -1) sizes)) else inferred)) \<and>
      uint product = uint (numels * ?s) * ?p"
    proof (rule Cons.IH)
      show "uint (numels * ?s) * ?p < 2 ^ 63" using bound usize_mult_exact(2) [OF small] s(2) by simp
    qed (use Cons.prems False in simp_all)
    then show ?thesis using False usize_mult_exact(2,3) [OF small] s(2) by (auto simp: given mult.assoc)
  qed
qed

lemma prod_list_inferred:
  assumes "filter (\<lambda>s. s = -1) sizes = [-1]" and "i = length (takeWhile (\<lambda>s. s \<noteq> -1) sizes)"
  shows "i < length sizes \<and> prod_list (sizes[i := v]) = v * prod_list (given_sizes sizes)"
  using assms
proof (induction sizes arbitrary: i)
  case (Cons s sizes)
  show ?case
  proof (cases "s = -1")
    case True
    then have "given_sizes sizes = sizes" using Cons.prems(1) by (simp add: given_sizes_def filter_empty_conv filter_id_conv)
    then show ?thesis using True Cons.prems(2) by (simp add: given_sizes_def)
  next
    case False
    then show ?thesis using Cons.IH [of "i - 1"] Cons.prems by (auto simp: given_sizes_def)
  qed
qed simp

text \<open>Viewing: when one size of a view is left open and the others are positive, the size that
  \<^verbatim>\<open>get_view_copy_target_size\<close> infers makes the shape hold as many elements as the tensor whenever any size does; the
  given sizes stay.
\<close>
theorem view_target_preserves_numel:
  assumes "\<forall>s \<in> set sizes. s = -1 \<or> 1 \<le> s \<and> s < 2 ^ 31" and "filter (\<lambda>s. s = -1) sizes = [-1]" and "length sizes \<le> 16"
    and "i = length (takeWhile (\<lambda>s. s \<noteq> -1) sizes)" and "prod_list (sizes[i := v]) = tensor_numel t"
    and "0 \<le> v" and "v < 2 ^ 31" and "tensor_numel t < 2 ^ 63" and "prod_list (given_sizes sizes) < 2 ^ 63"
  shows "get_view_copy_target_size oc t sizes (int (length sizes)) = Ok (Some (sizes[i := v])) \<and>
    prod_list (sizes[i := v]) = tensor_numel t"
proof -
  have i: "i < length sizes" "tensor_numel t = v * prod_list (given_sizes sizes)"
    using prod_list_inferred [OF assms(2,4), of v] assms(5) by simp_all
  have mem: "-1 \<in> set sizes" 
  proof (rule ccontr)
    assume "-1 \<notin> set sizes"
    then have "filter (\<lambda>s. s = -1) sizes = []" by (auto simp: filter_empty_conv)
    then show False using assms(2) by simp
  qed
  have pos: "1 \<le> prod_list (given_sizes sizes)" using assms(1) by (intro prod_list_pos) (auto simp: given_sizes_def)
  obtain product where product: "view_target_loop oc 0 sizes 1 None = Ok (Some (product, Some i))"
    "uint product = prod_list (given_sizes sizes)"
    using view_target_loop_given [OF assms(1), of 1 None oc 0] assms(2,4,9) mem by auto
  have numel: "uint (word_of_int (tensor_numel t) :: usize) = tensor_numel t"
    using i(2) pos assms(6,8) by (intro uint_size) auto
  have nz: "product \<noteq> 0" using product(2) pos by auto
  have "uint ((word_of_int (tensor_numel t) :: usize) div product) = v"
  proof -
    have "uint ((word_of_int (tensor_numel t) :: usize) div product) = tensor_numel t div prod_list (given_sizes sizes)"
      by (simp only: uint_div_distrib numel product(2))
    then show ?thesis using pos by (simp only: i(2)) simp
  qed
  moreover have "map wrap_i32 sizes = sizes" using assms(1) by (intro map_idI) (auto simp: fits_i32_def)
  moreover have "wrap_i32 v = v" using assms(6,7) by (simp add: fits_i32_def)
  ultimately show ?thesis using assms(3,5) product(1) nz
    by (simp add: get_view_copy_target_size_def out_sizes_of_def sizes_array_def K_TENSOR_DIMENSION_LIMIT_def)
qed

text \<open>A zero among the given sizes makes the inference divide by zero.\<close>

lemma view_target_divides_by_zero: "get_view_copy_target_size oc t [0, -1] 2 = Panic"
  by (cases oc) (simp_all add: get_view_copy_target_size_def out_sizes_of_def sizes_array_def K_TENSOR_DIMENSION_LIMIT_def
      umul_def wrap_i32_def)


section \<open>Examples\<close>

lemma unsqueeze_message_aborts:
  "check_unsqueeze_copy_args (example_tensor\<lparr>ti_sizes := Some [2, 3], ti_dim := 2\<rparr>) 0
     (example_tensor\<lparr>ti_sizes := Some [1, 2, 4]\<rparr>) = Panic"
  by code_simp

theorem permute_args_exact_witness:
  "check_permute_copy_args example_tensor [2, -3, 1] example_tensor \<and>
   get_permute_copy_out_target_size example_tensor [2, -3, 1] = Ok [4, 2, 3]"
proof -
  have ex: "tensor_dim example_tensor = 3" "tensor_sizes example_tensor = [2, 3, 4]"
    by (simp_all add: example_tensor_def tensor_dim_def tensor_sizes_def)
  have dims: "permute_dim example_tensor 2 = 2" "permute_dim example_tensor (-3) = 0" "permute_dim example_tensor 1 = 1"
    by (simp_all add: permute_dim_def ex)
  have upto: "[0..2 :: int] = [0, 1, 2]" by code_simp
  show ?thesis
    using permute_args_exact [OF example_tensor_inv, of "[2, -3, 1]" example_tensor]
    by (simp add: ex dims upto tensors_have_same_dtype2_def K_TENSOR_DIMENSION_LIMIT_def)
qed

definition part_tensor :: "int \<Rightarrow> tensor_impl" where
  "part_tensor n = \<lparr>ti_sizes = Some [2, n, 4], ti_dim_order = Some [0, 1, 2],
     ti_strides = Some [4 * n, 4, 1], ti_data = 0, ti_dim = 3, ti_numel = 8 * n, ti_numel_bound = 24,
     ti_type = Float, ti_shape_dynamism = DYNAMIC_BOUND,
     ti_device = \<lparr>device_type = CPU, device_index = 0\<rparr>\<rparr>"

lemma part_tensor_inv: "0 \<le> n \<Longrightarrow> n \<le> 3 \<Longrightarrow> tensor_inv (part_tensor n)"
  using numel_fits_from_Cons [of 1] by (simp add: tensor_inv_def part_tensor_def numel_fits_def numel_fits_from_Cons
      is_valid_def numel_fits_from_def [of _ "[]"])

theorem split_outputs_partition_witness:
  "check_split_copy_args True example_tensor 2 1 [part_tensor 2, part_tensor 1] = Ok True \<and>
   sum_list (map (\<lambda>o'. tensor_sizes o' ! 1) [part_tensor 2, part_tensor 1]) = 3"
proof -
  have check: "check_split_copy_args True example_tensor 2 1 [part_tensor 2, part_tensor 1] = Ok True" by code_simp
  have "tensor_sizes example_tensor = [2, 3, 4]" by (simp add: example_tensor_def tensor_sizes_def)
  then show ?thesis using check split_outputs_partition [OF check example_tensor_inv] part_tensor_inv by simp
qed

theorem view_target_preserves_numel_witness:
  "get_view_copy_target_size True example_tensor [6, -1] 2 = Ok (Some [6, 4])"
  using view_target_preserves_numel [of "[6, -1]" 1 4 example_tensor True]
  by (simp add: given_sizes_def example_tensor_def tensor_numel_def)

end
