(* ===== verification/Strided_Copy.thy ===== *)
theory Strided_Copy
  imports Copy_Ops_Util Broadcast_Range
begin

text \<open>
  The strided copy of \<^verbatim>\<open>copy_ops_util.rs\<close> and \<^verbatim>\<open>op_as_strided_copy.rs\<close>: the check of the arguments keeps every
  access inside the input, and the copy takes element by element what the strides say.
\<close>

section \<open>Bounds\<close>

lemma ptr_offset_add: "ptr_offset es (ptr_offset es p a) b = ptr_offset es p (a + b)"
  by (simp add: ptr_offset_def algebra_simps)

lemma ptr_offset_nat: "0 \<le> a \<Longrightarrow> ptr_offset es p a = p + of_nat (nat a * es)"
  by (simp add: ptr_offset_def)

lemma storage_loop_checked:
  assumes "storage_loop True sizes strides z = Ok r" and "length sizes = length strides"
    and "\<forall>s \<in> set sizes. 1 \<le> s" and "\<forall>st \<in> set strides. 0 \<le> st"
  shows "\<exists>z'. r = Some z' \<and> uint z' = uint z + element_offset strides (map (\<lambda>s. s - 1) sizes)"
  using assms
proof (induction sizes arbitrary: strides z)
  case (Cons s sizes)
  obtain st rest where strides: "strides = st # rest" using Cons.prems(2) by (cases strides) auto
  have s: "1 \<le> s" "0 \<le> st" using Cons.prems(3,4) by (simp_all add: strides)
  let ?c = "st * (s - 1)" and ?w = "word_of_int (st * (s - 1)) :: usize"
  have p: "fits_i64 (s - 1) \<and> fits_i64 ?c \<and> unat z + unat ?w < 2 ^ 64 \<and> storage_loop True sizes rest (z + ?w) = Ok r"
    using Cons.prems(1) s by (auto simp: strides outcome_simps i64_sub_def i64_mul_def uadd_def split: if_splits)
  have c: "0 \<le> ?c" using s by simp
  have w: "uint ?w = ?c" using c p by (intro uint_size) (simp_all add: fits_i64_def)
  have "int (unat z + unat ?w) < int (2 ^ 64)" using p by (simp only: of_nat_less_iff)
  then have sum: "uint (z + ?w) = uint z + ?c" using w by (simp add: uint_word_ariths)
  obtain z' where z': "r = Some z'" "uint z' = uint (z + ?w) + element_offset rest (map (\<lambda>s. s - 1) sizes)"
    using Cons.IH [of rest "z + ?w"] p Cons.prems by (auto simp: strides)
  then show ?case unfolding sum strides by (simp add: algebra_simps)
qed auto

lemma checked_arith:
  fixes a b c :: usize
  shows "(umul True a b :: usize result) = Ok c \<Longrightarrow> uint c = uint a * uint b"
    and "(uadd True a b :: usize result) = Ok c \<Longrightarrow> uint c = uint a + uint b"
proof -
  assume "(umul True a b :: usize result) = Ok c"
  then have "unat a * unat b < 2 ^ 64" "c = a * b" by (auto simp: umul_def split: if_splits)
  then have "unat c = unat a * unat b" by (simp add: unat_mul_no_overflow)
  then show "uint c = uint a * uint b" by (metis of_nat_mult uint_nat)
next
  assume "(uadd True a b :: usize result) = Ok c"
  then have "unat a + unat b < 2 ^ 64" "c = a + b" by (auto simp: uadd_def split: if_splits)
  then have "unat c = unat a + unat b" by (simp add: unat_add_no_overflow)
  then show "uint c = uint a + uint b" by (metis of_nat_add uint_nat)
qed

text \<open>A strided copy stays inside its input: when \<^verbatim>\<open>check_as_strided_copy_args\<close> accepts, in a build with overflow
  checks, every index within the sizes names an element of the input tensor.
\<close>
theorem as_strided_in_bounds:
  assumes check: "check_as_strided_copy_args True t sizes strides storage_offset out = Ok True" and inv: "tensor_inv t"
    and offset: "offset = (case storage_offset of Some v \<Rightarrow> v | None \<Rightarrow> 0)" "fits_i64 offset" and idx: "digits idx sizes"
  shows "0 \<le> offset + element_offset strides idx \<and> offset + element_offset strides idx < tensor_numel t"
proof -
  have sizes: "\<forall>s \<in> set sizes. 1 \<le> s"
    using idx by (auto simp: list_all2_conv_all_nth in_set_conv_nth) force
  have args: "length sizes = length strides" "\<forall>st \<in> set strides. 0 \<le> st" "0 \<le> offset"
    using check offset(1) by (auto simp: check_as_strided_copy_args_def list_all_iff Let_def split: if_splits)
  obtain es where es: "element_size (ti_type t) = Ok es"
    using check by (auto simp: check_as_strided_copy_args_def Let_def tensor_element_size_def outcome_simps split: if_splits)
  have pos: "1 \<le> uint es" using es by (cases "ti_type t") auto
  let ?o = "word_of_int offset :: usize"
  obtain z storage shift where z: "storage_loop True sizes strides 1 = Ok z"
      "(case z of None \<Rightarrow> Ok 0 | Some size' \<Rightarrow> (umul True size' es :: usize result)) = Ok storage"
      "(umul True ?o es :: usize result) = Ok shift"
    and needed: "storage = 0 \<or> (\<exists>nbytes needed. tensor_nbytes True t = Ok nbytes \<and>
      (uadd True storage shift :: usize result) = Ok needed \<and> needed \<le> nbytes)"
    using check es by (auto simp: check_as_strided_copy_args_def as_strided_copy_compute_storage_nbytes_def Let_def
        tensor_element_size_def outcome_simps offset(1) [symmetric] split: if_splits)
  have last: "0 \<le> element_offset strides idx" "element_offset strides idx \<le> element_offset strides (map (\<lambda>s. s - 1) sizes)"
    using element_offset_mono [OF idx, of strides] args(1,2) by simp_all
  obtain z' where z': "z = Some z'" "uint z' = 1 + element_offset strides (map (\<lambda>s. s - 1) sizes)"
    using storage_loop_checked [OF z(1) args(1) sizes args(2)] by auto
  have storage: "uint storage = uint z' * uint es" "uint shift = offset * uint es"
    using checked_arith(1) z(2,3) args(3) offset(2) by (simp_all add: z'(1) uint_size fits_i64_def)
  have "1 * 1 \<le> uint z' * uint es" using z'(2) last pos by (intro mult_mono) simp_all
  then have "storage \<noteq> 0" using storage(1) by auto
  then obtain nbytes n where n: "tensor_nbytes True t = Ok nbytes" "(uadd True storage shift :: usize result) = Ok n" "n \<le> nbytes"
    using needed by blast
  have numel: "0 \<le> tensor_numel t" "tensor_numel t < 2 ^ 63"
    using inv by (auto simp: tensor_inv_def tensor_numel_def dest: numel_fits_range)
  have "uint nbytes = tensor_numel t * uint es"
    using n(1) checked_arith(1) numel es by (simp add: tensor_nbytes_def tensor_numel_def uint_size)
  moreover have "uint n \<le> uint nbytes" using n(3) by (simp add: word_le_def)
  ultimately have "(uint z' + offset) * uint es \<le> tensor_numel t * uint es"
    using checked_arith(2) [OF n(2)] storage by (simp add: distrib_right)
  then have "uint z' + offset \<le> tensor_numel t" using pos by simp
  then show ?thesis using last args(3) z'(2) by simp
qed


text \<open>
  In a build without overflow checks the size of the storage may wrap: a stride far outside the tensor is accepted.
\<close>
lemma as_strided_check_wraps:
  "check_as_strided_copy_args False example_tensor [3] [2 ^ 63 - 1] (Some 1) example_tensor = Ok True"
  by code_simp

section \<open>The blocks of a strided copy\<close>

text \<open>The blocks the code copies, in their order; a whole innermost dim is one block when its stride is one.\<close>

fun strided_blocks :: "nat \<Rightarrow> int list \<Rightarrow> int list \<Rightarrow> usize \<Rightarrow> (usize \<times> nat) list" where
  "strided_blocks es (s # s' # sizes) (stride # strides) src =
     concat (map (\<lambda>i. strided_blocks es (s' # sizes) strides (ptr_offset es src (int i * stride))) [0..<nat s])"
| "strided_blocks es [s] (stride # strides) src =
     (if stride = 1 then [(src, nat s * es)] else map (\<lambda>i. (ptr_offset es src (int i * stride), es)) [0..<nat s])"
| "strided_blocks es _ _ src = [(src, es)]"

text \<open>The places of the elements in row-major order.\<close>

fun strided_places :: "nat \<Rightarrow> int list \<Rightarrow> int list \<Rightarrow> usize \<Rightarrow> usize list" where
  "strided_places es (s # sizes) (stride # strides) src =
     concat (map (\<lambda>i. strided_places es sizes strides (ptr_offset es src (int i * stride))) [0..<nat s])"
| "strided_places es _ _ src = [src]"

lemma concat_singletons: "concat (map (\<lambda>i. [f i]) xs) = map f xs"
  by (induction xs) simp_all

lemma copied_concat: "copied (concat (map f xs)) = (\<Sum>x \<leftarrow> xs. copied (f x))"
  by (induction xs) simp_all

lemma copied_strided_blocks:
  "length sizes = length strides \<Longrightarrow> \<forall>s \<in> set sizes. 0 \<le> s \<Longrightarrow>
   copied (strided_blocks es sizes strides src) = nat (prod_list sizes) * es"
proof (induction es sizes strides src rule: strided_blocks.induct)
  case (1 es s s' sizes stride strides src)
  have "copied (strided_blocks es (s # s' # sizes) (stride # strides) src) =
      (\<Sum>i \<leftarrow> [0..<nat s]. nat (prod_list (s' # sizes)) * es)"
    unfolding strided_blocks.simps copied_concat using 1 by (intro arg_cong [of _ _ sum_list] map_cong) auto
  then show ?case using "1.prems" by (simp add: sum_list_triv nat_mult_distrib mult.assoc)
qed (auto simp: o_def sum_list_triv)

lemma strided_blocks_bytes:
  "length sizes = length strides \<Longrightarrow>
   concat (map (\<lambda>(src, n). bytes_at mem src n) (strided_blocks es sizes strides src)) =
   concat (map (\<lambda>p. bytes_at mem p es) (strided_places es sizes strides src))"
proof (induction es sizes strides src rule: strided_blocks.induct)
  case (1 es s s' sizes stride strides src)
  then show ?case unfolding strided_blocks.simps strided_places.simps(1) [of es s] concat_map_concat
    by (intro arg_cong [of "map _ [0..<nat s]" _ concat] map_cong) auto
next
  case (2 es s stride strides src)
  then show ?case
    by (auto simp: concat_singletons o_def bytes_at_rows ptr_offset_nat simp del: of_nat_mult)
qed simp_all


lemma strided_elements_blocks:
  "strided_elements es n stride src dst mem =
   append_copies (map (\<lambda>i. (ptr_offset es src (int i * stride), es)) [0..<n]) dst mem"
proof (induction n arbitrary: src dst mem)
  case (Suc n)
  have "ptr_offset es dst 1 = dst + of_nat es" by (simp add: ptr_offset_def)
  then show ?case using Suc
    unfolding map_upt_Suc by (simp add: ptr_offset_add distrib_right) (simp add: ptr_offset_def)
qed simp

lemma strided_steps_blocks:
  assumes "\<And>p d m. f p d m = Ok (append_copies (blocks p) d m)" and "\<And>p. copied (blocks p) = k * es"
  shows "strided_steps es n stride (int k) f src dst mem =
    Ok (append_copies (concat (map (\<lambda>i. blocks (ptr_offset es src (int i * stride))) [0..<n])) dst mem)"
proof (induction n arbitrary: src dst mem)
  case (Suc n)
  have "ptr_offset es dst (int k) = dst + of_nat (copied (blocks src))" by (simp add: ptr_offset_def assms(2))
  moreover have "ptr_offset es src 0 = src" by (simp add: ptr_offset_def)
  ultimately show ?case using Suc assms(1)
    unfolding map_upt_Suc by (simp add: ptr_offset_add distrib_right append_copies_append del: of_nat_mult)
qed simp

lemma as_strided_copy_blocks:
  assumes "tensor_inv out" and "tensor_numel out \<noteq> 0" and "drop (nat dim) (tensor_sizes out) = sizes"
    and "length sizes = length strides" and "sizes \<noteq> []" and "0 \<le> dim"
  shows "as_strided_copy_rec es out sizes strides dim src dst mem = Ok (append_copies (strided_blocks es sizes strides src) dst mem)"
proof -
  obtain ss where ss: "tensor_sizes out = ss" "nat (tensor_dim out) = length ss" "0 \<le> tensor_dim out"
    "\<forall>s \<in> set ss. 1 \<le> s \<and> s < 2 ^ 63" "tensor_numel out = prod_list ss" "prod_list ss < 2 ^ 63"
    by (rule tensor_with_element [OF assms(1,2)])
  note trailing = trailing_dims [OF ss(1-4,6)]
  have "drop (nat dim) ss = sizes" using assms(3) ss(1) by simp
  then show ?thesis using assms(4-6) trailing
  proof (induction es out sizes strides dim src dst mem rule: as_strided_copy_rec.induct)
    case (1 es out s stride strides dim src dst mem)
    then have "s \<in> set ss" by (metis in_set_dropD list.set_intros(1))
    then have s: "1 \<le> s" "s < 2 ^ 63" using ss(4) by simp_all
    then have "(word_of_int s :: usize) = of_nat (nat s)" "unat (word_of_int s :: usize) = nat s"
      by (simp_all add: unat_word_of_int)
    then show ?case using "1.prems"(2) by (simp add: strided_elements_blocks)
  next
    case (2 es out s s' sizes stride strides dim src dst mem)
    have "\<not> length ss \<le> nat dim" using "2.prems"(1) by auto
    then have d: "nat dim < length ss" "drop (Suc (nat dim)) ss = s' # sizes"
      using "2.prems"(1) by (simp_all add: drop_Suc flip: tl_drop)
    let ?k = "nat (prod_list (s' # sizes))"
    have nonneg: "\<forall>s \<in> set (s' # sizes). 0 \<le> s" using d(2) ss(4) by (metis in_set_dropD less_imp_le order_trans zero_le_one)
    obtain m where m: "getTrailingDims out dim = Ok m" "uint m = int ?k"
      using "2.prems"(5) [OF d(1)] "2.prems"(4) d(2) prod_list_nonneg_int [OF nonneg] by auto
    have "as_strided_copy_rec es out (s' # sizes) strides (dim + 1) p q r = Ok (append_copies (strided_blocks es (s' # sizes) strides p) q r)"
      for p q r
      using "2.prems" d(2) by (intro "2.IH" [OF m(1)]) (simp_all add: nat_add_distrib)
    moreover have "copied (strided_blocks es (s' # sizes) strides p) = ?k * es" for p
      using "2.prems"(2) nonneg by (intro copied_strided_blocks) simp_all
    ultimately show ?case unfolding as_strided_copy_rec.simps strided_blocks.simps m r_bind.simps
      by (rule strided_steps_blocks)
  qed auto
qed


section \<open>The places of the elements\<close>

lemma length_concat_rows: "\<forall>i < n. length (f i) = w \<Longrightarrow> length (concat (map f [0..<n])) = n * w"
  by (induction n) simp_all

lemma nth_concat_rows:
  "\<forall>i < n. length (f i) = w \<Longrightarrow> i < n \<Longrightarrow> j < w \<Longrightarrow> concat (map f [0..<n]) ! (i * w + j) = f i ! j"
proof (induction n)
  case (Suc n)
  have len: "length (concat (map f [0..<n])) = n * w" using Suc.prems(1) by (intro length_concat_rows) simp
  show ?case
  proof (cases "i < n")
    case True
    then have "i * w + j < n * w" using row_position [of i n j w] Suc.prems(3) by simp
    then show ?thesis using Suc True len by (simp add: nth_append)
  next
    case False
    then have "i = n" using Suc.prems(2) by simp
    then show ?thesis using len by (simp add: nth_append)
  qed
qed simp

lemma length_strided_places:
  "length sizes = length strides \<Longrightarrow> \<forall>s \<in> set sizes. 0 \<le> s \<Longrightarrow> length (strided_places es sizes strides src) = nat (prod_list sizes)"
proof (induction es sizes strides src rule: strided_places.induct)
  case (1 es s sizes stride strides src)
  from length_concat_rows [of "nat s" "\<lambda>i. strided_places es sizes strides (ptr_offset es src (int i * stride))" "nat (prod_list sizes)"]
  show ?case using 1 by (simp add: nat_mult_distrib)
qed simp_all

lemma nth_strided_places:
  assumes "digits idx sizes" and "length sizes = length strides"
  shows "strided_places es sizes strides src ! nat (mixed idx sizes) = ptr_offset es src (element_offset strides idx)"
  using assms
proof (induction idx sizes arbitrary: strides src rule: list_all2_induct)
  case Nil
  then show ?case by (simp add: ptr_offset_def)
next
  case (Cons x idx s sizes)
  obtain stride rest where strides: "strides = stride # rest" using Cons.prems by (cases strides) auto
  let ?f = "\<lambda>i. strided_places es sizes rest (ptr_offset es src (int i * stride))" and ?w = "nat (prod_list sizes)"
  have nonneg: "\<forall>s \<in> set sizes. 0 \<le> s" using Cons(2) by (auto simp: list_all2_conv_all_nth in_set_conv_nth) force
  have m: "0 \<le> mixed idx sizes" "mixed idx sizes < prod_list sizes" using mixed_range [OF Cons(2)] by simp_all
  have "nat (mixed (x # idx) (s # sizes)) = nat x * ?w + nat (mixed idx sizes)"
    using Cons(1) m by (simp add: nat_add_distrib nat_mult_distrib)
  moreover have "concat (map ?f [0..<nat s]) ! (nat x * ?w + nat (mixed idx sizes)) = ?f (nat x) ! nat (mixed idx sizes)"
    using Cons(1) m nonneg Cons.prems by (intro nth_concat_rows) (simp_all add: strides length_strided_places)
  ultimately show ?case
    using Cons.IH [of rest "ptr_offset es src (int (nat x) * stride)"] Cons(1) Cons.prems
    by (simp add: strides ptr_offset_add add.commute)
qed

text \<open>A block begins at an element; the blocks of a copy whose last element is inside are inside.\<close>

lemma element_region: "0 \<le> q \<Longrightarrow> q + int m \<le> int N \<Longrightarrow> data_region (ptr_offset es base q) (m * es) \<subseteq> data_region base (N * es)"
proof -
  assume q: "0 \<le> q" "q + int m \<le> int N"
  then have "(nat q + m) * es \<le> N * es" by (intro mult_le_mono1) linarith
  then show ?thesis using q by (simp add: ptr_offset_nat data_region_part distrib_right del: of_nat_mult)
qed

lemma strided_blocks_inside:
  assumes "length sizes = length strides" and "\<forall>s \<in> set sizes. 1 \<le> s" and "\<forall>st \<in> set strides. 0 \<le> st" and "0 \<le> q"
    and "q + element_offset strides (map (\<lambda>s. s - 1) sizes) < int N" and "src = ptr_offset es base q"
  shows "\<forall>(src, n) \<in> set (strided_blocks es sizes strides src). data_region src n \<subseteq> data_region base (N * es)"
  using assms
proof (induction es sizes strides src arbitrary: q rule: strided_blocks.induct)
  case (1 es s s' sizes stride strides src)
  have step: "0 \<le> int i * stride" "int i * stride \<le> (s - 1) * stride" if "i < nat s" for i
    using that "1.prems"(3) by (auto intro!: mult_right_mono)
  have "\<forall>(src, n) \<in> set (strided_blocks es (s' # sizes) strides (ptr_offset es src (int i * stride))).
      data_region src n \<subseteq> data_region base (N * es)" if "i < nat s" for i
    by (rule "1.IH" [where q = "q + int i * stride"]) (use "1.prems" that step [OF that] in \<open>simp_all add: ptr_offset_add\<close>)
  then show ?case by fastforce
next
  case (2 es s stride strides src)
  have step: "0 \<le> int i * stride" "int i * stride \<le> (s - 1) * stride" if "i < nat s" for i
    using that "2.prems"(3) by (auto intro!: mult_right_mono)
  show ?case
  proof (cases "stride = 1")
    case True
    then show ?thesis using element_region [of q "nat s" N es base] "2.prems" by simp
  next
    case False
    have "data_region (ptr_offset es base (q + int i * stride)) (1 * es) \<subseteq> data_region base (N * es)" if "i < nat s" for i
      by (rule element_region) (use "2.prems" step [OF that] in simp_all)
    then show ?thesis using False "2.prems"(6) by (auto simp: ptr_offset_add)
  qed
qed (use element_region [of _ 1] in auto)

lemma concat_rows_eq:
  assumes "concat (map f [0..<length xs]) = concat (map g xs)" and "\<forall>k. length (f k) = w" and "\<forall>x. length (g x) = w"
    and "k < length xs"
  shows "f k = g (xs ! k)"
proof -
  have "map f [0..<length xs] = map g xs"
    using assms(1) by (rule concat_injective) (auto simp: zip_map1 zip_map2 assms(2,3))
  then have "map f [0..<length xs] ! k = map g xs ! k" by (rule arg_cong)
  then show ?thesis using assms(4) by simp
qed

lemma last_digits: "\<forall>s \<in> set sizes. 1 \<le> s \<Longrightarrow> digits (map (\<lambda>s. s - 1) sizes) sizes"
  by (induction sizes) auto

text \<open>The strided copy as a whole, in a build with overflow checks: for arguments that pass its checks and an output
  that could be resized, the kernel ends without failure; the element of the output at every index within the sizes is
  the element of the input that offset and strides give for this index, and no byte outside the output changes.
\<close>
theorem as_strided_copy_exact:
  assumes check: "check_as_strided_copy_args True (ks_tensors s in') sizes strides storage_offset (ks_tensors s out) = Ok True"
    and t: "tensor_inv (ks_tensors s in')" "element_size (ti_type (ks_tensors s in')) = Ok (of_nat es)" "es < 2 ^ 64"
      "ti_type (ks_tensors s in') \<in> set switch_all_types" "tensor_is_default_dim_order (ks_tensors s in')"
    and out: "tensor_inv (ks_tensors s out)" "in' \<noteq> out"
    and sizes: "\<forall>v \<in> set sizes. 1 \<le> v \<and> v < 2 ^ 31" "nat (prod_list sizes) * es < 2 ^ 64"
    and offset: "offset = (case storage_offset of Some v \<Rightarrow> v | None \<Rightarrow> 0)" "fits_i64 offset"
    and resized: "resize_tensor True out sizes (ks_tensors s) = Ok (Error_Ok, ts)"
    and order: "tensors_have_same_dim_order2 (ks_tensors s in') (ts out)"
    and apart: "data_region (ti_data (ks_tensors s in')) (nat (tensor_numel (ks_tensors s in')) * es) \<inter>
      data_region (ti_data (ts out)) (nat (prod_list sizes) * es) = {}"
  shows "\<exists>mem. as_strided_copy_out True in' sizes strides storage_offset out s = Ok (s\<lparr>ks_tensors := ts, ks_mem := mem\<rparr>) \<and>
    (\<forall>idx. digits idx sizes \<longrightarrow>
      bytes_at mem (ti_data (ts out) + of_nat (nat (mixed idx sizes) * es)) es =
      bytes_at (ks_mem s) (ti_data (ks_tensors s in') + of_nat (nat (offset + element_offset strides idx) * es)) es) \<and>
    (\<forall>a. a \<notin> data_region (ti_data (ts out)) (nat (prod_list sizes) * es) \<longrightarrow> mem a = ks_mem s a)"
proof -
  let ?t = "ks_tensors s in'" and ?P = "nat (prod_list sizes)" and ?dst = "ti_data (ts out)"
  let ?src = "ptr_offset es (ti_data ?t) offset"
  let ?blocks = "strided_blocks es sizes strides ?src" and ?places = "strided_places es sizes strides ?src"
  have args: "length sizes = length strides" "\<forall>st \<in> set strides. 0 \<le> st" "0 \<le> offset"
    using check offset(1) by (auto simp: check_as_strided_copy_args_def list_all_iff Let_def split: if_splits)
  have nonneg: "\<forall>v \<in> set sizes. 0 \<le> v" "\<forall>v \<in> set sizes. 1 \<le> v" using sizes(1) by force+
  have last: "offset + element_offset strides (map (\<lambda>s. s - 1) sizes) < tensor_numel ?t" "0 < tensor_numel ?t"
    using as_strided_in_bounds [OF check t(1) offset last_digits [OF nonneg(2)]] by simp_all
  have "map wrap_i32 sizes = sizes" using sizes(1) by (intro map_idI) (auto simp: fits_i32_def)
  then obtain o' where o': "internal_resize_contiguous True sizes (ks_tensors s out) = Ok (Error_Ok, o')"
    and ts: "ts = (ks_tensors s)(out := o')"
    using resized by (auto simp: resize_tensor_def resize_tensor_impl_def outcome_simps split: if_splits)
  have o'_facts: "tensor_inv o'" "tensor_sizes o' = sizes" "tensor_numel o' = prod_list sizes"
    using resize_Ok_facts [OF out(1) o'] by (simp_all add: tensor_numel_def)
  have in_ts: "ts in' = ?t" "ts out = o'" using out(2) by (simp_all add: ts)
  have copy: "as_strided_copy es ?t sizes strides offset o' (ks_mem s) = Ok (append_copies ?blocks ?dst (ks_mem s))"
  proof (cases "sizes = []")
    case True
    then show ?thesis by (simp add: as_strided_copy_def in_ts)
  next
    case False
    have "prod_list sizes \<noteq> 0" using prod_list_pos [OF nonneg(2)] by simp
    then show ?thesis using as_strided_copy_blocks [OF o'_facts(1), of 0 sizes strides] o'_facts(2,3) args(1) False
      by (simp add: as_strided_copy_def in_ts)
  qed
  have run: "as_strided_copy_out True in' sizes strides storage_offset out s =
      Ok (s\<lparr>ks_tensors := ts, ks_mem := append_copies ?blocks ?dst (ks_mem s)\<rparr>)"
    using check resized order t(2-5) last(2) copy
    by (simp add: as_strided_copy_out_def kernel_check_def Let_def in_ts unat_of_nat_64 tensor_scalar_type_def flip: offset(1))
  have copied: "copied ?blocks = ?P * es" by (rule copied_strided_blocks [OF args(1) nonneg(1)])
  have inside: "\<forall>(src, n) \<in> set ?blocks. data_region src n \<inter> data_region ?dst (copied ?blocks) = {}"
  proof -
    have N: "int (nat (tensor_numel ?t)) = tensor_numel ?t" using last(2) by simp
    have "\<forall>(src, n) \<in> set ?blocks. data_region src n \<subseteq> data_region (ti_data ?t) (nat (tensor_numel ?t) * es)"
      by (rule strided_blocks_inside [OF args(1) nonneg(2) args(2,3) _ refl]) (simp only: N last(1))
    then show ?thesis using apart unfolding copied by blast
  qed
  define mem where "mem = append_copies ?blocks ?dst (ks_mem s)"
  have bytes: "bytes_at mem ?dst (?P * es) = concat (map (\<lambda>p. bytes_at (ks_mem s) p es) ?places)"
    using append_copies_bytes [OF _ inside, of "ks_mem s"] sizes(2) strided_blocks_bytes [OF args(1)]
    unfolding mem_def copied by simp
  have elements: "bytes_at mem (?dst + of_nat (nat (mixed idx sizes) * es)) es =
      bytes_at (ks_mem s) (ti_data ?t + of_nat (nat (offset + element_offset strides idx) * es)) es" if idx: "digits idx sizes" for idx
  proof -
    have len: "length ?places = ?P" by (rule length_strided_places [OF args(1) nonneg(1)])
    have k: "nat (mixed idx sizes) < length ?places" using mixed_range [OF idx] len by simp
    have "0 \<le> offset + element_offset strides idx" using as_strided_in_bounds [OF check t(1) offset idx] by simp
    then have place: "?places ! nat (mixed idx sizes) = ti_data ?t + of_nat (nat (offset + element_offset strides idx) * es)"
      using nth_strided_places [OF idx args(1)] by (simp only: ptr_offset_add ptr_offset_nat)
    have "concat (map (\<lambda>k. bytes_at mem (?dst + of_nat (k * es)) es) [0..<length ?places]) =
        concat (map (\<lambda>p. bytes_at (ks_mem s) p es) ?places)"
      using bytes unfolding bytes_at_rows len .
    from concat_rows_eq [OF this, of es] show ?thesis using k unfolding place [symmetric] by simp
  qed
  show ?thesis using run elements append_copies_outside [of ?blocks _ ?dst "ks_mem s"] sizes(2)
    unfolding mem_def copied by blast
qed


section \<open>Examples\<close>

lemma strided_example:
  "check_as_strided_copy_args True (ks_tensors slice_example 0) [2, 2, 2] [12, 1, 4] (Some 3) (ks_tensors slice_example 1) = Ok True"
proof -
  have "check_as_strided_copy_args True example_tensor [2, 2, 2] [12, 1, 4] (Some 3) (example_tensor\<lparr>ti_data := 8192\<rparr>) = Ok True"
    by (simp add: check_as_strided_copy_args_def as_strided_copy_compute_storage_nbytes_def example_tensor_def
        tensors_have_same_dtype2_def tensor_scalar_type_def tensor_element_size_def tensor_nbytes_def
        i64_sub_def i64_mul_def fits_i64_def uadd_def umul_def)
  then show ?thesis by (simp add: slice_example_def)
qed

theorem as_strided_in_bounds_witness:
  "3 + element_offset [12, 1, 4] [1, 0, 1] = 19 \<and> 3 + element_offset [12, 1, 4] [1, 0, 1] < tensor_numel (ks_tensors slice_example 0)"
proof -
  have "tensor_inv (ks_tensors slice_example 0)" using example_tensor_inv by (simp add: slice_example_def)
  from as_strided_in_bounds [OF strided_example this, of 3 "[1, 0, 1]"] show ?thesis by (simp add: fits_i64_def)
qed

theorem as_strided_copy_exact_witness:
  "\<exists>s'. as_strided_copy_out True 0 [2, 2, 2] [12, 1, 4] (Some 3) 1 slice_example = Ok s' \<and>
     bytes_at (ks_mem s') 8212 4 = [76, 77, 78, 79]"
proof -
  let ?o = "example_tensor\<lparr>ti_data := 8192\<rparr>"
  have t: "ks_tensors slice_example 0 = example_tensor" "ks_tensors slice_example 1 = ?o" by (simp_all add: slice_example_def)
  have inv: "tensor_inv ?o" using example_tensor_inv by (simp add: tensor_inv_def)
  have type: "element_size (ti_type example_tensor) = Ok (of_nat 4)" "ti_type example_tensor \<in> set switch_all_types"
    "tensor_is_default_dim_order example_tensor" "tensor_numel example_tensor = 24" "ti_data example_tensor = 4096"
    by (simp_all add: example_tensor_def switch_all_types_def tensor_numel_def tensor_is_default_dim_order_def
        is_contiguous_dim_order_def tensor_dim_order_def)
  have "case internal_resize_contiguous True [2, 2, 2] ?o of
      Ok (Error_Ok, t) \<Rightarrow> ti_data t = 8192 \<and> tensors_have_same_dim_order2 example_tensor t | _ \<Rightarrow> False" by code_simp
  then obtain o' where o': "internal_resize_contiguous True [2, 2, 2] ?o = Ok (Error_Ok, o')" "ti_data o' = 8192"
      "tensors_have_same_dim_order2 example_tensor o'"
    by (auto split: outcome.splits prod.splits Error.splits)
  define ts where "ts = (ks_tensors slice_example)(1 := o')"
  have resized: "resize_tensor True 1 [2, 2, 2] (ks_tensors slice_example) = Ok (Error_Ok, ts)"
    using o'(1) t by (simp add: resize_tensor_def resize_tensor_impl_def ts_def K_TENSOR_DIMENSION_LIMIT_def wrap_i32_def)
  have apart: "data_region 4096 96 \<inter> data_region 8192 32 = {}" using data_region_split [of 96 4096 32 4096] by simp
  obtain mem where mem: "as_strided_copy_out True 0 [2, 2, 2] [12, 1, 4] (Some 3) 1 slice_example =
        Ok (slice_example\<lparr>ks_tensors := ts, ks_mem := mem\<rparr>)"
    "\<forall>idx. digits idx [2, 2, 2] \<longrightarrow> bytes_at mem (8192 + of_nat (nat (mixed idx [2, 2, 2]) * 4)) 4 =
       bytes_at (\<lambda>a. ucast a) (4096 + of_nat (nat (3 + element_offset [12, 1, 4] idx) * 4)) 4"
    using as_strided_copy_exact [OF strided_example, of 4 3 ts] t inv example_tensor_inv type resized o'(2,3) apart
    by (auto simp: ts_def fits_i64_def slice_example_def)
  have "bytes_at mem 8212 4 = bytes_at (\<lambda>a. ucast a) 4172 4" using mem(2) [rule_format, of "[1, 0, 1]"] by simp
  also have "\<dots> = [76, 77, 78, 79]" by (simp add: bytes_at_def upt_rec)
  finally show ?thesis using mem(1) by auto
qed

end
