(* ===== verification/Spec2Isabelle.thy ===== *)
theory Spec2Isabelle
  imports ET_Prelude Errors Allocator_Interface Memory_Allocator Owning_Allocators
    Hierarchical_Allocator Freeable_Buffer Scalar_Types Dim_Order Tensor_Impl EValue
    Operator_Registry Kernel_Context Tensor_Util Schema Method Method_Load Program_Validation Method_Meta
    Method_IO Data_Loader Data_Maps File_Loader Mmap_Loader Extended_Header Program Tensor_Parser Method_Values
    Backend_Options Backend_Interface Method_Init Tensor_Checks Block_Copy Broadcast Broadcast_Range Slice_Util
    Copy_Ops_Util Strided_Copy
begin

text \<open>
  A verification library for the ExecuTorch runtime in Rust, the crate
  \<^verbatim>\<open>src/crates/executorch/src\<close> of this repository, a literal port of the C++ runtime. Paths below
  are relative to that directory; the target has 64-bit pointers.

  \<^bold>\<open>The program.\<close> A compiled model is a file with a flatbuffer (the \<^emph>\<open>program\<close>) and data segments. A
  \<^emph>\<open>data loader\<close> reads ranges of the file; the program's \<^emph>\<open>plans\<close> are validated and described by
  \<^emph>\<open>method metadata\<close>; a plan is loaded as a \<^emph>\<open>method\<close>, whose values (\<^emph>\<open>evalues\<close>: scalars, lists,
  tensors) live in memory from a \<^emph>\<open>memory allocator\<close> and in \<^emph>\<open>planned\<close> buffers, and whose chains of
  instructions call kernels found in the \<^emph>\<open>operator registry\<close>. The caller sets inputs, executes the
  method at once or step by step, and reads outputs. Constants may come from \<^emph>\<open>named data maps\<close>.

  \<^bold>\<open>Conventions.\<close> \<open>ET_Prelude\<close> and \<open>Errors\<close>: a call yields \<open>Ok\<close>, \<open>Err\<close> with an error code, or
  \<open>Panic\<close> (a panic, an abort of a checking macro, or undefined behaviour of an unsafe operation).
  Operators that can overflow take \<open>oc\<close>, true for builds with overflow checks. Signed machine
  integers are mathematical integers with their range checks or wrap-around written out, unsigned
  ones are words. Effects are explicit states passed along. Logging and profiling have no effect, but
  for messages whose arguments abort when they are evaluated (the message for a failed kernel in
  \<open>Method\<close>, a sum in \<open>Memory_Allocator\<close>), which are modelled.

  \<^bold>\<open>Theories, in the order of the imports.\<close>

  \<open>Allocator_Interface\<close> states what the trait \<^verbatim>\<open>MemoryAllocator\<close> promises as the locale
  \<open>allocator\<close>, with alignment arithmetic; \<open>Memory_Allocator\<close> (\<^verbatim>\<open>runtime/core/memory_allocator.rs\<close>)
  and \<open>Owning_Allocators\<close> (\<^verbatim>\<open>runtime/executor/platform_memory_allocator.rs\<close>,
  \<^verbatim>\<open>extension/memory_allocator/malloc_memory_allocator.rs\<close>) provide it: exact results of \<open>allocate\<close>,
  disjoint aligned blocks, and resets that give every block back.
  \<open>Hierarchical_Allocator\<close> (\<^verbatim>\<open>runtime/core/hierarchical_allocator.rs\<close>, \<^verbatim>\<open>span.rs\<close>,
  \<^verbatim>\<open>runtime/executor/memory_manager.rs\<close>) gives bounds-checked addresses in planned buffers.
  \<open>Freeable_Buffer\<close> (\<^verbatim>\<open>runtime/core/freeable_buffer.rs\<close>) shows that free functions run exactly once.

  \<open>Scalar_Types\<close> (\<^verbatim>\<open>runtime/core/exec_aten/util/scalar_type_util.rs\<close>): type promotion as a join.
  \<open>Dim_Order\<close> (\<^verbatim>\<open>dim_order_util.rs\<close> there): strides from dim orders and back, the port's quicksort.
  \<open>Tensor_Impl\<close> (\<^verbatim>\<open>runtime/core/portable_type/tensor_impl.rs\<close>, \<^verbatim>\<open>tensor_layout.rs\<close>): headers of
  tensors, their invariant and resizing. \<open>Tensor_Util\<close> (\<^verbatim>\<open>tensor_util_portable.rs\<close>): sharing and
  copying of data. \<open>EValue\<close> (\<^verbatim>\<open>runtime/core/evalue.rs\<close>): tagged values, their accessors and boxed
  lists. \<open>Operator_Registry\<close> and \<open>Kernel_Context\<close> (\<^verbatim>\<open>runtime/kernel\<close>): kernel keys, registration,
  lookup, the failure state and temporary memory of a kernel call.

  \<open>Data_Loader\<close>, \<open>File_Loader\<close> and \<open>Mmap_Loader\<close> (\<^verbatim>\<open>runtime/core/data_loader.rs\<close>,
  \<^verbatim>\<open>extension/data_loader\<close>): the locale \<open>loader_contract\<close>, with the loaders over memory, files, file
  descriptors and mappings as its interpretations; system calls are parameters, and \<open>pread_reads\<close>
  and \<open>maps_file\<close> name what the code relies on. \<open>Data_Maps\<close> (\<^verbatim>\<open>runtime/core/named_data_map.rs\<close>,
  \<^verbatim>\<open>runtime/executor/pte_data_map.rs\<close>, \<^verbatim>\<open>merged_data_map.rs\<close>): the locale \<open>data_map\<close> and the
  two maps that keep it.

  \<open>Schema\<close> holds the serialized program as the flatbuffer accessors show it.
  \<open>Extended_Header\<close> and \<open>Program\<close> (\<^verbatim>\<open>schema/extended_header.rs\<close>, \<^verbatim>\<open>runtime/executor/program.rs\<close>): loading
  a program file, its constants, segments and methods. \<open>Program_Validation\<close>
  (\<^verbatim>\<open>runtime/executor/program_validation.rs\<close>): the checks on plans. \<open>Method_Meta\<close>
  (\<^verbatim>\<open>method_meta.rs\<close>): the queries about a plan. \<open>Tensor_Parser\<close> (\<^verbatim>\<open>tensor_parser*.rs\<close>): from serialized
  tensors to tensors and their memory.

  \<open>Method\<close>, \<open>Method_Load\<close>, \<open>Method_Values\<close>, \<open>Method_Init\<close> and \<open>Method_IO\<close> (\<^verbatim>\<open>method.rs\<close>): the machine
  that executes chains, with stepping related to execution by the step relation \<open>runs\<close>; loading of
  instructions and operators; the values table and external constants, with postconditions \<open>s_post\<close>
  of computations that have a state and errors; the whole of loading and dropping a method, where a
  log accounts for delegates and buffers; inputs and outputs. Kernels and delegates are a parameter
  of the machine, arbitrary functions that may change the values; \<open>Method_Load\<close> shows that a valid
  method aborts only at a failing kernel whose operator has no name or overload to report. \<open>Backend_Options\<close> and
  \<open>Backend_Interface\<close> (\<^verbatim>\<open>runtime/backend\<close>): the locale \<open>bounded_table\<close> with the two option tables as
  its interpretations, and the registry of backends.

  \<open>Tensor_Checks\<close> (\<^verbatim>\<open>runtime/core/exec_aten/util/tensor_util.rs\<close>): the checks kernels share, and
  coordinates against linear indices. \<open>Block_Copy\<close> has the regions of memory that kernels write, and what copying
  blocks leaves in them. \<open>Broadcast\<close> and \<open>Broadcast_Range\<close> (\<^verbatim>\<open>broadcast_util.rs\<close>,
  \<^verbatim>\<open>broadcast_indexes_range.rs\<close> and \<^verbatim>\<open>delinearize_index.rs\<close> under \<^verbatim>\<open>kernels/portable/cpu/util\<close>): the
  broadcast shape as a least upper bound, and the iterator of the elementwise kernels, whose two ways of
  counting are interpretations of the locale \<open>index_walk\<close>; it is compared with the reference computation
  of an index and with skipping, and gives the memory an elementwise kernel leaves. The element types
  of a kernel and its function on elements are parameters. \<open>Slice_Util\<close> (\<^verbatim>\<open>slice_util.rs\<close>,
  \<^verbatim>\<open>op_slice_copy.rs\<close>, \<^verbatim>\<open>op_narrow_copy.rs\<close>, \<^verbatim>\<open>thread_parallel_interface.rs\<close>) has the slicing kernels whole, from
  the check of their arguments to the memory they leave, for the serial and the parallel loop. \<open>Copy_Ops_Util\<close>
  (\<^verbatim>\<open>copy_ops_util.rs\<close>) has the argument checks and target sizes of the other copying kernels: permutations,
  splits, expansions and inferred views; \<open>Strided_Copy\<close> the kernel of \<^verbatim>\<open>op_as_strided_copy.rs\<close>, inside the
  bounds of its input and element by element in the memory it leaves.

  \<^bold>\<open>Bounds and fuel.\<close> \<open>execute\<close> runs on fuel, one unit for an instruction: the code itself stops after
  \<^verbatim>\<open>K_MAX_INSTRUCTIONS\<close> (ten million), so that much fuel is enough and the theorems say so. A loop
  around \<^verbatim>\<open>pread\<close> need not end; \<open>file_load_returns\<close> gives the fuel from the size of the range and the
  number of interruptions. A loop over a broadcast
  range needs one unit for each element and one for the end. All other loops are structural or have measures.

  \<^bold>\<open>Not modelled.\<close> The generated flatbuffer code (its results are the records of
  \<open>Schema\<close>); the portable kernels' floating-point loops, for which HOL's library has no
  IEEE arithmetic; the XNNPACK backend, foreign calls into a library; the platform layer, logging,
  profiling and event tracing, whose output does not influence results; the module and tensor convenience
  layers of \<^verbatim>\<open>extension\<close>.
\<close>

end
